(* ===== verification/Prelude.thy ===== *)
theory Prelude
  imports Main "HOL-Library.Word" "HOL-Library.List_Lexorder" "HOL-Library.Char_ord"
begin

text \<open>
  Shared vocabulary of the development: the exceptions of the program, the result type of
  code that can throw, sub-lists addressed by offset (the way the code addresses the bytes of
  a page), and little-endian integers.
\<close>

section \<open>Collections of rewrite rules\<close>

named_theorems bytes_simps \<open>slices, patches and little-endian integers\<close>
named_theorems page_simps \<open>reads over writes on a page\<close>

section \<open>Exceptions and results\<close>

text \<open>
  The exception classes of \<^verbatim>\<open>src/exceptions/exceptions.h\<close>, the standard library's
  \<^verbatim>\<open>std::runtime_error\<close>, and \<open>Stuck\<close> for what the code leaves undefined: a failed
  \<^verbatim>\<open>assert\<close>, an access outside an array, a null pointer, a signed overflow.
\<close>

datatype db_error =
    QueryParsingException string
  | QueryException string
  | TransactionAbortException string
  | NotImplementedException string
  | RuntimeError string
  | Stuck

type_synonym 'a res = "db_error + 'a"

fun bindE :: "'e + 'a \<Rightarrow> ('a \<Rightarrow> 'e + 'b) \<Rightarrow> 'e + 'b" where
  "bindE (Inl e) f = Inl e"
| "bindE (Inr x) f = f x"

lemma bindE_cong [fundef_cong]:
  "m = m' \<Longrightarrow> (\<And>x. m' = Inr x \<Longrightarrow> f x = f' x) \<Longrightarrow> bindE m f = bindE m' f'"
  by (cases m') auto

lemma bindE_Inr_iff: "bindE m f = Inr y \<longleftrightarrow> (\<exists>x. m = Inr x \<and> f x = Inr y)"
  by (cases m) auto

lemma bindE_InrE:
  assumes "bindE m f = Inr y"
  obtains x where "m = Inr x" "f x = Inr y"
  using assms by (auto simp: bindE_Inr_iff)

lemma bindE_assoc: "bindE (bindE m f) g = bindE m (\<lambda>x. bindE (f x) g)"
  by (cases m) auto

definition guardE :: "bool \<Rightarrow> 'e \<Rightarrow> 'e + unit" where
  "guardE b e = (if b then Inr () else Inl e)"

lemma guardE_simps [simp]:
  "b \<Longrightarrow> guardE b e = Inr ()"
  "\<not> b \<Longrightarrow> guardE b e = Inl e"
  "guardE b e = Inr u \<longleftrightarrow> b"
  by (auto simp: guardE_def)

text \<open>Left-to-right traversal that stops at the first exception.\<close>

fun mapE :: "('a \<Rightarrow> 'e + 'b) \<Rightarrow> 'a list \<Rightarrow> 'e + 'b list" where
  "mapE f [] = Inr []"
| "mapE f (x # xs) = bindE (f x) (\<lambda>y. bindE (mapE f xs) (\<lambda>ys. Inr (y # ys)))"

lemma mapE_Inr_length: "mapE f xs = Inr ys \<Longrightarrow> length ys = length xs"
  by (induction xs arbitrary: ys) (auto simp: bindE_Inr_iff)

lemma mapE_Inr_map: "(\<And>x. x \<in> set xs \<Longrightarrow> f x = Inr (g x)) \<Longrightarrow> mapE f xs = Inr (map g xs)"
  by (induction xs) auto

lemma mapE_cong [fundef_cong]:
  "xs = ys \<Longrightarrow> (\<And>x. x \<in> set ys \<Longrightarrow> f x = g x) \<Longrightarrow> mapE f xs = mapE g ys"
  by (induction ys arbitrary: xs) auto

text \<open>
  Reading a vector element: out of range the C++ is undefined.
\<close>

definition nthE :: "'a list \<Rightarrow> nat \<Rightarrow> 'a res" where
  "nthE xs i = (if i < length xs then Inr (xs ! i) else Inl Stuck)"

lemma nthE_simps [simp]:
  "i < length xs \<Longrightarrow> nthE xs i = Inr (xs ! i)"
  "nthE xs i = Inr y \<longleftrightarrow> i < length xs \<and> y = xs ! i"
  by (auto simp: nthE_def)

section \<open>Slices and patches\<close>

definition slice :: "nat \<Rightarrow> nat \<Rightarrow> 'a list \<Rightarrow> 'a list" where
  "slice off n xs = take n (drop off xs)"

definition patch :: "nat \<Rightarrow> 'a list \<Rightarrow> 'a list \<Rightarrow> 'a list" where
  "patch off ys xs = take off xs @ ys @ drop (off + length ys) xs"

lemma length_slice [simp]: "off + n \<le> length xs \<Longrightarrow> length (slice off n xs) = n"
  by (simp add: slice_def)

lemma length_patch [simp]: "off + length ys \<le> length xs \<Longrightarrow> length (patch off ys xs) = length xs"
  by (simp add: patch_def)

lemma slice_zero [simp]: "slice off 0 xs = []"
  by (simp add: slice_def)

lemma patch_nil [simp]: "patch off [] xs = xs"
  by (simp add: patch_def)

lemma slice_all: "length xs = n \<Longrightarrow> slice 0 n xs = xs"
  by (simp add: slice_def)

lemma slice_nth: "off + n \<le> length xs \<Longrightarrow> i < n \<Longrightarrow> slice off n xs ! i = xs ! (off + i)"
  by (simp add: slice_def)

lemma patch_nth:
  "off + length ys \<le> length xs \<Longrightarrow> i < length xs \<Longrightarrow>
   patch off ys xs ! i = (if off \<le> i \<and> i < off + length ys then ys ! (i - off) else xs ! i)"
  by (auto simp: patch_def nth_append min_def)

lemma slice_patch_same [simp]:
  "off + length ys \<le> length xs \<Longrightarrow> n = length ys \<Longrightarrow> slice off n (patch off ys xs) = ys"
  by (simp add: slice_def patch_def)

lemma slice_patch_disjoint:
  assumes "off + length ys \<le> length xs" "off' + n \<le> off \<or> off + length ys \<le> off'"
    "off' + n \<le> length xs"
  shows "slice off' n (patch off ys xs) = slice off' n xs"
  using assms by (intro nth_equalityI) (auto simp: slice_nth patch_nth)

lemma slice_patch_sub:
  assumes "off + length ys \<le> length xs" "off \<le> off'" "off' + n \<le> off + length ys"
  shows "slice off' n (patch off ys xs) = slice (off' - off) n ys"
  using assms by (intro nth_equalityI) (auto simp: slice_nth patch_nth)

lemma slice_slice:
  assumes "o2 + n2 \<le> n1" "o1 + n1 \<le> length xs"
  shows "slice o2 n2 (slice o1 n1 xs) = slice (o1 + o2) n2 xs"
  using assms by (intro nth_equalityI) (auto simp: slice_nth add.assoc)

lemma slice_append: 
  "off + m + n \<le> length xs \<Longrightarrow> slice off m xs @ slice (off + m) n xs = slice off (m + n) xs"
  by (simp add: slice_def take_add add.commute)

lemma patch_append:
  assumes "off + length ys + length zs \<le> length xs"
  shows "patch (off + length ys) zs (patch off ys xs) = patch off (ys @ zs) xs"
  using assms by (intro nth_equalityI) (auto simp: patch_nth nth_append)

lemma slice_eq_imp_nth:
  assumes "slice off n xs = slice off n ys" "off + n \<le> length xs" "off + n \<le> length ys"
    "off \<le> i" "i < off + n"
  shows "xs ! i = ys ! i"
proof -
  have "slice off n xs ! (i - off) = slice off n ys ! (i - off)"
    using assms(1) by simp
  with assms(2-) show ?thesis by (simp add: slice_nth)
qed

lemma slice_mono:
  assumes "slice o1 n1 xs = slice o1 n1 ys" "o1 \<le> o2" "o2 + n2 \<le> o1 + n1"
    "o1 + n1 \<le> length xs" "o1 + n1 \<le> length ys"
  shows "slice o2 n2 xs = slice o2 n2 ys"
  using assms by (intro nth_equalityI) (auto simp: slice_nth intro: slice_eq_imp_nth)

section \<open>Little-endian integers\<close>

type_synonym byte = "8 word"

fun le_bytes :: "nat \<Rightarrow> nat \<Rightarrow> byte list" where
  "le_bytes 0 n = []"
| "le_bytes (Suc k) n = word_of_nat n # le_bytes k (n div 256)"

fun le_nat :: "byte list \<Rightarrow> nat" where
  "le_nat [] = 0"
| "le_nat (b # bs) = unat b + 256 * le_nat bs"

lemma length_le_bytes [simp]: "length (le_bytes k n) = k"
  by (induction k arbitrary: n) auto

lemma unat_byte_of_nat: "unat (word_of_nat n :: byte) = n mod 256"
  by (simp add: unat_of_nat take_bit_eq_mod)

lemma le_nat_bytes: "le_nat (le_bytes k n) = n mod 256 ^ k"
  by (induction k arbitrary: n) (auto simp: unat_byte_of_nat mod_mult2_eq mult.commute)

lemma unat_lt: "unat (w :: 'a::len word) < 2 ^ LENGTH('a)"
  by (rule unsigned_less)

lemma unat_byte_less: "unat (b :: byte) < 256"
  using unat_lt [of b] by simp

lemma le_nat_less: "le_nat bs < 256 ^ length bs"
proof (induction bs)
  case (Cons b bs)
  have "unat b < 256" by (rule unat_byte_less)
  with Cons show ?case by simp
qed simp

lemma le_bytes_nat: "le_bytes (length bs) (le_nat bs) = bs"
proof (induction bs)
  case (Cons b bs)
  have "unat b < 256" by (rule unat_byte_less)
  moreover from this have "(word_of_nat (unat b + 256 * le_nat bs) :: byte) = b"
    by (subst word_unat_eq_iff, subst unat_byte_of_nat) simp
  ultimately show ?case using Cons by simp
qed simp

text \<open>
  A signed 32-bit field: the program writes the bytes of an \<^verbatim>\<open>int32_t\<close> with
  \<^verbatim>\<open>memcpy\<close> on a little-endian machine. A 64-bit field is the bytes of the word.
\<close>

definition enc32 :: "int \<Rightarrow> byte list" where
  "enc32 i = le_bytes 4 (nat (i mod 2 ^ 32))"

definition dec32 :: "byte list \<Rightarrow> int" where
  "dec32 bs = (let n = le_nat bs in if n < 2 ^ 31 then int n else int n - 2 ^ 32)"

definition int32 :: "int \<Rightarrow> bool" where
  "int32 i \<longleftrightarrow> - (2 ^ 31) \<le> i \<and> i < 2 ^ 31"

definition enc64 :: "64 word \<Rightarrow> byte list" where
  "enc64 w = le_bytes 8 (unat w)"

definition dec64 :: "byte list \<Rightarrow> 64 word" where
  "dec64 bs = word_of_nat (le_nat bs)"

lemma length_enc [simp]: "length (enc32 i) = 4" "length (enc64 w) = 8"
  by (simp_all add: enc32_def enc64_def)

lemma dec32_enc32 [bytes_simps]: "int32 i \<Longrightarrow> dec32 (enc32 i) = i"
proof -
  assume i: "int32 i"
  have "nat (i mod 2 ^ 32) < 256 ^ 4" by simp
  then have n: "le_nat (enc32 i) = nat (i mod 2 ^ 32)"
    by (simp add: enc32_def le_nat_bytes del: le_bytes.simps)
  show ?thesis
  proof (cases "0 \<le> i")
    case True
    with i have "i mod 2 ^ 32 = i" by (simp add: int32_def)
    with n i True show ?thesis by (simp add: dec32_def int32_def Let_def)
  next
    case False
    have "i mod 2 ^ 32 = (i + 2 ^ 32) mod 2 ^ 32" by simp
    also have "\<dots> = i + 2 ^ 32" using i False by (intro mod_pos_pos_trivial) (auto simp: int32_def)
    finally show ?thesis using n i False by (simp add: dec32_def int32_def Let_def)
  qed
qed

lemma int32_dec32: "length bs = 4 \<Longrightarrow> int32 (dec32 bs)"
  using le_nat_less [of bs] by (auto simp: dec32_def int32_def Let_def)

lemma enc32_dec32: "length bs = 4 \<Longrightarrow> enc32 (dec32 bs) = bs"
proof -
  assume l: "length bs = 4"
  have n: "le_nat bs < 2 ^ 32" using le_nat_less [of bs] l by simp
  have "dec32 bs mod 2 ^ 32 = int (le_nat bs)"
  proof (cases "le_nat bs < 2 ^ 31")
    case True
    with n show ?thesis by (simp add: dec32_def Let_def)
  next
    case False
    have "(int (le_nat bs) - 2 ^ 32) mod 2 ^ 32 = int (le_nat bs) mod 2 ^ 32" by simp
    also have "\<dots> = int (le_nat bs)" using n by (intro mod_pos_pos_trivial) simp_all
    finally show ?thesis using False by (simp add: dec32_def Let_def)
  qed
  then show ?thesis using le_bytes_nat [of bs] l by (simp add: enc32_def)
qed

lemma dec64_enc64 [bytes_simps]: "dec64 (enc64 w) = w"
proof -
  have "unat w < 256 ^ 8" using unat_lt [of w] by simp
  then have "le_nat (enc64 w) = unat w"
    by (simp add: enc64_def le_nat_bytes del: le_bytes.simps)
  then show ?thesis by (simp add: dec64_def)
qed

text \<open>
  A string on disk is the bytes of its characters.
\<close>

definition byte_of_char :: "char \<Rightarrow> byte" where
  "byte_of_char c = word_of_nat (of_char c)"

definition char_of_byte :: "byte \<Rightarrow> char" where
  "char_of_byte b = char_of (unat b)"

lemma char_of_byte_of_char [simp]: "char_of_byte (byte_of_char c) = c"
  by (simp add: char_of_byte_def byte_of_char_def unat_byte_of_nat)

lemma map_char_of_byte_of_char [simp]: "map char_of_byte (map byte_of_char s) = s"
  by (simp add: comp_def)

section \<open>Codecs\<close>

text \<open>
  The contract between code that writes a value to a byte stream and code that reads it
  back: reading what was written yields the value and leaves the rest of the stream. The
  page format and the catalog file both rest on it.
\<close>

locale codec =
  fixes enc :: "'v \<Rightarrow> byte list"
    and dec :: "byte list \<Rightarrow> ('v \<times> byte list) option"
    and valid :: "'v \<Rightarrow> bool"
  assumes dec_enc: "valid v \<Longrightarrow> dec (enc v @ rest) = Some (v, rest)"
begin

primrec dec_many :: "nat \<Rightarrow> byte list \<Rightarrow> ('v list \<times> byte list) option" where
  "dec_many 0 bs = Some ([], bs)"
| "dec_many (Suc n) bs = (case dec bs of None \<Rightarrow> None
     | Some (v, bs') \<Rightarrow> (case dec_many n bs' of None \<Rightarrow> None
         | Some (vs, bs'') \<Rightarrow> Some (v # vs, bs'')))"

lemma dec_many_enc:
  "(\<forall>v \<in> set vs. valid v) \<Longrightarrow> dec_many (length vs) (concat (map enc vs) @ rest) = Some (vs, rest)"
  by (induction vs) (auto simp: dec_enc)

lemma enc_inj: "valid v \<Longrightarrow> valid w \<Longrightarrow> enc v = enc w \<Longrightarrow> v = w"
  using dec_enc [of v "[]"] dec_enc [of w "[]"] by simp

end

section \<open>Decimal numerals\<close>

text \<open>The digits \<^verbatim>\<open>std::to_string\<close> prints.\<close>

fun nat_to_string :: "nat \<Rightarrow> string" where
  "nat_to_string n =
     (if n < 10 then [char_of (48 + n)] else nat_to_string (n div 10) @ [char_of (48 + n mod 10)])"

declare nat_to_string.simps [simp del]

definition int_to_string :: "int \<Rightarrow> string" where
  "int_to_string i = (if i < 0 then CHR ''-'' # nat_to_string (nat (- i)) else nat_to_string (nat i))"

end
