(* ===== verification/Values.thy ===== *)
theory Values
  imports Prelude "HOL-Library.Signed_Division"
begin

text \<open>
  The data the program moves around: record identifiers, page identifiers and lock keys
  (\<^verbatim>\<open>src/storage\<close>), and values, columns, schemas and records
  (\<^verbatim>\<open>src/relational_model\<close>), with their comparison operators, arithmetic and printing.
\<close>

type_synonym tx_id = "64 word"
type_synonym table_id = "64 word"

section \<open>Identifiers\<close>

datatype rid = RID (page_num: int) (dir_slot: int)

fun rid_less :: "rid \<Rightarrow> rid \<Rightarrow> bool" where
  "rid_less (RID p d) (RID p' d') = (if p < p' then True else if p' < p then False else d < d')"

instantiation rid :: linorder
begin

definition less_rid :: "rid \<Rightarrow> rid \<Rightarrow> bool" where
  "less_rid a b = rid_less a b"

definition less_eq_rid :: "rid \<Rightarrow> rid \<Rightarrow> bool" where
  "less_eq_rid a b \<longleftrightarrow> a = b \<or> rid_less a b"

instance
proof
  fix a b c :: rid
  show "(a < b) = (a \<le> b \<and> \<not> b \<le> a)"
    by (cases a; cases b) (auto simp: less_rid_def less_eq_rid_def)
  show "a \<le> a" by (simp add: less_eq_rid_def)
  show "a \<le> b \<Longrightarrow> b \<le> c \<Longrightarrow> a \<le> c"
    by (cases a; cases b; cases c) (auto simp: less_eq_rid_def split: if_splits)
  show "a \<le> b \<Longrightarrow> b \<le> a \<Longrightarrow> a = b"
    by (cases a; cases b) (auto simp: less_eq_rid_def split: if_splits)
  show "a \<le> b \<or> b \<le> a"
    by (cases a; cases b) (auto simp: less_eq_rid_def)
qed

end

text \<open>
  The two RIDs with a meaning of their own: a version chain that ends in a logical delete,
  and a record that is not there (deleted physically).
\<close>

definition rid_deleted :: rid where "rid_deleted = RID (-1) (-1)"
definition rid_absent :: rid where "rid_absent = RID (-1) (-2)"

lemma rid_absent_neq_deleted [simp]: "rid_absent \<noteq> rid_deleted" "rid_deleted \<noteq> rid_absent"
  by (simp_all add: rid_deleted_def rid_absent_def)

definition rid_ok :: "rid \<Rightarrow> bool" where
  "rid_ok r \<longleftrightarrow> int32 (page_num r) \<and> int32 (dir_slot r)"

text \<open>A \<^verbatim>\<open>FileId\<close> is the descriptor \<^verbatim>\<open>fd\<close>; \<open>UNASSIGNED\<close> is \<^verbatim>\<open>INT32_MAX\<close>.\<close>

type_synonym file_id = int

definition UNASSIGNED :: file_id where "UNASSIGNED = 2 ^ 31 - 1"

datatype page_id = PageId (pid_file: file_id) (pid_page: int)

fun page_id_less :: "page_id \<Rightarrow> page_id \<Rightarrow> bool" where
  "page_id_less (PageId f n) (PageId f' n') =
     (if f < f' then True else if f' < f then False else n < n')"

datatype tuple_key = TupleKey (tk_table: table_id) (tk_rid: rid)

fun tuple_key_less :: "tuple_key \<Rightarrow> tuple_key \<Rightarrow> bool" where
  "tuple_key_less (TupleKey t r) (TupleKey t' r') = (if t \<noteq> t' then t < t' else rid_less r r')"

section \<open>Values\<close>

text \<open>
  \<^verbatim>\<open>std::variant<std::string, int64_t, RID>\<close>; the order of the constructors is the order of
  the alternatives, which \<^verbatim>\<open>std::variant\<close>'s \<^verbatim>\<open>operator<\<close> compares first. A string is its
  bytes, compared as unsigned characters.
\<close>

datatype db_value = VStr string | VInt "64 word" | VRid rid

definition MAX_STRLEN :: nat where "MAX_STRLEN = 255"

fun is_string :: "db_value \<Rightarrow> bool" where
  "is_string (VStr s) = True" | "is_string v = False"

fun is_int :: "db_value \<Rightarrow> bool" where
  "is_int (VInt i) = True" | "is_int v = False"

fun is_rid :: "db_value \<Rightarrow> bool" where
  "is_rid (VRid r) = True" | "is_rid v = False"

fun as_rid :: "db_value \<Rightarrow> rid res" where
  "as_rid (VRid r) = Inr r" | "as_rid v = Inl Stuck"

fun as_int :: "db_value \<Rightarrow> (64 word) res" where
  "as_int (VInt i) = Inr i" | "as_int v = Inl Stuck"

fun as_string :: "db_value \<Rightarrow> string res" where
  "as_string (VStr s) = Inr s" | "as_string v = Inl Stuck"

text \<open>The constructor from a \<^verbatim>\<open>const std::string&\<close> asserts the length.\<close>

definition value_of_string :: "string \<Rightarrow> db_value res" where
  "value_of_string s = (if length s \<le> MAX_STRLEN then Inr (VStr s) else Inl Stuck)"

fun value_less :: "db_value \<Rightarrow> db_value \<Rightarrow> bool" where
  "value_less (VStr s) (VStr t) = (s < t)"
| "value_less (VStr s) v = True"
| "value_less (VInt i) (VStr t) = False"
| "value_less (VInt i) (VInt j) = (sint i < sint j)"
| "value_less (VInt i) (VRid r) = True"
| "value_less (VRid r) (VRid q) = rid_less r q"
| "value_less (VRid r) v = False"

definition value_le :: "db_value \<Rightarrow> db_value \<Rightarrow> bool" where
  "value_le a b = (\<not> value_less b a)"

definition value_ge :: "db_value \<Rightarrow> db_value \<Rightarrow> bool" where
  "value_ge a b = (\<not> value_less a b)"

definition value_gt :: "db_value \<Rightarrow> db_value \<Rightarrow> bool" where
  "value_gt a b = value_less b a"

definition value_ne :: "db_value \<Rightarrow> db_value \<Rightarrow> bool" where
  "value_ne a b = (\<not> a = b)"

lemma value_less_irrefl: "\<not> value_less a a"
  by (cases a) (auto simp: less_rid_def [symmetric])

lemma value_less_trans: "value_less a b \<Longrightarrow> value_less b c \<Longrightarrow> value_less a c"
  by (cases a; cases b; cases c) (auto simp: less_rid_def [symmetric])

lemma value_less_linear: "value_less a b \<or> a = b \<or> value_less b a"
  by (cases a; cases b) (auto simp: less_rid_def [symmetric] signed_word_eqI)

instantiation db_value :: linorder
begin

definition less_db_value :: "db_value \<Rightarrow> db_value \<Rightarrow> bool" where
  "less_db_value a b = value_less a b"

definition less_eq_db_value :: "db_value \<Rightarrow> db_value \<Rightarrow> bool" where
  "less_eq_db_value a b = value_le a b"

instance
proof
  fix a b c :: db_value
  note defs = less_db_value_def less_eq_db_value_def value_le_def
  show "(a < b) = (a \<le> b \<and> \<not> b \<le> a)"
    unfolding defs using value_less_irrefl value_less_trans by blast
  show "a \<le> a" unfolding defs by (rule value_less_irrefl)
  show "a \<le> b \<Longrightarrow> b \<le> c \<Longrightarrow> a \<le> c"
    unfolding defs using value_less_linear value_less_trans by metis
  show "a \<le> b \<Longrightarrow> b \<le> a \<Longrightarrow> a = b"
    unfolding defs using value_less_linear by blast
  show "a \<le> b \<or> b \<le> a"
    unfolding defs using value_less_irrefl value_less_trans by blast
qed

end

subsection \<open>Arithmetic\<close>

text \<open>
  \<^verbatim>\<open>int64_t\<close> arithmetic: a result that does not fit is signed overflow, which C++ leaves
  undefined. Division truncates; the quotient of the least integer by \<open>-1\<close> does not fit, and
  then the remainder is undefined too.
\<close>

definition int64_result :: "int \<Rightarrow> db_value res" where
  "int64_result i = (if - (2 ^ 63) \<le> i \<and> i < 2 ^ 63 then Inr (VInt (word_of_int i)) else Inl Stuck)"

fun value_add :: "db_value \<Rightarrow> db_value \<Rightarrow> db_value res" where
  "value_add (VInt i) (VInt j) = int64_result (sint i + sint j)"
| "value_add _ _ = Inl (QueryException ''Incompatible types for sum'')"

fun value_sub :: "db_value \<Rightarrow> db_value \<Rightarrow> db_value res" where
  "value_sub (VInt i) (VInt j) = int64_result (sint i - sint j)"
| "value_sub _ _ = Inl (QueryException ''Incompatible types for subtraction'')"

fun value_mul :: "db_value \<Rightarrow> db_value \<Rightarrow> db_value res" where
  "value_mul (VInt i) (VInt j) = int64_result (sint i * sint j)"
| "value_mul _ _ = Inl (QueryException ''Incompatible types for multiplication'')"

fun value_div :: "db_value \<Rightarrow> db_value \<Rightarrow> db_value res" where
  "value_div (VInt i) (VInt j) =
     (if j = 0 then Inl (QueryException ''Division by zero'')
      else int64_result (sint i sdiv sint j))"
| "value_div _ _ = Inl (QueryException ''Incompatible types for division'')"

fun value_mod :: "db_value \<Rightarrow> db_value \<Rightarrow> db_value res" where
  "value_mod (VInt i) (VInt j) =
     (if j = 0 then Inl (QueryException ''Modulo by zero'')
      else bindE (int64_result (sint i sdiv sint j)) (\<lambda>_. int64_result (sint i smod sint j)))"
| "value_mod _ _ = Inl (QueryException ''Incompatible types for modulo'')"

lemma sint64_bounds: "- (2 ^ 63) \<le> sint (w :: 64 word) \<and> sint w < 2 ^ 63"
  using sint_greater_eq [of w] sint_less [of w] by simp

lemma sint_word_of_int64:
  "- (2 ^ 63) \<le> i \<Longrightarrow> i < 2 ^ 63 \<Longrightarrow> sint (word_of_int i :: 64 word) = i"
  by (subst sint_sbintrunc') (simp add: signed_take_bit_int_eq_self)

lemma int64_result_Inr:
  "int64_result i = Inr v \<longleftrightarrow> (\<exists>w. v = VInt w \<and> sint w = i)"
proof
  assume "int64_result i = Inr v"
  then show "\<exists>w. v = VInt w \<and> sint w = i"
    by (auto simp: int64_result_def sint_word_of_int64 split: if_splits)
next
  assume "\<exists>w. v = VInt w \<and> sint w = i"
  then obtain w where "v = VInt w" "sint w = i" by blast
  then show "int64_result i = Inr v"
    using sint64_bounds [of w] by (auto simp: int64_result_def)
qed

subsection \<open>Printing\<close>

fun value_to_string :: "db_value \<Rightarrow> string" where
  "value_to_string (VStr s) = CHR 0x22 # s @ [CHR 0x22]"
| "value_to_string (VInt i) = int_to_string (sint i)"
| "value_to_string (VRid r) = ''''"

section \<open>Columns, schemas and records\<close>

datatype data_type = DT_STR | DT_INT | DT_RID | DT_INVALID

record column_info =
  ci_name :: string
  ci_datatype :: data_type
  ci_table_id :: table_id

definition column_info_eq :: "column_info \<Rightarrow> column_info \<Rightarrow> bool" where
  "column_info_eq a b \<longleftrightarrow> ci_name a = ci_name b \<and> ci_datatype a = ci_datatype b"

record schema =
  columns :: "column_info list"

definition schema_eq :: "schema \<Rightarrow> schema \<Rightarrow> bool" where
  "schema_eq a b = list_all2 column_info_eq (columns a) (columns b)"

text \<open>A \<^verbatim>\<open>Record\<close> is its vector of values; the empty one stands for "no record".\<close>

type_synonym row = "db_value list"

abbreviation no_row :: row where "no_row \<equiv> []"

definition row_invalid :: "row \<Rightarrow> bool" where
  "row_invalid r \<longleftrightarrow> r = []"

lemma row_invalid_simps [simp]: "row_invalid []" "\<not> row_invalid (v # r)"
  by (simp_all add: row_invalid_def)

fun row_of_types :: "data_type list \<Rightarrow> row res" where
  "row_of_types [] = Inr []"
| "row_of_types (DT_RID # ts) = row_of_types ts"
| "row_of_types (DT_INT # ts) = bindE (row_of_types ts) (\<lambda>r. Inr (VInt 0 # r))"
| "row_of_types (DT_STR # ts) = bindE (row_of_types ts) (\<lambda>r. Inr (VStr '''' # r))"
| "row_of_types (DT_INVALID # ts) = Inl Stuck"

definition row_of_schema :: "schema \<Rightarrow> row res" where
  "row_of_schema s = row_of_types (map ci_datatype (columns s))"

fun join_comma :: "string list \<Rightarrow> string" where
  "join_comma [] = ''''"
| "join_comma [s] = s"
| "join_comma (s # t # ss) = s @ '','' @ join_comma (t # ss)"

definition row_to_string :: "row \<Rightarrow> string" where
  "row_to_string r = join_comma (map value_to_string r)"

subsection \<open>Which records a schema admits\<close>

text \<open>
  A column of type INT or STR takes a value of that type; a string fits its one-byte length.
  The implicit RID column (and an INVALID one) stores nothing, so a stored record has values
  for the INT and STR columns only.
\<close>

fun value_fits :: "data_type \<Rightarrow> db_value \<Rightarrow> bool" where
  "value_fits DT_INT (VInt i) = True"
| "value_fits DT_STR (VStr s) = (length s \<le> MAX_STRLEN)"
| "value_fits _ _ = False"

fun stored_type :: "data_type \<Rightarrow> bool" where
  "stored_type DT_INT = True" | "stored_type DT_STR = True" | "stored_type _ = False"

definition stored_types :: "schema \<Rightarrow> data_type list" where
  "stored_types s = filter stored_type (map ci_datatype (columns s))"

definition row_fits :: "schema \<Rightarrow> row \<Rightarrow> bool" where
  "row_fits s r = list_all2 value_fits (stored_types s) r"

section \<open>The header of a stored version\<close>

record record_header =
  t_min :: tx_id
  t_max :: tx_id
  next_rid :: rid
  first_rid :: rid

text \<open>\<open>None\<close> is the header with \<^verbatim>\<open>invalid = true\<close>: the slot holds no record.\<close>

type_synonym opt_header = "record_header option"

section \<open>Properties\<close>

lemma page_id_less_order:
  "\<not> page_id_less p p" "page_id_less p q \<Longrightarrow> page_id_less q r \<Longrightarrow> page_id_less p r"
  "page_id_less p q \<or> p = q \<or> page_id_less q p"
  by (cases p; cases q; cases r; auto split: if_splits)+

lemma tuple_key_less_order:
  "\<not> tuple_key_less k k" "tuple_key_less k l \<Longrightarrow> tuple_key_less l m \<Longrightarrow> tuple_key_less k m"
  "tuple_key_less k l \<or> k = l \<or> tuple_key_less l k"
  by (cases k; cases l; cases m; auto simp: less_rid_def [symmetric] split: if_splits)+

lemma value_order:
  "value_less = ((<) :: db_value \<Rightarrow> _)" "rid_less = ((<) :: rid \<Rightarrow> _)" "value_le = (\<le>)"
  "value_ge a b = (b \<le> a)" "value_gt a b = (b < a)"
  by (simp_all add: fun_eq_iff value_ge_def value_gt_def value_le_def
      less_db_value_def less_rid_def less_eq_db_value_def)

text \<open>
  C16. The comparison operators of RIDs, page ids and lock keys, the keys of the program's
  ordered containers, are strict total orders whose equivalence is \<^verbatim>\<open>operator==\<close>; so is
  the order of values, with every string below every integer below every RID, and the derived
  operators agree with it.
\<close>

theorem orders_strict_total:
  "(\<forall>p q r. \<not> page_id_less p p \<and> (page_id_less p q \<and> page_id_less q r \<longrightarrow> page_id_less p r)
      \<and> (page_id_less p q \<or> p = q \<or> page_id_less q p)) \<and>
   (\<forall>k l m. \<not> tuple_key_less k k \<and> (tuple_key_less k l \<and> tuple_key_less l m \<longrightarrow> tuple_key_less k m)
      \<and> (tuple_key_less k l \<or> k = l \<or> tuple_key_less l k)) \<and>
   (\<forall>a b c. \<not> value_less a a \<and> (value_less a b \<and> value_less b c \<longrightarrow> value_less a c)
      \<and> (value_less a b \<or> a = b \<or> value_less b a)
      \<and> (value_le a b \<longleftrightarrow> value_less a b \<or> a = b) \<and> value_ge a b = value_le b a
      \<and> value_gt a b = value_less b a) \<and>
   value_less (VStr s) (VInt i) \<and> value_less (VInt i) (VRid x)"
proof -
  have "value_less (VStr s) (VInt i)" "value_less (VInt i) (VRid x)" by simp_all
  then show ?thesis
    by (intro conjI allI) (auto simp: value_order page_id_less_order tuple_key_less_order
        dest: page_id_less_order(2) tuple_key_less_order(2))
qed

theorem orders_strict_total_witness:
  "value_less (VInt (- 1)) (VInt 0) \<and> value_less (VInt 0) (VRid (RID 0 0))
   \<and> value_less (VInt (- 1)) (VRid (RID 0 0)) \<and> \<not> value_less (VInt 0) (VInt (- 1))"
  using orders_strict_total [of "''a''" "- 1" "RID 0 0"] by auto

end
