(* ===== verification/Pages.thy ===== *)
theory Pages
  imports Values
begin

text \<open>
  One page in memory (\<^verbatim>\<open>src/storage/page.h\<close>, \<^verbatim>\<open>page.cc\<close>): its bytes, the
  flags the buffer manager keeps on it, and the typed reads and writes every other component
  goes through. Offsets are \<^verbatim>\<open>size_t\<close>: a negative one is as much outside the page as one
  past its end.
\<close>

definition PAGE_SIZE :: nat where [simp]: "PAGE_SIZE = 4096"

record page =
  pg_id :: page_id
  pg_bytes :: "byte list"
  pg_pins :: int
  pg_second_chance :: bool
  pg_dirty :: bool

definition new_page :: page where
  "new_page = \<lparr>pg_id = PageId UNASSIGNED 0, pg_bytes = [], pg_pins = 0,
               pg_second_chance = False, pg_dirty = False\<rparr>"

definition set_bytes :: "page \<Rightarrow> byte list \<Rightarrow> page" where
  "set_bytes p bs = p\<lparr>pg_bytes := bs\<rparr>"

definition get_page_number :: "page \<Rightarrow> int" where
  "get_page_number p = pid_page (pg_id p)"

section \<open>Reads and writes\<close>

definition in_page :: "int \<Rightarrow> nat \<Rightarrow> bool" where
  "in_page off n \<longleftrightarrow> 0 \<le> off \<and> nat off + n \<le> PAGE_SIZE"

definition page_read :: "page \<Rightarrow> int \<Rightarrow> nat \<Rightarrow> byte list res" where
  "page_read p off n = (if in_page off n then Inr (slice (nat off) n (pg_bytes p)) else Inl Stuck)"

definition read_uint8 :: "page \<Rightarrow> int \<Rightarrow> byte res" where
  "read_uint8 p off = (if in_page off 1 then Inr (pg_bytes p ! nat off) else Inl Stuck)"

definition read_int32 :: "page \<Rightarrow> int \<Rightarrow> int res" where
  "read_int32 p off =
     (if in_page off 4 then Inr (dec32 (slice (nat off) 4 (pg_bytes p))) else Inl Stuck)"

definition read_int64 :: "page \<Rightarrow> int \<Rightarrow> (64 word) res" where
  "read_int64 p off =
     (if in_page off 8 then Inr (dec64 (slice (nat off) 8 (pg_bytes p))) else Inl Stuck)"

definition page_write :: "page \<Rightarrow> int \<Rightarrow> byte list \<Rightarrow> page res" where
  "page_write p off bs =
     (if in_page off (length bs)
      then Inr (p\<lparr>pg_bytes := patch (nat off) bs (pg_bytes p), pg_dirty := True\<rparr>)
      else Inl Stuck)"

definition write_int8 :: "page \<Rightarrow> int \<Rightarrow> byte \<Rightarrow> page res" where
  "write_int8 p off b = page_write p off [b]"

definition write_int32 :: "page \<Rightarrow> int \<Rightarrow> int \<Rightarrow> page res" where
  "write_int32 p off i = page_write p off (enc32 i)"

definition write_int64 :: "page \<Rightarrow> int \<Rightarrow> 64 word \<Rightarrow> page res" where
  "write_int64 p off w = page_write p off (enc64 w)"

section \<open>Pins and reuse of a frame\<close>

definition pin :: "page \<Rightarrow> page" where
  "pin p = p\<lparr>pg_pins := pg_pins p + 1, pg_second_chance := True\<rparr>"

definition unpin :: "page \<Rightarrow> page res" where
  "unpin p = (if pg_pins p > 0 then Inr (p\<lparr>pg_pins := pg_pins p - 1\<rparr>) else Inl Stuck)"

definition reassign :: "page \<Rightarrow> page_id \<Rightarrow> page res" where
  "reassign p i =
     (if pg_dirty p \<or> pg_pins p \<noteq> 0 \<or> pg_second_chance p then Inl Stuck
      else Inr (p\<lparr>pg_id := i, pg_pins := 1, pg_second_chance := True\<rparr>))"

definition reset_page :: "page \<Rightarrow> page res" where
  "reset_page p =
     (if pg_pins p \<noteq> 0 then Inl Stuck
      else Inr (p\<lparr>pg_dirty := False, pg_id := PageId UNASSIGNED 0, pg_pins := 0,
                  pg_second_chance := False\<rparr>))"

section \<open>Lemmas\<close>

definition page_wf :: "page \<Rightarrow> bool" where
  "page_wf p \<longleftrightarrow> length (pg_bytes p) = PAGE_SIZE"

lemma in_page_int [page_simps]: "in_page (int o') n \<longleftrightarrow> o' + n \<le> 4096"
  by (simp add: in_page_def)

lemma in_page_nat: "0 \<le> off \<Longrightarrow> in_page off n \<longleftrightarrow> nat off + n \<le> 4096"
  by (simp add: in_page_def)

text \<open>The typed accessors at an offset known to be a natural number.\<close>

lemma page_read_nat:
  "o' + n \<le> 4096 \<Longrightarrow> page_read p (int o') n = Inr (slice o' n (pg_bytes p))"
  by (simp add: page_read_def in_page_int)

lemma read_int32_nat:
  "o' + 4 \<le> 4096 \<Longrightarrow> read_int32 p (int o') = Inr (dec32 (slice o' 4 (pg_bytes p)))"
  by (simp add: read_int32_def in_page_int)

lemma read_int64_nat:
  "o' + 8 \<le> 4096 \<Longrightarrow> read_int64 p (int o') = Inr (dec64 (slice o' 8 (pg_bytes p)))"
  by (simp add: read_int64_def in_page_int)

lemma read_uint8_nat:
  "o' + 1 \<le> 4096 \<Longrightarrow> page_wf p \<Longrightarrow> read_uint8 p (int o') = Inr (hd (slice o' 1 (pg_bytes p)))"
  by (simp add: read_uint8_def in_page_int page_wf_def slice_def hd_drop_conv_nth take_Suc)

definition put :: "nat \<Rightarrow> byte list \<Rightarrow> page \<Rightarrow> page" where
  "put o' bs p = p\<lparr>pg_bytes := patch o' bs (pg_bytes p), pg_dirty := True\<rparr>"

lemma page_write_nat:
  "o' + length bs \<le> 4096 \<Longrightarrow> page_write p (int o') bs = Inr (put o' bs p)"
  by (simp add: page_write_def in_page_int put_def)

lemma write_nat:
  "o' + 1 \<le> 4096 \<Longrightarrow> write_int8 p (int o') b = Inr (put o' [b] p)"
  "o' + 4 \<le> 4096 \<Longrightarrow> write_int32 p (int o') i = Inr (put o' (enc32 i) p)"
  "o' + 8 \<le> 4096 \<Longrightarrow> write_int64 p (int o') w = Inr (put o' (enc64 w) p)"
  by (simp_all add: write_int8_def write_int32_def write_int64_def page_write_nat)

lemma put_fields [simp]:
  "pg_id (put o' bs p) = pg_id p" "pg_pins (put o' bs p) = pg_pins p"
  "pg_second_chance (put o' bs p) = pg_second_chance p" "pg_dirty (put o' bs p)"
  "pg_bytes (put o' bs p) = patch o' bs (pg_bytes p)"
  by (simp_all add: put_def)

lemma page_wf_put [simp]: "page_wf p \<Longrightarrow> o' + length bs \<le> 4096 \<Longrightarrow> page_wf (put o' bs p)"
  by (simp add: page_wf_def)

lemma page_wf_length: "page_wf p \<Longrightarrow> length (pg_bytes p) = 4096"
  by (simp add: page_wf_def)

lemma put_append:
  "page_wf p \<Longrightarrow> o' + length bs + length cs \<le> 4096 \<Longrightarrow>
   put (o' + length bs) cs (put o' bs p) = put o' (bs @ cs) p"
  by (simp add: put_def patch_append page_wf_length)

lemma slice_put_same:
  "page_wf p \<Longrightarrow> o' + length bs \<le> 4096 \<Longrightarrow> n = length bs \<Longrightarrow>
   slice o' n (pg_bytes (put o' bs p)) = bs"
  by (simp add: page_wf_length)

lemma slice_put_disjoint:
  "page_wf p \<Longrightarrow> o' + length bs \<le> 4096 \<Longrightarrow> a + n \<le> o' \<or> o' + length bs \<le> a \<Longrightarrow> a + n \<le> 4096 \<Longrightarrow>
   slice a n (pg_bytes (put o' bs p)) = slice a n (pg_bytes p)"
  by (simp add: page_wf_length slice_patch_disjoint)

section \<open>What a page operation may do\<close>

text \<open>
  The contract the buffer manager relies on: an operation of a client of a page changes its
  bytes (keeping their number) and nothing else, and marks the page dirty when it does.
\<close>

definition page_evolves :: "page \<Rightarrow> page \<Rightarrow> bool" where
  "page_evolves p q \<longleftrightarrow>
     pg_id q = pg_id p \<and> pg_pins q = pg_pins p \<and> pg_second_chance q = pg_second_chance p \<and>
     (page_wf p \<longrightarrow> page_wf q) \<and>
     (pg_dirty p \<longrightarrow> pg_dirty q) \<and> (pg_bytes q \<noteq> pg_bytes p \<longrightarrow> pg_dirty q)"

lemma page_evolves_refl [simp, intro]: "page_evolves p p"
  by (simp add: page_evolves_def)

lemma page_evolves_trans [trans]: "page_evolves p q \<Longrightarrow> page_evolves q r \<Longrightarrow> page_evolves p r"
  unfolding page_evolves_def by metis

lemma page_write_evolves: "page_write p off bs = Inr q \<Longrightarrow> page_evolves p q"
  by (auto simp: page_write_def page_evolves_def page_wf_def in_page_def split: if_splits)

lemmas write_evolves =
  page_write_evolves
  page_write_evolves [of _ _ "[b]" for b, folded write_int8_def]
  page_write_evolves [of _ _ "enc32 i" for i, folded write_int32_def]
  page_write_evolves [of _ _ "enc64 w" for w, folded write_int64_def]

section \<open>Properties\<close>

lemma write_int64_read:
  assumes "page_wf p" "in_page off 8"
  shows "\<exists>q. write_int64 p off w = Inr q \<and> read_int64 q off = Inr w \<and> pg_dirty q \<and> page_wf q
           \<and> (\<forall>a n. a + n \<le> 4096 \<and> (a + n \<le> nat off \<or> nat off + 8 \<le> a) \<longrightarrow>
                slice a n (pg_bytes q) = slice a n (pg_bytes p))"
proof -
  from assms obtain k where "off = int k" "k + 8 \<le> 4096"
    by (metis in_page_def PAGE_SIZE_def nat_0_le)
  with assms show ?thesis
    by (simp add: write_nat read_int64_nat page_wf_length slice_patch_disjoint bytes_simps)
qed

lemma write_int32_read:
  assumes "page_wf p" "in_page off 4" "int32 i"
  shows "\<exists>q. write_int32 p off i = Inr q \<and> read_int32 q off = Inr i \<and> pg_dirty q \<and> page_wf q
           \<and> (\<forall>a n. a + n \<le> 4096 \<and> (a + n \<le> nat off \<or> nat off + 4 \<le> a) \<longrightarrow>
                slice a n (pg_bytes q) = slice a n (pg_bytes p))"
proof -
  from assms obtain k where "off = int k" "k + 4 \<le> 4096"
    by (metis in_page_def PAGE_SIZE_def nat_0_le)
  with assms show ?thesis
    by (simp add: write_nat read_int32_nat page_wf_length slice_patch_disjoint bytes_simps)
qed

text \<open>
  C15. A typed write inside the page succeeds, is read back unchanged, marks the page dirty
  and leaves every byte outside the written range alone; outside the page (also at a negative
  offset) reads and writes are refused.
\<close>

theorem page_read_write:
  assumes "page_wf p"
  shows "(in_page off 8 \<longrightarrow>
           (\<exists>q. write_int64 p off w = Inr q \<and> read_int64 q off = Inr w \<and> pg_dirty q \<and> page_wf q
             \<and> (\<forall>a n. a + n \<le> 4096 \<and> (a + n \<le> nat off \<or> nat off + 8 \<le> a) \<longrightarrow>
                  slice a n (pg_bytes q) = slice a n (pg_bytes p)))) \<and>
         (in_page off 4 \<and> int32 i \<longrightarrow>
           (\<exists>q. write_int32 p off i = Inr q \<and> read_int32 q off = Inr i \<and> pg_dirty q \<and> page_wf q
             \<and> (\<forall>a n. a + n \<le> 4096 \<and> (a + n \<le> nat off \<or> nat off + 4 \<le> a) \<longrightarrow>
                  slice a n (pg_bytes q) = slice a n (pg_bytes p)))) \<and>
         (\<not> in_page off (length bs) \<longrightarrow>
           page_write p off bs = Inl Stuck \<and> page_read p off (length bs) = Inl Stuck)"
  using write_int64_read [OF assms] write_int32_read [OF assms]
  by (simp add: page_write_def page_read_def)

theorem page_read_write_witness:
  "\<exists>q. write_int64 (set_bytes new_page (replicate 4096 0)) 16 5 = Inr q \<and> read_int64 q 16 = Inr 5"
  using page_read_write [of "set_bytes new_page (replicate 4096 0)" 16 5 0 "[]"]
  by (auto simp: page_wf_def set_bytes_def in_page_def)

end
