(* ===== verification/Actions.thy ===== *)
theory Actions
  imports Prelude
begin

text \<open>
  Computations that may not return (\<open>run\<close>: \<open>None\<close> is a loop that never ends), and stateful
  ones (\<open>act\<close>): an exception leaves the state as it was when it was thrown, so the effects
  that precede a \<^verbatim>\<open>throw\<close> are kept, as in the program.
\<close>

section \<open>Computations that may not return\<close>

type_synonym 'a run = "'a res option"

definition bindO :: "'a run \<Rightarrow> ('a \<Rightarrow> 'b run) \<Rightarrow> 'b run" where
  "bindO m f = Option.bind m (\<lambda>r. case r of Inl e \<Rightarrow> Some (Inl e) | Inr x \<Rightarrow> f x)"

definition retO :: "'a \<Rightarrow> 'a run" where
  "retO x = Some (Inr x)"

lemma bindO_simps [simp]:
  "bindO None f = None" "bindO (Some (Inl e)) f = Some (Inl e)" "bindO (Some (Inr x)) f = f x"
  by (simp_all add: bindO_def)

lemma bindO_mono [partial_function_mono]:
  assumes "mono_option B" "\<And>y. mono_option (\<lambda>f. C y f)"
  shows "mono_option (\<lambda>f. bindO (B f) (\<lambda>y. C y f))"
  unfolding bindO_def
proof (rule bind_mono [OF assms(1)])
  fix r
  show "mono_option (\<lambda>f. case r of Inl e \<Rightarrow> Some (Inl e) | Inr x \<Rightarrow> C x f)"
    using assms(2) by (cases r) (simp_all add: option.const_mono)
qed

lemma prod_mono:
  "(\<And>a b. mono_option (\<lambda>f. C a b f)) \<Longrightarrow> mono_option (\<lambda>f. case y of (a, b) \<Rightarrow> C a b f)"
  by (cases y) simp

lemma if_mono':
  "mono_option F \<Longrightarrow> mono_option G \<Longrightarrow> mono_option (\<lambda>f. if b then F f else G f)"
  by (cases b) simp_all

lemmas run_mono = bindO_mono prod_mono if_mono' option.const_mono

section \<open>Stateful computations\<close>

type_synonym ('s, 'a) act = "'s \<Rightarrow> ('a res \<times> 's) option"

definition returnA :: "'a \<Rightarrow> ('s, 'a) act" where
  "returnA x s = Some (Inr x, s)"

definition throwA :: "db_error \<Rightarrow> ('s, 'a) act" where
  "throwA e s = Some (Inl e, s)"

definition liftA :: "'a res \<Rightarrow> ('s, 'a) act" where
  "liftA m s = Some (m, s)"

definition getA :: "('s, 's) act" where
  "getA s = Some (Inr s, s)"

definition modifyA :: "('s \<Rightarrow> 's) \<Rightarrow> ('s, unit) act" where
  "modifyA f s = Some (Inr (), f s)"

definition bindA :: "('s, 'a) act \<Rightarrow> ('a \<Rightarrow> ('s, 'b) act) \<Rightarrow> ('s, 'b) act" where
  "bindA m f s = Option.bind (m s) (\<lambda>(r, s'). case r of Inl e \<Rightarrow> Some (Inl e, s') | Inr x \<Rightarrow> f x s')"

definition catchA :: "('s, 'a) act \<Rightarrow> (db_error \<Rightarrow> ('s, 'a) act) \<Rightarrow> ('s, 'a) act" where
  "catchA m h s = Option.bind (m s) (\<lambda>(r, s'). case r of Inl e \<Rightarrow> h e s' | Inr x \<Rightarrow> Some (Inr x, s'))"

definition whenA :: "bool \<Rightarrow> ('s, unit) act \<Rightarrow> ('s, unit) act" where
  "whenA b m = (if b then m else returnA ())"

fun mapA :: "('a \<Rightarrow> ('s, 'b) act) \<Rightarrow> 'a list \<Rightarrow> ('s, 'b list) act" where
  "mapA f [] = returnA []"
| "mapA f (x # xs) = bindA (f x) (\<lambda>y. bindA (mapA f xs) (\<lambda>ys. returnA (y # ys)))"

named_theorems act_simps \<open>running the primitive actions\<close>

lemma act_run [act_simps]:
  "returnA x s = Some (Inr x, s)" "throwA e s = Some (Inl e, s)" "liftA m s = Some (m, s)"
  "getA s = Some (Inr s, s)" "modifyA f s = Some (Inr (), f s)"
  by (simp_all add: returnA_def throwA_def liftA_def getA_def modifyA_def)

lemma bindA_run [act_simps]:
  "m s = Some (Inr x, s') \<Longrightarrow> bindA m f s = f x s'"
  "m s = Some (Inl e, s') \<Longrightarrow> bindA m f s = Some (Inl e, s')"
  "m s = None \<Longrightarrow> bindA m f s = None"
  by (simp_all add: bindA_def)

lemma bindA_eq: "m s = Some (Inr x, s1) \<Longrightarrow> f x s1 = r \<Longrightarrow> bindA m f s = r"
  by (simp add: bindA_def)

lemma bindA_returnA [simp]:
  "bindA (returnA x) f = f x" "bindA (liftA (Inr x)) f = f x" "bindA (liftA (Inl e)) f = throwA e"
  "bindA (throwA e) g = throwA e"
  by (auto simp: fun_eq_iff bindA_def act_run)

lemma bindA_assoc: "bindA (bindA m f) g = bindA m (\<lambda>x. bindA (f x) g)"
  by (auto simp: fun_eq_iff bindA_def split: option.splits sum.splits Option.bind_splits)

lemma bindA_Inr_iff:
  "bindA m f s = Some (Inr y, s'') \<longleftrightarrow>
     (\<exists>x s'. m s = Some (Inr x, s') \<and> f x s' = Some (Inr y, s''))"
  by (auto simp: bindA_def split: option.splits sum.splits Option.bind_splits)

lemma bindA_mono [partial_function_mono]:
  assumes "mono_option (\<lambda>f. B f s)" "\<And>y s'. mono_option (\<lambda>f. C y f s')"
  shows "mono_option (\<lambda>f. bindA (B f) (\<lambda>y. C y f) s)"
  unfolding bindA_def
proof (rule bind_mono [OF assms(1)])
  fix r
  show "mono_option (\<lambda>f. (\<lambda>(r, s'). case r of Inl e \<Rightarrow> Some (Inl e, s') | Inr x \<Rightarrow> C x f s') r)"
    using assms(2) by (cases r; cases "fst r") (simp_all add: option.const_mono)
qed

end
