(* ===== verification/Files.thy ===== *)
theory Files
  imports Pages Actions
begin

text \<open>
  The file manager (\<^verbatim>\<open>src/system/file_manager.cc\<close>, \<^verbatim>\<open>.h\<close>) over a POSIX file system:
  which files exist, what they contain, and which calls fail. The system calls are an
  interface of the operating system; \<open>fs_fault\<close> says which of them fail (call number \<open>n\<close>), so
  that every error path of the code is a run of the model.
\<close>

section \<open>The file system\<close>

text \<open>
  A descriptor stands for the file it was opened on; a removed path leaves the open file
  alone. \<open>fs_names\<close> is \<^verbatim>\<open>filename2file_id\<close>, whose names are paths below \<^verbatim>\<open>db_folder\<close>.
\<close>

record fs_state =
  fs_dir :: "string \<Rightarrow> file_id option"
  fs_content :: "file_id \<Rightarrow> byte list"
  fs_next :: file_id
  fs_names :: "(string \<times> file_id) list"
  fs_calls :: nat
  fs_fault :: "nat \<Rightarrow> bool"

text \<open>One system call: does it fail?\<close>

definition sys_call :: "(fs_state, bool) act" where
  "sys_call s = Some (Inr (fs_fault s (fs_calls s)), s\<lparr>fs_calls := fs_calls s + 1\<rparr>)"

definition set_content :: "file_id \<Rightarrow> byte list \<Rightarrow> fs_state \<Rightarrow> fs_state" where
  "set_content fd bs s = s\<lparr>fs_content := (fs_content s)(fd := bs)\<rparr>"

text \<open>\<^verbatim>\<open>ftruncate\<close> cuts or pads with zeros; a write past the end pads before it writes.\<close>

definition resize :: "nat \<Rightarrow> byte list \<Rightarrow> byte list" where
  "resize n bs = take n bs @ replicate (n - length bs) 0"

definition file_write :: "nat \<Rightarrow> byte list \<Rightarrow> byte list \<Rightarrow> byte list" where
  "file_write off bs f = patch off bs (resize (max (length f) (off + length bs)) f)"

text \<open>
  \<^verbatim>\<open>page_number * Page::SIZE\<close> is an \<^verbatim>\<open>int\<close> product: past \<open>2 ^ 31\<close> it overflows.
\<close>

definition page_in_range :: "int \<Rightarrow> bool" where
  "page_in_range n \<longleftrightarrow> 0 \<le> n \<and> (n + 1) * int PAGE_SIZE < 2 ^ 31"

section \<open>The database folder\<close>

text \<open>
  The constructor makes the folder if nothing has its name, and throws \<^verbatim>\<open>std::invalid_argument\<close> if a file has it.
  \<open>path_kind\<close> is what the file system says of a path.
\<close>

datatype path_kind = Path_missing | Path_folder | Path_file

definition new_file_manager :: "string \<Rightarrow> path_kind \<Rightarrow> string + path_kind" where
  "new_file_manager folder k =
     (if k \<noteq> Path_missing then
        (if k \<noteq> Path_folder then
           Inl (''Cannot create database directory: '' @ CHR 0x22 # folder @ CHR 0x22 #
                '', a file with that name already exists.'')
         else Inr k)
      else Inr Path_folder)"

definition get_file_path :: "string \<Rightarrow> string \<Rightarrow> string" where
  "get_file_path folder name = folder @ ''/'' @ name"

text \<open>Different names are different files of the folder, and the folder is there once the constructor returned.\<close>

lemma get_file_path_inj: "get_file_path folder n = get_file_path folder m \<longleftrightarrow> n = m"
  by (simp add: get_file_path_def)

lemma new_file_manager_folder: "new_file_manager folder k = Inr k' \<Longrightarrow> k' = Path_folder"
  by (auto simp: new_file_manager_def split: if_splits)

section \<open>Operations\<close>

definition file_size :: "file_id \<Rightarrow> fs_state \<Rightarrow> nat" where
  "file_size fd s = length (fs_content s fd)"

definition count_pages :: "file_id \<Rightarrow> fs_state \<Rightarrow> nat" where
  "count_pages fd s = file_size fd s div PAGE_SIZE"

definition fm_flush :: "page \<Rightarrow> (fs_state, page) act" where
  "fm_flush p =
     (if \<not> page_in_range (pid_page (pg_id p)) then throwA Stuck
      else bindA sys_call (\<lambda>failed.
        if failed then throwA (RuntimeError ''Could not write into file when flushing page'')
        else bindA (modifyA (\<lambda>s. set_content (pid_file (pg_id p))
               (file_write (nat (pid_page (pg_id p)) * PAGE_SIZE) (pg_bytes p)
                  (fs_content s (pid_file (pg_id p)))) s))
             (\<lambda>_. returnA (p\<lparr>pg_dirty := False\<rparr>))))"

definition fm_read_page :: "page_id \<Rightarrow> (fs_state, byte list) act" where
  "fm_read_page pid =
     (if \<not> page_in_range (pid_page pid) then throwA Stuck
      else bindA getA (\<lambda>s.
        let n = nat (pid_page pid); fd = pid_file pid in
        bindA sys_call (\<lambda>failed.
          if count_pages fd s \<le> n then
            (if failed then throwA (RuntimeError ''Could not write into file'')
             else bindA (modifyA (\<lambda>s. set_content fd (resize (PAGE_SIZE * (n + 1)) (fs_content s fd)) s))
                    (\<lambda>_. returnA (replicate PAGE_SIZE 0)))
          else
            (if failed then throwA (RuntimeError ''Could not read file page'')
             else returnA (slice (n * PAGE_SIZE) PAGE_SIZE (fs_content s fd))))))"

text \<open>\<open>folder\<close> is \<^verbatim>\<open>db_folder\<close>; the folder of the state is the one at that path.\<close>

definition fm_get_file_id :: "string \<Rightarrow> string \<Rightarrow> (fs_state, file_id) act" where
  "fm_get_file_id folder name =
     bindA getA (\<lambda>s.
       case map_of (fs_names s) name of
         Some fd \<Rightarrow> returnA fd
       | None \<Rightarrow> bindA sys_call (\<lambda>failed.
           if failed then throwA (RuntimeError (''Could not open file '' @ get_file_path folder name))
           else case fs_dir s name of
               Some fd \<Rightarrow> bindA (modifyA (\<lambda>s. s\<lparr>fs_names := (name, fd) # fs_names s\<rparr>)) (\<lambda>_. returnA fd)
             | None \<Rightarrow>
                 bindA (modifyA (\<lambda>s. set_content (fs_next s) []
                   (s\<lparr>fs_dir := (fs_dir s)(name \<mapsto> fs_next s), fs_next := fs_next s + 1,
                      fs_names := (name, fs_next s) # fs_names s\<rparr>)))
                   (\<lambda>_. returnA (fs_next s))))"

text \<open>The name registered for a descriptor, and the file removed under it.\<close>

fun name_of_fd :: "(string \<times> file_id) list \<Rightarrow> file_id \<Rightarrow> string option" where
  "name_of_fd [] fd = None"
| "name_of_fd ((n, f) # ns) fd = (if f = fd then Some n else name_of_fd ns fd)"

definition fm_delete_file :: "file_id \<Rightarrow> (fs_state, unit) act" where
  "fm_delete_file fd =
     bindA getA (\<lambda>s.
       case name_of_fd (fs_names s) fd of
         None \<Rightarrow> returnA ()
       | Some name \<Rightarrow>
           bindA (modifyA (\<lambda>s. s\<lparr>fs_names := filter (\<lambda>(n, f). n \<noteq> name) (fs_names s)\<rparr>)) (\<lambda>_.
             if name = [] then returnA ()
             else modifyA (\<lambda>s. s\<lparr>fs_dir := (fs_dir s)(name := None)\<rparr>)))"

definition fm_truncate_file :: "file_id \<Rightarrow> nat \<Rightarrow> (fs_state, unit) act" where
  "fm_truncate_file fd n =
     bindA sys_call (\<lambda>failed.
       if failed then throwA (RuntimeError ''Could not truncate file'')
       else modifyA (\<lambda>s. set_content fd (resize (n * PAGE_SIZE) (fs_content s fd)) s))"

section \<open>Pages of a file\<close>

definition disk_page :: "fs_state \<Rightarrow> file_id \<Rightarrow> nat \<Rightarrow> byte list" where
  "disk_page s fd n =
     (if n < count_pages fd s then slice (n * PAGE_SIZE) PAGE_SIZE (fs_content s fd)
      else replicate PAGE_SIZE 0)"

definition no_faults :: "fs_state \<Rightarrow> bool" where
  "no_faults s \<longleftrightarrow> (\<forall>n. \<not> fs_fault s n)"

text \<open>Every file the program writes has a whole number of pages.\<close>

definition fs_wf :: "fs_state \<Rightarrow> bool" where
  "fs_wf s \<longleftrightarrow> (\<forall>fd. PAGE_SIZE dvd file_size fd s)"

lemma length_resize [simp]: "length (resize n bs) = n"
  by (simp add: resize_def)

lemma resize_nth: "i < n \<Longrightarrow> resize n bs ! i = (if i < length bs then bs ! i else 0)"
  by (auto simp: resize_def nth_append)

lemma length_file_write: "length (file_write off bs f) = max (length f) (off + length bs)"
  by (simp add: file_write_def)

lemma file_write_nth:
  "i < max (length f) (off + length bs) \<Longrightarrow>
   file_write off bs f ! i =
     (if off \<le> i \<and> i < off + length bs then bs ! (i - off) else if i < length f then f ! i else 0)"
proof -
  assume i: "i < max (length f) (off + length bs)"
  then show ?thesis
    unfolding file_write_def by (subst patch_nth) (auto simp: resize_nth simp del: max_less_iff_conj)
qed

lemma page_bound: "n < l div 4096 \<Longrightarrow> n * 4096 + 4096 \<le> (l :: nat)"
proof -
  assume "n < l div 4096"
  then have "Suc n * 4096 \<le> (l div 4096) * 4096" by (intro mult_le_mono1) simp
  also have "\<dots> \<le> l" by simp
  finally show ?thesis by simp
qed

lemma length_disk_page [simp]: "length (disk_page s fd n) = 4096"
  using page_bound [of n "length (fs_content s fd)"]
  by (auto simp: disk_page_def count_pages_def file_size_def)

lemma disk_page_nth:
  assumes "fs_wf s" "i < 4096"
  shows "disk_page s fd n ! i =
    (if n * 4096 + i < file_size fd s then fs_content s fd ! (n * 4096 + i) else 0)"
proof -
  obtain m where m: "file_size fd s = 4096 * m" using assms(1) by (auto simp: fs_wf_def)
  show ?thesis
  proof (cases "n < m")
    case True
    then have "n * 4096 + 4096 \<le> 4096 * m" using page_bound [of n "4096 * m"] by simp
    with True m assms(2) show ?thesis
      by (simp add: disk_page_def count_pages_def slice_nth file_size_def)
  next
    case False
    then have "4096 * m \<le> n * 4096" by simp
    with False m assms(2) show ?thesis by (simp add: disk_page_def count_pages_def)
  qed
qed

lemma page_of_cong:
  assumes "fs_wf s" "fs_wf s'"
    "\<And>i. i < 4096 \<Longrightarrow> (if n * 4096 + i < file_size fd s' then fs_content s' fd ! (n * 4096 + i) else 0)
        = (if n * 4096 + i < file_size fd s then fs_content s fd ! (n * 4096 + i) else 0)"
  shows "disk_page s' fd n = disk_page s fd n"
  by (rule nth_equalityI) (use assms in \<open>simp_all add: disk_page_nth\<close>)

lemma sys_call_run: "no_faults s \<Longrightarrow> sys_call s = Some (Inr False, s\<lparr>fs_calls := fs_calls s + 1\<rparr>)"
  by (simp add: sys_call_def no_faults_def)

text \<open>Reading a page gives its contents, growing the file with zero pages if it is past the end.\<close>

lemma read_page_run:
  assumes wf: "fs_wf s" and nf: "no_faults s" and n: "page_in_range (int n)"
  shows "\<exists>s'. fm_read_page (PageId fd (int n)) s = Some (Inr (disk_page s fd n), s') \<and> fs_wf s' \<and>
     no_faults s' \<and> (\<forall>f m. disk_page s' f m = disk_page s f m) \<and>
     (\<forall>f. count_pages f s' = (if f = fd then max (count_pages fd s) (n + 1) else count_pages f s)) \<and>
     fs_names s' = fs_names s \<and> fs_dir s' = fs_dir s"
proof (cases "count_pages fd s \<le> n")
  case True
  let ?s1 = "s\<lparr>fs_calls := fs_calls s + 1\<rparr>"
  define s' where "s' = set_content fd (resize (PAGE_SIZE * (n + 1)) (fs_content s fd)) ?s1"
  have run: "fm_read_page (PageId fd (int n)) s = Some (Inr (disk_page s fd n), s')"
    using n nf True
    by (simp add: fm_read_page_def bindA_def act_simps Let_def sys_call_run disk_page_def s'_def)
  have size: "file_size f s' = (if f = fd then 4096 * (n + 1) else file_size f s)" for f
    by (simp add: file_size_def set_content_def s'_def)
  have wf': "fs_wf s'" using wf by (simp add: fs_wf_def size)
  obtain k where k: "length (fs_content s fd) = 4096 * k"
    using wf by (auto simp: fs_wf_def file_size_def)
  have kn: "k \<le> n" using True k by (simp add: count_pages_def file_size_def)
  have "disk_page s' f m = disk_page s f m" for f m
  proof (rule page_of_cong [OF wf wf'])
    fix i :: nat assume "i < 4096"
    with kn k show "(if m * 4096 + i < file_size f s' then fs_content s' f ! (m * 4096 + i) else 0)
        = (if m * 4096 + i < file_size f s then fs_content s f ! (m * 4096 + i) else 0)"
      by (auto simp: size s'_def set_content_def resize_nth file_size_def)
  qed
  moreover have "count_pages f s' = (if f = fd then max (count_pages fd s) (n + 1) else count_pages f s)" for f
    using True by (simp add: count_pages_def size)
  ultimately show ?thesis
    using run wf' nf by (auto simp: no_faults_def set_content_def s'_def)
next
  case False
  let ?s1 = "s\<lparr>fs_calls := fs_calls s + 1\<rparr>"
  have "fm_read_page (PageId fd (int n)) s = Some (Inr (disk_page s fd n), ?s1)"
    using n nf False by (simp add: fm_read_page_def bindA_def act_simps Let_def sys_call_run disk_page_def)
  then show ?thesis
    using False wf nf
    by (auto simp: fs_wf_def no_faults_def file_size_def count_pages_def disk_page_def max_def)
qed

lemma flush_run:
  assumes wf: "fs_wf s" and nf: "no_faults s" and pid: "pg_id p = PageId fd (int n)"
    and n: "page_in_range (int n)" and p: "page_wf p"
  shows "\<exists>s'. fm_flush p s = Some (Inr (p\<lparr>pg_dirty := False\<rparr>), s') \<and> fs_wf s' \<and> no_faults s' \<and>
     (\<forall>f m. disk_page s' f m = (if f = fd \<and> m = n then pg_bytes p else disk_page s f m)) \<and>
     (\<forall>f. count_pages f s' = (if f = fd then max (count_pages fd s) (n + 1) else count_pages f s)) \<and>
     fs_names s' = fs_names s \<and> fs_dir s' = fs_dir s"
proof -
  have lp: "length (pg_bytes p) = 4096" using p by (rule page_wf_length)
  obtain k where k: "length (fs_content s fd) = 4096 * k"
    using wf by (auto simp: fs_wf_def file_size_def)
  have ksize: "file_size fd s = 4096 * k" using k by (simp add: file_size_def)
  let ?new = "file_write (n * 4096) (pg_bytes p) (fs_content s fd)"
  define s' where "s' = set_content fd ?new (s\<lparr>fs_calls := fs_calls s + 1\<rparr>)"
  have run: "fm_flush p s = Some (Inr (p\<lparr>pg_dirty := False\<rparr>), s')"
    using n nf pid by (simp add: fm_flush_def bindA_def act_simps sys_call_run set_content_def s'_def)
  have len: "length ?new = 4096 * max k (n + 1)"
    using k lp by (simp add: length_file_write max_def)
  have size: "file_size f s' = (if f = fd then 4096 * max k (n + 1) else file_size f s)" for f
    using len by (simp add: file_size_def set_content_def s'_def)
  have wf': "fs_wf s'" using wf by (simp add: fs_wf_def size)
  have nth: "?new ! j = (if n * 4096 \<le> j \<and> j < n * 4096 + 4096 then pg_bytes p ! (j - n * 4096)
      else if j < 4096 * k then fs_content s fd ! j else 0)" if "j < 4096 * max k (n + 1)" for j
  proof -
    have "j < max (length (fs_content s fd)) (n * 4096 + length (pg_bytes p))"
      using that len by (simp add: length_file_write)
    then show ?thesis by (subst file_write_nth) (simp_all add: k lp)
  qed
  have pages: "disk_page s' f m = (if f = fd \<and> m = n then pg_bytes p else disk_page s f m)" for f m
  proof (rule nth_equalityI)
    fix i assume "i < length (disk_page s' f m)"
    then have i: "i < 4096" by simp
    have own: "fs_content s' g = (if g = fd then ?new else fs_content s g)" for g
      by (simp add: set_content_def s'_def)
    consider "f \<noteq> fd" | "f = fd" "m = n" | "f = fd" "m < n" | "f = fd" "n < m" by linarith
    then show "disk_page s' f m ! i = (if f = fd \<and> m = n then pg_bytes p else disk_page s f m) ! i"
    proof cases
      case 1
      with i show ?thesis by (simp add: disk_page_nth [OF wf'] disk_page_nth [OF wf] size own)
    next
      case 2
      have "n * 4096 + i < 4096 * max k (n + 1)" using i by (simp add: max_def)
      with 2 i nth [OF this] show ?thesis by (simp add: disk_page_nth [OF wf'] size own)
    next
      case 3
      then have b: "m * 4096 + 4096 \<le> n * 4096" by simp
      with i have "m * 4096 + i < 4096 * max k (n + 1)" by (simp add: max_def)
      with 3 i b nth [OF this] show ?thesis
        by (simp add: disk_page_nth [OF wf'] disk_page_nth [OF wf] size own ksize)
    next
      case 4
      then have b: "n * 4096 + 4096 \<le> m * 4096" by simp
      show ?thesis
      proof (cases "m * 4096 + i < 4096 * max k (n + 1)")
        case True
        with b i have "m * 4096 + i < 4096 * k" by (simp add: max_def split: if_splits)
        with 4 i b True nth [OF True] show ?thesis
          by (simp add: disk_page_nth [OF wf'] disk_page_nth [OF wf] size own ksize)
      next
        case False
        then have "\<not> m * 4096 + i < 4096 * k" by (simp add: max_def split: if_splits)
        with 4 i False show ?thesis
          by (simp add: disk_page_nth [OF wf'] disk_page_nth [OF wf] size ksize)
      qed
    qed
  qed (simp add: lp)
  have "count_pages f s' = (if f = fd then max (count_pages fd s) (n + 1) else count_pages f s)" for f
    using k by (simp add: count_pages_def size) (simp add: file_size_def)
  with run wf' nf pages show ?thesis by (auto simp: no_faults_def set_content_def s'_def)
qed

end
