(* ===== verification/Heap_Page.thy ===== *)
theory Heap_Page
  imports Pages
begin

text \<open>
  The slotted page of a heap file (\<^verbatim>\<open>src/storage/heap_file/heap_file_page.h\<close> and
  \<^verbatim>\<open>.cc\<close>): a header with the number of directory entries and the free space, a directory
  that grows from the front, and tuples (a 32-byte version header and the column values) that
  grow from the back. This theory holds the operations, translated over the typed page
  accesses; \<open>Heap_Page_Rep\<close> relates them to a list of slots.
\<close>

definition HEADER_SIZE :: int where [simp]: "HEADER_SIZE = 8"
definition DIR_SIZE :: int where [simp]: "DIR_SIZE = 4"
definition TUPLE_HEADER_SIZE :: int where [simp]: "TUPLE_HEADER_SIZE = 32"
definition TMIN_OFFSET :: int where [simp]: "TMIN_OFFSET = 0"
definition TMAX_OFFSET :: int where [simp]: "TMAX_OFFSET = 8"
definition NEXT_RID_PAGE_OFFSET :: int where [simp]: "NEXT_RID_PAGE_OFFSET = 16"
definition NEXT_RID_DIR_OFFSET :: int where [simp]: "NEXT_RID_DIR_OFFSET = 20"
definition FIRST_RID_PAGE_OFFSET :: int where [simp]: "FIRST_RID_PAGE_OFFSET = 24"
definition FIRST_RID_DIR_OFFSET :: int where [simp]: "FIRST_RID_DIR_OFFSET = 28"

section \<open>The page header and the directory\<close>

definition get_dir_count :: "page \<Rightarrow> int res" where
  "get_dir_count p = read_int32 p 0"

definition get_free_space :: "page \<Rightarrow> int res" where
  "get_free_space p = read_int32 p 4"

definition get_dir :: "page \<Rightarrow> int \<Rightarrow> int res" where
  "get_dir p idx = read_int32 p (HEADER_SIZE + DIR_SIZE * idx)"

definition set_dir_count :: "page \<Rightarrow> int \<Rightarrow> page res" where
  "set_dir_count p n = write_int32 p 0 n"

definition set_free_space :: "page \<Rightarrow> int \<Rightarrow> page res" where
  "set_free_space p n = write_int32 p 4 n"

definition set_dir :: "page \<Rightarrow> int \<Rightarrow> int \<Rightarrow> page res" where
  "set_dir p idx d = write_int32 p (HEADER_SIZE + DIR_SIZE * idx) d"

text \<open>
  The constructor of \<^verbatim>\<open>HeapFilePage\<close>, after the buffer manager returned the page: a new
  page comes as zeros and gets its free space.
\<close>

definition heap_page_init :: "page \<Rightarrow> page res" where
  "heap_page_init p =
     bindE (get_dir_count p) (\<lambda>dc.
     bindE (get_free_space p) (\<lambda>fs.
       if dc = 0 \<and> fs = 0 then set_free_space p (int PAGE_SIZE - 2 * 4) else Inr p))"

section \<open>Tuple headers\<close>

definition get_tmin :: "page \<Rightarrow> int \<Rightarrow> tx_id res" where
  "get_tmin p dir_pos = bindE (get_dir p dir_pos) (\<lambda>off. read_int64 p (off + TMIN_OFFSET))"

definition get_tmax :: "page \<Rightarrow> int \<Rightarrow> tx_id res" where
  "get_tmax p dir_pos = bindE (get_dir p dir_pos) (\<lambda>off. read_int64 p (off + TMAX_OFFSET))"

definition set_tmax :: "page \<Rightarrow> int \<Rightarrow> tx_id \<Rightarrow> page res" where
  "set_tmax p dir_pos t =
     bindE (get_dir p dir_pos) (\<lambda>off. write_int64 p (off + TMAX_OFFSET) t)"

definition set_next_RID :: "page \<Rightarrow> int \<Rightarrow> rid \<Rightarrow> page res" where
  "set_next_RID p dir_pos r =
     bindE (get_dir p dir_pos) (\<lambda>off.
     bindE (write_int32 p (off + NEXT_RID_PAGE_OFFSET) (page_num r)) (\<lambda>p.
       write_int32 p (off + NEXT_RID_DIR_OFFSET) (dir_slot r)))"

definition set_first_RID :: "page \<Rightarrow> int \<Rightarrow> rid \<Rightarrow> page res" where
  "set_first_RID p dir_pos r =
     bindE (get_dir p dir_pos) (\<lambda>off.
     bindE (write_int32 p (off + FIRST_RID_PAGE_OFFSET) (page_num r)) (\<lambda>p.
       write_int32 p (off + FIRST_RID_DIR_OFFSET) (dir_slot r)))"

definition page_record_header :: "page \<Rightarrow> int \<Rightarrow> opt_header res" where
  "page_record_header p dir_pos =
     bindE (get_dir p dir_pos) (\<lambda>off.
       if off \<le> 0 then Inr None
       else
         bindE (read_int64 p (off + TMIN_OFFSET)) (\<lambda>tmin.
         bindE (read_int64 p (off + TMAX_OFFSET)) (\<lambda>tmax.
         bindE (read_int32 p (off + NEXT_RID_PAGE_OFFSET)) (\<lambda>next_page.
         bindE (read_int32 p (off + NEXT_RID_DIR_OFFSET)) (\<lambda>next_dir.
         bindE (read_int32 p (off + FIRST_RID_PAGE_OFFSET)) (\<lambda>first_page.
         bindE (read_int32 p (off + FIRST_RID_DIR_OFFSET)) (\<lambda>first_dir.
           Inr (Some \<lparr>t_min = tmin, t_max = tmax, next_rid = RID next_page next_dir,
                      first_rid = RID first_page first_dir\<rparr>))))))))"

definition update_record_header :: "page \<Rightarrow> int \<Rightarrow> rid \<Rightarrow> tx_id \<Rightarrow> page res" where
  "update_record_header p dir_pos new_rid tx =
     bindE (set_tmax p dir_pos tx) (\<lambda>p. set_next_RID p dir_pos new_rid)"

definition reset_update :: "page \<Rightarrow> int \<Rightarrow> page res" where
  "reset_update p dir_pos =
     bindE (set_tmax p dir_pos 0) (\<lambda>p. set_next_RID p dir_pos (RID (get_page_number p) dir_pos))"

definition reset_first :: "page \<Rightarrow> int \<Rightarrow> page res" where
  "reset_first p dir_pos = set_first_RID p dir_pos (RID (get_page_number p) dir_pos)"

definition delete_record_physically :: "page \<Rightarrow> int \<Rightarrow> page res" where
  "delete_record_physically p dir_pos = set_dir p dir_pos (-2)"

definition delete_record_logically :: "page \<Rightarrow> int \<Rightarrow> tx_id \<Rightarrow> page res" where
  "delete_record_logically p dir_pos tx =
     bindE (set_tmax p dir_pos tx) (\<lambda>p. set_next_RID p dir_pos (RID (-1) (-1)))"

text \<open>\<open>empty_from p i n\<close>: the loop of \<^verbatim>\<open>is_page_empty\<close> over the entries \<open>i, \<dots>, i + n - 1\<close>.\<close>

fun empty_from :: "page \<Rightarrow> int \<Rightarrow> nat \<Rightarrow> bool res" where
  "empty_from p i 0 = Inr True"
| "empty_from p i (Suc n) =
     bindE (get_dir p i) (\<lambda>d. if d \<ge> 0 then Inr False else empty_from p (i + 1) n)"

definition is_page_empty :: "page \<Rightarrow> bool res" where
  "is_page_empty p = bindE (get_dir_count p) (\<lambda>dc. empty_from p 0 (nat dc))"

section \<open>Reading a record\<close>

fun read_columns :: "page \<Rightarrow> int \<Rightarrow> column_info list \<Rightarrow> row res" where
  "read_columns p off [] = Inr []"
| "read_columns p off (c # cs) =
     (case ci_datatype c of
        DT_INT \<Rightarrow>
          bindE (read_int64 p off) (\<lambda>i.
          bindE (read_columns p (off + 8) cs) (\<lambda>r. Inr (VInt i # r)))
      | DT_STR \<Rightarrow>
          bindE (read_uint8 p off) (\<lambda>len.
          bindE (page_read p (off + 1) (unat len)) (\<lambda>bs.
          bindE (value_of_string (map char_of_byte bs)) (\<lambda>v.
          bindE (read_columns p (off + 1 + int (unat len)) cs) (\<lambda>r. Inr (v # r)))))
      | DT_RID \<Rightarrow> read_columns p off cs
      | DT_INVALID \<Rightarrow> read_columns p off cs)"

definition page_get_record :: "schema \<Rightarrow> page \<Rightarrow> int \<Rightarrow> row res" where
  "page_get_record sch p dir_pos =
     bindE (get_dir p dir_pos) (\<lambda>off.
       if off \<le> 0 then Inr no_row
       else read_columns p (off + TUPLE_HEADER_SIZE) (columns sch))"

section \<open>Inserting a record\<close>

text \<open>Bytes of the values, as \<^verbatim>\<open>try_insert_record\<close> and \<^verbatim>\<open>vacuum\<close> both count them.\<close>

fun values_size :: "row \<Rightarrow> int" where
  "values_size [] = 0"
| "values_size (v # vs) =
     (case v of VStr s \<Rightarrow> 1 + int (length s) | VInt i \<Rightarrow> 8 | VRid r \<Rightarrow> 0) + values_size vs"

text \<open>The first directory entry that is free, from \<open>i\<close> on, with \<open>n\<close> entries left.\<close>

fun find_dir :: "page \<Rightarrow> int \<Rightarrow> nat \<Rightarrow> int res" where
  "find_dir p i 0 = Inr i"
| "find_dir p i (Suc n) = bindE (get_dir p i) (\<lambda>d. if d > 0 then find_dir p (i + 1) n else Inr i)"

fun write_values :: "page \<Rightarrow> int \<Rightarrow> row \<Rightarrow> page res" where
  "write_values p off [] = Inr p"
| "write_values p off (VStr s # vs) =
     (let len = length s mod 256 in
      bindE (write_int8 p off (word_of_nat len)) (\<lambda>p.
      bindE (page_write p (off + 1) (map byte_of_char (take len s))) (\<lambda>p.
        write_values p (off + 1 + int len) vs)))"
| "write_values p off (VInt i # vs) =
     bindE (write_int64 p off i) (\<lambda>p. write_values p (off + 8) vs)"
| "write_values p off (VRid r # vs) = write_values p off vs"

definition write_tuple_header :: "page \<Rightarrow> int \<Rightarrow> tx_id \<Rightarrow> rid \<Rightarrow> rid \<Rightarrow> page res" where
  "write_tuple_header p off tx this first =
     bindE (write_int64 p (off + TMIN_OFFSET) tx) (\<lambda>p.
     bindE (write_int64 p (off + TMAX_OFFSET) 0) (\<lambda>p.
     bindE (write_int32 p (off + NEXT_RID_PAGE_OFFSET) (page_num this)) (\<lambda>p.
     bindE (write_int32 p (off + NEXT_RID_DIR_OFFSET) (dir_slot this)) (\<lambda>p.
     bindE (write_int32 p (off + FIRST_RID_PAGE_OFFSET) (page_num first)) (\<lambda>p.
       write_int32 p (off + FIRST_RID_DIR_OFFSET) (dir_slot first))))))"

text \<open>
  \<open>Inr (None, p)\<close> is the C++ result \<^verbatim>\<open>false\<close> (no space), \<open>Inr (Some r, p)\<close> the result
  \<^verbatim>\<open>true\<close> with \<^verbatim>\<open>*out_rid\<close> set to \<open>r\<close>.
\<close>

definition try_insert_record :: "page \<Rightarrow> row \<Rightarrow> tx_id \<Rightarrow> rid option \<Rightarrow> (rid option \<times> page) res" where
  "try_insert_record p rec tx first =
     (let needed = values_size rec in
      bindE (get_dir_count p) (\<lambda>dir_count.
      bindE (find_dir p 0 (nat dir_count)) (\<lambda>dir_pos.
      bindE (get_free_space p) (\<lambda>free_space.
        (let reuse = dir_pos < dir_count;
             space = needed + TUPLE_HEADER_SIZE + (if reuse then 0 else DIR_SIZE) in
         if free_space < space then Inr (None, p)
         else
           (let dir_count = (if reuse then dir_count else dir_count + 1);
                free_space = free_space - space;
                off = HEADER_SIZE + DIR_SIZE * dir_count + free_space;
                this = RID (get_page_number p) dir_pos in
            bindE (if reuse then Inr p else set_dir_count p dir_count) (\<lambda>p.
            bindE (set_free_space p free_space) (\<lambda>p.
            bindE (set_dir p dir_pos off) (\<lambda>p.
            bindE (write_tuple_header p off tx this (case first of None \<Rightarrow> this | Some f \<Rightarrow> f)) (\<lambda>p.
            bindE (write_values p (off + TUPLE_HEADER_SIZE) rec) (\<lambda>p.
              Inr (Some this, p)))))))))))) "

section \<open>Vacuum\<close>

text \<open>
  The loop copies the live tuples of the page into a fresh buffer, packed at its end. The
  buffer is \<^verbatim>\<open>new char[Page::SIZE]\<close>: its first contents are unknown and a parameter here. A
  store outside the buffer is undefined.
\<close>

record vacuum_state =
  vs_dir_count :: int
  vs_last_useful :: int
  vs_free_space :: int
  vs_buf :: "byte list"

definition buf_store :: "byte list \<Rightarrow> int \<Rightarrow> byte list \<Rightarrow> byte list res" where
  "buf_store buf off bs =
     (if 0 \<le> off \<and> nat off + length bs \<le> length buf then Inr (patch (nat off) bs buf) else Inl Stuck)"

definition vacuum_step :: "schema \<Rightarrow> page \<Rightarrow> int \<Rightarrow> vacuum_state \<Rightarrow> vacuum_state res" where
  "vacuum_step sch p i st =
     bindE (get_dir p i) (\<lambda>d.
       (let free_space = vs_free_space st - DIR_SIZE in
        if d < 0 then
          bindE (buf_store (vs_buf st) (HEADER_SIZE + 4 * i) (enc32 (-1))) (\<lambda>buf.
            Inr (st\<lparr>vs_dir_count := vs_dir_count st + 1, vs_free_space := free_space, vs_buf := buf\<rparr>))
        else
          bindE (page_get_record sch p i) (\<lambda>rec.
            (let record_size = TUPLE_HEADER_SIZE + values_size rec;
                 dir_count = vs_dir_count st + 1;
                 free_space = free_space - record_size;
                 off = HEADER_SIZE + DIR_SIZE * dir_count + free_space in
             bindE (buf_store (vs_buf st) (HEADER_SIZE + 4 * (dir_count - 1)) (enc32 off)) (\<lambda>buf.
             bindE (page_read p d (nat record_size)) (\<lambda>bs.
             bindE (buf_store buf off bs) (\<lambda>buf.
               Inr \<lparr>vs_dir_count = dir_count, vs_last_useful = vs_dir_count st,
                    vs_free_space = free_space, vs_buf = buf\<rparr>)))))))"

fun vacuum_loop :: "schema \<Rightarrow> page \<Rightarrow> int \<Rightarrow> nat \<Rightarrow> vacuum_state \<Rightarrow> vacuum_state res" where
  "vacuum_loop sch p i 0 st = Inr st"
| "vacuum_loop sch p i (Suc n) st =
     bindE (vacuum_step sch p i st) (\<lambda>st. vacuum_loop sch p (i + 1) n st)"

definition page_vacuum :: "schema \<Rightarrow> byte list \<Rightarrow> page \<Rightarrow> page res" where
  "page_vacuum sch garbage p =
     bindE (get_dir_count p) (\<lambda>n.
     bindE (vacuum_loop sch p 0 (nat n)
              \<lparr>vs_dir_count = 0, vs_last_useful = 0,
               vs_free_space = int PAGE_SIZE - HEADER_SIZE, vs_buf = garbage\<rparr>) (\<lambda>st.
       (let last_useful = vs_last_useful st + 1;
            free_space = vs_free_space st + (vs_dir_count st - last_useful) * DIR_SIZE in
        bindE (page_write p 0 (vs_buf st)) (\<lambda>p.
        bindE (write_int32 p 0 last_useful) (\<lambda>p.
          write_int32 p 4 free_space)))))"

section \<open>Every operation evolves the page\<close>

text \<open>
  \<open>keeps f p m\<close>: whatever page the computation \<open>m\<close> returns (in the component \<open>f\<close> of its
  result) has evolved from \<open>p\<close>. One rule per construct of the operations.
\<close>

definition keeps :: "('a \<Rightarrow> page) \<Rightarrow> page \<Rightarrow> 'a res \<Rightarrow> bool" where
  "keeps f p m \<longleftrightarrow> (\<forall>x. m = Inr x \<longrightarrow> page_evolves p (f x))"

named_theorems evolve \<open>operations that keep the page contract\<close>

lemma keepsD: "keeps f p m \<Longrightarrow> m = Inr x \<Longrightarrow> page_evolves p (f x)"
  by (simp add: keeps_def)

lemma keeps_return [evolve]: "page_evolves p (f x) \<Longrightarrow> keeps f p (Inr x)" "keeps f p (Inl e)"
  by (simp_all add: keeps_def)

lemma keeps_read: "(\<And>x. keeps f p (g x)) \<Longrightarrow> keeps f p (bindE m g)"
  by (auto simp: keeps_def bindE_Inr_iff)

lemma keeps_read_int:
  fixes m :: "int res"
  shows "(\<And>x. keeps f p (g x)) \<Longrightarrow> keeps f p (bindE m g)"
  by (rule keeps_read)

lemma keeps_seq:
  "keeps (\<lambda>p. p) p m \<Longrightarrow> (\<And>q. page_evolves p q \<Longrightarrow> keeps f p (g q)) \<Longrightarrow> keeps f p (bindE m g)"
  by (auto simp: keeps_def bindE_Inr_iff)

lemma keeps_if [evolve]:
  "(b \<Longrightarrow> keeps f p m) \<Longrightarrow> (\<not> b \<Longrightarrow> keeps f p n) \<Longrightarrow> keeps f p (if b then m else n)"
  by simp

lemma keeps_page_write [evolve]: "page_evolves p q \<Longrightarrow> keeps (\<lambda>p. p) p (page_write q off bs)"
  by (auto simp: keeps_def intro: page_evolves_trans page_write_evolves)

lemma keeps_write [evolve]:
  "page_evolves p q \<Longrightarrow> keeps (\<lambda>p. p) p (write_int8 q off b)"
  "page_evolves p q \<Longrightarrow> keeps (\<lambda>p. p) p (write_int32 q off i)"
  "page_evolves p q \<Longrightarrow> keeps (\<lambda>p. p) p (write_int64 q off w)"
  by (auto simp: write_int8_def write_int32_def write_int64_def intro: evolve)

lemma keeps_set [evolve]:
  "page_evolves p q \<Longrightarrow> keeps (\<lambda>p. p) p (set_dir_count q i)"
  "page_evolves p q \<Longrightarrow> keeps (\<lambda>p. p) p (set_free_space q i)"
  "page_evolves p q \<Longrightarrow> keeps (\<lambda>p. p) p (set_dir q d i)"
  "page_evolves p q \<Longrightarrow> keeps (\<lambda>p. p) p (set_tmax q d t)"
  "page_evolves p q \<Longrightarrow> keeps (\<lambda>p. p) p (set_next_RID q d r)"
  "page_evolves p q \<Longrightarrow> keeps (\<lambda>p. p) p (set_first_RID q d r)"
  by (auto simp: set_dir_count_def set_free_space_def set_dir_def set_tmax_def set_next_RID_def
      set_first_RID_def intro!: evolve intro: keeps_read keeps_seq)

lemma keeps_heap_page_init [evolve]: "keeps (\<lambda>p. p) p (heap_page_init p)"
  unfolding heap_page_init_def by (intro keeps_read_int evolve page_evolves_refl)

lemma keeps_header_ops [evolve]:
  "page_evolves p q \<Longrightarrow> keeps (\<lambda>p. p) p (update_record_header q d r t)"
  "page_evolves p q \<Longrightarrow> keeps (\<lambda>p. p) p (reset_update q d)"
  "page_evolves p q \<Longrightarrow> keeps (\<lambda>p. p) p (reset_first q d)"
  "page_evolves p q \<Longrightarrow> keeps (\<lambda>p. p) p (delete_record_physically q d)"
  "page_evolves p q \<Longrightarrow> keeps (\<lambda>p. p) p (delete_record_logically q d t)"
  by (auto simp: update_record_header_def reset_update_def reset_first_def
      delete_record_physically_def delete_record_logically_def intro!: keeps_seq evolve)

lemma keeps_write_values [evolve]:
  "page_evolves p q \<Longrightarrow> keeps (\<lambda>p. p) p (write_values q off vs)"
proof (induction vs arbitrary: q off)
  case (Cons v vs)
  then show ?case by (cases v) (auto simp: Let_def intro!: keeps_seq evolve Cons.IH)
qed (simp add: evolve)

lemma keeps_write_tuple_header [evolve]:
  "page_evolves p q \<Longrightarrow> keeps (\<lambda>p. p) p (write_tuple_header q off tx this first)"
  unfolding write_tuple_header_def by (intro keeps_seq evolve)

lemma keeps_try_insert_record [evolve]: "keeps snd p (try_insert_record p rec tx first)"
  unfolding try_insert_record_def Let_def
  by (intro keeps_read_int keeps_if keeps_seq evolve; simp)

lemma keeps_page_vacuum [evolve]: "keeps (\<lambda>p. p) p (page_vacuum sch g p)"
  unfolding page_vacuum_def Let_def
  by (rule keeps_read_int, rule keeps_read, intro keeps_seq evolve) simp_all

end
