(* ===== verification/Buffer.thy ===== *)
theory Buffer
  imports Files Heap_Page
begin

text \<open>
  The buffer manager (\<^verbatim>\<open>src/system/buffer_manager.cc\<close>): frames replaced by a clock with a
  second chance, a map from page ids to frames, pages pinned while in use. Below: the interface
  its clients rely on (locale \<open>page_cache\<close>) and the proof that the code provides it.
\<close>

section \<open>State and operations\<close>

record buf_state =
  b_fs :: fs_state
  b_frames :: "page list"
  b_clock :: nat
  b_map :: "page_id \<Rightarrow> nat option"

definition onFs :: "(fs_state, 'a) act \<Rightarrow> (buf_state, 'a) act" where
  "onFs m s = Option.bind (m (b_fs s)) (\<lambda>(r, fs). Some (r, s\<lparr>b_fs := fs\<rparr>))"

definition set_frame :: "nat \<Rightarrow> page \<Rightarrow> buf_state \<Rightarrow> buf_state" where
  "set_frame i p s = s\<lparr>b_frames := (b_frames s)[i := p]\<rparr>"

text \<open>\<^verbatim>\<open>buffer_size / Page::SIZE\<close> frames, all unassigned.\<close>

definition buf_init :: "fs_state \<Rightarrow> nat \<Rightarrow> buf_state" where
  "buf_init fs bytes =
     \<lparr>b_fs = fs, b_frames = replicate (bytes div PAGE_SIZE) (set_bytes new_page (replicate PAGE_SIZE 0)),
      b_clock = 0, b_map = (\<lambda>_. None)\<rparr>"

text \<open>
  \<^verbatim>\<open>get_unused_page\<close>: the clock goes round until it meets an unpinned frame without a second
  chance; if every frame is pinned it never stops.
\<close>

definition clock_next :: "nat \<Rightarrow> nat \<Rightarrow> nat" where
  "clock_next n c = (if c + 1 < n then c + 1 else 0)"

partial_function (option) clock_scan :: "page list \<Rightarrow> nat \<Rightarrow> (nat \<times> page list) run" where
  "clock_scan fr c =
     (if c < length fr then
        if pg_pins (fr ! c) = 0 then
          if \<not> pg_second_chance (fr ! c) then retO (c, fr)
          else clock_scan (fr[c := (fr ! c)\<lparr>pg_second_chance := False\<rparr>]) (clock_next (length fr) c)
        else clock_scan fr (clock_next (length fr) c)
      else Some (Inl Stuck))"

definition get_unused_page :: "(buf_state, nat) act" where
  "get_unused_page s =
     (case clock_scan (b_frames s) (b_clock s) of
        None \<Rightarrow> None
      | Some (Inl e) \<Rightarrow> Some (Inl e, s)
      | Some (Inr (c, fr)) \<Rightarrow> Some (Inr c, s\<lparr>b_frames := fr, b_clock := c\<rparr>))"

text \<open>The page number is narrowed to the \<^verbatim>\<open>int32_t\<close> of a \<^verbatim>\<open>PageId\<close>.\<close>

definition to_int32 :: "int \<Rightarrow> int" where
  "to_int32 i = (i + 2 ^ 31) mod 2 ^ 32 - 2 ^ 31"

definition get_page :: "file_id \<Rightarrow> int \<Rightarrow> (buf_state, nat) act" where
  "get_page f n =
     (let pid = PageId f (to_int32 n) in
      bindA getA (\<lambda>s.
        case b_map s pid of
          Some i \<Rightarrow> bindA (modifyA (\<lambda>s. set_frame i (pin (b_frames s ! i)) s)) (\<lambda>_. returnA i)
        | None \<Rightarrow>
            bindA get_unused_page (\<lambda>i.
            bindA getA (\<lambda>s. let p = b_frames s ! i in
            bindA (whenA (pid_file (pg_id p) \<noteq> UNASSIGNED)
                     (modifyA (\<lambda>s. s\<lparr>b_map := (b_map s)(pg_id p := None)\<rparr>))) (\<lambda>_.
            bindA (if pg_dirty p then onFs (fm_flush p) else returnA p) (\<lambda>p.
            bindA (liftA (reassign p pid)) (\<lambda>p.
            bindA (modifyA (set_frame i p)) (\<lambda>_.
            bindA (onFs (fm_read_page pid)) (\<lambda>bs.
            bindA (modifyA (\<lambda>s. (set_frame i (set_bytes p bs) s)\<lparr>b_map := (b_map s)(pid \<mapsto> i)\<rparr>)) (\<lambda>_.
              returnA i))))))))))"

definition append_page :: "file_id \<Rightarrow> (buf_state, nat) act" where
  "append_page f = bindA getA (\<lambda>s. get_page f (int (count_pages f (b_fs s))))"

definition unpin_page :: "nat \<Rightarrow> (buf_state, unit) act" where
  "unpin_page i =
     bindA getA (\<lambda>s. bindA (liftA (unpin (b_frames s ! i))) (\<lambda>p. modifyA (set_frame i p)))"

definition delete_page :: "file_id \<Rightarrow> int \<Rightarrow> (buf_state, unit) act" where
  "delete_page f n =
     (let pid = PageId f (to_int32 n) in
      bindA getA (\<lambda>s.
        case b_map s pid of
          None \<Rightarrow> returnA ()
        | Some i \<Rightarrow> bindA (liftA (reset_page (b_frames s ! i))) (\<lambda>p.
            modifyA (\<lambda>s. (set_frame i p s)\<lparr>b_map := (b_map s)(pid := None)\<rparr>))))"

definition forget_dirty :: "file_id \<Rightarrow> page \<Rightarrow> page" where
  "forget_dirty f p =
     (if pid_file (pg_id p) = f then p\<lparr>pg_dirty := False, pg_second_chance := False\<rparr> else p)"

definition buf_delete_file :: "file_id \<Rightarrow> (buf_state, unit) act" where
  "buf_delete_file f =
     bindA (modifyA (\<lambda>s. s\<lparr>b_frames := map (forget_dirty f) (b_frames s)\<rparr>)) (\<lambda>_.
       onFs (fm_delete_file f))"

text \<open>\<^verbatim>\<open>flush()\<close> visits the frames \<open>i, i + 1, \<dots>\<close>, \<open>n\<close> of them.\<close>

fun flush_from :: "nat \<Rightarrow> nat \<Rightarrow> (buf_state, unit) act" where
  "flush_from i 0 = returnA ()"
| "flush_from i (Suc n) =
     bindA getA (\<lambda>s. let p = b_frames s ! i in
       if pg_pins p \<noteq> 0 then throwA Stuck
       else if pg_dirty p then
         bindA (onFs (fm_flush p)) (\<lambda>p. bindA (modifyA (set_frame i p)) (\<lambda>_. flush_from (i + 1) n))
       else flush_from (i + 1) n)"

definition flush :: "(buf_state, unit) act" where
  "flush = bindA getA (\<lambda>s. flush_from 0 (length (b_frames s)))"

definition fake_flush :: "(buf_state, unit) act" where
  "fake_flush = modifyA (\<lambda>s. s\<lparr>b_frames := map (\<lambda>p. p\<lparr>pg_dirty := False\<rparr>) (b_frames s)\<rparr>)"

section \<open>The clock stops\<close>

text \<open>
  The scan visits each frame at most twice: \<open>steps\<close> is the distance to the first unpinned
  frame, or a full turn more when that frame has its second chance.
\<close>

definition clock_dist :: "nat \<Rightarrow> nat \<Rightarrow> nat \<Rightarrow> nat" where
  "clock_dist n c u = (if c \<le> u then u - c else u + n - c)"

lemma clock_dist_next:
  "c < n \<Longrightarrow> u < n \<Longrightarrow> c \<noteq> u \<Longrightarrow> Suc (clock_dist n (clock_next n c) u) = clock_dist n c u"
  by (auto simp: clock_dist_def clock_next_def)

lemma clock_dist_less: "c < n \<Longrightarrow> u < n \<Longrightarrow> clock_dist n c u < n"
  by (auto simp: clock_dist_def)

definition frames_sim :: "page list \<Rightarrow> page list \<Rightarrow> bool" where
  "frames_sim fr fr' \<longleftrightarrow> length fr' = length fr \<and>
     (\<forall>i < length fr. fr' ! i = fr ! i \<or>
        (pg_pins (fr ! i) = 0 \<and> fr' ! i = (fr ! i)\<lparr>pg_second_chance := False\<rparr>))"

lemma frames_sim_refl [simp]: "frames_sim fr fr"
  by (simp add: frames_sim_def)

lemma frames_sim_update:
  "c < length fr \<Longrightarrow> pg_pins (fr ! c) = 0 \<Longrightarrow>
   frames_sim fr (fr[c := (fr ! c)\<lparr>pg_second_chance := False\<rparr>])"
  by (auto simp: frames_sim_def nth_list_update)

lemma frames_sim_trans: "frames_sim a b \<Longrightarrow> frames_sim b c \<Longrightarrow> frames_sim a c"
proof -
  assume ab: "frames_sim a b" and bc: "frames_sim b c"
  have "c ! i = a ! i \<or> (pg_pins (a ! i) = 0 \<and> c ! i = (a ! i)\<lparr>pg_second_chance := False\<rparr>)"
    if "i < length a" for i
  proof -
    have "b ! i = a ! i \<or> (pg_pins (a ! i) = 0 \<and> b ! i = (a ! i)\<lparr>pg_second_chance := False\<rparr>)"
      "c ! i = b ! i \<or> (pg_pins (b ! i) = 0 \<and> c ! i = (b ! i)\<lparr>pg_second_chance := False\<rparr>)"
      using ab bc that by (simp_all add: frames_sim_def)
    then show ?thesis by (elim disjE) auto
  qed
  with ab bc show "frames_sim a c" by (simp add: frames_sim_def)
qed

lemma clock_scan_stops:
  assumes "c < length fr" "u < length fr" "pg_pins (fr ! u) = 0"
  shows "\<exists>i fr'. clock_scan fr c = Some (Inr (i, fr')) \<and> i < length fr \<and> frames_sim fr fr' \<and>
     pg_pins (fr' ! i) = 0 \<and> \<not> pg_second_chance (fr' ! i)"
  using assms
proof (induction "clock_dist (length fr) c u + (if pg_second_chance (fr ! u) then length fr else 0)"
    arbitrary: fr c rule: less_induct)
  case less
  let ?n = "length fr"
  have nxt: "clock_next ?n c < ?n" using less.prems(1) by (cases fr) (auto simp: clock_next_def)
  show ?case
  proof (cases "pg_pins (fr ! c) = 0")
    case True
    show ?thesis
    proof (cases "pg_second_chance (fr ! c)")
      case False
      with True less.prems(1) show ?thesis
        by (subst clock_scan.simps) (auto simp: retO_def)
    next
      case sc: True
      let ?fr = "fr[c := (fr ! c)\<lparr>pg_second_chance := False\<rparr>]"
      have "clock_dist ?n (clock_next ?n c) u + (if pg_second_chance (?fr ! u) then ?n else 0)
          < clock_dist ?n c u + (if pg_second_chance (fr ! u) then ?n else 0)"
        using clock_dist_next [OF less.prems(1,2)] clock_dist_less [OF nxt less.prems(2)] sc less.prems(2)
        by (cases "c = u") (auto simp: nth_list_update)
      then have "\<exists>i fr'. clock_scan ?fr (clock_next ?n c) = Some (Inr (i, fr')) \<and> i < length ?fr \<and>
          frames_sim ?fr fr' \<and> pg_pins (fr' ! i) = 0 \<and> \<not> pg_second_chance (fr' ! i)"
        by (intro less.hyps, unfold length_list_update)
          (use less.prems nxt in \<open>simp_all add: nth_list_update\<close>)
      then show ?thesis
        using frames_sim_trans [OF frames_sim_update [OF less.prems(1) True]] True sc less.prems(1)
        by (subst clock_scan.simps) auto
    qed
  next
    case False
    then have "c \<noteq> u" using less.prems(3) by auto
    then have "clock_dist ?n (clock_next ?n c) u < clock_dist ?n c u"
      using clock_dist_next [OF less.prems(1,2)] by simp
    then show ?thesis
      using less.hyps [of fr "clock_next ?n c"] less.prems nxt False by (subst clock_scan.simps) simp
  qed
qed

section \<open>The invariant and the pages it presents\<close>

text \<open>
  A file is live while its name is registered. Page \<open>n\<close> of a live file is the bytes of its frame
  when it has one, and the bytes on disk otherwise; a clean frame agrees with the disk.
\<close>

definition buf_live :: "buf_state \<Rightarrow> file_id \<Rightarrow> bool" where
  "buf_live s f \<longleftrightarrow> f \<in> snd ` set (fs_names (b_fs s)) \<and> f \<noteq> UNASSIGNED"

definition buf_view :: "buf_state \<Rightarrow> file_id \<Rightarrow> nat \<Rightarrow> byte list" where
  "buf_view s f n =
     (case b_map s (PageId f (int n)) of
        Some i \<Rightarrow> pg_bytes (b_frames s ! i)
      | None \<Rightarrow> disk_page (b_fs s) f n)"

definition buf_pages :: "buf_state \<Rightarrow> file_id \<Rightarrow> nat" where
  "buf_pages s f = count_pages f (b_fs s)"

definition frame_ok :: "buf_state \<Rightarrow> nat \<Rightarrow> bool" where
  "frame_ok s i \<longleftrightarrow>
     (let p = b_frames s ! i; f = pid_file (pg_id p); n = pid_page (pg_id p) in
      page_wf p \<and> 0 \<le> pg_pins p \<and>
      (if f = UNASSIGNED then \<not> pg_dirty p \<and> pg_pins p = 0
       else b_map s (pg_id p) = Some i \<and> page_in_range n \<and> nat n < buf_pages s f \<and>
            (\<not> pg_dirty p \<and> buf_live s f \<longrightarrow> pg_bytes p = disk_page (b_fs s) f (nat n))))"

definition buf_wf :: "buf_state \<Rightarrow> bool" where
  "buf_wf s \<longleftrightarrow>
     fs_wf (b_fs s) \<and> no_faults (b_fs s) \<and> b_clock s < length (b_frames s) \<and>
     (\<forall>i < length (b_frames s). frame_ok s i) \<and>
     (\<forall>pid i. b_map s pid = Some i \<longrightarrow>
        i < length (b_frames s) \<and> pg_id (b_frames s ! i) = pid \<and> pid_file pid \<noteq> UNASSIGNED)"

text \<open>There is a frame to evict.\<close>

definition buf_room :: "buf_state \<Rightarrow> bool" where
  "buf_room s \<longleftrightarrow> (\<exists>i < length (b_frames s). pg_pins (b_frames s ! i) = 0)"

text \<open>A client holds frame \<open>i\<close> for page \<open>n\<close> of file \<open>f\<close>.\<close>

definition buf_holds :: "buf_state \<Rightarrow> file_id \<Rightarrow> nat \<Rightarrow> nat \<Rightarrow> bool" where
  "buf_holds s f n i \<longleftrightarrow> b_map s (PageId f (int n)) = Some i \<and> 0 < pg_pins (b_frames s ! i)"

definition same_view :: "buf_state \<Rightarrow> buf_state \<Rightarrow> bool" where
  "same_view s s' \<longleftrightarrow> (\<forall>f. buf_live s' f = buf_live s f) \<and>
     (\<forall>f n. buf_live s f \<longrightarrow> buf_view s' f n = buf_view s f n)"

lemma to_int32_id: "int32 i \<Longrightarrow> to_int32 i = i"
  unfolding to_int32_def int32_def by (subst mod_pos_pos_trivial) auto

lemma in_range_int32: "page_in_range n \<Longrightarrow> int32 n"
  by (simp add: page_in_range_def int32_def)

lemma buf_wfD:
  assumes "buf_wf s"
  shows "fs_wf (b_fs s)" "no_faults (b_fs s)" "b_clock s < length (b_frames s)"
    "i < length (b_frames s) \<Longrightarrow> frame_ok s i"
    "b_map s pid = Some i \<Longrightarrow> i < length (b_frames s)"
    "b_map s pid = Some i \<Longrightarrow> pg_id (b_frames s ! i) = pid"
    "b_map s pid = Some i \<Longrightarrow> pid_file pid \<noteq> UNASSIGNED"
  using assms by (auto simp: buf_wf_def)

lemma frame_okD:
  assumes "frame_ok s i"
  shows "page_wf (b_frames s ! i)" "0 \<le> pg_pins (b_frames s ! i)"
  using assms by (auto simp: frame_ok_def Let_def)

text \<open>The map is injective: two ids never share a frame.\<close>

lemma map_inj: "buf_wf s \<Longrightarrow> b_map s p = Some i \<Longrightarrow> b_map s q = Some i \<Longrightarrow> p = q"
  using buf_wfD(6) by metis

text \<open>The scan clears second chances and moves the clock: nothing the invariant looks at.\<close>

lemma wf_scanned:
  assumes wf: "buf_wf s" and sim: "frames_sim (b_frames s) fr" and c: "c < length (b_frames s)"
  shows "buf_wf (s\<lparr>b_frames := fr, b_clock := c\<rparr>)" "same_view s (s\<lparr>b_frames := fr, b_clock := c\<rparr>)"
proof -
  let ?s = "s\<lparr>b_frames := fr, b_clock := c\<rparr>"
  have fr: "length fr = length (b_frames s)" using sim by (simp add: frames_sim_def)
  have same: "pg_id (fr ! i) = pg_id (b_frames s ! i)" "pg_bytes (fr ! i) = pg_bytes (b_frames s ! i)"
    "pg_pins (fr ! i) = pg_pins (b_frames s ! i)" "pg_dirty (fr ! i) = pg_dirty (b_frames s ! i)"
    if "i < length (b_frames s)" for i
    using sim that by (auto simp: frames_sim_def)
  have "frame_ok ?s i" if i: "i < length (b_frames s)" for i
    using buf_wfD(4) [OF wf i] same [OF i]
    by (auto simp: frame_ok_def Let_def page_wf_def buf_pages_def buf_live_def split: if_splits)
  then show "buf_wf ?s" using wf c fr same by (auto simp: buf_wf_def)
  show "same_view s ?s"
    using buf_wfD(5) [OF wf] same by (auto simp: same_view_def buf_live_def buf_view_def split: option.splits)
qed

text \<open>Replacing the contents of a mapped frame.\<close>

lemma wf_set_frame:
  assumes wf: "buf_wf s" and i: "b_map s pid = Some i"
    and p: "pg_id p = pid" "page_wf p" "0 \<le> pg_pins p"
      "\<not> pg_dirty p \<Longrightarrow> buf_live s (pid_file pid) \<Longrightarrow>
         pg_bytes p = disk_page (b_fs s) (pid_file pid) (nat (pid_page pid))"
  shows "buf_wf (set_frame i p s)"
proof -
  let ?s = "set_frame i p s"
  note il = buf_wfD(5) [OF wf i] and id = buf_wfD(6) [OF wf i] and ua = buf_wfD(7) [OF wf i]
  have "frame_ok ?s j" if j: "j < length (b_frames s)" for j
  proof (cases "j = i")
    case True
    with buf_wfD(4) [OF wf il] id ua p il i show ?thesis
      by (auto simp: frame_ok_def Let_def set_frame_def buf_pages_def buf_live_def split: if_splits)
  next
    case False
    with buf_wfD(4) [OF wf j] show ?thesis
      by (auto simp: frame_ok_def Let_def set_frame_def buf_pages_def buf_live_def split: if_splits)
  qed
  moreover have "pg_id (b_frames ?s ! j) = q" if "b_map s q = Some j" for q j
    using that buf_wfD(5,6) [OF wf that] map_inj [OF wf i] p(1)
    by (cases "j = i") (auto simp: set_frame_def)
  ultimately show ?thesis
    using wf buf_wfD(5,7) [OF wf] by (simp add: buf_wf_def set_frame_def)
qed

lemma view_set_frame:
  assumes wf: "buf_wf s" and i: "b_map s (PageId f (int n)) = Some i"
  shows "buf_view (set_frame i p s) g m =
     (if g = f \<and> m = n then pg_bytes p else buf_view s g m)"
proof (cases "b_map s (PageId g (int m))")
  case None
  with i show ?thesis by (auto simp: buf_view_def set_frame_def)
next
  case (Some j)
  have "j = i \<longleftrightarrow> g = f \<and> m = n" using map_inj [OF wf i, of "PageId g (int m)"] i Some by auto
  with Some buf_wfD(5) [OF wf i] show ?thesis
    by (cases "j = i") (auto simp: buf_view_def set_frame_def)
qed

lemma flush_if_dirty:
  assumes wf: "buf_wf s" and i: "i < length (b_frames s)" and p: "p = b_frames s ! i"
    and fs: "b_fs s' = b_fs s"
  shows "\<exists>fs. (if pg_dirty p then onFs (fm_flush p) else returnA p) s' =
        Some (Inr (p\<lparr>pg_dirty := False\<rparr>), s'\<lparr>b_fs := fs\<rparr>) \<and>
     fs_wf fs \<and> no_faults fs \<and> fs_names fs = fs_names (b_fs s) \<and>
     (\<forall>f m. disk_page fs f m =
        (if pg_dirty p \<and> pg_id p = PageId f (int m) then pg_bytes p else disk_page (b_fs s) f m)) \<and>
     (\<forall>f. count_pages f fs = count_pages f (b_fs s))"
proof (cases "pg_dirty p")
  case True
  note ok = buf_wfD(4) [OF wf i, unfolded frame_ok_def Let_def]
  define f n where "f = pid_file (pg_id p)" and "n = nat (pid_page (pg_id p))"
  have pid: "pg_id p = PageId f (int n)" and r: "page_in_range (int n)" and w: "page_wf p"
    and c: "n < count_pages f (b_fs s)"
    using ok True by (auto simp: f_def n_def p page_in_range_def buf_pages_def split: if_splits)
  from flush_run [OF buf_wfD(1,2) [OF wf] pid r w] obtain fs where fs':
    "fm_flush p (b_fs s) = Some (Inr (p\<lparr>pg_dirty := False\<rparr>), fs)" "fs_wf fs" "no_faults fs"
    "\<forall>g m. disk_page fs g m = (if g = f \<and> m = n then pg_bytes p else disk_page (b_fs s) g m)"
    "\<forall>g. count_pages g fs = (if g = f then max (count_pages f (b_fs s)) (n + 1) else count_pages g (b_fs s))"
    "fs_names fs = fs_names (b_fs s)" by blast
  then show ?thesis
    using True c by (intro exI [of _ fs]) (auto simp: onFs_def fs pid)
next
  case False
  then have "p = p\<lparr>pg_dirty := False\<rparr>" by simp
  then show ?thesis
    using False buf_wfD(1,2) [OF wf] by (intro exI [of _ "b_fs s"]) (auto simp: act_run fs [symmetric])
qed

section \<open>get_page\<close>

text \<open>One more pin on frame \<open>i\<close>; the pins of the others, and what they are pinned for, stay.\<close>

definition pinned_more :: "buf_state \<Rightarrow> buf_state \<Rightarrow> nat \<Rightarrow> bool" where
  "pinned_more s s' i \<longleftrightarrow> length (b_frames s') = length (b_frames s) \<and> i < length (b_frames s) \<and>
     (\<forall>j < length (b_frames s).
        pg_pins (b_frames s' ! j) = pg_pins (b_frames s ! j) + (if j = i then 1 else 0)) \<and>
     (\<forall>pid j. b_map s pid = Some j \<and> 0 < pg_pins (b_frames s ! j) \<longrightarrow> b_map s' pid = Some j)"

lemma get_page_hit:
  assumes wf: "buf_wf s" and n: "page_in_range (int n)" and i: "b_map s (PageId f (int n)) = Some i"
  shows "\<exists>s'. get_page f (int n) s = Some (Inr i, s') \<and> buf_wf s' \<and> same_view s s' \<and>
     buf_holds s' f n i \<and> pg_bytes (b_frames s' ! i) = buf_view s f n \<and> buf_pages s' = buf_pages s \<and>
     pinned_more s s' i"
proof -
  let ?p = "pin (b_frames s ! i)"
  note il = buf_wfD(5) [OF wf i] and id = buf_wfD(6) [OF wf i] and ua = buf_wfD(7) [OF wf i]
  note ok = buf_wfD(4) [OF wf il]
  have run: "get_page f (int n) s = Some (Inr i, set_frame i ?p s)"
    using i by (simp add: get_page_def Let_def to_int32_id in_range_int32 [OF n] bindA_def act_run)
  have "buf_wf (set_frame i ?p s)"
    using ok id ua
    by (intro wf_set_frame [OF wf i])
      (auto simp: pin_def frame_ok_def Let_def page_wf_def split: if_splits)
  moreover have "buf_view (set_frame i ?p s) g m = buf_view s g m" for g m
    using view_set_frame [OF wf i] i by (auto simp: pin_def buf_view_def)
  moreover have "buf_live (set_frame i ?p s) = buf_live s" "buf_pages (set_frame i ?p s) = buf_pages s"
    by (simp_all add: fun_eq_iff buf_live_def buf_pages_def set_frame_def)
  moreover have "buf_holds (set_frame i ?p s) f n i" "pg_bytes (b_frames (set_frame i ?p s) ! i) = buf_view s f n"
    using i il frame_okD(2) [OF ok] by (simp_all add: buf_holds_def set_frame_def pin_def buf_view_def)
  moreover have "pinned_more s (set_frame i ?p s) i"
    using il by (auto simp: pinned_more_def set_frame_def pin_def nth_list_update)
  ultimately show ?thesis using run by (auto simp: same_view_def)
qed

text \<open>A victim frame \<open>i\<close> takes over page \<open>n\<close> of \<open>f\<close>: the state \<^verbatim>\<open>get_page\<close> ends in.\<close>

definition taken_over :: "buf_state \<Rightarrow> nat \<Rightarrow> fs_state \<Rightarrow> page_id \<Rightarrow> byte list \<Rightarrow> buf_state" where
  "taken_over s i fs pid bs =
     (let p = b_frames s ! i in
      s\<lparr>b_fs := fs,
        b_frames := (b_frames s)[i := p\<lparr>pg_dirty := False, pg_id := pid, pg_pins := 1,
                                       pg_second_chance := True, pg_bytes := bs\<rparr>],
        b_map := (if pid_file (pg_id p) \<noteq> UNASSIGNED then (b_map s)(pg_id p := None) else b_map s)
                   (pid \<mapsto> i)\<rparr>)"

lemma take_over_wf:
  assumes wf: "buf_wf s" and i: "i < length (b_frames s)" and free: "pg_pins (b_frames s ! i) = 0"
    and none: "b_map s (PageId f (int n)) = None" and f: "f \<noteq> UNASSIGNED" "page_in_range (int n)"
    and fs: "fs_wf fs" "no_faults fs" "fs_names fs = fs_names (b_fs s)"
      "\<And>g m. disk_page fs g m = (if pg_dirty (b_frames s ! i) \<and> pg_id (b_frames s ! i) = PageId g (int m)
          then pg_bytes (b_frames s ! i) else disk_page (b_fs s) g m)"
      "\<And>g. count_pages g fs = (if g = f then max (count_pages f (b_fs s)) (n + 1) else count_pages g (b_fs s))"
    and bs: "bs = disk_page fs f n"
  shows "buf_wf (taken_over s i fs (PageId f (int n)) bs)"
    and "same_view s (taken_over s i fs (PageId f (int n)) bs)"
proof -
  let ?pid = "PageId f (int n)" and ?p = "b_frames s ! i"
  define s' where "s' = taken_over s i fs ?pid bs"
  have frames: "b_frames s' ! j = (if j = i then ?p\<lparr>pg_dirty := False, pg_id := ?pid, pg_pins := 1,
      pg_second_chance := True, pg_bytes := bs\<rparr> else b_frames s ! j)" "length (b_frames s') = length (b_frames s)"
    for j using i by (simp_all add: s'_def taken_over_def Let_def)
  have map: "b_map s' q = (if q = ?pid then Some i
      else if pid_file (pg_id ?p) \<noteq> UNASSIGNED \<and> q = pg_id ?p then None else b_map s q)" for q
    by (simp add: s'_def taken_over_def Let_def)
  have fs': "b_fs s' = fs" "b_clock s' = b_clock s" by (simp_all add: s'_def taken_over_def Let_def)
  have live: "buf_live s' g = buf_live s g" for g by (simp add: buf_live_def fs' fs(3))
  have pages: "buf_pages s g \<le> buf_pages s' g" "n < buf_pages s' f" for g
    by (simp_all add: buf_pages_def fs' fs(5))
  have ok_p: "frame_ok s i" by (rule buf_wfD(4) [OF wf i])
  have own: "b_map s q = Some i \<Longrightarrow> q = pg_id ?p \<and> pid_file (pg_id ?p) \<noteq> UNASSIGNED" for q
    using buf_wfD(6,7) [OF wf] by metis
  have other: "pg_id (b_frames s ! j) \<noteq> ?pid \<and> (pid_file (pg_id ?p) \<noteq> UNASSIGNED \<longrightarrow> pg_id (b_frames s ! j) \<noteq> pg_id ?p)"
    if "b_map s (pg_id (b_frames s ! j)) = Some j" "j \<noteq> i" for j
    using that none ok_p by (auto simp: frame_ok_def Let_def split: if_splits)
  have "frame_ok s' j" if j: "j < length (b_frames s)" for j
  proof (cases "j = i")
    case True
    then show ?thesis
      using f pages(2) bs i
      by (auto simp: frame_ok_def Let_def frames map fs' page_wf_def)
  next
    case False
    note okj = buf_wfD(4) [OF wf j]
    show ?thesis
    proof (cases "pid_file (pg_id (b_frames s ! j)) = UNASSIGNED")
      case True
      with okj False show ?thesis by (simp add: frame_ok_def Let_def frames)
    next
      case as: False
      then have m: "b_map s (pg_id (b_frames s ! j)) = Some j" using okj by (simp add: frame_ok_def Let_def)
      have "\<not> (pg_dirty ?p \<and> pg_id ?p = pg_id (b_frames s ! j))"
        using other [OF m False] ok_p as by (auto simp: frame_ok_def Let_def split: if_splits)
      then have "disk_page fs (pid_file (pg_id (b_frames s ! j))) (nat (pid_page (pg_id (b_frames s ! j))))
          = disk_page (b_fs s) (pid_file (pg_id (b_frames s ! j))) (nat (pid_page (pg_id (b_frames s ! j))))"
        using okj as by (cases "pg_id (b_frames s ! j)")
          (auto simp: fs(4) frame_ok_def Let_def page_in_range_def)
      then show ?thesis
        using okj as other [OF m False] False m pages(1) [of "pid_file (pg_id (b_frames s ! j))"]
        by (auto simp: frame_ok_def Let_def frames map fs' live)
    qed
  qed
  moreover have "j < length (b_frames s) \<and> pg_id (b_frames s' ! j) = q \<and> pid_file q \<noteq> UNASSIGNED"
    if "b_map s' q = Some j" for q j
    using that f i own buf_wfD(5-7) [OF wf] by (auto simp: map frames split: if_splits)
  ultimately have "buf_wf s'"
    using fs(1,2) buf_wfD(3) [OF wf] by (auto simp: buf_wf_def fs' frames)
  then show "buf_wf (taken_over s i fs ?pid bs)" by (simp only: s'_def)
  have "buf_view s' g m = buf_view s g m" if g: "buf_live s g" for g m
  proof (cases "b_map s (PageId g (int m))")
    case None
    show ?thesis
    proof (cases "g = f \<and> m = n")
      case True
      with None bs show ?thesis
        using own ok_p fs(4) by (auto simp: buf_view_def map frames frame_ok_def Let_def split: if_splits)
    next
      case False
      with None show ?thesis
        using ok_p g fs(4) by (auto simp: buf_view_def map fs' buf_live_def frame_ok_def Let_def split: if_splits)
    qed
  next
    case (Some j)
    with none have ne: "PageId g (int m) \<noteq> ?pid" by auto
    show ?thesis
    proof (cases "j = i")
      case True
      have "pg_id ?p = PageId g (int m)" "pid_file (pg_id ?p) \<noteq> UNASSIGNED"
        using own [OF Some [unfolded True]] by metis+
      with True Some ne ok_p g show ?thesis
        by (auto simp: buf_view_def map fs' fs(4) frame_ok_def Let_def)
    next
      case False
      have "\<not> (pid_file (pg_id ?p) \<noteq> UNASSIGNED \<and> PageId g (int m) = pg_id ?p)"
        using ok_p Some False by (auto simp: frame_ok_def Let_def)
      then have "b_map s' (PageId g (int m)) = Some j" using Some ne by (auto simp: map)
      with Some False show ?thesis by (simp add: buf_view_def frames)
    qed
  qed
  with live have "same_view s s'" by (simp add: same_view_def)
  then show "same_view s (taken_over s i fs ?pid bs)" by (simp only: s'_def)
qed

lemma get_page_miss:
  assumes wf: "buf_wf s" and room: "buf_room s" and f: "f \<noteq> UNASSIGNED"
    and n: "page_in_range (int n)" and none: "b_map s (PageId f (int n)) = None"
    and live: "buf_live s f"
  shows "\<exists>i s'. get_page f (int n) s = Some (Inr i, s') \<and> buf_wf s' \<and> same_view s s' \<and>
     buf_holds s' f n i \<and> pg_bytes (b_frames s' ! i) = buf_view s f n \<and>
     buf_pages s' = (buf_pages s)(f := max (buf_pages s f) (n + 1)) \<and> pinned_more s s' i"
proof -
  let ?pid = "PageId f (int n)"
  obtain u where u: "u < length (b_frames s)" "pg_pins (b_frames s ! u) = 0"
    using room by (auto simp: buf_room_def)
  obtain i fr where scan: "clock_scan (b_frames s) (b_clock s) = Some (Inr (i, fr))"
    "i < length (b_frames s)" "frames_sim (b_frames s) fr" "pg_pins (fr ! i) = 0"
    "\<not> pg_second_chance (fr ! i)"
    using clock_scan_stops [OF buf_wfD(3) [OF wf] u] by blast
  define s1 where "s1 = s\<lparr>b_frames := fr, b_clock := i\<rparr>"
  have wf1: "buf_wf s1" and sv1: "same_view s s1"
    unfolding s1_def by (rule wf_scanned [OF wf scan(3,2)])+
  have fr: "b_frames s1 = fr" "length fr = length (b_frames s)" "b_map s1 = b_map s" "b_fs s1 = b_fs s"
    using scan(3) by (simp_all add: s1_def frames_sim_def)
  let ?p = "fr ! i"
  define s2 where "s2 = (if pid_file (pg_id ?p) \<noteq> UNASSIGNED
      then s1\<lparr>b_map := (b_map s1)(pg_id ?p := None)\<rparr> else s1)"
  have s2: "b_fs s2 = b_fs s1" "b_frames s2 = b_frames s1" "b_clock s2 = b_clock s1"
    by (simp_all add: s2_def)
  obtain fs1 where fl: "(if pg_dirty ?p then onFs (fm_flush ?p) else returnA ?p) s2 =
      Some (Inr (?p\<lparr>pg_dirty := False\<rparr>), s2\<lparr>b_fs := fs1\<rparr>)"
    and fs1: "fs_wf fs1" "no_faults fs1" "fs_names fs1 = fs_names (b_fs s1)"
      "\<forall>g m. disk_page fs1 g m = (if pg_dirty ?p \<and> pg_id ?p = PageId g (int m) then pg_bytes ?p
         else disk_page (b_fs s1) g m)" "\<forall>g. count_pages g fs1 = count_pages g (b_fs s1)"
    using flush_if_dirty [OF wf1, of i ?p s2] scan(2) fr s2 by auto
  obtain fs2 where rd: "fm_read_page ?pid fs1 = Some (Inr (disk_page fs1 f n), fs2)"
    and fs2: "fs_wf fs2" "no_faults fs2" "\<forall>g m. disk_page fs2 g m = disk_page fs1 g m"
      "\<forall>g. count_pages g fs2 = (if g = f then max (count_pages f fs1) (n + 1) else count_pages g fs1)"
      "fs_names fs2 = fs_names fs1"
    using read_page_run [OF fs1(1,2) n, of f] by blast
  define bs where "bs = disk_page fs2 f n"
  define s' where "s' = taken_over s1 i fs2 ?pid bs"
  have run: "get_page f (int n) s = Some (Inr i, s')"
  proof -
    have gu: "get_unused_page s = Some (Inr i, s1)"
      by (simp add: get_unused_page_def scan(1) s1_def)
    have wh: "whenA (pid_file (pg_id ?p) \<noteq> UNASSIGNED)
        (modifyA (\<lambda>s. s\<lparr>b_map := (b_map s)(pg_id ?p := None)\<rparr>)) s1 = Some (Inr (), s2)"
      by (simp add: whenA_def s2_def act_run)
    have ra: "reassign (?p\<lparr>pg_dirty := False\<rparr>) ?pid =
        Inr (?p\<lparr>pg_dirty := False, pg_id := ?pid, pg_pins := 1, pg_second_chance := True\<rparr>)"
      using scan(4,5) by (simp add: reassign_def)
    have of: "onFs (fm_read_page ?pid) (set_frame i p (s2\<lparr>b_fs := fs1\<rparr>)) =
        Some (Inr bs, (set_frame i p s2)\<lparr>b_fs := fs2\<rparr>)" for p
      using fs2(3) by (simp add: onFs_def set_frame_def rd bs_def)
    have tail: "bindA (liftA (reassign (?p\<lparr>pg_dirty := False\<rparr>) ?pid)) (\<lambda>p.
        bindA (modifyA (set_frame i p)) (\<lambda>_. bindA (onFs (fm_read_page ?pid)) (\<lambda>bs.
        bindA (modifyA (\<lambda>s. (set_frame i (set_bytes p bs) s)\<lparr>b_map := (b_map s)(?pid \<mapsto> i)\<rparr>)) (\<lambda>_.
          returnA i)))) (s2\<lparr>b_fs := fs1\<rparr>) = Some (Inr i, s')"
      by (simp add: bindA_def act_run ra of)
        (simp add: s'_def taken_over_def Let_def set_frame_def set_bytes_def fr s2_def)
    show ?thesis
      unfolding get_page_def Let_def to_int32_id [OF in_range_int32 [OF n]]
      by (rule bindA_eq, rule act_run(4), unfold none option.case, rule bindA_eq, rule gu,
          rule bindA_eq, rule act_run(4), unfold fr, rule bindA_eq, rule wh, rule bindA_eq, rule fl,
          rule tail)
  qed
  have to: "buf_wf s'" "same_view s1 s'"
    unfolding s'_def
    by (intro take_over_wf [OF wf1 _ _ _ f n fs2(1,2)];
        use scan(2,4) none fs1(3-5) fs2(3-5) in \<open>simp add: fr bs_def\<close>)+
  have frames: "b_frames s' ! i = ?p\<lparr>pg_dirty := False, pg_id := ?pid, pg_pins := 1,
      pg_second_chance := True, pg_bytes := bs\<rparr>"
    "j \<noteq> i \<Longrightarrow> b_frames s' ! j = fr ! j" "length (b_frames s') = length (b_frames s)" for j
    using scan(2) fr by (simp_all add: s'_def taken_over_def Let_def)
  have map: "b_map s' ?pid = Some i"
    "q \<noteq> ?pid \<Longrightarrow> q \<noteq> pg_id ?p \<Longrightarrow> b_map s' q = b_map s q" for q
    by (simp_all add: s'_def taken_over_def Let_def fr)
  have "same_view s s'" using sv1 to(2) by (simp add: same_view_def)
  moreover have "pg_bytes (b_frames s' ! i) = buf_view s f n"
  proof -
    have "buf_view s' f n = bs" using map(1) by (simp add: buf_view_def frames)
    with \<open>same_view s s'\<close> live show ?thesis by (simp add: same_view_def frames)
  qed
  moreover have "buf_pages s' = (buf_pages s)(f := max (buf_pages s f) (n + 1))"
    using fs1(5) fs2(4) fr by (auto simp: fun_eq_iff buf_pages_def s'_def taken_over_def Let_def)
  moreover have "pinned_more s s' i"
  proof -
    have pins: "pg_pins (fr ! j) = pg_pins (b_frames s ! j)" "pg_id (fr ! j) = pg_id (b_frames s ! j)"
      if "j < length (b_frames s)" for j
      using scan(3) that by (auto simp: frames_sim_def)
    have "b_map s' q = Some j" if q: "b_map s q = Some j" "0 < pg_pins (b_frames s ! j)" for q j
    proof -
      have "q \<noteq> ?pid" using q(1) none by auto
      moreover have "q \<noteq> pg_id ?p"
      proof
        assume "q = pg_id ?p"
        then have "pg_id (b_frames s ! i) = q" using pins(2) [OF scan(2)] by simp
        with buf_wfD(4) [OF wf scan(2)] buf_wfD(7) [OF wf q(1)] q(1) have "i = j"
          by (simp add: frame_ok_def Let_def)
        with q(2) scan(4) pins(1) [OF scan(2)] show False by simp
      qed
      ultimately show ?thesis using map(2) q(1) by simp
    qed
    moreover have "pg_pins (b_frames s' ! j) = pg_pins (b_frames s ! j) + (if j = i then 1 else 0)"
      if "j < length (b_frames s)" for j
      using frames pins [OF that] pins [OF scan(2)] scan(4) by (cases "j = i") simp_all
    ultimately show ?thesis using scan(2) frames(3) by (auto simp: pinned_more_def)
  qed
  ultimately show ?thesis
    using run to(1) map(1) frames(1) by (auto simp: buf_holds_def)
qed

lemma get_page_run:
  assumes wf: "buf_wf s" and room: "buf_room s" and live: "buf_live s f" and n: "page_in_range (int n)"
  shows "\<exists>i s'. get_page f (int n) s = Some (Inr i, s') \<and> buf_wf s' \<and> same_view s s' \<and>
     buf_holds s' f n i \<and> pg_bytes (b_frames s' ! i) = buf_view s f n \<and>
     buf_pages s' = (buf_pages s)(f := max (buf_pages s f) (n + 1)) \<and> pinned_more s s' i"
proof (cases "b_map s (PageId f (int n))")
  case None
  then show ?thesis using get_page_miss [OF wf room _ n None live] live by (simp add: buf_live_def)
next
  case (Some i)
  have "n < buf_pages s f"
    using buf_wfD(4) [OF wf buf_wfD(5) [OF wf Some]] buf_wfD(6,7) [OF wf Some]
    by (simp add: frame_ok_def Let_def)
  then have "(buf_pages s)(f := max (buf_pages s f) (n + 1)) = buf_pages s" by (auto simp: max_def)
  with get_page_hit [OF wf n Some] show ?thesis by auto
qed

section \<open>Using and releasing a page\<close>

lemma holds_frame:
  assumes "buf_wf s" "buf_holds s f n i"
  shows "i < length (b_frames s)" "pg_id (b_frames s ! i) = PageId f (int n)" "f \<noteq> UNASSIGNED"
    "page_wf (b_frames s ! i)" "b_map s (PageId f (int n)) = Some i" "frame_ok s i"
proof -
  show m: "b_map s (PageId f (int n)) = Some i" using assms(2) by (simp add: buf_holds_def)
  show i: "i < length (b_frames s)" by (rule buf_wfD(5) [OF assms(1) m])
  show "pg_id (b_frames s ! i) = PageId f (int n)" by (rule buf_wfD(6) [OF assms(1) m])
  show "f \<noteq> UNASSIGNED" using buf_wfD(7) [OF assms(1) m] by simp
  show ok: "frame_ok s i" by (rule buf_wfD(4) [OF assms(1) i])
  then show "page_wf (b_frames s ! i)" by (simp add: frame_okD)
qed

lemma store_frame:
  assumes wf: "buf_wf s" and h: "buf_holds s f n i" and p: "page_evolves (b_frames s ! i) p"
  shows "buf_wf (set_frame i p s)" "buf_holds (set_frame i p s) f n i"
    "b_frames (set_frame i p s) ! i = p"
    "buf_live (set_frame i p s) g = buf_live s g"
    "buf_view (set_frame i p s) g m = (if g = f \<and> m = n then pg_bytes p else buf_view s g m)"
    "buf_pages (set_frame i p s) = buf_pages s"
proof -
  note hf = holds_frame [OF wf h]
  show "buf_wf (set_frame i p s)"
  proof (rule wf_set_frame [OF wf hf(5)])
    show "pg_id p = PageId f (int n)" "page_wf p" "0 \<le> pg_pins p"
      using p hf frame_okD(2) [OF hf(6)] by (simp_all add: page_evolves_def)
    show "pg_bytes p = disk_page (b_fs s) (pid_file (PageId f (int n))) (nat (pid_page (PageId f (int n))))"
      if "\<not> pg_dirty p" "buf_live s (pid_file (PageId f (int n)))"
      using that p hf by (auto simp: page_evolves_def frame_ok_def Let_def)
  qed
  show "buf_holds (set_frame i p s) f n i" "b_frames (set_frame i p s) ! i = p"
    using h hf p by (simp_all add: buf_holds_def set_frame_def page_evolves_def)
  show "buf_view (set_frame i p s) g m = (if g = f \<and> m = n then pg_bytes p else buf_view s g m)"
    by (rule view_set_frame [OF wf hf(5)])
qed (simp_all add: buf_live_def buf_pages_def set_frame_def fun_eq_iff)

lemma unpin_run:
  assumes wf: "buf_wf s" and h: "buf_holds s f n i"
  shows "\<exists>s'. unpin_page i s = Some (Inr (), s') \<and> buf_wf s' \<and>
     (\<forall>g. buf_live s' g = buf_live s g) \<and> (\<forall>g m. buf_view s' g m = buf_view s g m) \<and>
     buf_pages s' = buf_pages s \<and> length (b_frames s') = length (b_frames s) \<and>
     (\<forall>j. j \<noteq> i \<longrightarrow> b_frames s' ! j = b_frames s ! j) \<and>
     pg_pins (b_frames s' ! i) = pg_pins (b_frames s ! i) - 1"
proof -
  note hf = holds_frame [OF wf h]
  let ?p = "(b_frames s ! i)\<lparr>pg_pins := pg_pins (b_frames s ! i) - 1\<rparr>"
  have pos: "0 < pg_pins (b_frames s ! i)" using h by (simp add: buf_holds_def)
  have "unpin_page i s = Some (Inr (), set_frame i ?p s)"
    using pos by (simp add: unpin_page_def unpin_def bindA_def act_run)
  moreover have "buf_wf (set_frame i ?p s)"
    using hf pos by (intro wf_set_frame [OF wf hf(5)])
      (auto simp: page_wf_def frame_ok_def Let_def split: if_splits)
  moreover have "buf_view (set_frame i ?p s) g m = buf_view s g m" for g m
    using view_set_frame [OF wf hf(5)] hf(5) by (auto simp: buf_view_def)
  ultimately show ?thesis
    using hf(1) by (auto simp: set_frame_def buf_live_def buf_pages_def fun_eq_iff)
qed

section \<open>The page cache interface\<close>

text \<open>
  What the storage layer above relies on: a page is acquired with the contents the file has, a
  client may replace the page it holds by one it evolved to, releasing gives the frame back.
\<close>

locale page_cache =
  fixes acquire :: "file_id \<Rightarrow> int \<Rightarrow> ('s, nat) act"
    and release :: "nat \<Rightarrow> ('s, unit) act"
    and frame :: "'s \<Rightarrow> nat \<Rightarrow> page"
    and store :: "nat \<Rightarrow> page \<Rightarrow> 's \<Rightarrow> 's"
    and wf :: "'s \<Rightarrow> bool"
    and live :: "'s \<Rightarrow> file_id \<Rightarrow> bool"
    and view :: "'s \<Rightarrow> file_id \<Rightarrow> nat \<Rightarrow> byte list"
    and pages :: "'s \<Rightarrow> file_id \<Rightarrow> nat"
    and holds :: "'s \<Rightarrow> file_id \<Rightarrow> nat \<Rightarrow> nat \<Rightarrow> bool"
    and pins :: "'s \<Rightarrow> int list"
  assumes acquire: "wf s \<Longrightarrow> live s f \<Longrightarrow> page_in_range (int n) \<Longrightarrow> 0 \<in> set (pins s) \<Longrightarrow>
      \<exists>i s'. acquire f (int n) s = Some (Inr i, s') \<and> wf s' \<and> holds s' f n i \<and>
        pg_bytes (frame s' i) = view s f n \<and>
        (\<forall>g. live s' g = live s g) \<and> (\<forall>g m. live s g \<longrightarrow> view s' g m = view s g m) \<and>
        pages s' = (pages s)(f := max (pages s f) (n + 1)) \<and>
        i < length (pins s) \<and> pins s' = (pins s)[i := pins s ! i + 1]"
    and held: "wf s \<Longrightarrow> holds s f n i \<Longrightarrow> page_wf (frame s i) \<and> pg_id (frame s i) = PageId f (int n)"
    and store: "wf s \<Longrightarrow> holds s f n i \<Longrightarrow> page_evolves (frame s i) p \<Longrightarrow>
      wf (store i p s) \<and> holds (store i p s) f n i \<and> frame (store i p s) i = p \<and>
      (\<forall>g. live (store i p s) g = live s g) \<and>
      (\<forall>g m. view (store i p s) g m = (if g = f \<and> m = n then pg_bytes p else view s g m)) \<and>
      pages (store i p s) = pages s \<and> pins (store i p s) = pins s"
    and release: "wf s \<Longrightarrow> holds s f n i \<Longrightarrow>
      \<exists>s'. release i s = Some (Inr (), s') \<and> wf s' \<and>
        (\<forall>g. live s' g = live s g) \<and> (\<forall>g m. view s' g m = view s g m) \<and> pages s' = pages s \<and>
        pins s' = (pins s)[i := pins s ! i - 1]"
begin

text \<open>A page used for one operation: acquired, changed, released.\<close>

definition session :: "file_id \<Rightarrow> int \<Rightarrow> (page \<Rightarrow> ('x \<times> page) res) \<Rightarrow> ('s, 'x) act" where
  "session f n op =
     bindA (acquire f n) (\<lambda>i.
     bindA getA (\<lambda>s.
     bindA (liftA (op (frame s i))) (\<lambda>(x, p).
     bindA (modifyA (store i p)) (\<lambda>_.
     bindA (release i) (\<lambda>_. returnA x)))))"

lemma session_run:
  assumes wf: "wf s" and live: "live s f" and n: "page_in_range (int n)" and room: "0 \<in> set (pins s)"
    and keeps: "\<And>p. keeps snd p (op p)"
  shows "\<exists>p. pg_id p = PageId f (int n) \<and> pg_bytes p = view s f n \<and> page_wf p \<and>
     (\<forall>x q. op p = Inr (x, q) \<longrightarrow>
        (\<exists>s'. session f (int n) op s = Some (Inr x, s') \<and> wf s' \<and> (\<forall>g. live s' g = live s g) \<and>
           (\<forall>g m. live s g \<longrightarrow> view s' g m = (if g = f \<and> m = n then pg_bytes q else view s g m)) \<and>
           pages s' = (pages s)(f := max (pages s f) (n + 1)) \<and> pins s' = pins s))"
proof -
  obtain i s1 where a: "acquire f (int n) s = Some (Inr i, s1)" "wf s1" "holds s1 f n i"
    "pg_bytes (frame s1 i) = view s f n" "\<forall>g. live s1 g = live s g"
    "\<forall>g m. live s g \<longrightarrow> view s1 g m = view s g m"
    "pages s1 = (pages s)(f := max (pages s f) (n + 1))"
    "i < length (pins s)" "pins s1 = (pins s)[i := pins s ! i + 1]"
    using acquire [OF wf live n room] by blast
  have "\<exists>s'. session f (int n) op s = Some (Inr x, s') \<and> wf s' \<and> (\<forall>g. live s' g = live s g) \<and>
      (\<forall>g m. live s g \<longrightarrow> view s' g m = (if g = f \<and> m = n then pg_bytes q else view s g m)) \<and>
      pages s' = (pages s)(f := max (pages s f) (n + 1)) \<and> pins s' = pins s"
    if op: "op (frame s1 i) = Inr (x, q)" for x q
  proof -
    have "page_evolves (frame s1 i) q" using keepsD [OF keeps op] by simp
    note st = store [OF a(2,3) this]
    obtain s3 where r: "release i (store i q s1) = Some (Inr (), s3)" "wf s3"
      "\<forall>g. live s3 g = live (store i q s1) g" "\<forall>g m. view s3 g m = view (store i q s1) g m"
      "pages s3 = pages (store i q s1)" "pins s3 = (pins (store i q s1))[i := pins (store i q s1) ! i - 1]"
      using release st by blast
    have "session f (int n) op s = Some (Inr x, s3)"
      by (simp add: session_def bindA_def act_run a(1) op r(1))
    with r st a show ?thesis by (intro exI [of _ s3]) auto
  qed
  with a(4) held [OF a(2,3)] show ?thesis by blast
qed

end

definition buf_pins :: "buf_state \<Rightarrow> int list" where
  "buf_pins s = map pg_pins (b_frames s)"

lemma pins_room: "0 \<in> set (buf_pins s) \<longleftrightarrow> buf_room s"
  by (force simp: buf_pins_def buf_room_def in_set_conv_nth)

lemma pins_more: "pinned_more s s' i \<Longrightarrow> i < length (buf_pins s) \<and> buf_pins s' = (buf_pins s)[i := buf_pins s ! i + 1]"
  by (auto simp: pinned_more_def buf_pins_def nth_list_update intro!: nth_equalityI)

text \<open>The buffer manager provides the interface.\<close>

interpretation bm: page_cache get_page unpin_page "\<lambda>s i. b_frames s ! i" set_frame buf_wf buf_live
  buf_view buf_pages buf_holds buf_pins
proof
  fix s f n
  assume a: "buf_wf s" "buf_live s f" "page_in_range (int n)" "0 \<in> set (buf_pins s)"
  then obtain i s' where "get_page f (int n) s = Some (Inr i, s')" "buf_wf s'" "same_view s s'"
    "buf_holds s' f n i" "pg_bytes (b_frames s' ! i) = buf_view s f n"
    "buf_pages s' = (buf_pages s)(f := max (buf_pages s f) (n + 1))" "pinned_more s s' i"
    using get_page_run by (metis pins_room)
  with pins_more [OF this(7)]
  show "\<exists>i s'. get_page f (int n) s = Some (Inr i, s') \<and> buf_wf s' \<and> buf_holds s' f n i \<and>
     pg_bytes (b_frames s' ! i) = buf_view s f n \<and> (\<forall>g. buf_live s' g = buf_live s g) \<and>
     (\<forall>g m. buf_live s g \<longrightarrow> buf_view s' g m = buf_view s g m) \<and>
     buf_pages s' = (buf_pages s)(f := max (buf_pages s f) (n + 1)) \<and>
     i < length (buf_pins s) \<and> buf_pins s' = (buf_pins s)[i := buf_pins s ! i + 1]"
    by (auto simp: same_view_def)
next
  fix s f n i
  assume h: "buf_wf s" "buf_holds s f n i"
  show "page_wf (b_frames s ! i) \<and> pg_id (b_frames s ! i) = PageId f (int n)"
    using holds_frame [OF h] by simp
  show "\<exists>s'. unpin_page i s = Some (Inr (), s') \<and> buf_wf s' \<and> (\<forall>g. buf_live s' g = buf_live s g) \<and>
     (\<forall>g m. buf_view s' g m = buf_view s g m) \<and> buf_pages s' = buf_pages s \<and>
     buf_pins s' = (buf_pins s)[i := buf_pins s ! i - 1]"
  proof -
    obtain s' where s': "unpin_page i s = Some (Inr (), s')" "buf_wf s'" "\<forall>g. buf_live s' g = buf_live s g"
      "\<forall>g m. buf_view s' g m = buf_view s g m" "buf_pages s' = buf_pages s"
      "length (b_frames s') = length (b_frames s)" "\<forall>j. j \<noteq> i \<longrightarrow> b_frames s' ! j = b_frames s ! j"
      "pg_pins (b_frames s' ! i) = pg_pins (b_frames s ! i) - 1"
      using unpin_run [OF h] by blast
    have "buf_pins s' = (buf_pins s)[i := buf_pins s ! i - 1]"
      using s'(6-8) holds_frame(1) [OF h]
      by (auto simp: buf_pins_def nth_list_update intro!: nth_equalityI)
    with s' show ?thesis by blast
  qed
  fix p assume p: "page_evolves (b_frames s ! i) p"
  note sf = store_frame [OF h p]
  have "buf_pins (set_frame i p s) = buf_pins s"
  proof (rule nth_equalityI)
    fix j assume "j < length (buf_pins (set_frame i p s))"
    moreover have "pg_pins p = pg_pins (b_frames s ! i)" using p by (simp add: page_evolves_def)
    ultimately show "buf_pins (set_frame i p s) ! j = buf_pins s ! j"
      by (cases "j = i") (simp_all add: buf_pins_def set_frame_def)
  qed (simp add: buf_pins_def set_frame_def)
  with sf show "buf_wf (set_frame i p s) \<and> buf_holds (set_frame i p s) f n i \<and>
     b_frames (set_frame i p s) ! i = p \<and> (\<forall>g. buf_live (set_frame i p s) g = buf_live s g) \<and>
     (\<forall>g m. buf_view (set_frame i p s) g m = (if g = f \<and> m = n then pg_bytes p else buf_view s g m)) \<and>
     buf_pages (set_frame i p s) = buf_pages s \<and> buf_pins (set_frame i p s) = buf_pins s" by simp
qed

end
