(* ===== verification/Store.thy ===== *)
theory Store
  imports Buffer
begin

text \<open>
  The pages of the files as the storage layer sees them, without frames, pins and evictions.
  One step of the layer opens a page as a \<^verbatim>\<open>HeapFilePage\<close> (\<^verbatim>\<open>heap_file_page.cc\<close>), runs an
  operation of that class and lets the object go; \<open>with_frame\<close> is that step on the buffer
  manager, \<open>with_page\<close> the same step on the pages, and \<open>with_frame_refines\<close> says that the
  first does what the second says.
\<close>

section \<open>Operations see a page through its id and its bytes\<close>

definition same_page :: "page \<Rightarrow> page \<Rightarrow> bool" where
  "same_page p q \<longleftrightarrow> pg_id q = pg_id p \<and> pg_bytes q = pg_bytes p"

definition same_res :: "('a \<Rightarrow> page) \<Rightarrow> ('a \<Rightarrow> 'b) \<Rightarrow> 'a res \<Rightarrow> 'a res \<Rightarrow> bool" where
  "same_res pg obs m m' \<longleftrightarrow>
     rel_sum (=) (\<lambda>x y. obs x = obs y \<and> same_page (pg x) (pg y)) m m'"

named_theorems local_op \<open>operations that depend on the id and the bytes of a page only\<close>

abbreviation same_pages :: "page res \<Rightarrow> page res \<Rightarrow> bool" where
  "same_pages \<equiv> same_res (\<lambda>p. p) (\<lambda>_. ())"

lemma same_page_refl [simp]: "same_page p p"
  by (simp add: same_page_def)

lemma local_return [local_op]:
  "same_page (pg x) (pg y) \<Longrightarrow> obs x = obs y \<Longrightarrow> same_res pg obs (Inr x) (Inr y)"
  "same_res pg obs (Inl e) (Inl e)"
  by (simp_all add: same_res_def)

lemma local_read:
  "m = m' \<Longrightarrow> (\<And>x. same_res pg obs (g x) (g' x)) \<Longrightarrow> same_res pg obs (bindE m g) (bindE m' g')"
  by (cases m') (auto simp: same_res_def)

lemma local_seq:
  "same_res pg' obs' m m' \<Longrightarrow>
   (\<And>x y. same_page (pg' x) (pg' y) \<Longrightarrow> obs' x = obs' y \<Longrightarrow> same_res pg obs (g x) (g' y)) \<Longrightarrow>
   same_res pg obs (bindE m g) (bindE m' g')"
  by (cases m; cases m') (auto simp: same_res_def)

lemma local_pages:
  "same_pages m m' \<Longrightarrow> (\<And>p q. same_page p q \<Longrightarrow> same_res pg obs (g p) (g' q)) \<Longrightarrow>
   same_res pg obs (bindE m g) (bindE m' g')"
  by (erule local_seq) blast

lemma local_if [local_op]:
  "(b \<Longrightarrow> same_res pg obs m m') \<Longrightarrow> (\<not> b \<Longrightarrow> same_res pg obs n n') \<Longrightarrow>
   same_res pg obs (if b then m else n) (if b then m' else n')"
  by simp

text \<open>Reads.\<close>

lemma local_reads:
  assumes "same_page p q"
  shows "read_int32 p o' = read_int32 q o'" "read_int64 p o' = read_int64 q o'"
    "read_uint8 p o' = read_uint8 q o'" "page_read p o' n = page_read q o' n"
    "get_page_number p = get_page_number q"
  using assms
  by (simp_all add: same_page_def read_int32_def read_int64_def read_uint8_def page_read_def
      get_page_number_def)

lemma local_get:
  assumes "same_page p q"
  shows "get_dir_count p = get_dir_count q" "get_free_space p = get_free_space q"
    "get_dir p i = get_dir q i"
  using local_reads [OF assms] by (simp_all add: get_dir_count_def get_free_space_def get_dir_def)

lemma local_record_header: "same_page p q \<Longrightarrow> page_record_header p d = page_record_header q d"
  by (simp add: page_record_header_def local_reads [of p q] local_get [of p q] cong: if_cong)

lemma local_read_columns: "same_page p q \<Longrightarrow> read_columns p off cs = read_columns q off cs"
  by (induction cs arbitrary: off)
    (auto simp: local_reads [of p q] split: data_type.splits intro!: arg_cong2 [where f = bindE])

lemma local_get_record: "same_page p q \<Longrightarrow> page_get_record sch p d = page_get_record sch q d"
  by (simp add: page_get_record_def local_get [of p q] local_read_columns [of p q] cong: if_cong)

lemma local_find_dir: "same_page p q \<Longrightarrow> find_dir p i n = find_dir q i n"
  by (induction n arbitrary: i) (simp_all add: local_get [of p q] cong: if_cong)

lemma local_empty: "same_page p q \<Longrightarrow> is_page_empty p = is_page_empty q"
proof -
  assume s: "same_page p q"
  have "empty_from p i n = empty_from q i n" for i n
    by (induction n arbitrary: i) (simp_all add: local_get [OF s] cong: if_cong)
  then show ?thesis by (simp add: is_page_empty_def local_get [OF s])
qed

text \<open>Writes.\<close>

lemma local_page_write [local_op]: "same_page p q \<Longrightarrow> same_pages (page_write p off bs) (page_write q off bs)"
  by (auto simp: page_write_def same_res_def same_page_def)

lemma local_write [local_op]:
  "same_page p q \<Longrightarrow> same_pages (write_int8 p off b) (write_int8 q off b)"
  "same_page p q \<Longrightarrow> same_pages (write_int32 p off i) (write_int32 q off i)"
  "same_page p q \<Longrightarrow> same_pages (write_int64 p off w) (write_int64 q off w)"
  by (auto simp: write_int8_def write_int32_def write_int64_def intro: local_op)

lemma local_set [local_op]:
  "same_page p q \<Longrightarrow> same_pages (set_dir_count p i) (set_dir_count q i)"
  "same_page p q \<Longrightarrow> same_pages (set_free_space p i) (set_free_space q i)"
  "same_page p q \<Longrightarrow> same_pages (set_dir p d i) (set_dir q d i)"
  "same_page p q \<Longrightarrow> same_pages (set_tmax p d t) (set_tmax q d t)"
  "same_page p q \<Longrightarrow> same_pages (set_next_RID p d r) (set_next_RID q d r)"
  "same_page p q \<Longrightarrow> same_pages (set_first_RID p d r) (set_first_RID q d r)"
  unfolding set_dir_count_def set_free_space_def set_dir_def set_tmax_def set_next_RID_def
      set_first_RID_def
  by (auto simp: local_get(3) intro!: local_read [OF refl] local_pages local_op)

lemma local_heap_page_init [local_op]:
  "same_page p q \<Longrightarrow> same_pages (heap_page_init p) (heap_page_init q)"
  unfolding heap_page_init_def by (intro local_read local_get local_op) simp_all

lemma local_header_ops [local_op]:
  "same_page p q \<Longrightarrow> same_pages (update_record_header p d r t) (update_record_header q d r t)"
  "same_page p q \<Longrightarrow> same_pages (reset_update p d) (reset_update q d)"
  "same_page p q \<Longrightarrow> same_pages (reset_first p d) (reset_first q d)"
  "same_page p q \<Longrightarrow> same_pages (delete_record_physically p d) (delete_record_physically q d)"
  "same_page p q \<Longrightarrow> same_pages (delete_record_logically p d t) (delete_record_logically q d t)"
  unfolding update_record_header_def reset_update_def reset_first_def
      delete_record_physically_def delete_record_logically_def
  by (auto simp: local_reads(5) intro!: local_op intro: local_pages)

lemma local_write_values [local_op]:
  "same_page p q \<Longrightarrow> same_pages (write_values p off vs) (write_values q off vs)"
proof (induction vs arbitrary: p q off)
  case (Cons v vs)
  then show ?case by (cases v) (auto simp: Let_def intro!: local_pages local_op Cons.IH)
qed (simp add: local_op)

lemma local_write_tuple_header [local_op]:
  "same_page p q \<Longrightarrow>
   same_pages (write_tuple_header p off tx self first) (write_tuple_header q off tx self first)"
  unfolding write_tuple_header_def by (intro local_pages local_op)

lemma local_try_insert [local_op]:
  "same_page p q \<Longrightarrow>
   same_res snd fst (try_insert_record p rec tx first) (try_insert_record q rec tx first)"
  unfolding try_insert_record_def Let_def
  by (simp only: local_reads(5))
    (intro local_read local_get local_find_dir local_if local_pages local_op; simp)

lemma local_vacuum_loop: "same_page p q \<Longrightarrow> vacuum_loop sch p i n st = vacuum_loop sch q i n st"
proof (induction n arbitrary: i st)
  case (Suc n)
  have "vacuum_step sch p i st = vacuum_step sch q i st" for i st
    unfolding vacuum_step_def
    by (simp add: local_get [OF Suc.prems] local_reads [OF Suc.prems] local_get_record [OF Suc.prems]
        Let_def cong: if_cong)
  moreover have "vacuum_loop sch p (i + 1) n = vacuum_loop sch q (i + 1) n"
    using Suc by (simp add: fun_eq_iff)
  ultimately show ?case by simp
qed simp

lemma local_vacuum [local_op]:
  "same_page p q \<Longrightarrow> same_pages (page_vacuum sch g p) (page_vacuum sch g q)"
  unfolding page_vacuum_def Let_def
  by (intro local_read local_get local_vacuum_loop local_pages local_op)

section \<open>One step of the storage layer\<close>

type_synonym pages = "file_id \<Rightarrow> byte list list"

definition zero_page :: "byte list" where
  "zero_page = replicate PAGE_SIZE 0"

text \<open>Opening page \<open>n\<close> of a shorter file makes it \<open>n + 1\<close> pages long.\<close>

definition grow :: "nat \<Rightarrow> byte list list \<Rightarrow> byte list list" where
  "grow n ps = ps @ replicate (n + 1 - length ps) zero_page"

definition page_image :: "file_id \<Rightarrow> nat \<Rightarrow> byte list \<Rightarrow> page" where
  "page_image f n bs =
     \<lparr>pg_id = PageId f (int n), pg_bytes = bs, pg_pins = 1, pg_second_chance = True, pg_dirty = False\<rparr>"

text \<open>The constructor of \<^verbatim>\<open>HeapFilePage\<close>, then one of its operations.\<close>

definition open_then :: "(page \<Rightarrow> ('x \<times> page) res) \<Rightarrow> page \<Rightarrow> ('x \<times> page) res" where
  "open_then op p = bindE (heap_page_init p) op"

definition with_frame :: "file_id \<Rightarrow> int \<Rightarrow> (page \<Rightarrow> ('x \<times> page) res) \<Rightarrow> (buf_state, 'x) act" where
  "with_frame f n op =
     bindA (get_page f n) (\<lambda>i.
     bindA getA (\<lambda>s.
     bindA (liftA (open_then op (b_frames s ! i))) (\<lambda>(x, p).
     bindA (modifyA (set_frame i p)) (\<lambda>_.
     bindA (unpin_page i) (\<lambda>_. returnA x)))))"

definition with_page :: "file_id \<Rightarrow> int \<Rightarrow> (page \<Rightarrow> ('x \<times> page) res) \<Rightarrow> (pages, 'x) act" where
  "with_page f n op P =
     (if \<not> page_in_range n then Some (Inl Stuck, P)
      else (let ps = grow (nat n) (P f) in
        case open_then op (page_image f (nat n) (ps ! nat n)) of
          Inl e \<Rightarrow> Some (Inl e, P(f := ps))
        | Inr (x, q) \<Rightarrow> Some (Inr x, P(f := ps[nat n := pg_bytes q]))))"

text \<open>What an operation has to be for the two to agree.\<close>

definition page_op :: "(page \<Rightarrow> ('x \<times> page) res) \<Rightarrow> bool" where
  "page_op op \<longleftrightarrow> (\<forall>p. keeps snd p (op p)) \<and> (\<forall>p q. same_page p q \<longrightarrow> same_res snd fst (op p) (op q))"

lemma page_opI:
  "(\<And>p. keeps snd p (op p)) \<Longrightarrow> (\<And>p q. same_page p q \<Longrightarrow> same_res snd fst (op p) (op q)) \<Longrightarrow> page_op op"
  by (simp add: page_op_def)

lemma page_op_open:
  assumes "page_op op"
  shows "page_op (open_then op)"
proof (rule page_opI)
  fix p :: page
  have "page_evolves p (snd x)" if x: "open_then op p = Inr x" for x
  proof -
    obtain q where q: "heap_page_init p = Inr q" "op q = Inr x"
      using x by (auto simp: open_then_def bindE_Inr_iff)
    have "page_evolves p q" by (rule keepsD [OF keeps_heap_page_init q(1)])
    also have "page_evolves q (snd x)"
      using assms q(2) unfolding page_op_def keeps_def by blast
    finally show ?thesis .
  qed
  then show "keeps snd p (open_then op p)" by (simp add: keeps_def)
next
  fix p q assume "same_page p q"
  then show "same_res snd fst (open_then op p) (open_then op q)"
    unfolding open_then_def
    using assms by (intro local_pages [OF local_heap_page_init]) (simp_all add: page_op_def)
qed

text \<open>Reading and writing operations of the class.\<close>

definition reading :: "(page \<Rightarrow> 'x res) \<Rightarrow> page \<Rightarrow> ('x \<times> page) res" where
  "reading r p = bindE (r p) (\<lambda>x. Inr (x, p))"

definition writing :: "(page \<Rightarrow> page res) \<Rightarrow> page \<Rightarrow> (unit \<times> page) res" where
  "writing w p = bindE (w p) (\<lambda>q. Inr ((), q))"

lemma page_op_reading: "(\<And>p q. same_page p q \<Longrightarrow> r p = r q) \<Longrightarrow> page_op (reading r)"
  unfolding reading_def by (rule page_opI) (auto intro!: keeps_read local_read local_op evolve)

lemma page_op_writing:
  "(\<And>p. keeps (\<lambda>p. p) p (w p)) \<Longrightarrow> (\<And>p q. same_page p q \<Longrightarrow> same_pages (w p) (w q)) \<Longrightarrow>
   page_op (writing w)"
  unfolding writing_def
  by (rule page_opI) (auto intro!: local_pages local_op evolve intro: keeps_seq)

lemmas page_op_intros =
  page_op_reading [OF local_record_header] page_op_reading [OF local_get_record]
  page_op_reading [OF local_get(1)] page_op_reading [OF local_empty]
  page_op_writing [OF keeps_page_vacuum local_vacuum]
  page_op_writing [OF keeps_header_ops(1) local_header_ops(1), OF page_evolves_refl]
  page_op_writing [OF keeps_header_ops(2) local_header_ops(2), OF page_evolves_refl]
  page_op_writing [OF keeps_header_ops(3) local_header_ops(3), OF page_evolves_refl]
  page_op_writing [OF keeps_header_ops(4) local_header_ops(4), OF page_evolves_refl]
  page_op_writing [OF keeps_header_ops(5) local_header_ops(5), OF page_evolves_refl]
  page_opI [OF keeps_try_insert_record local_try_insert]

section \<open>The buffer manager implements the pages\<close>

definition represents :: "buf_state \<Rightarrow> pages \<Rightarrow> bool" where
  "represents s P \<longleftrightarrow> buf_wf s \<and> buf_room s \<and>
     (\<forall>f. buf_live s f \<longrightarrow> length (P f) = buf_pages s f \<and>
        (\<forall>n < length (P f). P f ! n = buf_view s f n))"

lemma view_past_end:
  assumes "buf_wf s" "buf_pages s f \<le> n" "f \<noteq> UNASSIGNED"
  shows "buf_view s f n = zero_page"
proof -
  have "b_map s (PageId f (int n)) = None"
  proof (cases "b_map s (PageId f (int n))")
    case (Some i)
    have "n < buf_pages s f"
      using buf_wfD(4) [OF assms(1) buf_wfD(5) [OF assms(1) Some]] buf_wfD(6,7) [OF assms(1) Some]
      by (simp add: frame_ok_def Let_def)
    with assms(2) show ?thesis by simp
  qed
  with assms(2) show ?thesis by (simp add: buf_view_def disk_page_def buf_pages_def zero_page_def)
qed

lemma length_grow [simp]: "length (grow n ps) = max (length ps) (n + 1)"
  by (simp add: grow_def)

lemma grow_nth: "m < max (length ps) (n + 1) \<Longrightarrow> grow n ps ! m = (if m < length ps then ps ! m else zero_page)"
  by (auto simp: grow_def nth_append)

lemma grow_view:
  assumes "represents s P" "buf_live s f" "m < max (length (P f)) (n + 1)"
  shows "grow n (P f) ! m = buf_view s f m"
  using assms view_past_end [of s f m]
  by (auto simp: represents_def grow_nth buf_live_def)

lemma with_frame_session: "with_frame f n op = bm.session f n (open_then op)"
  by (simp add: with_frame_def bm.session_def)

lemma with_frame_pins:
  assumes rep: "represents s P" and live: "buf_live s f" and op: "page_op op"
    and run: "with_page f n op P = Some (Inr x, P')"
  shows "\<exists>s'. with_frame f n op s = Some (Inr x, s') \<and> represents s' P' \<and>
     (\<forall>g. buf_live s' g = buf_live s g) \<and> buf_pins s' = buf_pins s"
proof -
  obtain q k where n: "page_in_range n" "n = int k" and
    q: "open_then op (page_image f k (grow k (P f) ! k)) = Inr (x, q)" and
    P': "P' = P(f := (grow k (P f))[k := pg_bytes q])"
  proof -
    have "page_in_range n" using run by (auto simp: with_page_def split: if_splits)
    moreover from this have "n = int (nat n)" by (simp add: page_in_range_def)
    ultimately show ?thesis
      using run that [of "nat n"] by (auto simp: with_page_def Let_def split: sum.splits)
  qed
  have wf: "buf_wf s" and room: "0 \<in> set (buf_pins s)" using rep by (simp_all add: represents_def pins_room)
  have keeps: "keeps snd p (open_then op p)" for p
    using page_op_open [OF op] by (simp add: page_op_def)
  obtain p where p: "pg_id p = PageId f (int k)" "pg_bytes p = buf_view s f k"
    and go: "\<And>x q. open_then op p = Inr (x, q) \<Longrightarrow>
        \<exists>s'. bm.session f (int k) (open_then op) s = Some (Inr x, s') \<and> buf_wf s' \<and>
          (\<forall>g. buf_live s' g = buf_live s g) \<and>
          (\<forall>g m. buf_live s g \<longrightarrow> buf_view s' g m = (if g = f \<and> m = k then pg_bytes q else buf_view s g m)) \<and>
          buf_pages s' = (buf_pages s)(f := max (buf_pages s f) (k + 1)) \<and> buf_pins s' = buf_pins s"
    using bm.session_run [OF wf live n(1) [unfolded n(2)] room keeps] by blast
  have view: "grow k (P f) ! k = buf_view s f k" using grow_view [OF rep live] by simp
  have "same_page (page_image f k (grow k (P f) ! k)) p"
    using p view by (simp add: same_page_def page_image_def)
  then have "same_res snd fst (open_then op (page_image f k (grow k (P f) ! k))) (open_then op p)"
    using page_op_open [OF op] by (simp add: page_op_def)
  with q obtain q' where q': "open_then op p = Inr (x, q')" "pg_bytes q' = pg_bytes q"
    by (cases "open_then op p") (auto simp: same_res_def same_page_def)
  from go [OF q'(1)] obtain s' where s': "bm.session f (int k) (open_then op) s = Some (Inr x, s')"
    "buf_wf s'" "\<forall>g. buf_live s' g = buf_live s g"
    "\<forall>g m. buf_live s g \<longrightarrow> buf_view s' g m = (if g = f \<and> m = k then pg_bytes q else buf_view s g m)"
    "buf_pages s' = (buf_pages s)(f := max (buf_pages s f) (k + 1))" "buf_pins s' = buf_pins s"
    using q'(2) by auto
  have "represents s' P'"
  proof -
    have "buf_room s'" using room s'(6) by (simp add: pins_room [symmetric])
    moreover have "length (P' g) = buf_pages s' g \<and> (\<forall>m < length (P' g). P' g ! m = buf_view s' g m)"
      if g: "buf_live s' g" for g
    proof (cases "g = f")
      case True
      then show ?thesis
        using rep live s'(4,5) P' grow_view [OF rep live]
        by (simp add: represents_def nth_list_update)
    next
      case False
      then show ?thesis using rep g s'(3,4,5) P' by (simp add: represents_def)
    qed
    ultimately show ?thesis using s'(2) by (simp add: represents_def)
  qed
  with s'(1,3,6) n(2) show ?thesis by (auto simp: with_frame_session)
qed

lemma with_frame_run:
  assumes "represents s P" "buf_live s f" "page_op op" "with_page f n op P = Some (Inr x, P')"
  shows "\<exists>s'. with_frame f n op s = Some (Inr x, s') \<and> represents s' P' \<and> (\<forall>g. buf_live s' g = buf_live s g)"
  using with_frame_pins [OF assms] by blast

text \<open>The number of pages, and the file manager's other operations, on the same pages.\<close>

lemma count_pages_represents: "represents s P \<Longrightarrow> buf_live s f \<Longrightarrow> count_pages f (b_fs s) = length (P f)"
  by (simp add: represents_def buf_pages_def)

end
