(* ===== verification/Database.thy ===== *)
theory Database
  imports Store "HOL-Library.AList"
begin

text \<open>
  The state behind the program's global objects (\<^verbatim>\<open>src/system/system.cc\<close>): the pages of the
  files, the catalog's tables, the active transactions and the lock table. This theory holds
  the state, table lookup and the reading operations of a heap file; \<open>Transactions\<close>,
  \<open>Heap_File\<close> and \<open>Catalog\<close> hold the rest.
\<close>

section \<open>State\<close>

instantiation tuple_key :: linorder
begin

definition less_tuple_key :: "tuple_key \<Rightarrow> tuple_key \<Rightarrow> bool" where
  "less_tuple_key a b = tuple_key_less a b"

definition less_eq_tuple_key :: "tuple_key \<Rightarrow> tuple_key \<Rightarrow> bool" where
  "less_eq_tuple_key a b \<longleftrightarrow> a = b \<or> tuple_key_less a b"

instance
proof
  fix a b c :: tuple_key
  note rid = less_rid_def [symmetric]
  show "(a < b) = (a \<le> b \<and> \<not> b \<le> a)"
    by (cases a; cases b) (auto simp: less_tuple_key_def less_eq_tuple_key_def rid)
  show "a \<le> a" by (simp add: less_eq_tuple_key_def)
  show "a \<le> b \<Longrightarrow> b \<le> c \<Longrightarrow> a \<le> c"
    by (cases a; cases b; cases c) (auto simp: less_eq_tuple_key_def rid split: if_splits)
  show "a \<le> b \<Longrightarrow> b \<le> a \<Longrightarrow> a = b"
    by (cases a; cases b) (auto simp: less_eq_tuple_key_def rid split: if_splits)
  show "a \<le> b \<or> b \<le> a"
    by (cases a; cases b) (auto simp: less_eq_tuple_key_def rid)
qed

end

datatype isolation_level = READ_COMMITTED | SNAPSHOT_ISOLATION
datatype transaction_state = ACTIVE | COMMITTED

text \<open>
  \<^verbatim>\<open>first_rids\<close> is a \<^verbatim>\<open>std::set\<close>, kept in the order of its iteration;
  \<^verbatim>\<open>cardinality_deltas\<close> a \<^verbatim>\<open>std::map\<close>.
\<close>

record transaction =
  tx_level :: isolation_level
  tx_first_rids :: "tuple_key list"
  tx_snapshot :: "tx_id set"
  tx_state :: transaction_state
  tx_deltas :: "(table_id \<times> 64 word) list"

record heap_file =
  hf_schema :: schema
  hf_table_id :: table_id
  hf_file_id :: file_id

record table_info =
  ti_name :: string
  ti_schema :: schema
  ti_heap_file :: heap_file
  ti_table_id :: table_id
  ti_cardinality :: "64 word"

text \<open>
  \<open>db_last_insert\<close> is \<^verbatim>\<open>HeapFile::last_insert_page\<close> of every table; \<open>db_names\<close> and \<open>db_dir\<close> the
  file manager's registered names and the files of the folder.
\<close>

record db =
  db_pages :: pages
  db_names :: "(string \<times> file_id) list"
  db_dir :: "string \<Rightarrow> file_id option"
  db_next_file :: file_id
  db_last_insert :: "table_id \<Rightarrow> int"
  db_active :: "(tx_id \<times> transaction) list"
  db_locks :: "tuple_key \<Rightarrow> tx_id option"
  db_tables :: "(table_id \<times> table_info) list"
  db_in_process :: "(tx_id \<times> table_info list) list"
  db_table_counter :: "64 word"
  db_tx_counter :: "64 word"

definition onPages :: "(pages, 'a) act \<Rightarrow> (db, 'a) act" where
  "onPages m s = Option.bind (m (db_pages s)) (\<lambda>(r, P). Some (r, s\<lparr>db_pages := P\<rparr>))"

text \<open>\<^verbatim>\<open>HeapFilePage page(heap_file, n)\<close>, one of its operations, and its destructor.\<close>

definition heap_page :: "heap_file \<Rightarrow> int \<Rightarrow> (page \<Rightarrow> ('x \<times> page) res) \<Rightarrow> (db, 'x) act" where
  "heap_page hf n op = onPages (with_page (hf_file_id hf) n op)"

definition db_count_pages :: "heap_file \<Rightarrow> db \<Rightarrow> nat" where
  "db_count_pages hf s = length (db_pages s (hf_file_id hf))"

definition tx_name :: "tx_id \<Rightarrow> string" where
  "tx_name t = nat_to_string (unat t)"

section \<open>Reading a heap file\<close>

definition get_record :: "heap_file \<Rightarrow> rid \<Rightarrow> (db, row) act" where
  "get_record hf r = heap_page hf (page_num r) (reading (\<lambda>p. page_get_record (hf_schema hf) p (dir_slot r)))"

definition get_record_header :: "heap_file \<Rightarrow> rid \<Rightarrow> (db, opt_header) act" where
  "get_record_header hf r =
     (if r = rid_absent then returnA None
      else heap_page hf (page_num r) (reading (\<lambda>p. page_record_header p (dir_slot r))))"

partial_function (option) get_last_version :: "heap_file \<Rightarrow> rid \<Rightarrow> db \<Rightarrow> (rid res \<times> db) option" where
  "get_last_version hf r s =
     bindA (heap_page hf (page_num r) (reading (\<lambda>p. page_record_header p (dir_slot r)))) (\<lambda>h s.
       case h of
         None \<Rightarrow> returnA rid_absent s
       | Some h \<Rightarrow>
           if t_max h = 0 then returnA r s
           else if next_rid h = rid_deleted then returnA r s
           else get_last_version hf (next_rid h) s) s"

text \<open>
  \<^verbatim>\<open>undo\<close> is a stub of the source: it reads the first header and returns, whatever it finds.
\<close>

definition undo :: "heap_file \<Rightarrow> rid \<Rightarrow> tx_id \<Rightarrow> (db, unit) act" where
  "undo hf r tx =
     (if r = rid_deleted \<or> dir_slot r = -2 then returnA ()
      else bindA (get_record_header hf r) (\<lambda>h. returnA ()))"

section \<open>Tables by id and by name\<close>

text \<open>\<^verbatim>\<open>std::tolower\<close> of the C locale.\<close>

definition tolower :: "char \<Rightarrow> char" where
  "tolower c = (let n = of_char c :: nat in if 65 \<le> n \<and> n \<le> 90 then char_of (n + 32) else c)"

definition name_char :: "char \<Rightarrow> bool" where
  "name_char c \<longleftrightarrow> (let n = of_char c :: nat in (97 \<le> n \<and> n \<le> 122) \<or> c = CHR ''_'')"

definition normalize :: "string \<Rightarrow> string res" where
  "normalize n =
     (let r = map tolower n in
      if list_all name_char r then Inr r
      else Inl (QueryException (''wrong table name: `'' @ n @
        ''`. Only a-z letters and underscore ('' @ [CHR 0x27] @ ''_'' @
        [CHR 0x27] @ '') are allowed.'')))"

text \<open>\<^verbatim>\<open>in_process_tables\<close> searched in its order, only this transaction's tables counting.\<close>

definition in_process_of :: "db \<Rightarrow> tx_id \<Rightarrow> table_info list" where
  "in_process_of s tx = concat (map snd (filter (\<lambda>(t, ts). t = tx) (db_in_process s)))"

definition get_table_by_id :: "table_id \<Rightarrow> tx_id \<Rightarrow> db \<Rightarrow> table_info option" where
  "get_table_by_id tid tx s =
     (case map_of (db_tables s) tid of
        Some ti \<Rightarrow> Some ti
      | None \<Rightarrow> find (\<lambda>ti. ti_table_id ti = tid) (in_process_of s tx))"

definition find_table :: "string \<Rightarrow> tx_id \<Rightarrow> db \<Rightarrow> table_info option" where
  "find_table n tx s =
     (case find (\<lambda>ti. ti_name ti = n) (map snd (db_tables s)) of
        Some ti \<Rightarrow> Some ti
      | None \<Rightarrow> find (\<lambda>ti. ti_name ti = n) (in_process_of s tx))"

definition get_table_info :: "string \<Rightarrow> tx_id \<Rightarrow> (db, table_info option) act" where
  "get_table_info name tx =
     bindA (liftA (normalize name)) (\<lambda>n. bindA getA (\<lambda>s. returnA (find_table n tx s)))"

end
