(* ===== verification/Transactions.thy ===== *)
theory Transactions
  imports Database
begin

text \<open>
  The transaction manager (\<^verbatim>\<open>src/system/transaction_manager.cc\<close>,
  \<^verbatim>\<open>src/relational_model/transaction.*\<close>), the part of the catalog that ends the tables of a
  transaction, and the lock manager (\<^verbatim>\<open>src/system/lock_manager.cc\<close>). The object mutexes make
  each operation atomic here; a thread that waits for a lock lets the others run.
\<close>

section \<open>Transactions\<close>

definition new_transaction :: "isolation_level \<Rightarrow> transaction" where
  "new_transaction l =
     \<lparr>tx_level = l, tx_first_rids = [], tx_snapshot = {}, tx_state = ACTIVE, tx_deltas = []\<rparr>"

text \<open>\<^verbatim>\<open>active_transactions.insert\<close> keeps an entry that is already there.\<close>

definition insert_new :: "'k \<Rightarrow> 'v \<Rightarrow> ('k \<times> 'v) list \<Rightarrow> ('k \<times> 'v) list" where
  "insert_new k v xs = (if map_of xs k = None then xs @ [(k, v)] else xs)"

definition start_transaction :: "isolation_level \<Rightarrow> (db, tx_id) act" where
  "start_transaction l =
     bindA getA (\<lambda>s. let tx = db_tx_counter s;
         others = fst ` set (filter (\<lambda>(t, x). tx_state x \<noteq> COMMITTED) (db_active s));
         x = (new_transaction l)\<lparr>tx_snapshot := (if l = SNAPSHOT_ISOLATION then others else {})\<rparr> in
       bindA (modifyA (\<lambda>s. s\<lparr>db_tx_counter := tx + 1, db_active := insert_new tx x (db_active s)\<rparr>))
         (\<lambda>_. returnA tx))"

definition state_of :: "tx_id \<Rightarrow> db \<Rightarrow> transaction_state" where
  "state_of tx s = (case map_of (db_active s) tx of None \<Rightarrow> COMMITTED | Some x \<Rightarrow> tx_state x)"

definition get_states :: "tx_id \<Rightarrow> tx_id \<Rightarrow> (db, transaction_state \<times> transaction_state) act" where
  "get_states a b = bindA getA (\<lambda>s. returnA (state_of a s, state_of b s))"

definition get_isolation_level :: "tx_id \<Rightarrow> (db, isolation_level) act" where
  "get_isolation_level tx =
     bindA getA (\<lambda>s. case map_of (db_active s) tx of
       None \<Rightarrow> throwA (RuntimeError ''Transaction ID not found'')
     | Some x \<Rightarrow> returnA (tx_level x))"

definition update_transaction :: "tx_id \<Rightarrow> (transaction \<Rightarrow> transaction) \<Rightarrow> db \<Rightarrow> db" where
  "update_transaction tx f s = s\<lparr>db_active := AList.map_entry tx f (db_active s)\<rparr>"

definition erase_transaction :: "tx_id \<Rightarrow> db \<Rightarrow> db" where
  "erase_transaction tx s = s\<lparr>db_active := AList.delete tx (db_active s)\<rparr>"

definition add_to_write_set :: "table_id \<Rightarrow> rid \<Rightarrow> tx_id \<Rightarrow> (db, unit) act" where
  "add_to_write_set tid r tx =
     bindA getA (\<lambda>s. case map_of (db_active s) tx of
       None \<Rightarrow> throwA (RuntimeError (''[ADD_ACTIVE_TX] Transaction '' @ tx_name tx @ '' not found''))
     | Some x \<Rightarrow> modifyA (update_transaction tx (\<lambda>x.
         x\<lparr>tx_first_rids := insort_insert (TupleKey tid r) (tx_first_rids x)\<rparr>)))"

definition was_active_at_snapshot :: "tx_id \<Rightarrow> tx_id \<Rightarrow> (db, bool) act" where
  "was_active_at_snapshot reader writer =
     (if reader = writer then returnA False
      else bindA getA (\<lambda>s. case map_of (db_active s) reader of
        None \<Rightarrow> returnA False
      | Some x \<Rightarrow> returnA (writer \<in> tx_snapshot x)))"

datatype cardinality_action = SUBTRACT | ADD

fun delta_of :: "cardinality_action \<Rightarrow> 64 word" where
  "delta_of SUBTRACT = -1"
| "delta_of ADD = 1"

definition add_delta :: "table_id \<Rightarrow> 64 word \<Rightarrow> (table_id \<times> 64 word) list \<Rightarrow> (table_id \<times> 64 word) list" where
  "add_delta tid d ds =
     (case map_of ds tid of
        Some x \<Rightarrow> AList.update tid (x + d) ds
      | None \<Rightarrow> takeWhile (\<lambda>(t, x). t < tid) ds @ (tid, d) # dropWhile (\<lambda>(t, x). t < tid) ds)"

definition update_cardinality_delta :: "tx_id \<Rightarrow> table_id \<Rightarrow> cardinality_action \<Rightarrow> (db, unit) act" where
  "update_cardinality_delta tx tid a =
     modifyA (update_transaction tx (\<lambda>x. x\<lparr>tx_deltas := add_delta tid (delta_of a) (tx_deltas x)\<rparr>))"

section \<open>The catalog at the end of a transaction\<close>

text \<open>
  \<^verbatim>\<open>buffer_mgr.delete_file\<close> as the storage layer sees it: the name and the file go. The
  descriptor stays open and is not used again.
\<close>

definition db_delete_file :: "file_id \<Rightarrow> db \<Rightarrow> db" where
  "db_delete_file fd s =
     (case name_of_fd (db_names s) fd of
        None \<Rightarrow> s
      | Some n \<Rightarrow> (let s = s\<lparr>db_names := filter (\<lambda>(m, f). m \<noteq> n) (db_names s)\<rparr> in
          if n = [] then s else s\<lparr>db_dir := (db_dir s)(n := None)\<rparr>))"

definition abort_in_progress_tables :: "tx_id \<Rightarrow> (db, unit) act" where
  "abort_in_progress_tables tx =
     modifyA (\<lambda>s. case map_of (db_in_process s) tx of
        None \<Rightarrow> s
      | Some tis \<Rightarrow>
          (fold (\<lambda>ti. db_delete_file (hf_file_id (ti_heap_file ti))) tis s)
            \<lparr>db_in_process := AList.delete tx (db_in_process s)\<rparr>)"

text \<open>The map of committed tables, ordered by table id; \<^verbatim>\<open>insert\<close> keeps an existing entry.\<close>

definition insert_table :: "table_info \<Rightarrow> (table_id \<times> table_info) list \<Rightarrow> (table_id \<times> table_info) list" where
  "insert_table ti ts =
     (if map_of ts (ti_table_id ti) = None
      then takeWhile (\<lambda>(t, x). t < ti_table_id ti) ts @ (ti_table_id ti, ti) #
           dropWhile (\<lambda>(t, x). t < ti_table_id ti) ts
      else ts)"

definition name_taken :: "db \<Rightarrow> table_info \<Rightarrow> bool" where
  "name_taken s ti \<longleftrightarrow> (\<exists>x \<in> set (db_tables s). ti_name (snd x) = ti_name ti)"

definition commit_in_progress_tables :: "tx_id \<Rightarrow> (db, unit) act" where
  "commit_in_progress_tables tx =
     bindA getA (\<lambda>s. case map_of (db_in_process s) tx of
       None \<Rightarrow> returnA ()
     | Some tis \<Rightarrow>
         (case find (name_taken s) tis of
            Some ti \<Rightarrow> throwA (TransactionAbortException (''Cannot commit transaction '' @ tx_name tx @
              '' because it creates a table with name `'' @ ti_name ti @ ''` that already exists.''))
          | None \<Rightarrow> modifyA (\<lambda>s. s\<lparr>db_tables := fold insert_table tis (db_tables s),
              db_in_process := AList.delete tx (db_in_process s)\<rparr>)))"

definition update_cardinality :: "table_id \<Rightarrow> 64 word \<Rightarrow> db \<Rightarrow> db" where
  "update_cardinality tid d s =
     s\<lparr>db_tables := AList.map_entry tid (\<lambda>ti. ti\<lparr>ti_cardinality := ti_cardinality ti + d\<rparr>) (db_tables s)\<rparr>"

section \<open>Abort and commit\<close>

text \<open>\<^verbatim>\<open>release_all_locks\<close> runs over the write set; only locks this transaction holds go.\<close>

definition release_key :: "tx_id \<Rightarrow> tuple_key \<Rightarrow> (tuple_key \<Rightarrow> tx_id option) \<Rightarrow> tuple_key \<Rightarrow> tx_id option" where
  "release_key tx k locks = (if locks k = Some tx then locks(k := None) else locks)"

definition release_all_locks :: "tx_id \<Rightarrow> transaction \<Rightarrow> (db, unit) act" where
  "release_all_locks tx x = modifyA (\<lambda>s. s\<lparr>db_locks := fold (release_key tx) (tx_first_rids x) (db_locks s)\<rparr>)"

text \<open>\<^verbatim>\<open>Transaction::abort\<close>: a table that is gone would be a null pointer.\<close>

fun undo_all :: "tx_id \<Rightarrow> tuple_key list \<Rightarrow> (db, unit) act" where
  "undo_all tx [] = returnA ()"
| "undo_all tx (k # ks) =
     bindA getA (\<lambda>s. case get_table_by_id (tk_table k) tx s of
       None \<Rightarrow> throwA Stuck
     | Some ti \<Rightarrow> bindA (undo (ti_heap_file ti) (tk_rid k) tx) (\<lambda>_. undo_all tx ks))"

definition set_state :: "transaction_state \<Rightarrow> tx_id \<Rightarrow> (db, unit) act" where
  "set_state st tx = modifyA (update_transaction tx (\<lambda>x. x\<lparr>tx_state := st\<rparr>))"

definition abort_found :: "tx_id \<Rightarrow> transaction \<Rightarrow> (db, unit) act" where
  "abort_found tx x =
     bindA (undo_all tx (tx_first_rids x)) (\<lambda>_.
     bindA (abort_in_progress_tables tx) (\<lambda>_.
     bindA (set_state COMMITTED tx) (\<lambda>_.
       release_all_locks tx x)))"

definition abort_transaction :: "tx_id \<Rightarrow> (db, unit) act" where
  "abort_transaction tx =
     bindA getA (\<lambda>s. case map_of (db_active s) tx of
       None \<Rightarrow> throwA (RuntimeError (''[ABORT] Transaction '' @ tx_name tx @ '' not found''))
     | Some x \<Rightarrow> bindA (abort_found tx x) (\<lambda>_. modifyA (erase_transaction tx)))"

text \<open>Only a \<^verbatim>\<open>TransactionAbortException\<close> of the commit itself is caught.\<close>

fun is_abort :: "db_error \<Rightarrow> bool" where
  "is_abort (TransactionAbortException m) = True"
| "is_abort _ = False"

definition commit_found :: "tx_id \<Rightarrow> transaction \<Rightarrow> (db, unit) act" where
  "commit_found tx x =
     bindA (commit_in_progress_tables tx) (\<lambda>_.
     bindA (modifyA (fold (\<lambda>(tid, d) s. if d \<noteq> 0 then update_cardinality tid d s else s) (tx_deltas x))) (\<lambda>_.
     bindA (set_state COMMITTED tx) (\<lambda>_.
     bindA (release_all_locks tx x) (\<lambda>_.
       modifyA (erase_transaction tx)))))"

definition commit_transaction :: "tx_id \<Rightarrow> (db, unit) act" where
  "commit_transaction tx =
     bindA getA (\<lambda>s. case map_of (db_active s) tx of
       None \<Rightarrow> throwA (RuntimeError (''[COMMIT] Transaction '' @ tx_name tx @ '' not found''))
     | Some x \<Rightarrow>
         if tx_state x \<noteq> ACTIVE then throwA (RuntimeError ''Transaction not active'')
         else catchA (commit_found tx x) (\<lambda>e.
           if is_abort e then
             bindA (abort_found tx x) (\<lambda>_. bindA (modifyA (erase_transaction tx)) (\<lambda>_. throwA e))
           else throwA e))"

text \<open>The destructor of the manager, over the transactions in the order of the map.\<close>

fun end_all :: "(tx_id \<times> transaction) list \<Rightarrow> (db, unit) act" where
  "end_all [] = modifyA (\<lambda>s. s\<lparr>db_active := []\<rparr>)"
| "end_all ((tx, x) # xs) =
     (if tx_state x = COMMITTED then end_all xs
      else bindA (undo_all tx (tx_first_rids x)) (\<lambda>_.
           bindA (release_all_locks tx x) (\<lambda>_.
           bindA (abort_in_progress_tables tx) (\<lambda>_.
           bindA (set_state COMMITTED tx) (\<lambda>_. end_all xs)))))"

definition transaction_manager_end :: "(db, unit) act" where
  "transaction_manager_end = bindA getA (\<lambda>s. end_all (db_active s))"

section \<open>Locks\<close>

text \<open>
  A thread that finds the key taken sleeps for a tenth of a second and tries again; a round that starts more than ten
  seconds after the call aborts the transaction. \<open>w_clock n\<close> is reading \<open>n\<close> of \<^verbatim>\<open>steady_clock\<close> in nanoseconds,
  number 0 before the loop and number \<open>n\<close> in round \<open>n\<close>; \<open>w_env n\<close> is what the other threads do to the state
  while this one sleeps in round \<open>n\<close>. The loop itself has no bound: with a clock that stands still it waits for ever.
\<close>

record wait =
  w_env :: "nat \<Rightarrow> db \<Rightarrow> db"
  w_clock :: "nat \<Rightarrow> int"

definition MAX_TIME :: int where
  "MAX_TIME = 10 * 10 ^ 9"

definition late :: "wait \<Rightarrow> nat \<Rightarrow> bool" where
  "late w n \<longleftrightarrow> w_clock w n - w_clock w 0 > MAX_TIME"

partial_function (option) acquire_loop :: "wait \<Rightarrow> nat \<Rightarrow> tx_id \<Rightarrow> table_id \<Rightarrow> rid \<Rightarrow> db \<Rightarrow> (bool res \<times> db) option" where
  "acquire_loop w n tx tid r s =
     (if late w n then
        bindA (abort_transaction tx) (\<lambda>_.
          throwA (TransactionAbortException (''Transaction '' @ tx_name tx @ '' aborted due to lock timeout''))) s
      else
        case db_locks s (TupleKey tid r) of
          None \<Rightarrow>
            bindA (modifyA (\<lambda>s. s\<lparr>db_locks := (db_locks s)(TupleKey tid r \<mapsto> tx)\<rparr>)) (\<lambda>_.
            bindA (add_to_write_set tid r tx) (\<lambda>_. returnA True)) s
        | Some h \<Rightarrow>
            if h = tx then returnA True s
            else acquire_loop w (n + 1) tx tid r (w_env w n s))"

definition try_acquire_lock :: "wait \<Rightarrow> tx_id \<Rightarrow> table_id \<Rightarrow> rid \<Rightarrow> (db, bool) act" where
  "try_acquire_lock w tx tid r = acquire_loop w 1 tx tid r"

text \<open>The first try comes in time.\<close>

definition prompt :: "wait \<Rightarrow> bool" where
  "prompt w \<longleftrightarrow> \<not> late w 1"

text \<open>The clock does not go back, and sleeping takes a tenth of a second at least.\<close>

definition sleeps :: "wait \<Rightarrow> bool" where
  "sleeps w \<longleftrightarrow> w_clock w 0 \<le> w_clock w 1 \<and> (\<forall>n \<ge> 1. w_clock w n + 10 ^ 8 \<le> w_clock w (n + 1))"

end
