(* ===== verification/Heap_File.thy ===== *)
theory Heap_File
  imports Transactions
begin

text \<open>
  Heap files (\<^verbatim>\<open>src/storage/heap_file/heap_file.cc\<close>) and their iterator
  (\<^verbatim>\<open>heap_file_iter.cc\<close>): the versions of a record form a chain from its first version
  through the \<^verbatim>\<open>next\<close> fields, the last one pointing to itself.
\<close>

section \<open>Visibility\<close>

text \<open>The branches for READ COMMITTED; for SNAPSHOT ISOLATION the source has a stub.\<close>

definition visible_rc ::
  "tx_id \<Rightarrow> tx_id \<Rightarrow> transaction_state \<Rightarrow> transaction_state \<Rightarrow> tx_id \<Rightarrow> bool" where
  "visible_rc tmin tmax smin smax tx =
     (if smin = ACTIVE then
        (if tmin = tx then (if tmax = 0 then True else False) else False)
      else if tmax = 0 then True
      else if smax = ACTIVE then (if tmax = tx then False else True)
      else False)"

definition is_visible :: "record_header \<Rightarrow> tx_id \<Rightarrow> (db, bool) act" where
  "is_visible h tx =
     bindA (get_states (t_min h) (t_max h)) (\<lambda>(smin, smax).
     bindA (get_isolation_level tx) (\<lambda>l.
       case l of
         READ_COMMITTED \<Rightarrow> returnA (visible_rc (t_min h) (t_max h) smin smax tx)
       | SNAPSHOT_ISOLATION \<Rightarrow> returnA False))"

text \<open>\<open>heap_read\<close> is \<^verbatim>\<open>HeapFile::read\<close>; the flag is its out parameter \<^verbatim>\<open>valid\<close>.\<close>

partial_function (option) heap_read :: "heap_file \<Rightarrow> rid \<Rightarrow> tx_id \<Rightarrow> db \<Rightarrow> ((rid \<times> bool) res \<times> db) option" where
  "heap_read hf r tx s =
     bindA (get_record_header hf r) (\<lambda>h s.
       case h of
         None \<Rightarrow> returnA (rid_absent, False) s
       | Some h \<Rightarrow>
           bindA (is_visible h tx) (\<lambda>v s.
             if v then returnA (r, True) s
             else if next_rid h = rid_deleted then returnA (next_rid h, False) s
             else if t_max h \<noteq> 0 then heap_read hf (next_rid h) tx s
             else returnA (next_rid h, False) s) s) s"

section \<open>Inserting and updating\<close>

partial_function (option) heap_insert ::
  "heap_file \<Rightarrow> row \<Rightarrow> tx_id \<Rightarrow> rid option \<Rightarrow> db \<Rightarrow> (rid res \<times> db) option" where
  "heap_insert hf rec tx first s =
     (let n = db_last_insert s (hf_table_id hf) in
      bindA (heap_page hf n (\<lambda>p. try_insert_record p rec tx first)) (\<lambda>r s.
        case r of
          Some rid \<Rightarrow>
            bindA (whenA (first = None) (add_to_write_set (hf_table_id hf) rid tx)) (\<lambda>_. returnA rid) s
        | None \<Rightarrow>
            heap_insert hf rec tx first
              (s\<lparr>db_last_insert := (db_last_insert s)(hf_table_id hf := n + 1)\<rparr>)) s)"

definition heap_update :: "wait \<Rightarrow> heap_file \<Rightarrow> rid \<Rightarrow> row \<Rightarrow> tx_id \<Rightarrow> (db, rid) act" where
  "heap_update w hf r rec tx =
     bindA (get_isolation_level tx) (\<lambda>l.
     bindA (get_record_header hf r) (\<lambda>h.
       case h of
         None \<Rightarrow> returnA rid_absent
       | Some h \<Rightarrow>
           bindA (try_acquire_lock w tx (hf_table_id hf) (first_rid h)) (\<lambda>locked.
             case l of
               SNAPSHOT_ISOLATION \<Rightarrow> returnA rid_deleted
             | READ_COMMITTED \<Rightarrow>
                 if \<not> locked then returnA rid_deleted
                 else
                   bindA (get_last_version hf (first_rid h)) (\<lambda>old.
                   bindA (get_record_header hf old) (\<lambda>oh.
                     case oh of
                       None \<Rightarrow> returnA rid_absent
                     | Some oh \<Rightarrow>
                         if next_rid oh = rid_deleted then returnA rid_deleted
                         else
                           bindA (heap_insert hf rec tx (Some (first_rid h))) (\<lambda>new.
                           bindA (heap_page hf (page_num old) (writing (\<lambda>p.
                                    update_record_header p (dir_slot old) new tx))) (\<lambda>_.
                             returnA new)))))))"

text \<open>
  Under READ COMMITTED the source locks the record and stops (a stub). The SNAPSHOT ISOLATION
  branch is complete; \<^verbatim>\<open>is_visible\<close> is its stub.
\<close>

definition heap_delete :: "wait \<Rightarrow> heap_file \<Rightarrow> rid \<Rightarrow> tx_id \<Rightarrow> (db, unit) act" where
  "heap_delete w hf r tx =
     bindA (get_isolation_level tx) (\<lambda>l.
     let tid = (case columns (hf_schema hf) of [] \<Rightarrow> 0 | c # _ \<Rightarrow> ci_table_id c) in
     bindA (get_record_header hf r) (\<lambda>h.
       case h of
         None \<Rightarrow> returnA ()
       | Some h \<Rightarrow>
           bindA (try_acquire_lock w tx tid (first_rid h)) (\<lambda>locked.
             case l of
               READ_COMMITTED \<Rightarrow> returnA ()
             | SNAPSHOT_ISOLATION \<Rightarrow>
                 if \<not> locked then returnA ()
                 else
                   bindA (get_last_version hf (first_rid h)) (\<lambda>last.
                   bindA (get_record_header hf last) (\<lambda>lh.
                     case lh of
                       None \<Rightarrow> returnA ()
                     | Some lh \<Rightarrow>
                         if t_max lh = tx \<and> next_rid lh = rid_deleted then returnA ()
                         else
                           bindA (is_visible lh tx) (\<lambda>v.
                             if \<not> v \<or> (v \<and> next_rid lh = rid_deleted) then
                               bindA (abort_transaction tx) (\<lambda>_.
                                 throwA (TransactionAbortException (''Transaction '' @ tx_name tx @
                                   '' aborted due to a write-write conflict under Snapshot Isolation.'')))
                             else
                               heap_page hf (page_num last) (writing (\<lambda>p.
                                 delete_record_logically p (dir_slot last) tx))))))))"

section \<open>Vacuum\<close>

text \<open>
  \<open>g n\<close> is what the fresh buffer of the vacuum of page \<open>n\<close> holds. \<open>vacuum_pages hf g i n\<close>
  vacuums the pages \<open>i, \<dots>, i + n - 1\<close>.
\<close>

fun vacuum_pages :: "heap_file \<Rightarrow> (nat \<Rightarrow> byte list) \<Rightarrow> nat \<Rightarrow> nat \<Rightarrow> (db, unit) act" where
  "vacuum_pages hf g i 0 = returnA ()"
| "vacuum_pages hf g i (Suc n) =
     bindA (heap_page hf (int i) (writing (page_vacuum (hf_schema hf) (g i)))) (\<lambda>_.
       vacuum_pages hf g (i + 1) n)"

definition reset_last_insert :: "heap_file \<Rightarrow> (db, unit) act" where
  "reset_last_insert hf = modifyA (\<lambda>s. s\<lparr>db_last_insert := (db_last_insert s)(hf_table_id hf := 0)\<rparr>)"

definition heap_vacuum :: "heap_file \<Rightarrow> (nat \<Rightarrow> byte list) \<Rightarrow> (db, unit) act" where
  "heap_vacuum hf g =
     bindA getA (\<lambda>s. bindA (vacuum_pages hf g 0 (db_count_pages hf s)) (\<lambda>_. reset_last_insert hf))"

definition open_page :: "heap_file \<Rightarrow> int \<Rightarrow> (db, unit) act" where
  "open_page hf n = heap_page hf n (reading (\<lambda>p. Inr ()))"

text \<open>
  \<open>cut_chain\<close> is the inner loop of \<^verbatim>\<open>full_vacuum\<close>: it deletes the versions from \<open>r\<close> on and makes
  the last one the first; a logically deleted record goes altogether. A slot that is already
  free would give a header of uninitialised fields.
\<close>

partial_function (option) cut_chain :: "heap_file \<Rightarrow> rid \<Rightarrow> tx_id \<Rightarrow> db \<Rightarrow> (unit res \<times> db) option" where
  "cut_chain hf r tmax s =
     (if tmax = 0 then returnA () s
      else bindA (heap_page hf (page_num r) (reading (\<lambda>p. page_record_header p (dir_slot r)))) (\<lambda>h s.
        case h of
          None \<Rightarrow> throwA Stuck s
        | Some h \<Rightarrow>
            if r = next_rid h then
              heap_page hf (page_num r) (writing (\<lambda>p. reset_first p (dir_slot r))) s
            else
              bindA (heap_page hf (page_num r) (writing (\<lambda>p. delete_record_physically p (dir_slot r))))
                (\<lambda>_ s. if next_rid h = rid_deleted then returnA () s
                       else cut_chain hf (next_rid h) (t_max h) s) s) s)"

text \<open>The scan over the records of all pages; it returns the page number it stopped at.\<close>

partial_function (option) full_scan ::
  "heap_file \<Rightarrow> (nat \<Rightarrow> byte list) \<Rightarrow> int \<Rightarrow> int \<Rightarrow> int \<Rightarrow> db \<Rightarrow> (int res \<times> db) option" where
  "full_scan hf g npages k pos s =
     bindA (heap_page hf k (reading get_dir_count)) (\<lambda>dc s.
       let pos = pos + 1 in
       if pos \<ge> dc then
         bindA (heap_page hf k (writing (page_vacuum (hf_schema hf) (g (nat k))))) (\<lambda>_ s.
           if k + 1 < npages
           then bindA (open_page hf (k + 1)) (\<lambda>_ s. full_scan hf g npages (k + 1) (-1) s) s
           else returnA (k + 1) s) s
       else
         bindA (heap_page hf k (reading (\<lambda>p. page_record_header p pos))) (\<lambda>h s.
           case h of
             None \<Rightarrow> full_scan hf g npages k pos s
           | Some h \<Rightarrow>
               if RID k pos = first_rid h then
                 bindA (cut_chain hf (RID k pos) (t_max h)) (\<lambda>_ s. full_scan hf g npages k pos s) s
               else full_scan hf g npages k pos s) s) s"

text \<open>
  The loop that drops the empty pages at the end. \<^verbatim>\<open>buffer_mgr.delete_page\<close> forgets the frame
  without writing it, so the page is again what the disk has: \<open>stale n\<close>.
\<close>

definition db_delete_page :: "heap_file \<Rightarrow> int \<Rightarrow> byte list \<Rightarrow> (db, unit) act" where
  "db_delete_page hf n bs =
     modifyA (\<lambda>s. s\<lparr>db_pages := (db_pages s)(hf_file_id hf := (db_pages s (hf_file_id hf))[nat n := bs])\<rparr>)"

definition db_truncate :: "heap_file \<Rightarrow> nat \<Rightarrow> (db, unit) act" where
  "db_truncate hf n =
     modifyA (\<lambda>s. s\<lparr>db_pages := (db_pages s)(hf_file_id hf := take n (db_pages s (hf_file_id hf)))\<rparr>)"

fun drop_empty :: "heap_file \<Rightarrow> (nat \<Rightarrow> byte list) \<Rightarrow> int \<Rightarrow> nat \<Rightarrow> (db, unit) act" where
  "drop_empty hf stale npages 0 = returnA ()"
| "drop_empty hf stale npages (Suc k) =
     bindA (heap_page hf (int k) (reading is_page_empty)) (\<lambda>e.
       if e then bindA (db_delete_page hf (int k) (stale k)) (\<lambda>_. drop_empty hf stale npages k)
       else whenA (npages \<noteq> int k + 1) (db_truncate hf (k + 1)))"

definition heap_full_vacuum :: "heap_file \<Rightarrow> (nat \<Rightarrow> byte list) \<Rightarrow> (nat \<Rightarrow> byte list) \<Rightarrow> (db, unit) act" where
  "heap_full_vacuum hf g stale =
     bindA getA (\<lambda>s. let npages = int (db_count_pages hf s) in
     bindA (open_page hf 0) (\<lambda>_.
     bindA (full_scan hf g npages 0 (-1)) (\<lambda>k.
     bindA (drop_empty hf stale npages (nat (k + 1))) (\<lambda>_.
       reset_last_insert hf))))"

section \<open>The iterator\<close>

text \<open>\<open>hi_open\<close> is \<^verbatim>\<open>current_page != nullptr\<close>.\<close>

record heap_iter =
  hi_file :: heap_file
  hi_tx :: tx_id
  hi_total :: int
  hi_open :: bool
  hi_number :: int
  hi_pos :: int

definition get_record_iter :: "heap_file \<Rightarrow> tx_id \<Rightarrow> (db, heap_iter) act" where
  "get_record_iter hf tx =
     bindA (open_page hf 0) (\<lambda>_. bindA getA (\<lambda>s.
       returnA \<lparr>hi_file = hf, hi_tx = tx, hi_total = int (db_count_pages hf s), hi_open = True,
                hi_number = 0, hi_pos = -1\<rparr>))"

definition iter_begin :: "heap_iter \<Rightarrow> (db, heap_iter) act" where
  "iter_begin it = returnA it"

definition iter_reset :: "heap_iter \<Rightarrow> (db, heap_iter) act" where
  "iter_reset it =
     bindA (open_page (hi_file it) 0) (\<lambda>_.
       returnA (it\<lparr>hi_pos := -1, hi_number := 0, hi_open := True\<rparr>))"

definition get_current_RID :: "heap_iter \<Rightarrow> rid" where
  "get_current_RID it = RID (hi_number it) (hi_pos it)"

partial_function (option) iter_next :: "heap_iter \<Rightarrow> db \<Rightarrow> ((row \<times> heap_iter) res \<times> db) option" where
  "iter_next it s =
     (if \<not> hi_open it then returnA (no_row, it) s
      else bindA (heap_page (hi_file it) (hi_number it) (reading get_dir_count)) (\<lambda>dc s.
        let it = it\<lparr>hi_pos := hi_pos it + 1\<rparr> in
        if hi_pos it \<ge> dc then
          (let it = it\<lparr>hi_pos := -1, hi_number := hi_number it + 1\<rparr> in
           if hi_number it < hi_total it
           then bindA (open_page (hi_file it) (hi_number it)) (\<lambda>_ s. iter_next it s) s
           else returnA (no_row, it\<lparr>hi_open := False\<rparr>) s)
        else
          bindA (get_record_header (hi_file it) (get_current_RID it)) (\<lambda>h s.
            case h of
              None \<Rightarrow> iter_next it s
            | Some h \<Rightarrow>
                if get_current_RID it = first_rid h then
                  bindA (heap_read (hi_file it) (get_current_RID it) (hi_tx it)) (\<lambda>x s.
                    if \<not> snd x then iter_next it s
                    else bindA (get_record (hi_file it) (fst x)) (\<lambda>rec s.
                      if \<not> row_invalid rec then returnA (rec @ [VRid (first_rid h)], it) s
                      else iter_next it s) s) s
                else iter_next it s) s) s)"

end
