(* ===== verification/Heap_Page_Rep.thy ===== *)
theory Heap_Page_Rep
  imports Heap_Page
begin

text \<open>
  What a slotted page means: a list of slots, each empty or holding a version (its header and
  its stored values). \<open>page_rep\<close> states that the bytes of a page represent such a list, with
  the tuples apart from each other and from the directory; every operation of \<open>Heap_Page\<close> is
  shown to act on the list of slots as its name says.
\<close>

type_synonym slot = "(record_header \<times> row) option"

section \<open>Tuples as bytes\<close>

fun serial :: "row \<Rightarrow> byte list" where
  "serial [] = []"
| "serial (VStr s # vs) = word_of_nat (length s) # map byte_of_char s @ serial vs"
| "serial (VInt i # vs) = enc64 i @ serial vs"
| "serial (VRid r # vs) = serial vs"

definition enc_header :: "record_header \<Rightarrow> byte list" where
  "enc_header h =
     enc64 (t_min h) @ enc64 (t_max h) @
     enc32 (page_num (next_rid h)) @ enc32 (dir_slot (next_rid h)) @
     enc32 (page_num (first_rid h)) @ enc32 (dir_slot (first_rid h))"

definition header_ok :: "record_header \<Rightarrow> bool" where
  "header_ok h \<longleftrightarrow> rid_ok (next_rid h) \<and> rid_ok (first_rid h)"

definition enc_tuple :: "record_header \<Rightarrow> row \<Rightarrow> byte list" where
  "enc_tuple h r = enc_header h @ serial r"

definition tuple_len :: "row \<Rightarrow> nat" where
  "tuple_len r = 32 + length (serial r)"

definition short_strings :: "row \<Rightarrow> bool" where
  "short_strings r \<longleftrightarrow> (\<forall>s. VStr s \<in> set r \<longrightarrow> length s \<le> MAX_STRLEN)"

lemma short_strings_simps [simp]:
  "short_strings []"
  "short_strings (VStr s # r) \<longleftrightarrow> length s \<le> 255 \<and> short_strings r"
  "short_strings (VInt i # r) \<longleftrightarrow> short_strings r"
  "short_strings (VRid x # r) \<longleftrightarrow> short_strings r"
  by (auto simp: short_strings_def MAX_STRLEN_def)

lemma length_enc_header [simp]: "length (enc_header h) = 32"
  by (simp add: enc_header_def)

lemma length_enc_tuple [simp]: "length (enc_tuple h r) = tuple_len r"
  by (simp add: enc_tuple_def tuple_len_def)

lemma values_size_serial: "values_size r = int (length (serial r))"
  by (induction r rule: serial.induct) auto

lemma serial_no_rids: "serial (filter (\<lambda>v. \<not> is_rid v) r) = serial r"
  by (induction r rule: serial.induct) auto

lemma value_fits_not_rid: "value_fits t v \<Longrightarrow> \<not> is_rid v"
  by (cases v; cases t) auto

lemma row_fits_short: "row_fits sch r \<Longrightarrow> short_strings r"
proof -
  have "list_all2 value_fits ts r \<Longrightarrow> short_strings r" for ts
  proof (induction ts r rule: list_all2_induct)
    case (Cons t ts v r)
    then show ?case by (cases v; cases t) (auto simp: MAX_STRLEN_def)
  qed simp
  then show "row_fits sch r \<Longrightarrow> short_strings r" by (auto simp: row_fits_def)
qed

section \<open>Reading what was written\<close>

lemma slice_patch_inside:
  assumes "a + n \<le> length xs" "k + length bs \<le> n"
  shows "slice a n (patch (a + k) bs xs) = patch k bs (slice a n xs)"
  using assms by (intro nth_equalityI) (auto simp: slice_nth patch_nth)

lemma slice_split:
  assumes "slice a n xs = ys @ zs" "n = length ys + length zs" "a + n \<le> length xs"
  shows "slice a (length ys) xs = ys" "slice (a + length ys) (length zs) xs = zs"
proof -
  have "slice a (length ys) xs @ slice (a + length ys) (length zs) xs = ys @ zs"
    using assms by (simp add: slice_append)
  then show "slice a (length ys) xs = ys" "slice (a + length ys) (length zs) xs = zs"
    using assms by (auto simp: append_eq_append_conv)
qed

text \<open>The columns read back the serialised values.\<close>

lemma read_columns_serial:
  assumes "page_wf p" "a + length (serial r) \<le> 4096"
    "slice a (length (serial r)) (pg_bytes p) = serial r"
    "list_all2 value_fits (filter stored_type (map ci_datatype cs)) r"
  shows "read_columns p (int a) cs = Inr r"
  using assms(2-)
proof (induction cs arbitrary: a r)
  case (Cons c cs)
  show ?case
  proof (cases "ci_datatype c")
    case DT_INT
    with Cons.prems(3) obtain i r' where r: "r = VInt i # r'"
      and r': "list_all2 value_fits (filter stored_type (map ci_datatype cs)) r'"
      by (auto simp: list_all2_Cons1 elim!: value_fits.elims)
    have l: "length (pg_bytes p) = 4096" using assms(1) by (simp add: page_wf_def)
    note sp = slice_split [of a _ "pg_bytes p" "enc64 i" "serial r'"]
    have 1: "slice a 8 (pg_bytes p) = enc64 i"
      and 2: "slice (a + 8) (length (serial r')) (pg_bytes p) = serial r'"
      using sp Cons.prems(1,2) l by (simp_all add: r)
    have "read_columns p (int (a + 8)) cs = Inr r'"
      by (rule Cons.IH) (use Cons.prems(1) 2 r' in \<open>simp_all add: r\<close>)
    then show ?thesis
      using DT_INT Cons.prems(1) 1 by (simp add: r read_int64_nat bytes_simps)
  next
    case DT_STR
    with Cons.prems(3) obtain s r' where r: "r = VStr s # r'" and s: "length s \<le> 255"
      and r': "list_all2 value_fits (filter stored_type (map ci_datatype cs)) r'"
      by (auto simp: list_all2_Cons1 MAX_STRLEN_def elim!: value_fits.elims)
    have l: "length (pg_bytes p) = 4096" using assms(1) by (simp add: page_wf_def)
    let ?n = "length s" and ?b = "pg_bytes p"
    have whole: "slice a (1 + (?n + length (serial r'))) ?b
                 = [word_of_nat ?n] @ (map byte_of_char s @ serial r')"
      using Cons.prems(2) by (simp add: r)
    have len: "a + (1 + (?n + length (serial r'))) \<le> length ?b" using Cons.prems(1) l by (simp add: r)
    have 1: "slice a 1 ?b = [word_of_nat ?n]"
      and rest: "slice (a + 1) (?n + length (serial r')) ?b = map byte_of_char s @ serial r'"
      using slice_split [OF whole _ len] by simp_all
    have 2: "slice (a + 1) ?n ?b = map byte_of_char s"
      and 3: "slice (a + 1 + ?n) (length (serial r')) ?b = serial r'"
      using slice_split [OF rest] len by simp_all
    have n: "unat (word_of_nat ?n :: byte) = ?n" using s by (simp add: unat_byte_of_nat)
    then have n': "uint (word_of_nat ?n :: byte) = int ?n" by (metis of_nat_unat)
    have "read_columns p (int (a + 1 + ?n)) cs = Inr r'"
      by (rule Cons.IH) (use Cons.prems(1) 3 r' in \<open>simp_all add: r\<close>)
    moreover have "read_uint8 p (int a) = Inr (word_of_nat ?n)"
      using Cons.prems(1) assms(1) 1 by (simp add: r read_uint8_nat)
    moreover have "page_read p (int (a + 1)) ?n = Inr (map byte_of_char s)"
      using Cons.prems(1) 2 by (subst page_read_nat) (simp_all add: r)
    ultimately show ?thesis
      using DT_STR s n n' by (simp add: r value_of_string_def MAX_STRLEN_def comp_def ac_simps)
  next
    case DT_RID
    with Cons show ?thesis by simp
  next
    case DT_INVALID
    with Cons show ?thesis by simp
  qed
qed simp

lemma write_values_serial:
  assumes "page_wf p" "pg_dirty p" "a + length (serial r) \<le> 4096" "short_strings r"
  shows "write_values p (int a) r = Inr (put a (serial r) p)"
  using assms
proof (induction r arbitrary: p a)
  case Nil
  then show ?case by (simp add: put_def)
next
  case (Cons v r)
  show ?case
  proof (cases v)
    case (VStr s)
    let ?p1 = "put a [word_of_nat (length s)] p"
    let ?p2 = "put (a + 1) (map byte_of_char s) ?p1"
    have "write_values ?p2 (int (a + 1 + length s)) r = Inr (put (a + 1 + length s) (serial r) ?p2)"
      using Cons.prems by (intro Cons.IH) (simp_all add: VStr)
    moreover have "?p2 = put a (word_of_nat (length s) # map byte_of_char s) p"
      using put_append [of p a "[word_of_nat (length s)]" "map byte_of_char s"] Cons.prems
      by (simp add: VStr)
    moreover have "put (a + 1 + length s) (serial r) (put a (word_of_nat (length s) # map byte_of_char s) p)
        = put a (serial (v # r)) p"
      using put_append [of p a "word_of_nat (length s) # map byte_of_char s" "serial r"] Cons.prems
      by (simp add: VStr)
    moreover have "write_int8 p (int a) (word_of_nat (length s)) = Inr ?p1"
      using Cons.prems by (simp add: VStr write_nat)
    moreover have "page_write ?p1 (int (a + 1)) (map byte_of_char s) = Inr ?p2"
      using Cons.prems by (subst page_write_nat) (simp_all add: VStr)
    ultimately show ?thesis
      using Cons.prems by (simp add: VStr Let_def ac_simps)
  next
    case (VInt i)
    let ?p1 = "put a (enc64 i) p"
    have "write_values ?p1 (int (a + 8)) r = Inr (put (a + 8) (serial r) ?p1)"
      using Cons.prems by (intro Cons.IH) (simp_all add: VInt)
    moreover have "put (a + 8) (serial r) ?p1 = put a (serial (v # r)) p"
      using put_append [of p a "enc64 i" "serial r"] Cons.prems by (simp add: VInt)
    ultimately show ?thesis using Cons.prems by (simp add: VInt write_nat)
  next
    case (VRid x)
    with Cons show ?thesis by simp
  qed
qed

lemma read_header_fields:
  assumes "slice a (tuple_len r) b = enc_tuple h r" "a + tuple_len r \<le> length b"
  shows "slice a 8 b = enc64 (t_min h)" "slice (a + 8) 8 b = enc64 (t_max h)"
    "slice (a + 16) 4 b = enc32 (page_num (next_rid h))"
    "slice (a + 20) 4 b = enc32 (dir_slot (next_rid h))"
    "slice (a + 24) 4 b = enc32 (page_num (first_rid h))"
    "slice (a + 28) 4 b = enc32 (dir_slot (first_rid h))"
    "slice (a + 32) (length (serial r)) b = serial r"
proof -
  have sub: "slice (a + k) n b = slice k n (enc_tuple h r)" if "k + n \<le> tuple_len r" for k n
    using slice_slice [of k n "tuple_len r" a b] that assms by simp
  show "slice a 8 b = enc64 (t_min h)"
    using sub [of 0 8] by (simp add: tuple_len_def slice_def enc_tuple_def enc_header_def)
  show "slice (a + 8) 8 b = enc64 (t_max h)"
    using sub [of 8 8] by (simp add: tuple_len_def slice_def enc_tuple_def enc_header_def)
  show "slice (a + 16) 4 b = enc32 (page_num (next_rid h))"
    using sub [of 16 4] by (simp add: tuple_len_def slice_def enc_tuple_def enc_header_def)
  show "slice (a + 20) 4 b = enc32 (dir_slot (next_rid h))"
    using sub [of 20 4] by (simp add: tuple_len_def slice_def enc_tuple_def enc_header_def)
  show "slice (a + 24) 4 b = enc32 (page_num (first_rid h))"
    using sub [of 24 4] by (simp add: tuple_len_def slice_def enc_tuple_def enc_header_def)
  show "slice (a + 28) 4 b = enc32 (dir_slot (first_rid h))"
    using sub [of 28 4] by (simp add: tuple_len_def slice_def enc_tuple_def enc_header_def)
  show "slice (a + 32) (length (serial r)) b = serial r"
    using sub [of 32 "length (serial r)"]
    by (simp add: tuple_len_def slice_def enc_tuple_def enc_header_def)
qed

section \<open>The representation relation\<close>

text \<open>Directory entry \<open>i\<close>, and what it says about slot \<open>i\<close> when the tuples start at \<open>base\<close>.\<close>

definition dir_at :: "page \<Rightarrow> nat \<Rightarrow> int" where
  "dir_at p i = dec32 (slice (8 + 4 * i) 4 (pg_bytes p))"

fun slot_rep :: "schema \<Rightarrow> page \<Rightarrow> nat \<Rightarrow> int \<Rightarrow> slot \<Rightarrow> bool" where
  "slot_rep sch p base d None \<longleftrightarrow> d < 0"
| "slot_rep sch p base d (Some (h, r)) \<longleftrightarrow>
     int base \<le> d \<and> nat d + tuple_len r \<le> 4096 \<and>
     slice (nat d) (tuple_len r) (pg_bytes p) = enc_tuple h r \<and> row_fits sch r \<and> header_ok h"

fun slot_len :: "slot \<Rightarrow> nat" where
  "slot_len None = 0"
| "slot_len (Some (h, r)) = tuple_len r"

definition tuples_base :: "slot list \<Rightarrow> nat \<Rightarrow> nat" where
  "tuples_base ss fs = 8 + 4 * length ss + fs"

text \<open>
  \<open>page_rep sch p ss fs\<close>: page \<open>p\<close> of a table with schema \<open>sch\<close> holds the slots \<open>ss\<close> and has
  \<open>fs\<close> bytes free between its directory and its tuples; the tuples do not overlap.
\<close>

definition tuples_apart :: "page \<Rightarrow> slot list \<Rightarrow> bool" where
  "tuples_apart p ss \<longleftrightarrow>
     (\<forall>i j. i < length ss \<longrightarrow> j < length ss \<longrightarrow> i \<noteq> j \<longrightarrow> ss ! i \<noteq> None \<longrightarrow> ss ! j \<noteq> None \<longrightarrow>
        dir_at p i + int (slot_len (ss ! i)) \<le> dir_at p j \<or>
        dir_at p j + int (slot_len (ss ! j)) \<le> dir_at p i)"

definition page_rep :: "schema \<Rightarrow> page \<Rightarrow> slot list \<Rightarrow> nat \<Rightarrow> bool" where
  "page_rep sch p ss fs \<longleftrightarrow>
     page_wf p \<and>
     dec32 (slice 0 4 (pg_bytes p)) = int (length ss) \<and>
     dec32 (slice 4 4 (pg_bytes p)) = int fs \<and>
     tuples_base ss fs \<le> 4096 \<and>
     (\<forall>i < length ss. slot_rep sch p (tuples_base ss fs) (dir_at p i) (ss ! i)) \<and>
     tuples_apart p ss"

lemma page_repD:
  assumes "page_rep sch p ss fs"
  shows "page_wf p" "length (pg_bytes p) = 4096" "8 + 4 * length ss + fs \<le> 4096"
    "i < length ss \<Longrightarrow> slot_rep sch p (tuples_base ss fs) (dir_at p i) (ss ! i)"
    "tuples_apart p ss"
  using assms by (auto simp: page_rep_def page_wf_def tuples_base_def)

lemma slot_rep_Some_iff:
  "slot_rep sch p base d (Some hr) \<longleftrightarrow>
     (\<exists>a h r. hr = (h, r) \<and> d = int a \<and> base \<le> a \<and> a + tuple_len r \<le> 4096 \<and>
        slice a (tuple_len r) (pg_bytes p) = enc_tuple h r \<and> row_fits sch r \<and> header_ok h)"
proof (cases hr)
  case (Pair h r)
  show ?thesis
  proof
    assume l: "slot_rep sch p base d (Some hr)"
    then have "d = int (nat d)" by (auto simp: Pair)
    with l show "\<exists>a h r. hr = (h, r) \<and> d = int a \<and> base \<le> a \<and> a + tuple_len r \<le> 4096 \<and>
        slice a (tuple_len r) (pg_bytes p) = enc_tuple h r \<and> row_fits sch r \<and> header_ok h"
      by (auto simp: Pair intro!: exI [of _ "nat d"])
  qed (auto simp: Pair)
qed

section \<open>Reading a represented page\<close>

lemma rep_dir_count: "page_rep sch p ss fs \<Longrightarrow> get_dir_count p = Inr (int (length ss))"
  using read_int32_nat [of 0 p] by (simp add: get_dir_count_def page_rep_def)

lemma rep_free_space: "page_rep sch p ss fs \<Longrightarrow> get_free_space p = Inr (int fs)"
  using read_int32_nat [of 4 p] by (simp add: get_free_space_def page_rep_def)

lemma get_dir_at: "8 + 4 * i + 4 \<le> 4096 \<Longrightarrow> get_dir p (int i) = Inr (dir_at p i)"
  using read_int32_nat [of "8 + 4 * i" p] by (simp add: get_dir_def dir_at_def)

lemma rep_get_dir:
  "page_rep sch p ss fs \<Longrightarrow> i < length ss \<Longrightarrow> get_dir p (int i) = Inr (dir_at p i)"
  using page_repD(3) [of sch p ss fs] by (intro get_dir_at) simp

lemma rep_None: "page_rep sch p ss fs \<Longrightarrow> i < length ss \<Longrightarrow> ss ! i = None \<Longrightarrow> dir_at p i < 0"
  using page_repD(4) [of sch p ss fs i] by simp

lemma rep_Some:
  assumes "page_rep sch p ss fs" "i < length ss" "ss ! i = Some (h, r)"
  obtains a where "dir_at p i = int a" "tuples_base ss fs \<le> a" "a + tuple_len r \<le> 4096"
    "slice a (tuple_len r) (pg_bytes p) = enc_tuple h r" "row_fits sch r" "header_ok h"
  using page_repD(4) [OF assms(1,2)] by (auto simp: assms(3) slot_rep_Some_iff)

lemma rep_live_pos:
  assumes "page_rep sch p ss fs" "i < length ss" "ss ! i \<noteq> None"
  shows "dir_at p i > 0"
proof -
  obtain h r where "ss ! i = Some (h, r)" using assms(3) by fastforce
  from rep_Some [OF assms(1,2) this] obtain a where
    "dir_at p i = int a" "tuples_base ss fs \<le> a" by metis
  then show ?thesis by (simp add: tuples_base_def)
qed

lemma rep_live_iff:
  "page_rep sch p ss fs \<Longrightarrow> i < length ss \<Longrightarrow> dir_at p i > 0 \<longleftrightarrow> ss ! i \<noteq> None"
  using rep_None [of sch p ss fs i] rep_live_pos [of sch p ss fs i] by (cases "ss ! i") auto

lemma rep_dead_iff:
  "page_rep sch p ss fs \<Longrightarrow> i < length ss \<Longrightarrow> dir_at p i < 0 \<longleftrightarrow> ss ! i = None"
  using rep_None [of sch p ss fs i] rep_live_pos [of sch p ss fs i] by (cases "ss ! i") auto

lemma rep_page_get_record:
  assumes rep: "page_rep sch p ss fs" and i: "i < length ss"
  shows "page_get_record sch p (int i) = Inr (case ss ! i of None \<Rightarrow> [] | Some (h, r) \<Rightarrow> r)"
proof (cases "ss ! i")
  case None
  then show ?thesis
    using i rep_None [OF rep] by (simp add: page_get_record_def rep_get_dir [OF rep] less_imp_le)
next
  case (Some hr)
  obtain h r where hr: "hr = (h, r)" by fastforce
  obtain a where a: "dir_at p i = int a" "tuples_base ss fs \<le> a" "a + tuple_len r \<le> 4096"
    "slice a (tuple_len r) (pg_bytes p) = enc_tuple h r" "row_fits sch r"
    using rep_Some [OF rep i Some [unfolded hr]] by metis
  have l: "a + 32 + length (serial r) \<le> 4096" using a(3) by (simp add: tuple_len_def)
  have "slice (a + 32) (length (serial r)) (pg_bytes p) = serial r"
    using a(3) page_repD(2) [OF rep] by (intro read_header_fields(7) [OF a(4)]) simp
  with l have "read_columns p (int (a + 32)) (columns sch) = Inr r"
    using a(5) by (intro read_columns_serial [OF page_repD(1) [OF rep]])
      (simp_all add: row_fits_def stored_types_def)
  with a i show ?thesis
    by (simp add: page_get_record_def rep_get_dir [OF rep] Some hr tuples_base_def add.commute)
qed

lemma rep_page_record_header:
  assumes rep: "page_rep sch p ss fs" and i: "i < length ss"
  shows "page_record_header p (int i) = Inr (map_option fst (ss ! i))"
proof (cases "ss ! i")
  case None
  then show ?thesis
    using i rep_None [OF rep] by (simp add: page_record_header_def rep_get_dir [OF rep] less_imp_le)
next
  case (Some hr)
  obtain h r where hr: "hr = (h, r)" by fastforce
  obtain a where a: "dir_at p i = int a" "tuples_base ss fs \<le> a" "a + tuple_len r \<le> 4096"
    "slice a (tuple_len r) (pg_bytes p) = enc_tuple h r" "header_ok h"
    using rep_Some [OF rep i Some [unfolded hr]] by metis
  have l: "a + 32 \<le> 4096" "a + tuple_len r \<le> length (pg_bytes p)" "0 < a"
    using a page_repD(2) [OF rep] by (simp_all add: tuple_len_def tuples_base_def)
  note flds = read_header_fields [OF a(4) l(2)]
  note rd = read_int64_nat [of a p] read_int64_nat [of "a + 8" p] read_int32_nat [of "a + 16" p]
    read_int32_nat [of "a + 20" p] read_int32_nat [of "a + 24" p] read_int32_nat [of "a + 28" p]
  show ?thesis
    using l a(5) i
    by (simp add: page_record_header_def rep_get_dir [OF rep] a(1) Some hr rd [simplified] flds
        dec64_enc64 dec32_enc32 header_ok_def rid_ok_def)
qed

lemma rep_page_get_record':
  "page_rep sch p ss fs \<Longrightarrow> i < length ss \<Longrightarrow> ss ! i = Some (h, r) \<Longrightarrow>
   page_get_record sch p (int i) = Inr r"
  by (simp add: rep_page_get_record)

section \<open>Writing one slot\<close>

lemma slot_rep_put_disjoint:
  assumes "page_wf p" "b + length bs \<le> 4096"
    "\<And>h r a. s = Some (h, r) \<Longrightarrow> d = int a \<Longrightarrow> b + length bs \<le> a \<or> a + tuple_len r \<le> b"
  shows "slot_rep sch (put b bs p) base d s \<longleftrightarrow> slot_rep sch p base d s"
proof (cases s)
  case (Some hr)
  obtain h r where hr: "hr = (h, r)" by fastforce
  show ?thesis
  proof (cases "0 \<le> d \<and> nat d + tuple_len r \<le> 4096")
    case True
    with assms(3) [of h r "nat d"] have "b + length bs \<le> nat d \<or> nat d + tuple_len r \<le> b"
      by (simp add: Some hr)
    with True assms(1,2)
    have "slice (nat d) (tuple_len r) (pg_bytes (put b bs p)) = slice (nat d) (tuple_len r) (pg_bytes p)"
      by (intro slice_put_disjoint) auto
    then show ?thesis by (simp add: Some hr del: put_fields)
  qed (simp add: Some hr, linarith)
qed simp

lemma dir_at_put:
  assumes "page_wf p" "b + length bs \<le> 4096" "8 + 4 * i + 4 \<le> b" 
  shows "dir_at (put b bs p) i = dir_at p i"
  using assms slice_put_disjoint [of p b bs "8 + 4 * i" 4] by (simp add: dir_at_def)

lemma rep_put_header:
  assumes rep: "page_rep sch p ss fs" and i: "i < length ss" "ss ! i = Some (h, r)"
    and a: "dir_at p i = int a"
    and k: "k + length bs \<le> 32" "patch k bs (enc_header h) = enc_header h'" "header_ok h'"
  shows "page_rep sch (put (a + k) bs p) (ss[i := Some (h', r)]) fs"
proof -
  note wf = page_repD(1,2) [OF rep]
  let ?q = "put (a + k) bs p" and ?ss = "ss[i := Some (h', r)]" and ?base = "tuples_base ss fs"
  have b: "?base \<le> a" "a + tuple_len r \<le> 4096"
    "slice a (tuple_len r) (pg_bytes p) = enc_tuple h r" "row_fits sch r"
    using rep_Some [OF rep i] a by (metis of_nat_eq_iff)+
  have len: "a + k + length bs \<le> 4096" using b(2) k(1) by (simp add: tuple_len_def)
  have base: "tuples_base ?ss fs = ?base" by (simp add: tuples_base_def)
  have low: "8 + 4 * j + 4 \<le> a + k" if "j < length ss" for j
    using b(1) that by (simp add: tuples_base_def)
  have dirs: "dir_at ?q j = dir_at p j" if "j < length ss" for j
    using low [OF that] len wf(1) by (intro dir_at_put) auto
  have slots: "slot_rep sch ?q ?base (dir_at ?q j) (?ss ! j)" if j: "j < length ss" for j
  proof (cases "j = i")
    case True
    have "slice a (tuple_len r) (pg_bytes ?q) = patch k bs (enc_tuple h r)"
      using slice_patch_inside [of a "tuple_len r" "pg_bytes p" k bs] b k(1) wf(2)
      by (simp add: tuple_len_def)
    also have "\<dots> = enc_tuple h' r"
      using k(1,2) by (simp add: enc_tuple_def patch_def)
    finally show ?thesis
      using True b k(3) i(1) by (simp add: dirs a slot_rep_Some_iff)
  next
    case False
    have "a + k + length bs \<le> a' \<or> a' + tuple_len r' \<le> a + k"
      if s: "ss ! j = Some (h'', r')" "dir_at p j = int a'" for h'' r' a'
    proof -
      have "int a + int (tuple_len r) \<le> int a' \<or> int a' + int (tuple_len r') \<le> int a"
        using page_repD(5) [OF rep] i j False s a unfolding tuples_apart_def by fastforce
      with k(1) show ?thesis by (simp add: tuple_len_def) linarith
    qed
    then have "slot_rep sch ?q ?base (dir_at p j) (ss ! j)"
      using slot_rep_put_disjoint [OF wf(1) len, of "ss ! j" "dir_at p j" sch ?base]
        page_repD(4) [OF rep j] by blast
    with False j show ?thesis by (simp add: dirs)
  qed
  have "tuples_apart ?q ?ss"
  proof -
    have "slot_len (?ss ! j) = slot_len (ss ! j)" "?ss ! j = None \<longleftrightarrow> ss ! j = None"
      if "j < length ss" for j
      using i that by (cases "j = i"; simp)+
    then show ?thesis using page_repD(5) [OF rep] dirs by (simp add: tuples_apart_def)
  qed
  moreover have "slice c 4 (pg_bytes ?q) = slice c 4 (pg_bytes p)" if "c \<le> 4" for c
    using b(1) len wf(1) that by (intro slice_put_disjoint) (auto simp: tuples_base_def)
  ultimately show ?thesis
    using rep slots len wf(1) by (simp add: page_rep_def base)
qed

text \<open>Emptying a slot: its directory entry becomes negative.\<close>

lemma rep_kill:
  assumes rep: "page_rep sch p ss fs" and i: "i < length ss" and d: "int32 d" "d < 0"
  shows "page_rep sch (put (8 + 4 * i) (enc32 d) p) (ss[i := None]) fs"
proof -
  note wf = page_repD(1,2) [OF rep]
  let ?q = "put (8 + 4 * i) (enc32 d) p" and ?ss = "ss[i := None]" and ?base = "tuples_base ss fs"
  have len: "8 + 4 * i + 4 \<le> ?base" "?base \<le> 4096"
    using page_repD(3) [OF rep] i by (simp_all add: tuples_base_def)
  have dirs: "dir_at ?q j = (if j = i then d else dir_at p j)" if "j < length ss" for j
  proof (cases "j = i")
    case True
    then show ?thesis using len wf(1) d by (simp add: dir_at_def page_wf_length bytes_simps)
  next
    case False
    have "slice (8 + 4 * j) 4 (pg_bytes ?q) = slice (8 + 4 * j) 4 (pg_bytes p)"
      using False that len wf(1) page_repD(3) [OF rep] by (intro slice_put_disjoint) auto
    with False show ?thesis by (simp add: dir_at_def)
  qed
  have "slot_rep sch ?q ?base (dir_at ?q j) (?ss ! j)" if j: "j < length ss" for j
  proof (cases "j = i")
    case True
    with i d show ?thesis by (simp add: dirs)
  next
    case False
    have "slot_rep sch ?q ?base (dir_at p j) (ss ! j)"
    proof (subst slot_rep_put_disjoint)
      fix h r a assume "ss ! j = Some (h, r)" "dir_at p j = int a"
      with page_repD(4) [OF rep j] len
      show "8 + 4 * i + length (enc32 d) \<le> a \<or> a + tuple_len r \<le> 8 + 4 * i" by simp
    qed (use wf len page_repD(4) [OF rep j] in simp_all)
    with False j show ?thesis by (simp add: dirs)
  qed
  moreover have "tuples_apart ?q ?ss"
    using page_repD(5) [OF rep] i by (auto simp: tuples_apart_def dirs nth_list_update)
  moreover have "slice c 4 (pg_bytes ?q) = slice c 4 (pg_bytes p)" if "c \<le> 4" for c
    using len wf(1) that by (intro slice_put_disjoint) (auto simp: tuples_base_def)
  ultimately show ?thesis
    using rep len wf(1) by (simp add: page_rep_def tuples_base_def)
qed

end
