(* ===== verification/Heap_Page_Ops.thy ===== *)
theory Heap_Page_Ops
  imports Heap_Page_Rep
begin

text \<open>
  What each operation of the slotted page does to the list of slots the page represents:
  header updates, physical and logical deletion, insertion (which slot, how much space, when
  it is refused) and the packing of \<^verbatim>\<open>vacuum\<close>.
\<close>

section \<open>Header updates\<close>

lemma rep_set_tmax:
  assumes rep: "page_rep sch p ss fs" and i: "i < length ss" "ss ! i = Some (h, r)"
  shows "\<exists>q. set_tmax p (int i) t = Inr q \<and> page_rep sch q (ss[i := Some (h\<lparr>t_max := t\<rparr>, r)]) fs"
proof -
  obtain a where a: "dir_at p i = int a" "a + tuple_len r \<le> 4096" "header_ok h"
    using rep_Some [OF rep i] by metis
  have "page_rep sch (put (a + 8) (enc64 t) p) (ss[i := Some (h\<lparr>t_max := t\<rparr>, r)]) fs"
    using a(3) by (intro rep_put_header [OF rep i a(1)])
      (simp_all add: patch_def enc_header_def header_ok_def)
  moreover have "set_tmax p (int i) t = Inr (put (a + 8) (enc64 t) p)"
    using a(2) write_nat(3) [of "a + 8" p t] i
    by (simp add: set_tmax_def rep_get_dir [OF rep] a(1) tuple_len_def)
  ultimately show ?thesis by blast
qed

lemma rep_set_rid_field:
  assumes rep: "page_rep sch p ss fs" and i: "i < length ss" "ss ! i = Some (h, r)" and x: "rid_ok x"
  shows "\<exists>q. set_next_RID p (int i) x = Inr q \<and> page_rep sch q (ss[i := Some (h\<lparr>next_rid := x\<rparr>, r)]) fs"
    and "\<exists>q. set_first_RID p (int i) x = Inr q \<and> page_rep sch q (ss[i := Some (h\<lparr>first_rid := x\<rparr>, r)]) fs"
proof -
  obtain a where a: "dir_at p i = int a" "a + tuple_len r \<le> 4096" "header_ok h"
    using rep_Some [OF rep i] by metis
  note wf = page_repD(1) [OF rep]
  let ?bs = "enc32 (page_num x) @ enc32 (dir_slot x)"
  have two: "put (a + k + 4) (enc32 (dir_slot x)) (put (a + k) (enc32 (page_num x)) p) = put (a + k) ?bs p"
    if "k \<le> 24" for k
    using put_append [OF wf, of "a + k" "enc32 (page_num x)" "enc32 (dir_slot x)"] a(2) that
    by (simp add: tuple_len_def)
  have "page_rep sch (put (a + 16) ?bs p) (ss[i := Some (h\<lparr>next_rid := x\<rparr>, r)]) fs"
    using a(3) x by (intro rep_put_header [OF rep i a(1)])
      (simp_all add: patch_def enc_header_def header_ok_def)
  moreover have "set_next_RID p (int i) x = Inr (put (a + 16) ?bs p)"
    using a(2) write_nat(2) [of "a + 16" p "page_num x"]
      write_nat(2) [of "a + 20" "put (a + 16) (enc32 (page_num x)) p" "dir_slot x"] i two [of 16]
    by (simp add: set_next_RID_def rep_get_dir [OF rep] a(1) tuple_len_def add.commute)
  ultimately show "\<exists>q. set_next_RID p (int i) x = Inr q
      \<and> page_rep sch q (ss[i := Some (h\<lparr>next_rid := x\<rparr>, r)]) fs" by blast
  have "page_rep sch (put (a + 24) ?bs p) (ss[i := Some (h\<lparr>first_rid := x\<rparr>, r)]) fs"
    using a(3) x by (intro rep_put_header [OF rep i a(1)])
      (simp_all add: patch_def enc_header_def header_ok_def)
  moreover have "set_first_RID p (int i) x = Inr (put (a + 24) ?bs p)"
    using a(2) write_nat(2) [of "a + 24" p "page_num x"]
      write_nat(2) [of "a + 28" "put (a + 24) (enc32 (page_num x)) p" "dir_slot x"] i two [of 24]
    by (simp add: set_first_RID_def rep_get_dir [OF rep] a(1) tuple_len_def add.commute)
  ultimately show "\<exists>q. set_first_RID p (int i) x = Inr q
      \<and> page_rep sch q (ss[i := Some (h\<lparr>first_rid := x\<rparr>, r)]) fs" by blast
qed

lemma rep_set_tmax_next:
  assumes rep: "page_rep sch p ss fs" and i: "i < length ss" "ss ! i = Some (h, r)" and x: "rid_ok x"
  shows "\<exists>q. bindE (set_tmax p (int i) t) (\<lambda>p. set_next_RID p (int i) x) = Inr q
           \<and> page_rep sch q (ss[i := Some (h\<lparr>t_max := t, next_rid := x\<rparr>, r)]) fs"
proof -
  obtain q1 where q1: "set_tmax p (int i) t = Inr q1"
    "page_rep sch q1 (ss[i := Some (h\<lparr>t_max := t\<rparr>, r)]) fs"
    using rep_set_tmax [OF rep i] by blast
  show ?thesis
    using rep_set_rid_field(1) [OF q1(2) _ _ x, of i "h\<lparr>t_max := t\<rparr>" r] i(1) by (simp add: q1(1))
qed

lemma rep_update_record_header:
  assumes "page_rep sch p ss fs" "i < length ss" "ss ! i = Some (h, r)" "rid_ok x"
  shows "\<exists>q. update_record_header p (int i) x t = Inr q
           \<and> page_rep sch q (ss[i := Some (h\<lparr>t_max := t, next_rid := x\<rparr>, r)]) fs"
  using rep_set_tmax_next [OF assms] by (simp add: update_record_header_def)

lemma rep_delete_logically:
  assumes "page_rep sch p ss fs" "i < length ss" "ss ! i = Some (h, r)"
  shows "\<exists>q. delete_record_logically p (int i) t = Inr q
           \<and> page_rep sch q (ss[i := Some (h\<lparr>t_max := t, next_rid := rid_deleted\<rparr>, r)]) fs"
  using rep_set_tmax_next [OF assms, of rid_deleted]
  by (simp add: delete_record_logically_def rid_deleted_def rid_ok_def int32_def)

lemma rid_ok_self:
  assumes "page_rep sch p ss fs" "i < length ss" "int32 (get_page_number p)"
  shows "rid_ok (RID (get_page_number p) (int i))"
  using page_repD(3) [OF assms(1)] assms(2,3) by (simp add: rid_ok_def int32_def)

lemma page_number_evolves: "page_evolves p q \<Longrightarrow> get_page_number q = get_page_number p"
  by (simp add: page_evolves_def get_page_number_def)

lemma rep_reset_update:
  assumes rep: "page_rep sch p ss fs" and i: "i < length ss" "ss ! i = Some (h, r)"
    and pn: "int32 (get_page_number p)"
  shows "\<exists>q. reset_update p (int i) = Inr q \<and>
     page_rep sch q (ss[i := Some (h\<lparr>t_max := 0, next_rid := RID (get_page_number p) (int i)\<rparr>, r)]) fs"
proof -
  obtain q1 where q1: "set_tmax p (int i) 0 = Inr q1" using rep_set_tmax [OF rep i] by blast
  then have "get_page_number q1 = get_page_number p"
    using keeps_set(4) [of p p "int i" 0] page_number_evolves by (auto dest: keepsD)
  with rep_set_tmax_next [OF rep i rid_ok_self [OF rep i(1) pn], of 0] show ?thesis
    by (simp add: reset_update_def q1)
qed

lemma rep_reset_first:
  assumes "page_rep sch p ss fs" "i < length ss" "ss ! i = Some (h, r)" "int32 (get_page_number p)"
  shows "\<exists>q. reset_first p (int i) = Inr q \<and>
     page_rep sch q (ss[i := Some (h\<lparr>first_rid := RID (get_page_number p) (int i)\<rparr>, r)]) fs"
  using rep_set_rid_field(2) [OF assms(1-3) rid_ok_self [OF assms(1,2,4)]]
  by (simp add: reset_first_def)

lemma rep_delete_physically:
  assumes "page_rep sch p ss fs" "i < length ss"
  shows "\<exists>q. delete_record_physically p (int i) = Inr q \<and> page_rep sch q (ss[i := None]) fs"
proof -
  have "delete_record_physically p (int i) = Inr (put (8 + 4 * i) (enc32 (-2)) p)"
    using write_nat(2) [of "8 + 4 * i" p "-2"] page_repD(3) [OF assms(1)] assms(2)
    by (simp add: delete_record_physically_def set_dir_def)
  then show ?thesis using rep_kill [OF assms, of "-2"] by (simp add: int32_def)
qed

section \<open>Scans of the directory\<close>

fun free_slot :: "slot list \<Rightarrow> nat" where
  "free_slot [] = 0"
| "free_slot (None # ss) = 0"
| "free_slot (Some x # ss) = Suc (free_slot ss)"

lemma free_slot_le: "free_slot ss \<le> length ss"
  by (induction ss rule: free_slot.induct) auto

lemma free_slot_None: "free_slot ss < length ss \<Longrightarrow> ss ! free_slot ss = None"
  by (induction ss rule: free_slot.induct) auto

lemma free_slot_least: "i < free_slot ss \<Longrightarrow> ss ! i \<noteq> None"
  by (induction ss arbitrary: i rule: free_slot.induct) (auto simp: nth_Cons split: nat.split)

lemma rep_find_dir:
  assumes rep: "page_rep sch p ss fs" and k: "k + n = length ss"
  shows "find_dir p (int k) n = Inr (int (k + free_slot (drop k ss)))"
  using k
proof (induction n arbitrary: k)
  case (Suc n)
  then have k: "k < length ss" by simp
  have IH: "find_dir p (1 + int k) n = Inr (1 + (int k + int (free_slot (drop (Suc k) ss))))"
    using Suc.IH [of "Suc k"] Suc.prems by simp
  show ?case
  proof (cases "ss ! k")
    case None
    then show ?thesis
      using rep_None [OF rep k] k
      by (simp add: rep_get_dir [OF rep] Cons_nth_drop_Suc [OF k, symmetric])
  next
    case (Some x)
    then have "dir_at p k > 0" using rep_live_pos [OF rep k] by simp
    with Some IH show ?thesis
      by (simp add: rep_get_dir [OF rep] k Cons_nth_drop_Suc [OF k, symmetric] add.commute)
  qed
qed simp

lemma rep_empty_from:
  assumes rep: "page_rep sch p ss fs" and k: "k + n = length ss"
  shows "empty_from p (int k) n = Inr (\<forall>s \<in> set (drop k ss). s = None)"
  using k
proof (induction n arbitrary: k)
  case (Suc n)
  then have k: "k < length ss" by simp
  have IH: "empty_from p (1 + int k) n = Inr (\<forall>s \<in> set (drop (Suc k) ss). s = None)"
    using Suc.IH [of "Suc k"] Suc.prems by simp
  show ?case
    using rep_dead_iff [OF rep k] IH
    by (auto simp: rep_get_dir [OF rep] k Cons_nth_drop_Suc [OF k, symmetric] add.commute not_less)
qed simp

lemma rep_is_page_empty:
  "page_rep sch p ss fs \<Longrightarrow> is_page_empty p = Inr (\<forall>s \<in> set ss. s = None)"
  using rep_empty_from [of sch p ss fs 0 "length ss"] by (simp add: is_page_empty_def rep_dir_count)

section \<open>Insertion\<close>

definition set_slot :: "slot list \<Rightarrow> nat \<Rightarrow> slot \<Rightarrow> slot list" where
  "set_slot ss i s = (if i < length ss then ss[i := s] else ss @ [s])"

definition insert_space :: "slot list \<Rightarrow> row \<Rightarrow> nat" where
  "insert_space ss r = tuple_len r + (if free_slot ss < length ss then 0 else 4)"

text \<open>
  The bytes after an insertion, whatever wrote them: the counters, the directory entry and the
  tuple are new, the other entries and the bytes from the old base on are as they were.
\<close>

lemma rep_inserted:
  assumes rep: "page_rep sch p ss fs" and i: "i \<le> length ss" "i < length ss \<Longrightarrow> ss ! i = None"
    and fs: "fs' + tuple_len r + (if i < length ss then 0 else 4) = fs"
    and ok: "row_fits sch r" "header_ok h" and q: "page_wf q"
    and n: "n = (if i < length ss then length ss else Suc (length ss))"
    and off: "off = 8 + 4 * n + fs'"
    and cnt: "slice 0 4 (pg_bytes q) = enc32 (int n)" "slice 4 4 (pg_bytes q) = enc32 (int fs')"
    and dir: "slice (8 + 4 * i) 4 (pg_bytes q) = enc32 (int off)"
    and tup: "slice off (tuple_len r) (pg_bytes q) = enc_tuple h r"
    and same: "\<And>j. j < length ss \<Longrightarrow> j \<noteq> i \<Longrightarrow>
       slice (8 + 4 * j) 4 (pg_bytes q) = slice (8 + 4 * j) 4 (pg_bytes p)"
      "\<And>a m. tuples_base ss fs \<le> a \<Longrightarrow> a + m \<le> 4096 \<Longrightarrow>
         slice a m (pg_bytes q) = slice a m (pg_bytes p)"
  shows "page_rep sch q (set_slot ss i (Some (h, r))) fs'"
proof -
  let ?ss = "set_slot ss i (Some (h, r))" and ?base = "tuples_base ss fs"
  note wf = page_repD(1,2) [OF rep]
  have len: "length ?ss = n" using n by (simp add: set_slot_def)
  have base: "tuples_base ?ss fs' = off" "off + tuple_len r = ?base" "?base \<le> 4096"
    using n off fs i(1) page_repD(3) [OF rep] by (auto simp: tuples_base_def len split: if_splits)
  have small: "int32 (int n)" "int32 (int fs')" "int32 (int off)"
    using base off by (auto simp: int32_def)
  have nth: "?ss ! j = (if j = i then Some (h, r) else ss ! j)" if "j < n" for j
    using that n i(1) by (auto simp: set_slot_def nth_append nth_list_update split: if_splits)
  have old: "j < length ss" if "j < n" "j \<noteq> i" for j using that n i(1) by (auto split: if_splits)
  have dir_i: "dir_at q i = int off" by (simp add: dir_at_def dir bytes_simps small)
  have dir_j: "dir_at q j = dir_at p j" if "j < n" "j \<noteq> i" for j
    using same(1) old that by (simp add: dir_at_def)
  have slots: "slot_rep sch q off (dir_at q j) (?ss ! j)" if j: "j < n" for j
  proof (cases "j = i")
    case True
    with base ok tup j show ?thesis by (simp add: nth dir_i)
  next
    case False
    then have "slot_rep sch p ?base (dir_at p j) (ss ! j)" using page_repD(4) [OF rep] old j by blast
    then have "slot_rep sch q off (dir_at p j) (ss ! j)"
      using base(2) same(2) by (cases "ss ! j") (auto simp: slot_rep_Some_iff)
    with False j show ?thesis by (simp add: nth dir_j)
  qed
  have above: "int off + int (tuple_len r) \<le> dir_at p j" if j: "j < n" "j \<noteq> i" "ss ! j \<noteq> None" for j
    using page_repD(4) [OF rep old [OF j(1,2)]] j(3) base(2) by (auto simp: slot_rep_Some_iff)
  have "tuples_apart q ?ss"
    unfolding tuples_apart_def len
  proof (intro allI impI)
    fix j k assume jk: "j < n" "k < n" "j \<noteq> k" "?ss ! j \<noteq> None" "?ss ! k \<noteq> None"
    consider "j = i" | "k = i" | "j \<noteq> i" "k \<noteq> i" by blast
    then show "dir_at q j + int (slot_len (?ss ! j)) \<le> dir_at q k \<or>
          dir_at q k + int (slot_len (?ss ! k)) \<le> dir_at q j"
    proof cases
      case 1
      with jk above [of k] show ?thesis by (simp add: nth dir_i dir_j)
    next
      case 2
      with jk above [of j] show ?thesis by (simp add: nth dir_i dir_j)
    next
      case 3
      with jk page_repD(5) [OF rep] old show ?thesis
        by (simp add: nth dir_j tuples_apart_def)
    qed
  qed
  then show ?thesis
    using q slots base by (simp add: page_rep_def len cnt bytes_simps small)
qed

lemma write_tuple_header_put:
  assumes "page_wf p" "pg_dirty p" "a + 32 \<le> 4096"
  shows "write_tuple_header p (int a) tx x f =
     Inr (put a (enc_header \<lparr>t_min = tx, t_max = 0, next_rid = x, first_rid = f\<rparr>) p)"
proof -
  let ?b = "enc64 tx" and ?c = "enc64 0"
  have put: "put (a + length bs) cs (put a bs p) = put a (bs @ cs) p"
    if "length bs + length cs \<le> 32" for bs cs
    using put_append [OF assms(1)] that assms(3) by simp
  have w: "write_int64 (put a bs p) (int a + int (length bs)) v = Inr (put a (bs @ enc64 v) p)"
    if "length bs \<le> 24" for bs v
    using write_nat(3) [of "a + length bs" "put a bs p" v] put [of bs "enc64 v"] that assms(3) by simp
  have w32: "write_int32 (put a bs p) (int a + int (length bs)) v = Inr (put a (bs @ enc32 v) p)"
    if "length bs \<le> 28" for bs v
    using write_nat(2) [of "a + length bs" "put a bs p" v] put [of bs "enc32 v"] that assms(3) by simp
  have "write_int64 p (int a) tx = Inr (put a ?b p)" using assms by (simp add: write_nat)
  then show ?thesis
    using w [of ?b 0] w32 [of "?b @ ?c" "page_num x"]
      w32 [of "?b @ ?c @ enc32 (page_num x)" "dir_slot x"]
      w32 [of "?b @ ?c @ enc32 (page_num x) @ enc32 (dir_slot x)" "page_num f"]
      w32 [of "?b @ ?c @ enc32 (page_num x) @ enc32 (dir_slot x) @ enc32 (page_num f)" "dir_slot f"]
    by (simp add: write_tuple_header_def enc_header_def)
qed

lemma write_tuple_put:
  assumes "page_wf p" "pg_dirty p" "a + tuple_len r \<le> 4096" "short_strings r"
  shows "bindE (write_tuple_header p (int a) tx x f) (\<lambda>p. write_values p (int a + 32) r) =
     Inr (put a (enc_tuple \<lparr>t_min = tx, t_max = 0, next_rid = x, first_rid = f\<rparr> r) p)"
proof -
  let ?h = "enc_header \<lparr>t_min = tx, t_max = 0, next_rid = x, first_rid = f\<rparr>"
  have "write_values (put a ?h p) (int (a + 32)) r = Inr (put (a + 32) (serial r) (put a ?h p))"
    using assms by (intro write_values_serial) (simp_all add: tuple_len_def)
  moreover have "put (a + 32) (serial r) (put a ?h p) = put a (?h @ serial r) p"
    using put_append [of p a ?h "serial r"] assms by (simp add: tuple_len_def)
  ultimately show ?thesis
    using assms by (simp add: write_tuple_header_put tuple_len_def enc_tuple_def)
qed

definition new_header :: "tx_id \<Rightarrow> rid \<Rightarrow> rid option \<Rightarrow> record_header" where
  "new_header tx this first =
     \<lparr>t_min = tx, t_max = 0, next_rid = this, first_rid = (case first of None \<Rightarrow> this | Some f \<Rightarrow> f)\<rparr>"

lemma try_insert_refused:
  assumes rep: "page_rep sch p ss fs" and "fs < insert_space ss r"
  shows "try_insert_record p r tx first = Inr (None, p)"
  using rep_find_dir [OF rep, of 0 "length ss"] assms(2)
  by (cases "free_slot ss < length ss")
    (simp_all add: try_insert_record_def rep_dir_count [OF rep] rep_free_space [OF rep] Let_def
      insert_space_def tuple_len_def values_size_serial)

text \<open>The chain of writes of a successful insertion.\<close>

lemma try_insert_writes:
  assumes rep: "page_rep sch p ss fs" and r: "short_strings r"
    and i: "i = free_slot ss" and n: "n = (if i < length ss then length ss else Suc (length ss))"
    and fs: "fs' + insert_space ss r = fs" and off: "off = 8 + 4 * n + fs'"
    and p1: "p1 = (if i < length ss then p else put 0 (enc32 (int n)) p)"
  shows "try_insert_record p r tx first =
     Inr (Some (RID (get_page_number p) (int i)),
          put off (enc_tuple (new_header tx (RID (get_page_number p) (int i)) first) r)
            (put (8 + 4 * i) (enc32 (int off)) (put 4 (enc32 (int fs')) p1)))"
proof -
  note wf = page_repD(1,3) [OF rep]
  have il: "i \<le> length ss" using i free_slot_le by simp
  have sp: "tuple_len r + (if i < length ss then 0 else 4) + fs' = fs"
    using fs i by (simp add: insert_space_def)
  let ?q = "put (8 + 4 * i) (enc32 (int off)) (put 4 (enc32 (int fs')) p1)"
  have n1: "8 + 4 * i + 4 \<le> 4096" "off + tuple_len r \<le> 4096"
    using il n off sp wf(2) by (auto simp: tuple_len_def split: if_splits)
  have p1wf: "page_wf p1" using wf(1) by (simp add: p1)
  have q: "page_wf ?q" "pg_dirty ?q" using p1wf n1 by simp_all
  have tup: "bindE (write_tuple_header ?q (int off) tx x f) (\<lambda>p. write_values p (int off + 32) r)
     = Inr (put off (enc_tuple \<lparr>t_min = tx, t_max = 0, next_rid = x, first_rid = f\<rparr> r) ?q)" for x f
    by (rule write_tuple_put [OF q n1(2) r])
  then have tup': "bindE (write_tuple_header ?q (int off) tx x f)
       (\<lambda>p. bindE (write_values p (int off + 32) r) g)
     = g (put off (enc_tuple \<lparr>t_min = tx, t_max = 0, next_rid = x, first_rid = f\<rparr> r) ?q)" for x f g
    by (metis bindE.simps(2) bindE_assoc)
  have sd: "set_dir (put 4 (enc32 (int fs')) p1) (int i) (int off) = Inr ?q"
    using write_nat(2) [of "8 + 4 * i" "put 4 (enc32 (int fs')) p1" "int off"] n1
    by (simp add: set_dir_def)
  have sf: "set_free_space p1 (int fs') = Inr (put 4 (enc32 (int fs')) p1)"
    using write_nat(2) [of 4 p1 "int fs'"] by (simp add: set_free_space_def)
  have fd: "find_dir p 0 (length ss) = Inr (int i)"
    using rep_find_dir [OF rep, of 0 "length ss"] i by simp
  have space: "int fs = int fs' + (values_size r + 32 + (if i < length ss then 0 else 4))"
    using sp by (simp add: values_size_serial tuple_len_def split: if_splits)
  note unf = try_insert_record_def rep_dir_count [OF rep] rep_free_space [OF rep] fd Let_def
    new_header_def
  show ?thesis
  proof (cases "i < length ss")
    case True
    have off': "int off = 8 + 4 * int (length ss) + int fs'" using off n True by simp
    have "p1 = p" using True by (simp add: p1)
    then show ?thesis
      using True space sf sd tup' by (simp add: unf off' algebra_simps)
  next
    case False
    have off': "int off = 12 + 4 * int (length ss) + int fs'" using off n False by simp
    have "set_dir_count p (int (length ss) + 1) = Inr p1"
      using write_nat(2) [of 0 p "int n"] False n by (simp add: set_dir_count_def p1 add.commute)
    then show ?thesis
      using False space sf sd tup' by (simp add: unf off' algebra_simps)
  qed
qed

lemma try_insert_accepted:
  assumes rep: "page_rep sch p ss fs" and r: "row_fits sch r" and pn: "int32 (get_page_number p)"
    and first: "first \<noteq> None \<longrightarrow> rid_ok (the first)" and enough: "insert_space ss r \<le> fs"
  shows "\<exists>q. try_insert_record p r tx first = Inr (Some (RID (get_page_number p) (int (free_slot ss))), q)
     \<and> page_rep sch q (set_slot ss (free_slot ss)
           (Some (new_header tx (RID (get_page_number p) (int (free_slot ss))) first, r)))
         (fs - insert_space ss r)"
proof -
  let ?i = "free_slot ss"
  let ?me = "RID (get_page_number p) (int ?i)"
  let ?h = "new_header tx ?me first"
  define n where "n = (if ?i < length ss then length ss else Suc (length ss))"
  define fs' where "fs' = fs - insert_space ss r"
  define off where "off = 8 + 4 * n + fs'"
  define p1 where "p1 = (if ?i < length ss then p else put 0 (enc32 (int n)) p)"
  define q2 where "q2 = put (8 + 4 * ?i) (enc32 (int off)) (put 4 (enc32 (int fs')) p1)"
  let ?q = "put off (enc_tuple ?h r) q2"
  note wf = page_repD(1,3) [OF rep]
  have fs: "fs' + insert_space ss r = fs" using enough by (simp add: fs'_def)
  have il: "?i \<le> length ss" by (rule free_slot_le)
  have base: "off + tuple_len r = tuples_base ss fs"
    using fs il by (auto simp: off_def n_def tuples_base_def insert_space_def split: if_splits)
  have bounds: "8 + 4 * ?i + 4 \<le> off" "off + tuple_len r \<le> 4096" "8 + 4 * n \<le> off"
    using wf(2) il base by (auto simp: off_def n_def tuples_base_def)
  have wfs: "page_wf p1" "page_wf (put 4 (enc32 (int fs')) p1)" "page_wf q2"
    using wf(1) bounds by (simp_all add: p1_def q2_def)
  have small: "int32 (int ?i)" using bounds by (simp add: int32_def)
  have hok: "header_ok ?h" using first pn small
    by (cases first) (simp_all add: header_ok_def new_header_def rid_ok_def)
  have run: "try_insert_record p r tx first = Inr (Some ?me, ?q)"
    unfolding q2_def
    by (rule try_insert_writes [OF rep row_fits_short [OF r] refl n_def fs off_def p1_def])
  have low: "slice a m (pg_bytes ?q) = slice a m (pg_bytes q2)" if "a + m \<le> off" for a m
    using that bounds wfs by (intro slice_put_disjoint) auto
  have low2: "slice a m (pg_bytes q2) = slice a m (pg_bytes (put 4 (enc32 (int fs')) p1))"
    if "a + m \<le> 8 + 4 * ?i \<or> 8 + 4 * ?i + 4 \<le> a" "a + m \<le> 4096" for a m
    unfolding q2_def using that bounds wfs by (intro slice_put_disjoint) auto
  have low3: "slice a m (pg_bytes (put 4 (enc32 (int fs')) p1)) = slice a m (pg_bytes p1)"
    if "a + m \<le> 4 \<or> 8 \<le> a" "a + m \<le> 4096" for a m
    using that bounds wfs by (intro slice_put_disjoint) auto
  have low4: "slice a m (pg_bytes p1) = slice a m (pg_bytes p)"
    if "4 \<le> a" "a + m \<le> 4096" for a m
    unfolding p1_def using that wf by (cases "?i < length ss") (simp_all add: slice_put_disjoint del: put_fields)
  have "page_rep sch ?q (set_slot ss ?i (Some (?h, r))) fs'"
  proof (rule rep_inserted [OF rep il free_slot_None _ r hok _ n_def off_def])
    show "fs' + tuple_len r + (if ?i < length ss then 0 else 4) = fs"
      using fs by (simp add: insert_space_def)
    show "page_wf ?q" using wfs bounds by simp
    have "slice 0 4 (pg_bytes p) = enc32 (int n)" if "?i < length ss"
    proof -
      have "dec32 (slice 0 4 (pg_bytes p)) = int n"
        using rep that by (simp add: page_rep_def n_def)
      then show ?thesis
        using enc32_dec32 [of "slice 0 4 (pg_bytes p)"] page_repD(2) [OF rep] by simp
    qed
    then have "slice 0 4 (pg_bytes p1) = enc32 (int n)"
      using wf by (simp add: p1_def page_wf_length)
    then show "slice 0 4 (pg_bytes ?q) = enc32 (int n)"
      using low [of 0 4] low2 [of 0 4] low3 [of 0 4] bounds by simp
    have c: "4 + 4 \<le> off" "4 + 4 \<le> 8 + 4 * ?i \<or> 8 + 4 * ?i + 4 \<le> 4" using bounds by auto
    show "slice 4 4 (pg_bytes ?q) = enc32 (int fs')"
      by (simp only: low [OF c(1)] low2 [OF c(2)] slice_put_same [OF wfs(1)] length_enc)
    have e: "8 + 4 * ?i + length (enc32 (int off)) \<le> 4096" using bounds by simp
    show "slice (8 + 4 * ?i) 4 (pg_bytes ?q) = enc32 (int off)"
      unfolding low [OF bounds(1)] unfolding q2_def by (rule slice_put_same [OF wfs(2) e]) simp
    show "slice off (tuple_len r) (pg_bytes ?q) = enc_tuple ?h r"
      using bounds by (intro slice_put_same [OF wfs(3)]) simp_all
    show "slice (8 + 4 * j) 4 (pg_bytes ?q) = slice (8 + 4 * j) 4 (pg_bytes p)"
      if "j < length ss" "j \<noteq> ?i" for j
    proof -
      have e: "8 + 4 * j + 4 \<le> off" "8 + 4 * j + 4 \<le> 4096"
        "8 + 4 * j + 4 \<le> 8 + 4 * ?i \<or> 8 + 4 * ?i + 4 \<le> 8 + 4 * j"
        "8 + 4 * j + 4 \<le> 4 \<or> 8 \<le> 8 + 4 * j" "4 \<le> 8 + 4 * j"
        using that bounds by (auto simp: n_def split: if_splits)
      show ?thesis
        by (simp only: low [OF e(1)] low2 [OF e(3,2)] low3 [OF e(4,2)] low4 [OF e(5,2)])
    qed
    show "slice a m (pg_bytes ?q) = slice a m (pg_bytes p)"
      if "tuples_base ss fs \<le> a" "a + m \<le> 4096" for a m
    proof -
      have e: "off + tuple_len r \<le> a" "a + m \<le> 4096" using that base by simp_all
      then have e': "a + m \<le> 8 + 4 * ?i \<or> 8 + 4 * ?i + 4 \<le> a" "a + m \<le> 4 \<or> 8 \<le> a" "4 \<le> a"
        using bounds by auto
      have "slice a m (pg_bytes ?q) = slice a m (pg_bytes q2)"
        using e bounds by (intro slice_put_disjoint [OF wfs(3)]) auto
      then show ?thesis
        by (simp only: low2 [OF e'(1) e(2)] low3 [OF e'(2) e(2)] low4 [OF e'(3) e(2)])
    qed
  qed auto
  with run show ?thesis by (auto simp: fs'_def)
qed

end
