(* ===== verification/Heap_Page_Vacuum.thy ===== *)
theory Heap_Page_Vacuum
  imports Heap_Page_Ops
begin

text \<open>
  Compaction of a slotted page: \<^verbatim>\<open>HeapFilePage::vacuum\<close> keeps every live version under
  its slot number, drops the empty slots after the last live one, and returns all other space
  to the page. The tuples of a page fit between its directory and its end, which is why no
  store of the packing loop leaves the buffer.
\<close>

definition used_bytes :: "slot list \<Rightarrow> nat \<Rightarrow> nat" where
  "used_bytes ss j = sum_list (map slot_len (take j ss))"

lemma used_0 [simp]: "used_bytes ss 0 = 0"
  by (simp add: used_bytes_def)

lemma used_Suc: "j < length ss \<Longrightarrow> used_bytes ss (Suc j) = used_bytes ss j + slot_len (ss ! j)"
  by (simp add: used_bytes_def take_Suc_conv_app_nth)

lemma used_mono: "i \<le> j \<Longrightarrow> used_bytes ss i \<le> used_bytes ss j"
proof -
  assume "i \<le> j"
  then have "take j ss = take i ss @ take (j - i) (drop i ss)"
    by (metis le_add_diff_inverse take_add)
  then show ?thesis by (simp add: used_bytes_def)
qed

section \<open>The tuples fit\<close>

definition tuple_span :: "page \<Rightarrow> slot list \<Rightarrow> nat \<Rightarrow> nat set" where
  "tuple_span p ss i = {nat (dir_at p i) ..< nat (dir_at p i) + slot_len (ss ! i)}"

lemma tuple_span_bounds:
  assumes rep: "page_rep sch p ss fs" and i: "i < length ss"
  shows "tuple_span p ss i \<subseteq> {tuples_base ss fs ..< 4096}"
proof (cases "ss ! i")
  case None
  then show ?thesis by (simp add: tuple_span_def)
next
  case (Some hr)
  obtain h r where hr: "hr = (h, r)" by fastforce
  from rep_Some [OF rep i Some [unfolded hr]] obtain a where
    "dir_at p i = int a" "tuples_base ss fs \<le> a" "a + tuple_len r \<le> 4096" by metis
  then show ?thesis by (auto simp: tuple_span_def Some hr)
qed

lemma tuple_span_disjoint:
  assumes rep: "page_rep sch p ss fs" and ij: "i < length ss" "j < length ss" "i \<noteq> j"
  shows "tuple_span p ss i \<inter> tuple_span p ss j = {}"
proof (cases "ss ! i = None \<or> ss ! j = None")
  case True
  then show ?thesis by (auto simp: tuple_span_def)
next
  case False
  with ij page_repD(5) [OF rep]
  have "dir_at p i + int (slot_len (ss ! i)) \<le> dir_at p j \<or>
        dir_at p j + int (slot_len (ss ! j)) \<le> dir_at p i"
    unfolding tuples_apart_def by blast
  moreover obtain a b where "dir_at p i = int a" "dir_at p j = int b"
    using False ij rep_live_pos [OF rep] by (metis zero_less_imp_eq_int)
  ultimately show ?thesis by (auto simp: tuple_span_def)
qed

lemma tuples_fit:
  assumes rep: "page_rep sch p ss fs"
  shows "tuples_base ss fs + used_bytes ss (length ss) \<le> 4096"
proof -
  have "used_bytes ss (length ss) = (\<Sum>i<length ss. card (tuple_span p ss i))"
    by (simp add: used_bytes_def sum_list_sum_nth tuple_span_def atLeast0LessThan)
  also have "\<dots> = card (\<Union>i<length ss. tuple_span p ss i)"
    using tuple_span_disjoint [OF rep]
    by (intro card_UN_disjoint [symmetric]) (auto simp: tuple_span_def)
  also have "\<dots> \<le> card {tuples_base ss fs ..< 4096}"
    using tuple_span_bounds [OF rep] by (intro card_mono) auto
  finally show ?thesis using page_repD(3) [OF rep] by (simp add: tuples_base_def)
qed

section \<open>The packing loop\<close>

definition last_live :: "slot list \<Rightarrow> nat" where
  "last_live ss = length (dropWhile (\<lambda>s. s = None) (rev ss)) - 1"

lemma last_live_take_Suc:
  "i < length ss \<Longrightarrow>
   last_live (take (Suc i) ss) = (if ss ! i = None then last_live (take i ss) else i)"
  by (simp add: last_live_def take_Suc_conv_app_nth)

lemma last_live_less: "ss \<noteq> [] \<Longrightarrow> last_live ss < length ss"
  using length_dropWhile_le [of "\<lambda>s. s = None" "rev ss"]
  by (cases ss) (auto simp: last_live_def)

definition packed_dir :: "slot list \<Rightarrow> nat \<Rightarrow> int" where
  "packed_dir ss j = (if ss ! j = None then -1 else 4096 - int (used_bytes ss (Suc j)))"

definition packed :: "slot list \<Rightarrow> nat \<Rightarrow> vacuum_state \<Rightarrow> bool" where
  "packed ss i st \<longleftrightarrow>
     vs_dir_count st = int i \<and> vs_last_useful st = int (last_live (take i ss)) \<and>
     vs_free_space st = 4088 - 4 * int i - int (used_bytes ss i) \<and> length (vs_buf st) = 4096 \<and>
     (\<forall>j < i. slice (8 + 4 * j) 4 (vs_buf st) = enc32 (packed_dir ss j) \<and>
        (\<forall>h r. ss ! j = Some (h, r) \<longrightarrow>
           slice (4096 - used_bytes ss (Suc j)) (tuple_len r) (vs_buf st) = enc_tuple h r))"

lemma packed_step_dead:
  assumes rep: "page_rep sch p ss fs" and st: "packed ss i st" and i: "i < length ss" "ss ! i = None"
  shows "\<exists>st'. vacuum_step sch p (int i) st = Inr st' \<and> packed ss (Suc i) st'"
proof -
  have n: "8 + 4 * length ss + used_bytes ss (length ss) \<le> 4096"
    using tuples_fit [OF rep] by (simp add: tuples_base_def)
  have len: "length (vs_buf st) = 4096" "8 + 4 * i + 4 \<le> 4096" using st n i by (auto simp: packed_def)
  let ?buf = "patch (8 + 4 * i) (enc32 (-1)) (vs_buf st)"
  have run: "vacuum_step sch p (int i) st = Inr (st\<lparr>vs_dir_count := vs_dir_count st + 1,
      vs_free_space := vs_free_space st - 4, vs_buf := ?buf\<rparr>)"
    using rep_None [OF rep i] len i
    by (simp add: vacuum_step_def rep_get_dir [OF rep] buf_store_def nat_add_distrib nat_mult_distrib)
  have "slice (4096 - used_bytes ss (Suc j)) (tuple_len r) ?buf
        = slice (4096 - used_bytes ss (Suc j)) (tuple_len r) (vs_buf st)"
    if j: "j < i" "ss ! j = Some (h, r)" for j h r
  proof (rule slice_patch_disjoint)
    have "used_bytes ss (Suc j) \<le> used_bytes ss (length ss)" using j i by (intro used_mono) simp
    with n i show "4096 - used_bytes ss (Suc j) + tuple_len r \<le> 8 + 4 * i \<or>
        8 + 4 * i + length (enc32 (-1)) \<le> 4096 - used_bytes ss (Suc j)" by (simp, linarith)
    have "tuple_len r \<le> used_bytes ss (Suc j)" using j i by (simp add: used_Suc)
    then show "4096 - used_bytes ss (Suc j) + tuple_len r \<le> length (vs_buf st)"
      using \<open>used_bytes ss (Suc j) \<le> used_bytes ss (length ss)\<close> len n by simp
  qed (use len in simp)
  moreover have "slice (8 + 4 * j) 4 ?buf = slice (8 + 4 * j) 4 (vs_buf st)" if "j < i" for j
    using len that by (intro slice_patch_disjoint) auto
  moreover have "slice (8 + 4 * i) 4 ?buf = enc32 (packed_dir ss i)"
    using len i by (simp add: packed_dir_def)
  ultimately have "packed ss (Suc i) (st\<lparr>vs_dir_count := vs_dir_count st + 1,
      vs_free_space := vs_free_space st - 4, vs_buf := ?buf\<rparr>)"
    using st len i by (auto simp: packed_def less_Suc_eq last_live_take_Suc used_Suc)
  with run show ?thesis by blast
qed

lemma packed_step_live:
  assumes rep: "page_rep sch p ss fs" and st: "packed ss i st"
    and i: "i < length ss" "ss ! i = Some (h, r)"
  shows "\<exists>st'. vacuum_step sch p (int i) st = Inr st' \<and> packed ss (Suc i) st'"
proof -
  have n: "8 + 4 * length ss + used_bytes ss (length ss) \<le> 4096"
    using tuples_fit [OF rep] by (simp add: tuples_base_def)
  obtain a where a: "dir_at p i = int a" "a + tuple_len r \<le> 4096"
    "slice a (tuple_len r) (pg_bytes p) = enc_tuple h r"
    using rep_Some [OF rep i] by metis
  have us: "used_bytes ss (Suc i) = used_bytes ss i + tuple_len r" using i by (simp add: used_Suc)
  have le: "used_bytes ss (Suc i) \<le> used_bytes ss (length ss)" using i by (intro used_mono) simp
  define off where "off = 4096 - used_bytes ss (Suc i)"
  have off: "8 + 4 * length ss \<le> off" "off + tuple_len r = 4096 - used_bytes ss i" "off + tuple_len r \<le> 4096"
    using n le us by (auto simp: off_def)
  have len: "length (vs_buf st) = 4096" "8 + 4 * i + 4 \<le> 4096" using st n i by (auto simp: packed_def)
  let ?b1 = "patch (8 + 4 * i) (enc32 (int off)) (vs_buf st)"
  let ?b2 = "patch off (enc_tuple h r) ?b1"
  have len1: "length ?b1 = 4096" using len by simp
  have fs: "vs_free_space st = 4088 - 4 * int i - int (used_bytes ss i)" "vs_dir_count st = int i"
    using st by (simp_all add: packed_def)
  have rs: "values_size r = int (tuple_len r) - 32" by (simp add: tuple_len_def values_size_serial)
  have off_eq: "8 + 4 * (int i + 1) + (4088 - 4 * int i - int (used_bytes ss i) - 4 - int (tuple_len r)) = int off"
    using off(2,3) n le us by (simp add: off_def)
  define st' where "st' = \<lparr>vs_dir_count = int i + 1, vs_last_useful = int i,
      vs_free_space = 4088 - 4 * int i - int (used_bytes ss i) - 4 - int (tuple_len r), vs_buf = ?b2\<rparr>"
  have store1: "buf_store (vs_buf st) (8 + 4 * int i) (enc32 (int off)) = Inr ?b1"
    using len by (simp add: buf_store_def nat_add_distrib nat_mult_distrib)
  have store2: "buf_store ?b1 (int off) (enc_tuple h r) = Inr ?b2"
    using len1 off(3) by (simp add: buf_store_def)
  have rd: "page_read p (int a) (tuple_len r) = Inr (enc_tuple h r)"
    using page_read_nat [of a "tuple_len r" p] a by simp
  have run: "vacuum_step sch p (int i) st = Inr st'"
    using store1 store2 rd off_eq
    by (simp add: vacuum_step_def rep_get_dir [OF rep i(1)] a(1) rep_page_get_record' [OF rep i]
        Let_def fs rs st'_def)
  have tups: "slice (4096 - used_bytes ss (Suc j)) (tuple_len r') ?b2
        = slice (4096 - used_bytes ss (Suc j)) (tuple_len r') (vs_buf st)"
    if j: "j < i" "ss ! j = Some (h', r')" for j h' r'
  proof -
    have "used_bytes ss (Suc j) \<le> used_bytes ss i" "used_bytes ss (Suc j) = used_bytes ss j + tuple_len r'"
      using j i used_mono [of "Suc j" i ss] by (simp_all add: used_Suc)
    then have b: "off + tuple_len r \<le> 4096 - used_bytes ss (Suc j)"
      "4096 - used_bytes ss (Suc j) + tuple_len r' \<le> 4096"
      using off(2) n le us by auto
    have "slice (4096 - used_bytes ss (Suc j)) (tuple_len r') ?b2
        = slice (4096 - used_bytes ss (Suc j)) (tuple_len r') ?b1"
      using b off len1 by (intro slice_patch_disjoint) auto
    also have "\<dots> = slice (4096 - used_bytes ss (Suc j)) (tuple_len r') (vs_buf st)"
      using b off len i by (intro slice_patch_disjoint) auto
    finally show ?thesis .
  qed
  have dirs: "slice (8 + 4 * j) 4 ?b2 = (if j = i then enc32 (int off) else slice (8 + 4 * j) 4 (vs_buf st))"
    if "j \<le> i" for j
  proof -
    have "slice (8 + 4 * j) 4 ?b2 = slice (8 + 4 * j) 4 ?b1"
      using off len1 that i by (intro slice_patch_disjoint) auto
    also have "\<dots> = (if j = i then enc32 (int off) else slice (8 + 4 * j) 4 (vs_buf st))"
      using len that by (auto intro!: slice_patch_disjoint)
    finally show ?thesis .
  qed
  have "packed_dir ss i = int off" using n le i by (simp add: packed_dir_def off_def)
  moreover have "slice off (tuple_len r) ?b2 = enc_tuple h r" using len1 off by simp
  ultimately have "packed ss (Suc i) st'"
    using st i len1 off tups dirs us
    by (auto simp: packed_def st'_def less_Suc_eq last_live_take_Suc off_def)
  with run show ?thesis by blast
qed

lemma packed_loop:
  assumes rep: "page_rep sch p ss fs" and "packed ss i st" "i + n = length ss"
  shows "\<exists>st'. vacuum_loop sch p (int i) n st = Inr st' \<and> packed ss (length ss) st'"
  using assms(2,3)
proof (induction n arbitrary: i st)
  case (Suc n)
  have "\<exists>st'. vacuum_step sch p (int i) st = Inr st' \<and> packed ss (Suc i) st'"
    using packed_step_dead [OF rep Suc.prems(1)] packed_step_live [OF rep Suc.prems(1)] Suc.prems(2)
    by (cases "ss ! i") auto
  then obtain st1 where "vacuum_step sch p (int i) st = Inr st1" "packed ss (Suc i) st1" by blast
  then show ?case using Suc.IH [of "Suc i" st1] Suc.prems(2) by (simp add: add.commute)
qed auto

section \<open>The compacted page\<close>

definition vacuumed :: "slot list \<Rightarrow> slot list" where
  "vacuumed ss = take (last_live ss + 1) ss"

definition vacuum_space :: "slot list \<Rightarrow> nat" where
  "vacuum_space ss = 4088 - 4 * length (vacuumed ss) - used_bytes ss (length ss)"

lemma length_vacuumed: "ss \<noteq> [] \<Longrightarrow> length (vacuumed ss) = last_live ss + 1"
  using last_live_less [of ss] by (simp add: vacuumed_def)

lemma vacuumed_nth: "i \<le> last_live ss \<Longrightarrow> vacuumed ss ! i = ss ! i"
  by (simp add: vacuumed_def)

lemma dropWhile_rev_nth:
  "i < length ss \<Longrightarrow> length (dropWhile (\<lambda>s. s = None) (rev ss)) \<le> i \<Longrightarrow> ss ! i = None"
proof (induction ss rule: rev_induct)
  case (snoc s ss)
  show ?case
  proof (cases s)
    case None
    with snoc show ?thesis by (cases "i = length ss") (auto simp: nth_append)
  next
    case (Some x)
    with snoc.prems show ?thesis by simp
  qed
qed simp

lemma last_live_last: "last_live ss < i \<Longrightarrow> i < length ss \<Longrightarrow> ss ! i = None"
  by (intro dropWhile_rev_nth) (simp_all add: last_live_def)

text \<open>The packed buffer under its new counters is a page that represents the compacted slots.\<close>

lemma packed_rep:
  assumes rep: "page_rep sch p ss fs" and ne: "ss \<noteq> []" and st: "packed ss (length ss) st"
    and wf: "page_wf q"
    and cnt: "slice 0 4 (pg_bytes q) = enc32 (int (length (vacuumed ss)))"
      "slice 4 4 (pg_bytes q) = enc32 (int (vacuum_space ss))"
    and same: "\<And>a m. 8 \<le> a \<Longrightarrow> a + m \<le> 4096 \<Longrightarrow> slice a m (pg_bytes q) = slice a m (vs_buf st)"
  shows "page_rep sch q (vacuumed ss) (vacuum_space ss)"
proof -
  let ?n = "length ss" and ?u = "used_bytes ss (length ss)" and ?L = "length (vacuumed ss)"
  have fit: "8 + 4 * ?n + ?u \<le> 4096" using tuples_fit [OF rep] by (simp add: tuples_base_def)
  have L: "?L = last_live ss + 1" "?L \<le> ?n" using length_vacuumed [OF ne] last_live_less [OF ne] by auto
  have u: "used_bytes ss (Suc j) \<le> ?u" "used_bytes ss (Suc j) = used_bytes ss j + slot_len (ss ! j)" if "j < ?n" for j
    using that used_mono [of "Suc j" ?n ss] by (simp_all add: used_Suc)
  have small: "int32 (packed_dir ss j)" if "j < ?n" for j
    using u [OF that] fit by (simp add: packed_dir_def int32_def)
  have dirs: "dir_at q j = packed_dir ss j" if j: "j < ?L" for j
  proof -
    have "slice (8 + 4 * j) 4 (vs_buf st) = enc32 (packed_dir ss j)"
      using st j L(2) by (simp add: packed_def)
    then show ?thesis
      using same [of "8 + 4 * j" 4] j L(2) fit small [of j] by (simp add: dir_at_def bytes_simps)
  qed
  have nth: "vacuumed ss ! j = ss ! j" if "j < ?L" for j
    using that L by (intro vacuumed_nth) simp
  have base: "tuples_base (vacuumed ss) (vacuum_space ss) = 4096 - ?u"
    using fit L(2) by (simp add: tuples_base_def vacuum_space_def)
  have slots: "slot_rep sch q (4096 - ?u) (dir_at q j) (vacuumed ss ! j)" if j: "j < ?L" for j
  proof (cases "ss ! j")
    case None
    with j show ?thesis by (simp add: nth dirs packed_dir_def)
  next
    case (Some hr)
    obtain h r where hr: "hr = (h, r)" by fastforce
    have jn: "j < ?n" using j L(2) by simp
    have "slice (4096 - used_bytes ss (Suc j)) (tuple_len r) (vs_buf st) = enc_tuple h r"
      using st jn by (simp add: packed_def Some hr)
    moreover have "row_fits sch r" "header_ok h" using rep_Some [OF rep jn Some [unfolded hr]] by metis+
    moreover obtain a where "packed_dir ss j = int a" "4096 - ?u \<le> a" "8 \<le> a"
      "a + tuple_len r \<le> 4096" "4096 - used_bytes ss (Suc j) = a"
    proof
      show "packed_dir ss j = int (4096 - used_bytes ss (Suc j))"
        using u [OF jn] fit by (simp add: packed_dir_def Some hr of_nat_diff del: of_nat_add)
    qed (use u [OF jn] fit in \<open>simp_all add: Some hr\<close>)
    ultimately show ?thesis
      using j same [of a "tuple_len r"] by (simp add: nth dirs Some hr)
  qed
  have ordered: "dir_at q j + int (slot_len (vacuumed ss ! j)) \<le> dir_at q i"
    if "i < j" "j < ?L" "vacuumed ss ! i \<noteq> None" "vacuumed ss ! j \<noteq> None" for i j
    using that u [of i] u [of j] used_mono [of "Suc i" j ss] L(2) fit
    by (simp add: nth dirs packed_dir_def)
  then have "tuples_apart q (vacuumed ss)"
    unfolding tuples_apart_def by (metis linorder_neqE_nat)
  moreover have "int32 (int ?L)" "int32 (int (vacuum_space ss))"
    using fit L(2) by (simp_all add: int32_def vacuum_space_def)
  ultimately show ?thesis
    using wf slots by (simp add: page_rep_def cnt bytes_simps base)
qed

lemma page_vacuum_rep:
  assumes rep: "page_rep sch p ss fs" and ne: "ss \<noteq> []" and g: "length garbage = PAGE_SIZE"
  shows "\<exists>q. page_vacuum sch garbage p = Inr q \<and> page_rep sch q (vacuumed ss) (vacuum_space ss)"
proof -
  let ?n = "length ss" and ?u = "used_bytes ss (length ss)" and ?L = "length (vacuumed ss)"
  have fit: "8 + 4 * ?n + ?u \<le> 4096" using tuples_fit [OF rep] by (simp add: tuples_base_def)
  have L: "?L = last_live ss + 1" "?L \<le> ?n" using length_vacuumed [OF ne] last_live_less [OF ne] by auto
  have "packed ss 0 \<lparr>vs_dir_count = 0, vs_last_useful = 0, vs_free_space = 4088, vs_buf = garbage\<rparr>"
    using g by (simp add: packed_def last_live_def)
  from packed_loop [OF rep this, of ?n] obtain st where
    st: "vacuum_loop sch p 0 ?n \<lparr>vs_dir_count = 0, vs_last_useful = 0, vs_free_space = 4088,
           vs_buf = garbage\<rparr> = Inr st" "packed ss ?n st" by auto
  define buf where "buf = vs_buf st"
  have s: "vs_dir_count st = int ?n" "vs_last_useful st = int ?L - 1"
    "vs_free_space st = 4088 - 4 * int ?n - int ?u" "length buf = 4096"
    using st(2) L by (simp_all add: packed_def buf_def)
  have space: "int (vacuum_space ss) = 4088 - 4 * int ?L - int ?u"
    using fit L(2) by (simp add: vacuum_space_def)
  define p1 where "p1 = put 0 buf p"
  define p2 where "p2 = put 0 (enc32 (int ?L)) p1"
  define q where "q = put 4 (enc32 (int (vacuum_space ss))) p2"
  note wf = page_repD(1,2) [OF rep]
  have b: "pg_bytes p1 = buf" using s(4) wf by (simp add: patch_def p1_def)
  have run: "page_vacuum sch garbage p = Inr q"
    using page_write_nat [of 0 buf p] write_nat(2) [of 0 p1 "int ?L"]
      write_nat(2) [of 4 p2 "int (vacuum_space ss)"] s(4)
    by (simp add: page_vacuum_def rep_dir_count [OF rep] st(1) Let_def s space
        buf_def [symmetric] q_def p1_def p2_def algebra_simps)
  have wfs: "page_wf p1" "page_wf p2" "page_wf q"
    using wf s(4) by (simp_all add: q_def p1_def p2_def page_wf_def patch_def)
  have "page_rep sch q (vacuumed ss) (vacuum_space ss)"
  proof (rule packed_rep [OF rep ne st(2) wfs(3)])
    have "slice 0 4 (pg_bytes q) = slice 0 4 (pg_bytes p2)"
      unfolding q_def using wfs by (intro slice_put_disjoint) auto
    also have "\<dots> = enc32 (int ?L)"
      unfolding p2_def by (rule slice_put_same [OF wfs(1)]) auto
    finally show "slice 0 4 (pg_bytes q) = enc32 (int ?L)" .
    show "slice 4 4 (pg_bytes q) = enc32 (int (vacuum_space ss))"
      unfolding q_def using wfs by (intro slice_put_same) auto
    fix a m :: nat assume am: "8 \<le> a" "a + m \<le> 4096"
    then have "slice a m (pg_bytes q) = slice a m (pg_bytes p2)"
      unfolding q_def using wfs by (intro slice_put_disjoint) auto
    also have "\<dots> = slice a m (pg_bytes p1)"
      unfolding p2_def using am wfs by (intro slice_put_disjoint) auto
    finally show "slice a m (pg_bytes q) = slice a m (vs_buf st)" by (simp add: b buf_def)
  qed
  with run show ?thesis by blast
qed

section \<open>Pages without entries\<close>

text \<open>A page of zeros, as the file manager hands it out, becomes an empty page.\<close>

lemma init_rep:
  assumes "pg_bytes p = replicate 4096 0"
  shows "\<exists>q. heap_page_init p = Inr q \<and> page_rep sch q [] 4088 \<and> page_evolves p q"
proof -
  have wf: "page_wf p" using assms by (simp add: page_wf_def)
  have z: "dec32 (slice a 4 (pg_bytes p)) = 0" if "a \<le> 4" for a
  proof -
    have "slice a 4 (pg_bytes p) = replicate 4 0"
      using that by (simp add: assms slice_def drop_replicate take_replicate)
    moreover have "le_nat (replicate n 0) = 0" for n by (induction n) simp_all
    ultimately show ?thesis by (simp add: dec32_def)
  qed
  let ?q = "put 4 (enc32 4088) p"
  have run: "heap_page_init p = Inr ?q"
    using read_int32_nat [of 0 p] read_int32_nat [of 4 p] write_nat(2) [of 4 p 4088]
    by (simp add: heap_page_init_def get_dir_count_def get_free_space_def set_free_space_def z)
  have "slice 0 4 (pg_bytes ?q) = slice 0 4 (pg_bytes p)" using wf by (intro slice_put_disjoint) auto
  moreover have "slice 4 4 (pg_bytes ?q) = enc32 4088" using wf by (intro slice_put_same) auto
  ultimately have "page_rep sch ?q [] 4088"
    using wf z by (simp add: page_rep_def tuples_base_def tuples_apart_def bytes_simps int32_def
        del: put_fields)
  with run keepsD [OF keeps_heap_page_init run] show ?thesis by blast
qed

lemma init_kept:
  assumes rep: "page_rep sch p ss fs" and "ss \<noteq> [] \<or> fs \<noteq> 0"
  shows "heap_page_init p = Inr p"
  using assms(2) by (auto simp: heap_page_init_def rep_dir_count [OF rep] rep_free_space [OF rep])

end
