(* ===== verification/Heap_File_Rep.thy ===== *)
theory Heap_File_Rep
  imports Heap_File Heap_Page_Vacuum
begin

text \<open>
  A heap file as a list of pages of slots, and what the operations of \<open>Heap_File\<close> do to it. The
  theory also holds the version chains: where they lead and which version a reader sees.
\<close>

type_synonym heap = "slot list list"

section \<open>The slots of a file\<close>

definition page_at :: "heap_file \<Rightarrow> db \<Rightarrow> nat \<Rightarrow> page" where
  "page_at hf s n = page_image (hf_file_id hf) n (db_pages s (hf_file_id hf) ! n)"

definition slots_rep :: "heap_file \<Rightarrow> page \<Rightarrow> slot list \<Rightarrow> bool" where
  "slots_rep hf p ss \<longleftrightarrow> (\<exists>fs. page_rep (hf_schema hf) p ss fs \<and> (ss = [] \<longrightarrow> fs = 4088))"

definition heap_rep :: "heap_file \<Rightarrow> db \<Rightarrow> heap \<Rightarrow> bool" where
  "heap_rep hf s H \<longleftrightarrow>
     length (db_pages s (hf_file_id hf)) = length H \<and> page_in_range (int (length H)) \<and>
     (\<forall>n < length H. slots_rep hf (page_at hf s n) (H ! n))"

definition in_heap :: "heap \<Rightarrow> rid \<Rightarrow> bool" where
  "in_heap H r \<longleftrightarrow> 0 \<le> page_num r \<and> nat (page_num r) < length H \<and>
     0 \<le> dir_slot r \<and> nat (dir_slot r) < length (H ! nat (page_num r))"

definition slot_at :: "heap \<Rightarrow> rid \<Rightarrow> slot" where
  "slot_at H r = (if in_heap H r then H ! nat (page_num r) ! nat (dir_slot r) else None)"

definition upd_slot :: "heap \<Rightarrow> rid \<Rightarrow> slot \<Rightarrow> heap" where
  "upd_slot H r x = H[nat (page_num r) := (H ! nat (page_num r))[nat (dir_slot r) := x]]"

lemma slot_at_Some: "slot_at H r = Some x \<Longrightarrow> in_heap H r"
  by (simp add: slot_at_def split: if_splits)

lemma not_special: "in_heap H r \<Longrightarrow> r \<noteq> rid_absent \<and> r \<noteq> rid_deleted"
  by (auto simp: in_heap_def rid_absent_def rid_deleted_def)

lemma in_heap_upd [simp]: "in_heap (upd_slot H r x) r' = in_heap H r'"
  by (cases "nat (page_num r') = nat (page_num r)")
    (auto simp: in_heap_def upd_slot_def nth_list_update)

lemma in_heapE:
  assumes "in_heap H r"
  obtains n i where "r = RID (int n) (int i)" "n < length H" "i < length (H ! n)"
  using assms that [of "nat (page_num r)" "nat (dir_slot r)"] by (cases r) (simp add: in_heap_def)

lemma slot_at_nat: "n < length H \<Longrightarrow> i < length (H ! n) \<Longrightarrow> slot_at H (RID (int n) (int i)) = H ! n ! i"
  by (simp add: slot_at_def in_heap_def)

lemma slot_at_upd: "in_heap H r \<Longrightarrow> slot_at (upd_slot H r x) r' = (if r' = r then x else slot_at H r')"
proof (cases r, cases r')
  fix n i m j assume r: "r = RID n i" "r' = RID m j" "in_heap H r"
  show ?thesis
  proof (cases "in_heap H r'")
    case True
    with r show ?thesis
      by (auto simp: slot_at_def, auto simp: in_heap_def upd_slot_def nth_list_update)
  next
    case False
    with r show ?thesis by (auto simp: slot_at_def)
  qed
qed

lemma length_upd [simp]: "length (upd_slot H r x) = length H"
  by (simp add: upd_slot_def)

text \<open>Representation depends on the bytes only.\<close>

lemma page_rep_cong: "pg_bytes p = pg_bytes q \<Longrightarrow> page_rep sch p = page_rep sch q"
proof -
  assume b: "pg_bytes p = pg_bytes q"
  then have d: "dir_at p = dir_at q" by (simp add: fun_eq_iff dir_at_def)
  have "slot_rep sch p base x s = slot_rep sch q base x s" for base x s
    using b by (cases s) auto
  then show ?thesis
    using b d by (simp add: fun_eq_iff page_rep_def page_wf_def tuples_apart_def)
qed

section \<open>Operations on an existing page\<close>

definition set_pages :: "heap_file \<Rightarrow> byte list list \<Rightarrow> db \<Rightarrow> db" where
  "set_pages hf ps s = s\<lparr>db_pages := (db_pages s)(hf_file_id hf := ps)\<rparr>"

text \<open>Two states that differ in the pages of one file only.\<close>

definition only_pages :: "heap_file \<Rightarrow> db \<Rightarrow> db \<Rightarrow> bool" where
  "only_pages hf s s' \<longleftrightarrow> (\<exists>ps. s' = set_pages hf ps s)"

lemma only_pages_refl [simp, intro]: "only_pages hf s s"
  unfolding only_pages_def set_pages_def by (intro exI [of _ "db_pages s (hf_file_id hf)"]) simp

lemma only_pages_trans [trans]: "only_pages hf s s' \<Longrightarrow> only_pages hf s' s'' \<Longrightarrow> only_pages hf s s''"
  unfolding only_pages_def set_pages_def by fastforce

lemma only_pages_fields:
  assumes "only_pages hf s s'"
  shows "db_names s' = db_names s" "db_dir s' = db_dir s" "db_last_insert s' = db_last_insert s"
    "db_active s' = db_active s" "db_locks s' = db_locks s" "db_tables s' = db_tables s"
    "db_in_process s' = db_in_process s" "db_tx_counter s' = db_tx_counter s"
    "f \<noteq> hf_file_id hf \<Longrightarrow> db_pages s' f = db_pages s f"
  using assms by (auto simp: only_pages_def set_pages_def)

lemma in_range_le: "page_in_range (int m) \<Longrightarrow> n \<le> m \<Longrightarrow> page_in_range (int n)"
  by (simp add: page_in_range_def)

lemma grow_same: "n < length ps \<Longrightarrow> grow n ps = ps"
  by (simp add: grow_def)

lemma page_number_at [simp]: "get_page_number (page_at hf s n) = int n"
  by (simp add: page_at_def page_image_def get_page_number_def)

lemma heap_page_run:
  assumes rep: "heap_rep hf s H" and n: "n < length H" and op: "op (page_at hf s n) = Inr (x, q)"
  shows "heap_page hf (int n) op s =
     Some (Inr x, set_pages hf ((db_pages s (hf_file_id hf))[n := pg_bytes q]) s)"
proof -
  obtain fs where fs: "page_rep (hf_schema hf) (page_at hf s n) (H ! n) fs" "H ! n = [] \<longrightarrow> fs = 4088"
    using rep n by (auto simp: heap_rep_def slots_rep_def)
  have "heap_page_init (page_at hf s n) = Inr (page_at hf s n)"
    using fs(2) by (intro init_kept [OF fs(1)]) auto
  moreover have "page_in_range (int n)" using rep n in_range_le [of "length H" n] by (simp add: heap_rep_def)
  ultimately show ?thesis
    using rep n op
    by (simp add: heap_page_def onPages_def with_page_def heap_rep_def grow_same open_then_def
        page_at_def [symmetric] set_pages_def)
qed

lemma heap_read_run:
  assumes "heap_rep hf s H" "n < length H" "r (page_at hf s n) = Inr x"
  shows "heap_page hf (int n) (reading r) s = Some (Inr x, s)"
  using heap_page_run [OF assms(1,2), of "reading r" x "page_at hf s n"] assms
  by (simp add: reading_def set_pages_def page_at_def page_image_def heap_rep_def)

lemma heap_rep_set:
  assumes rep: "heap_rep hf s H" and n: "n < length H" and q: "slots_rep hf q ss'"
  shows "heap_rep hf (set_pages hf ((db_pages s (hf_file_id hf))[n := pg_bytes q]) s) (H[n := ss'])"
proof -
  let ?s = "set_pages hf ((db_pages s (hf_file_id hf))[n := pg_bytes q]) s"
  have "slots_rep hf (page_at hf ?s m) (H[n := ss'] ! m)" if m: "m < length H" for m
  proof (cases "m = n")
    case True
    then have "pg_bytes (page_at hf ?s m) = pg_bytes q"
      using rep n by (simp add: page_at_def page_image_def set_pages_def heap_rep_def)
    with q True n page_rep_cong [OF this] show ?thesis by (simp add: slots_rep_def)
  next
    case False
    then have "page_at hf ?s m = page_at hf s m" by (simp add: page_at_def set_pages_def)
    with False rep m show ?thesis by (simp add: heap_rep_def)
  qed
  with rep show ?thesis by (simp add: heap_rep_def set_pages_def)
qed

lemma heap_write_run:
  assumes "heap_rep hf s H" "n < length H" "w (page_at hf s n) = Inr q" "slots_rep hf q ss'"
  shows "\<exists>s'. heap_page hf (int n) (writing w) s = Some (Inr (), s') \<and> heap_rep hf s' (H[n := ss']) \<and>
     only_pages hf s s'"
  using heap_page_run [OF assms(1,2), of "writing w" "()" q] heap_rep_set [OF assms(1,2,4)] assms(3)
  by (auto simp: writing_def only_pages_def)

lemma rep_page_at:
  assumes "heap_rep hf s H" "n < length H"
  obtains fs where "page_rep (hf_schema hf) (page_at hf s n) (H ! n) fs" "H ! n = [] \<longrightarrow> fs = 4088"
  using assms by (auto simp: heap_rep_def slots_rep_def)

section \<open>Reading\<close>

lemma read_header_run:
  assumes rep: "heap_rep hf s H" and r: "in_heap H r"
  shows "heap_page hf (page_num r) (reading (\<lambda>p. page_record_header p (dir_slot r))) s =
     Some (Inr (map_option fst (slot_at H r)), s)"
proof -
  obtain n i where b: "r = RID (int n) (int i)" "n < length H" "i < length (H ! n)"
    using r by (rule in_heapE)
  obtain fs where "page_rep (hf_schema hf) (page_at hf s n) (H ! n) fs"
    using rep_page_at [OF rep b(2)] by metis
  from rep_page_record_header [OF this b(3)] show ?thesis
    using b heap_read_run [OF rep b(2), of "\<lambda>p. page_record_header p (int i)"] by (simp add: slot_at_nat)
qed

lemma get_record_header_run:
  "heap_rep hf s H \<Longrightarrow> in_heap H r \<Longrightarrow> get_record_header hf r s = Some (Inr (map_option fst (slot_at H r)), s)"
  using read_header_run not_special by (simp add: get_record_header_def)

lemma get_record_run:
  assumes rep: "heap_rep hf s H" and r: "in_heap H r"
  shows "get_record hf r s = Some (Inr (case slot_at H r of None \<Rightarrow> no_row | Some (h, x) \<Rightarrow> x), s)"
proof -
  obtain n i where b: "r = RID (int n) (int i)" "n < length H" "i < length (H ! n)"
    using r by (rule in_heapE)
  obtain fs where "page_rep (hf_schema hf) (page_at hf s n) (H ! n) fs"
    using rep_page_at [OF rep b(2)] by metis
  from rep_page_get_record [OF this b(3)] show ?thesis
    using b heap_read_run [OF rep b(2), of "\<lambda>p. page_get_record (hf_schema hf) p (int i)"]
    by (simp add: slot_at_nat get_record_def)
qed

lemma dir_count_run:
  "heap_rep hf s H \<Longrightarrow> n < length H \<Longrightarrow>
   heap_page hf (int n) (reading get_dir_count) s = Some (Inr (int (length (H ! n))), s)"
  by (metis rep_page_at rep_dir_count heap_read_run)

lemma open_page_run: "heap_rep hf s H \<Longrightarrow> n < length H \<Longrightarrow> open_page hf (int n) s = Some (Inr (), s)"
  by (simp add: open_page_def heap_read_run)

section \<open>Version chains\<close>

type_synonym version = "rid \<times> record_header \<times> row"

abbreviation v_rid :: "version \<Rightarrow> rid" where "v_rid v \<equiv> fst v"
abbreviation v_head :: "version \<Rightarrow> record_header" where "v_head v \<equiv> fst (snd v)"
abbreviation v_row :: "version \<Rightarrow> row" where "v_row v \<equiv> snd (snd v)"

definition last_header :: "record_header \<Rightarrow> bool" where
  "last_header h \<longleftrightarrow> t_max h = 0 \<or> next_rid h = rid_deleted"

text \<open>\<open>chain H r vs\<close>: from \<open>r\<close> the \<^verbatim>\<open>next\<close> fields lead through the versions \<open>vs\<close>.\<close>

inductive chain :: "heap \<Rightarrow> rid \<Rightarrow> version list \<Rightarrow> bool" for H where
  chain_last: "slot_at H r = Some (h, x) \<Longrightarrow> last_header h \<Longrightarrow> chain H r [(r, h, x)]"
| chain_more: "slot_at H r = Some (h, x) \<Longrightarrow> \<not> last_header h \<Longrightarrow> chain H (next_rid h) vs \<Longrightarrow>
    chain H r ((r, h, x) # vs)"

inductive_cases chainE: "chain H r vs"

lemma chain_not_Nil: "chain H r vs \<Longrightarrow> vs \<noteq> []"
  by (auto elim: chainE)

lemma chain_slot: "chain H r vs \<Longrightarrow> v \<in> set vs \<Longrightarrow> slot_at H (v_rid v) = Some (snd v)"
  by (induction rule: chain.induct) auto

lemma chain_deterministic: "chain H r vs \<Longrightarrow> chain H r ws \<Longrightarrow> vs = ws"
proof (induction arbitrary: ws rule: chain.induct)
  case (chain_last r h x)
  from chain_last.prems show ?case
    by (cases rule: chain.cases) (use chain_last.hyps in auto)
next
  case more: (chain_more r h x vs)
  from more.prems show ?case
  proof (cases rule: chain.cases)
    case (chain_last h' x')
    with more.hyps show ?thesis by simp
  next
    case (chain_more h' x' ws')
    with more.hyps have "h' = h" "x' = x" by simp_all
    with chain_more more.IH [of ws'] show ?thesis by simp
  qed
qed

lemma chain_suffix: "chain H r vs \<Longrightarrow> v \<in> set vs \<Longrightarrow> \<exists>ws. chain H (v_rid v) ws \<and> length ws \<le> length vs"
proof (induction rule: chain.induct)
  case (chain_more r h x vs)
  then show ?case using chain.chain_more [OF chain_more.hyps] by fastforce
qed (auto intro: chain.chain_last)

lemma chain_distinct: "chain H r vs \<Longrightarrow> distinct (map fst vs)"
proof (induction rule: chain.induct)
  case (chain_more r h x vs)
  have "r \<notin> fst ` set vs"
  proof
    assume "r \<in> fst ` set vs"
    then obtain v where "v \<in> set vs" "v_rid v = r" by auto
    with chain_suffix [OF chain_more.hyps(3)] obtain ws where ws: "chain H r ws" "length ws \<le> length vs" by metis
    from chain_deterministic [OF ws(1) chain.chain_more [OF chain_more.hyps]] ws(2) show False by simp
  qed
  with chain_more.IH show ?case by simp
qed simp

text \<open>The versions by computation; the fuel is the number of slots.\<close>

fun versions :: "nat \<Rightarrow> heap \<Rightarrow> rid \<Rightarrow> version list" where
  "versions 0 H r = []"
| "versions (Suc n) H r =
     (case slot_at H r of
        None \<Rightarrow> []
      | Some (h, x) \<Rightarrow> (r, h, x) # (if last_header h then [] else versions n H (next_rid h)))"

definition heap_size :: "heap \<Rightarrow> nat" where
  "heap_size H = sum_list (map length H)"

definition chain_of :: "heap \<Rightarrow> rid \<Rightarrow> version list" where
  "chain_of H = versions (heap_size H) H"

lemma versions_chain: "chain H r vs \<Longrightarrow> length vs \<le> n \<Longrightarrow> versions n H r = vs"
proof (induction arbitrary: n rule: chain.induct)
  case (chain_last r h x)
  then show ?case by (cases n) simp_all
next
  case (chain_more r h x vs)
  then show ?case by (cases n) simp_all
qed

lemma chain_length: "chain H r vs \<Longrightarrow> length vs \<le> heap_size H"
proof -
  assume c: "chain H r vs"
  let ?all = "(\<lambda>(n, i). RID (int n) (int i)) ` (SIGMA n : {..<length H}. {..<length (H ! n)})"
  have "set (map fst vs) \<subseteq> ?all"
  proof
    fix x assume "x \<in> set (map fst vs)"
    then have "in_heap H x" using chain_slot [OF c] slot_at_Some by fastforce
    then show "x \<in> ?all" by (rule in_heapE) auto
  qed
  then have "card (set (map fst vs)) \<le> card ?all" by (intro card_mono) auto
  also have "\<dots> \<le> card (SIGMA n : {..<length H}. {..<length (H ! n)})" by (intro card_image_le) auto
  also have "\<dots> = heap_size H"
    by (simp add: heap_size_def sum_list_sum_nth atLeast0LessThan)
  finally show ?thesis using distinct_card [OF chain_distinct [OF c]] by simp
qed

lemma chain_of_eq: "chain H r vs \<Longrightarrow> chain_of H r = vs"
  using versions_chain chain_length by (simp add: chain_of_def)

section \<open>Following a chain\<close>

lemma get_last_version_run:
  assumes rep: "heap_rep hf s H"
  shows "chain H r vs \<Longrightarrow> get_last_version hf r s = Some (Inr (v_rid (last vs)), s)"
proof (induction rule: chain.induct)
  case (chain_last r h x)
  from read_header_run [OF rep slot_at_Some [OF chain_last(1)]] chain_last show ?case
    by (subst get_last_version.simps) (auto simp: bindA_run last_header_def act_run)
next
  case (chain_more r h x vs)
  from read_header_run [OF rep slot_at_Some [OF chain_more(1)]] chain_more chain_not_Nil [of H "next_rid h" vs]
  show ?case by (subst get_last_version.simps) (auto simp: bindA_run last_header_def)
qed

text \<open>What a transaction sees of one version.\<close>

definition sees :: "db \<Rightarrow> tx_id \<Rightarrow> record_header \<Rightarrow> bool" where
  "sees s tx h =
     (case map_of (db_active s) tx of
        None \<Rightarrow> False
      | Some x \<Rightarrow> tx_level x = READ_COMMITTED \<and>
          visible_rc (t_min h) (t_max h) (state_of (t_min h) s) (state_of (t_max h) s) tx)"

lemma is_visible_run:
  "map_of (db_active s) tx = Some x \<Longrightarrow> is_visible h tx s = Some (Inr (sees s tx h), s)"
  by (cases "tx_level x")
    (simp_all add: is_visible_def get_states_def get_isolation_level_def bindA_def act_run sees_def)

text \<open>\<open>read\<close> stops at the first version the transaction sees.\<close>

definition first_seen :: "db \<Rightarrow> tx_id \<Rightarrow> version list \<Rightarrow> version option" where
  "first_seen s tx vs = find (\<lambda>v. sees s tx (v_head v)) vs"

lemma heap_read_chain:
  assumes rep: "heap_rep hf s H" and tx: "map_of (db_active s) tx = Some x"
  shows "chain H r vs \<Longrightarrow> heap_read hf r tx s = Some (Inr
     (case first_seen s tx vs of Some v \<Rightarrow> (v_rid v, True) | None \<Rightarrow> (next_rid (v_head (last vs)), False)), s)"
proof (induction rule: chain.induct)
  case (chain_last r h x)
  from get_record_header_run [OF rep slot_at_Some [OF chain_last(1)]] chain_last show ?case
    by (subst heap_read.simps)
      (auto simp: bindA_run is_visible_run [OF tx] last_header_def act_run first_seen_def)
next
  case (chain_more r h x vs)
  from get_record_header_run [OF rep slot_at_Some [OF chain_more(1)]] chain_more
    chain_not_Nil [of H "next_rid h" vs]
  show ?case
    by (subst heap_read.simps)
      (auto simp: bindA_run is_visible_run [OF tx] last_header_def act_run first_seen_def
        split: option.splits)
qed

end
