(* ===== verification/Visibility.thy ===== *)
theory Visibility
  imports Heap_File_Rep
begin

text \<open>
  What READ COMMITTED means for a version chain. \<open>mvcc\<close> is the shape that updates under the
  record lock give a chain: each version ends where the next begins, and the versions of an
  active transaction are the last ones. Then the visibility test of the code selects one
  version at most: the newest one written by the reader or by a transaction that has ended. \<open>state_of\<close> gives \<open>COMMITTED\<close>,
  as \<^verbatim>\<open>get_states\<close> does, for every transaction that is not active any more: a committed one, and an aborted one as well,
  whose versions stay because \<^verbatim>\<open>undo\<close> is a stub.
\<close>

fun mvcc :: "db \<Rightarrow> version list \<Rightarrow> bool" where
  "mvcc s [] = False"
| "mvcc s [v] = (state_of (t_min (v_head v)) s = ACTIVE \<longrightarrow> t_max (v_head v) \<in> {0, t_min (v_head v)})"
| "mvcc s (v # w # vs) =
     (t_max (v_head v) = t_min (v_head w) \<and> t_min (v_head w) \<noteq> 0 \<and>
      (state_of (t_min (v_head v)) s = ACTIVE \<longrightarrow> t_min (v_head w) = t_min (v_head v)) \<and>
      mvcc s (w # vs))"

definition written_for :: "db \<Rightarrow> tx_id \<Rightarrow> version \<Rightarrow> bool" where
  "written_for s tx v \<longleftrightarrow> t_min (v_head v) = tx \<or> state_of (t_min (v_head v)) s = COMMITTED"

definition deleted_for :: "db \<Rightarrow> tx_id \<Rightarrow> version \<Rightarrow> bool" where
  "deleted_for s tx v \<longleftrightarrow> t_max (v_head v) \<noteq> 0 \<and>
     (t_max (v_head v) = tx \<or> state_of (t_max (v_head v)) s = COMMITTED)"

definition newest :: "db \<Rightarrow> tx_id \<Rightarrow> version list \<Rightarrow> version option" where
  "newest s tx vs =
     (case filter (written_for s tx) vs of
        [] \<Rightarrow> None
      | ws \<Rightarrow> if deleted_for s tx (last ws) then None else Some (last ws))"

lemma newest_mem: "newest s tx vs = Some v \<Longrightarrow> v \<in> set vs"
proof -
  assume new: "newest s tx vs = Some v"
  then have "filter (written_for s tx) vs \<noteq> []" "last (filter (written_for s tx) vs) = v"
    by (auto simp: newest_def split: list.splits if_splits)
  then have "v \<in> set (filter (written_for s tx) vs)" by (metis last_in_set)
  then show ?thesis by simp
qed

lemma committed_iff: "st = COMMITTED \<longleftrightarrow> st \<noteq> ACTIVE"
  by (cases st) auto

lemma active_suffix:
  "mvcc s (w # vs) \<Longrightarrow> state_of (t_min (v_head w)) s = ACTIVE \<Longrightarrow> v \<in> set (w # vs) \<Longrightarrow>
   t_min (v_head v) = t_min (v_head w)"
proof (induction vs arbitrary: w)
  case (Cons x vs)
  then show ?case using Cons.IH [of x] by (cases "v = w") simp_all
qed simp

lemma newest_skip:
  "written_for s tx w \<or> \<not> written_for s tx v \<Longrightarrow> newest s tx (v # w # vs) = newest s tx (w # vs)"
  by (auto simp: newest_def split: list.split)

definition rc_reader :: "db \<Rightarrow> tx_id \<Rightarrow> bool" where
  "rc_reader s tx \<longleftrightarrow> (\<exists>x. map_of (db_active s) tx = Some x \<and> tx_level x = READ_COMMITTED \<and> tx_state x = ACTIVE)"

lemma sees_rc:
  "rc_reader s tx \<Longrightarrow> sees s tx h \<longleftrightarrow>
     visible_rc (t_min h) (t_max h) (state_of (t_min h) s) (state_of (t_max h) s) tx"
  by (auto simp: rc_reader_def sees_def)

lemma sees_last:
  assumes "rc_reader s tx" "mvcc s [v]"
  shows "sees s tx (v_head v) \<longleftrightarrow> written_for s tx v \<and> \<not> deleted_for s tx v"
proof -
  have "state_of tx s = ACTIVE" using assms(1) by (auto simp: rc_reader_def state_of_def)
  with assms(2) show ?thesis
    by (cases "state_of (t_min (v_head v)) s"; cases "state_of (t_max (v_head v)) s")
      (auto simp: sees_rc [OF assms(1)] visible_rc_def written_for_def deleted_for_def)
qed

lemma sees_inner:
  assumes "rc_reader s tx" "mvcc s (v # w # vs)"
  shows "sees s tx (v_head v) \<longleftrightarrow> state_of (t_min (v_head v)) s = COMMITTED \<and>
     state_of (t_min (v_head w)) s = ACTIVE \<and> t_min (v_head w) \<noteq> tx"
  using assms(2)
  by (cases "state_of (t_min (v_head v)) s"; cases "state_of (t_min (v_head w)) s")
    (auto simp: sees_rc [OF assms(1)] visible_rc_def)

text \<open>The versions of another active transaction are neither written for the reader nor seen.\<close>

lemma sees_written: "rc_reader s tx \<Longrightarrow> sees s tx (v_head v) \<Longrightarrow> written_for s tx v"
  by (cases "state_of (t_min (v_head v)) s")
    (auto simp: sees_rc visible_rc_def written_for_def split: if_splits)

lemma foreign_suffix:
  assumes "mvcc s (w # vs)" "state_of (t_min (v_head w)) s = ACTIVE" "t_min (v_head w) \<noteq> tx"
  shows "filter (written_for s tx) (w # vs) = []"
  unfolding filter_empty_conv
proof
  fix v assume "v \<in> set (w # vs)"
  with active_suffix [OF assms(1,2)] have "t_min (v_head v) = t_min (v_head w)" .
  with assms(2,3) show "\<not> written_for s tx v" by (simp add: written_for_def)
qed

lemma seen_is_newest:
  assumes rc: "rc_reader s tx" and "mvcc s vs"
  shows "filter (\<lambda>v. sees s tx (v_head v)) vs = (case newest s tx vs of None \<Rightarrow> [] | Some v \<Rightarrow> [v])"
  using assms(2)
proof (induction vs rule: induct_list012)
  case (2 v)
  with sees_last [OF rc 2] show ?case by (simp add: newest_def)
next
  case (3 v w vs)
  have m: "mvcc s (w # vs)" using "3.prems" by simp
  note IH = "3.IH"(2) [OF m]
  show ?case
  proof (cases "sees s tx (v_head v)")
    case True
    with sees_inner [OF rc "3.prems"] have s: "state_of (t_min (v_head v)) s = COMMITTED"
      "state_of (t_min (v_head w)) s = ACTIVE" "t_min (v_head w) \<noteq> tx" by simp_all
    note fs = foreign_suffix [OF m s(2,3)]
    have ns: "filter (\<lambda>v. sees s tx (v_head v)) (w # vs) = []"
      using fs sees_written [OF rc] unfolding filter_empty_conv by blast
    have "\<not> deleted_for s tx v" "written_for s tx v"
      using s "3.prems" by (simp_all add: deleted_for_def written_for_def)
    with fs ns True show ?thesis
      by (simp add: newest_def del: filter.simps(2) cong: filter_cong) (simp add: fs ns)
  next
    case False
    have "written_for s tx w \<or> \<not> written_for s tx v"
      using False sees_inner [OF rc "3.prems"] "3.prems"
      by (cases "state_of (t_min (v_head v)) s"; cases "state_of (t_min (v_head w)) s")
        (auto simp: written_for_def)
    with IH False show ?thesis by (simp only: newest_skip filter.simps(2) if_False)
  qed
qed simp

lemma find_filter: "find P xs = (case filter P xs of [] \<Rightarrow> None | x # _ \<Rightarrow> Some x)"
  by (induction xs) auto

lemma first_seen_newest: "rc_reader s tx \<Longrightarrow> mvcc s vs \<Longrightarrow> first_seen s tx vs = newest s tx vs"
  by (simp add: first_seen_def find_filter seen_is_newest split: option.split)

end
