(* ===== verification/Heap_File_Ops.thy ===== *)
theory Heap_File_Ops
  imports Visibility
begin

text \<open>
  What inserting, updating and vacuuming do to the slots and the version chains of a heap file.
\<close>

section \<open>A new page\<close>

lemma heap_page_new:
  assumes rep: "heap_rep hf s H" and room: "page_in_range (int (length H + 1))"
  obtains q0 where "page_rep (hf_schema hf) q0 [] 4088" "get_page_number q0 = int (length H)"
    "\<And>op x q. op q0 = Inr (x, q) \<Longrightarrow> heap_page hf (int (length H)) op s =
       Some (Inr x, set_pages hf (db_pages s (hf_file_id hf) @ [pg_bytes q]) s)"
proof -
  let ?P = "db_pages s (hf_file_id hf)" and ?n = "length H"
  define z where "z = page_image (hf_file_id hf) ?n zero_page"
  have len: "length ?P = ?n" using rep by (simp add: heap_rep_def)
  have g: "grow ?n ?P = ?P @ [zero_page]" using len by (simp add: grow_def)
  have "pg_bytes z = replicate 4096 0" by (simp add: z_def page_image_def zero_page_def)
  then obtain q0 where q0: "heap_page_init z = Inr q0" "page_rep (hf_schema hf) q0 [] 4088"
    "page_evolves z q0"
    using init_rep by blast
  have run: "heap_page hf (int ?n) op s = Some (Inr x, set_pages hf (?P @ [pg_bytes q]) s)"
    if "op q0 = Inr (x, q)" for op :: "page \<Rightarrow> ('x \<times> page) res" and x q
    using that q0(1) in_range_le [OF room] len
    by (simp add: heap_page_def onPages_def with_page_def g open_then_def nth_append z_def [symmetric]
        set_pages_def list_update_append)
  have "get_page_number q0 = int ?n"
    using page_number_evolves [OF q0(3)] by (simp add: z_def page_image_def get_page_number_def)
  then show ?thesis by (rule that [OF q0(2) _ run])
qed

lemma heap_rep_append:
  assumes rep: "heap_rep hf s H" and room: "page_in_range (int (length H + 1))" and q: "slots_rep hf q ss"
  shows "heap_rep hf (set_pages hf (db_pages s (hf_file_id hf) @ [pg_bytes q]) s) (H @ [ss])"
proof -
  let ?s = "set_pages hf (db_pages s (hf_file_id hf) @ [pg_bytes q]) s"
  have len: "length (db_pages s (hf_file_id hf)) = length H" using rep by (simp add: heap_rep_def)
  have "slots_rep hf (page_at hf ?s m) ((H @ [ss]) ! m)" if m: "m < length H + 1" for m
  proof (cases "m = length H")
    case True
    then have "pg_bytes (page_at hf ?s m) = pg_bytes q"
      using len by (simp add: page_at_def page_image_def set_pages_def nth_append)
    with q True page_rep_cong [OF this] show ?thesis by (simp add: slots_rep_def)
  next
    case False
    then have "m < length H" using m by simp
    moreover from this have "page_at hf ?s m = page_at hf s m"
      using len by (simp add: page_at_def set_pages_def nth_append)
    ultimately show ?thesis using rep by (simp add: heap_rep_def nth_append)
  qed
  with room len show ?thesis by (simp add: heap_rep_def set_pages_def)
qed

section \<open>Insertion\<close>

lemma slot_at_set_slot:
  assumes "n < length H" "i \<le> length (H ! n)"
  shows "slot_at (H[n := set_slot (H ! n) i x]) r =
    (if r = RID (int n) (int i) then x else slot_at H r)"
proof -
  obtain a b where r: "r = RID a b" by (cases r)
  show ?thesis
    using assms unfolding r
    by (cases "a < 0 \<or> b < 0"; cases "nat a = n"; cases "nat b = i")
      (auto simp: slot_at_def in_heap_def set_slot_def nth_append nth_list_update)
qed

lemma in_heap_set_slot: "in_heap H r \<Longrightarrow> in_heap (H[n := set_slot (H ! n) i x]) r"
  by (cases "nat (page_num r) = n") (auto simp: in_heap_def set_slot_def)

lemma slot_at_append: "slot_at (H @ [[]]) r = slot_at H r"
  by (auto simp: slot_at_def in_heap_def nth_append)

text \<open>
  \<open>inserted H H' rid x\<close>: the version \<open>x\<close> is at \<open>rid\<close>, which was free; nothing else changed.
\<close>

definition inserted :: "heap \<Rightarrow> heap \<Rightarrow> rid \<Rightarrow> record_header \<times> row \<Rightarrow> bool" where
  "inserted H H' rid x \<longleftrightarrow> slot_at H rid = None \<and> length H \<le> length H' \<and> length H' \<le> length H + 1 \<and>
     (\<forall>r. in_heap H r \<longrightarrow> in_heap H' r) \<and> (\<forall>r. slot_at H' r = (if r = rid then Some x else slot_at H r))"

lemma insert_on_page:
  assumes rep: "page_rep sch p ss fs" and r: "row_fits sch row" and pn: "get_page_number p = int n"
    and n: "page_in_range (int n)" and first: "first \<noteq> None \<longrightarrow> rid_ok (the first)"
  shows "fs < insert_space ss row \<and> try_insert_record p row tx first = Inr (None, p) \<or>
    (let rid = RID (int n) (int (free_slot ss)) in
     \<exists>q. try_insert_record p row tx first = Inr (Some rid, q) \<and>
       page_rep sch q (set_slot ss (free_slot ss) (Some (new_header tx rid first, row))) (fs - insert_space ss row))"
proof (cases "fs < insert_space ss row")
  case True
  with try_insert_refused [OF rep] show ?thesis by simp
next
  case False
  have "int32 (get_page_number p)" using in_range_int32 [OF n] pn by simp
  with try_insert_accepted [OF rep r _ first, of tx] False show ?thesis by (simp add: Let_def pn)
qed

text \<open>How the rest of the state looks after an insertion.\<close>

definition insert_noted :: "heap_file \<Rightarrow> tx_id \<Rightarrow> rid option \<Rightarrow> rid \<Rightarrow> db \<Rightarrow> db" where
  "insert_noted hf tx first rid s =
     (if first = None
      then update_transaction tx (\<lambda>x. x\<lparr>tx_first_rids :=
             insort_insert (TupleKey (hf_table_id hf) rid) (tx_first_rids x)\<rparr>) s
      else s)"

definition insert_frame :: "heap_file \<Rightarrow> tx_id \<Rightarrow> rid option \<Rightarrow> rid \<Rightarrow> db \<Rightarrow> db \<Rightarrow> bool" where
  "insert_frame hf tx first rid s s' \<longleftrightarrow>
     only_pages hf (insert_noted hf tx first rid
       (s\<lparr>db_last_insert := (db_last_insert s)(hf_table_id hf := page_num rid)\<rparr>)) s'"

lemma noted_run:
  assumes "first = None \<longrightarrow> map_of (db_active s) tx \<noteq> None"
  shows "bindA (whenA (first = None) (add_to_write_set (hf_table_id hf) rid tx)) (\<lambda>_. returnA rid)
     (set_pages hf ps s) = Some (Inr rid, set_pages hf ps (insert_noted hf tx first rid s))"
  using assms
  by (auto simp: whenA_def bindA_def act_run add_to_write_set_def insert_noted_def set_pages_def
      update_transaction_def)

lemma heap_rep_cong: "db_pages s' (hf_file_id hf) = db_pages s (hf_file_id hf) \<Longrightarrow> heap_rep hf s' = heap_rep hf s"
  by (simp add: fun_eq_iff heap_rep_def page_at_def)

lemma noted_pages [simp]: "db_pages (insert_noted hf tx first rid s) = db_pages s"
  by (simp add: insert_noted_def update_transaction_def)

lemma set_pages_same [simp]: "heap_rep hf s H \<Longrightarrow> n < length H \<Longrightarrow>
  set_pages hf ((db_pages s (hf_file_id hf))[n := pg_bytes (page_at hf s n)]) s = s"
  by (simp add: set_pages_def page_at_def page_image_def heap_rep_def)

lemma frame_here:
  assumes "db_last_insert s (hf_table_id hf) = page_num rid"
  shows "insert_frame hf tx first rid s (set_pages hf ps (insert_noted hf tx first rid s))"
proof -
  have "s\<lparr>db_last_insert := (db_last_insert s)(hf_table_id hf := page_num rid)\<rparr> = s"
    using assms by (simp add: fun_upd_idem)
  then show ?thesis unfolding insert_frame_def only_pages_def by metis
qed

lemma frame_later:
  "insert_frame hf tx first rid (s\<lparr>db_last_insert := (db_last_insert s)(hf_table_id hf := k)\<rparr>) s' \<Longrightarrow>
   insert_frame hf tx first rid s s'"
  by (simp add: insert_frame_def)

lemma rep_in_set_pages: "heap_rep hf (set_pages hf ps s) H \<Longrightarrow>
   heap_rep hf (set_pages hf ps (insert_noted hf tx first rid s)) H"
  by (subst heap_rep_cong [of _ _ "set_pages hf ps s"]) (simp_all add: set_pages_def)

lemma heap_insert_run:
  assumes rep: "heap_rep hf s H" and row: "row_fits (hf_schema hf) row" and size: "tuple_len row + 4 \<le> 4088"
    and first: "first \<noteq> None \<longrightarrow> rid_ok (the first)"
    and tx: "first = None \<longrightarrow> map_of (db_active s) tx \<noteq> None"
    and at: "db_last_insert s (hf_table_id hf) = int n" "n \<le> length H"
    and room: "page_in_range (int (length H + 1))"
  shows "\<exists>rid s' H'. heap_insert hf row tx first s = Some (Inr rid, s') \<and> heap_rep hf s' H' \<and>
     inserted H H' rid (new_header tx rid first, row) \<and> insert_frame hf tx first rid s s'"
  using rep tx at
proof (induction "length H - n" arbitrary: s n)
  case 0
  let ?P = "db_pages s (hf_file_id hf)" and ?rid = "RID (int (length H)) 0"
  have n: "n = length H" using 0 by simp
  note rep = "0.prems"(1)
  obtain q0 where q0: "page_rep (hf_schema hf) q0 [] 4088" "get_page_number q0 = int (length H)"
    and run: "\<And>x q. try_insert_record q0 row tx first = Inr (x, q) \<Longrightarrow>
       heap_page hf (int (length H)) (\<lambda>p. try_insert_record p row tx first) s =
       Some (Inr x, set_pages hf (?P @ [pg_bytes q]) s)"
    using heap_page_new [OF rep room] by metis
  have "insert_space [] row \<le> 4088" using size by (simp add: insert_space_def)
  then obtain q where q: "try_insert_record q0 row tx first = Inr (Some ?rid, q)"
    "page_rep (hf_schema hf) q [Some (new_header tx ?rid first, row)] (4088 - insert_space [] row)"
    using insert_on_page [OF q0(1) row q0(2) in_range_le [OF room] first, of tx]
    by (auto simp: Let_def set_slot_def)
  let ?H = "H @ [[Some (new_header tx ?rid first, row)]]"
  let ?s = "set_pages hf (?P @ [pg_bytes q]) (insert_noted hf tx first ?rid s)"
  have "heap_insert hf row tx first s = Some (Inr ?rid, ?s)"
    using run [OF q(1)] noted_run [OF "0.prems"(2)] "0.prems"(3) n
    by (subst heap_insert.simps) (simp add: Let_def bindA_run)
  moreover have "heap_rep hf ?s ?H"
    using heap_rep_append [OF rep room, of q] q(2) by (intro rep_in_set_pages) (auto simp: slots_rep_def)
  moreover have "slot_at ?H r = (if r = ?rid then Some (new_header tx ?rid first, row) else slot_at H r)" for r
    using slot_at_set_slot [of "length H" "H @ [[]]" 0] slot_at_append [of H r]
    by (simp add: nth_append set_slot_def)
  then have "inserted H ?H ?rid (new_header tx ?rid first, row)"
    by (simp add: inserted_def) (auto simp: slot_at_def in_heap_def nth_append)
  ultimately show ?case using frame_here [of s hf ?rid] "0.prems"(3) n by (metis rid.sel(1))
next
  case (Suc k)
  let ?P = "db_pages s (hf_file_id hf)" and ?ss = "H ! n"
  let ?op = "\<lambda>p. try_insert_record p row tx first"
  note rep = Suc.prems(1)
  have n: "n < length H" using Suc(2) by simp
  obtain fs where fs: "page_rep (hf_schema hf) (page_at hf s n) ?ss fs"
    using rep_page_at [OF rep n] by metis
  have range: "page_in_range (int n)" using in_range_le [OF room] n by simp
  from insert_on_page [OF fs row page_number_at range first, of tx] show ?case
  proof (elim disjE conjE)
    assume no: "try_insert_record (page_at hf s n) row tx first = Inr (None, page_at hf s n)"
    let ?s = "s\<lparr>db_last_insert := (db_last_insert s)(hf_table_id hf := int n + 1)\<rparr>"
    have "heap_page hf (int n) ?op s = Some (Inr None, s)"
      using heap_page_run [OF rep n, of ?op] no rep n by simp
    then have step: "heap_insert hf row tx first s = heap_insert hf row tx first ?s"
      using Suc.prems(3) by (subst heap_insert.simps) (simp add: Let_def bindA_run)
    have k: "k = length H - Suc n" using Suc.hyps(2) by simp
    have pre: "first = None \<longrightarrow> map_of (db_active ?s) tx \<noteq> None"
      "db_last_insert ?s (hf_table_id hf) = int (Suc n)" "Suc n \<le> length H"
      using Suc.prems(2) n by simp_all
    have "heap_rep hf ?s H" using rep by (subst heap_rep_cong [of _ _ s]) simp_all
    then obtain rid s' H' where "heap_insert hf row tx first ?s = Some (Inr rid, s')" "heap_rep hf s' H'"
      "inserted H H' rid (new_header tx rid first, row)" "insert_frame hf tx first rid ?s s'"
      using Suc.hyps(1) [of "Suc n" ?s, OF k _ pre] by blast
    with step frame_later show ?thesis by metis
  next
    let ?i = "free_slot ?ss"
    let ?rid = "RID (int n) (int ?i)"
    let ?x = "(new_header tx ?rid first, row)"
    assume "let rid = ?rid in \<exists>q. try_insert_record (page_at hf s n) row tx first = Inr (Some rid, q) \<and>
       page_rep (hf_schema hf) q (set_slot ?ss ?i (Some (new_header tx rid first, row))) (fs - insert_space ?ss row)"
    then obtain q where q: "try_insert_record (page_at hf s n) row tx first = Inr (Some ?rid, q)"
       "page_rep (hf_schema hf) q (set_slot ?ss ?i (Some ?x)) (fs - insert_space ?ss row)"
      by (auto simp: Let_def)
    let ?H = "H[n := set_slot ?ss ?i (Some ?x)]"
    let ?s = "set_pages hf (?P[n := pg_bytes q]) (insert_noted hf tx first ?rid s)"
    have "heap_insert hf row tx first s = Some (Inr ?rid, ?s)"
      using heap_page_run [OF rep n, of ?op, OF q(1)] noted_run [OF Suc.prems(2)] Suc.prems(3)
      by (subst heap_insert.simps) (simp add: Let_def bindA_run)
    moreover have "set_slot ?ss ?i (Some ?x) \<noteq> []" by (auto simp: set_slot_def)
    then have "slots_rep hf q (set_slot ?ss ?i (Some ?x))" using q(2) by (auto simp: slots_rep_def)
    then have "heap_rep hf ?s ?H" by (intro rep_in_set_pages heap_rep_set [OF rep n])
    moreover have "slot_at H ?rid = None"
      using free_slot_None [of ?ss] n by (auto simp: slot_at_def in_heap_def)
    then have "inserted H ?H ?rid ?x"
      using slot_at_set_slot [OF n free_slot_le]
      by (simp add: inserted_def in_heap_set_slot)
    ultimately show ?thesis using frame_here [of s hf ?rid] Suc.prems(3) by (metis rid.sel(1))
  qed
qed

section \<open>Headers of stored versions\<close>

lemma slot_facts:
  assumes rep: "heap_rep hf s H" and x: "slot_at H r = Some (h, x)"
  shows "row_fits (hf_schema hf) x" "header_ok h" "rid_ok r"
proof -
  obtain n i where b: "r = RID (int n) (int i)" "n < length H" "i < length (H ! n)"
    using slot_at_Some [OF x] by (rule in_heapE)
  obtain fs where fs: "page_rep (hf_schema hf) (page_at hf s n) (H ! n) fs"
    using rep_page_at [OF rep b(2)] by metis
  have "H ! n ! i = Some (h, x)" using x b by (simp add: slot_at_nat)
  with page_repD(4) [OF fs b(3)] show "row_fits (hf_schema hf) x" "header_ok h" by simp_all
  have "int32 (int n)" using rep b(2) in_range_le by (intro in_range_int32) (auto simp: heap_rep_def)
  with rid_ok_self [OF fs b(3)] b(1) show "rid_ok r" by simp
qed

lemma write_slot_run:
  assumes rep: "heap_rep hf s H" and r: "in_heap H r"
    and w: "\<And>p fs n i. r = RID (int n) (int i) \<Longrightarrow> page_rep (hf_schema hf) p (H ! n) fs \<Longrightarrow> i < length (H ! n) \<Longrightarrow>
        H ! n ! i = slot_at H r \<Longrightarrow> get_page_number p = int n \<Longrightarrow> int32 (int n) \<Longrightarrow>
        \<exists>q. w p = Inr q \<and> page_rep (hf_schema hf) q ((H ! n)[i := x]) fs"
  shows "\<exists>s'. heap_page hf (page_num r) (writing w) s = Some (Inr (), s') \<and> heap_rep hf s' (upd_slot H r x) \<and>
     only_pages hf s s'"
proof -
  obtain n i where b: "r = RID (int n) (int i)" "n < length H" "i < length (H ! n)"
    using r by (rule in_heapE)
  obtain fs where fs: "page_rep (hf_schema hf) (page_at hf s n) (H ! n) fs"
    using rep_page_at [OF rep b(2)] by metis
  have "int32 (int n)" using rep b(2) in_range_le by (intro in_range_int32) (auto simp: heap_rep_def)
  then obtain q where q: "w (page_at hf s n) = Inr q" "page_rep (hf_schema hf) q ((H ! n)[i := x]) fs"
    using w [OF b(1) fs b(3)] slot_at_nat [OF b(2,3)] b(1) by auto
  have "slots_rep hf q ((H ! n)[i := x])" using q(2) b(3) by (auto simp: slots_rep_def)
  from heap_write_run [OF rep b(2), of w, OF q(1) this] show ?thesis
    using b(1) by (simp add: upd_slot_def)
qed

lemma update_header_run:
  assumes rep: "heap_rep hf s H" and x: "slot_at H r = Some (h, x)" and new: "rid_ok new"
  shows "\<exists>s'. heap_page hf (page_num r) (writing (\<lambda>p. update_record_header p (dir_slot r) new tx)) s =
       Some (Inr (), s') \<and>
     heap_rep hf s' (upd_slot H r (Some (h\<lparr>t_max := tx, next_rid := new\<rparr>, x))) \<and> only_pages hf s s'"
  by (rule write_slot_run [OF rep slot_at_Some [OF x]])
    (use rep_update_record_header new x in \<open>auto simp: slot_at_nat\<close>)

section \<open>Updating\<close>

definition lock_key :: "heap_file \<Rightarrow> rid \<Rightarrow> tuple_key" where
  "lock_key hf r = TupleKey (hf_table_id hf) r"

definition may_lock :: "db \<Rightarrow> tx_id \<Rightarrow> tuple_key \<Rightarrow> bool" where
  "may_lock s tx k \<longleftrightarrow> db_locks s k = None \<or> db_locks s k = Some tx"

definition locked :: "tx_id \<Rightarrow> tuple_key \<Rightarrow> db \<Rightarrow> db" where
  "locked tx k s =
     (if db_locks s k = None
      then update_transaction tx (\<lambda>x. x\<lparr>tx_first_rids := insort_insert k (tx_first_rids x)\<rparr>)
             (s\<lparr>db_locks := (db_locks s)(k \<mapsto> tx)\<rparr>)
      else s)"

lemma try_acquire_run:
  assumes "may_lock s tx (TupleKey tid r)" "map_of (db_active s) tx \<noteq> None" "prompt w"
  shows "try_acquire_lock w tx tid r s = Some (Inr True, locked tx (TupleKey tid r) s)"
  using assms
  by (auto simp: may_lock_def prompt_def try_acquire_lock_def acquire_loop.simps [of w "Suc 0"] bindA_def act_run
      add_to_write_set_def locked_def)

lemma locked_fields [simp]:
  "db_pages (locked tx k s) = db_pages s" "db_last_insert (locked tx k s) = db_last_insert s"
  "may_lock s tx k \<Longrightarrow> db_locks (locked tx k s) k = Some tx"
  "map_of (db_active (locked tx k s)) tx \<noteq> None \<longleftrightarrow> map_of (db_active s) tx \<noteq> None"
  by (auto simp: locked_def update_transaction_def may_lock_def map_of_map_entry split: option.splits)

lemma chain_extend:
  assumes "chain H r vs" "last vs = (l, h, x)"
    and l: "slot_at H' l = Some (h\<lparr>t_max := tx, next_rid := new\<rparr>, x)" "tx \<noteq> 0" "new \<noteq> rid_deleted"
    and new: "slot_at H' new = Some (nh, y)" "last_header nh"
    and rest: "\<And>r. r \<noteq> l \<Longrightarrow> r \<noteq> new \<Longrightarrow> slot_at H' r = slot_at H r" and fresh: "slot_at H new = None"
  shows "chain H' r (butlast vs @ [(l, h\<lparr>t_max := tx, next_rid := new\<rparr>, x), (new, nh, y)])"
  using assms(1,2)
proof (induction rule: chain.induct)
  case (chain_last r k z)
  have "chain H' new [(new, nh, y)]" by (rule chain.chain_last [OF new])
  with chain_last l show ?case by (auto intro!: chain.chain_more simp: last_header_def)
next
  case (chain_more r k z vs)
  have ne: "vs \<noteq> []" using chain_more.hyps(3) by (rule chain_not_Nil)
  have "r \<notin> fst ` set vs"
    using chain_distinct [OF chain.chain_more [OF chain_more.hyps]] by simp
  moreover have "l \<in> fst ` set vs" using ne chain_more.prems last_in_set [OF ne] by force
  ultimately have "r \<noteq> l" by metis
  moreover have "r \<noteq> new" using chain_more.hyps(1) fresh by auto
  ultimately have "slot_at H' r = Some (k, z)" using rest chain_more.hyps(1) by simp
  from chain.chain_more [OF this chain_more.hyps(2)] chain_more.IH chain_more.prems ne show ?case by simp
qed

text \<open>The state after the lock of an update: what the rest of the update reads.\<close>

lemma heap_update_run:
  assumes rep: "heap_rep hf s H" and r: "slot_at H r = Some (h0, x0)"
    and chain: "chain H (first_rid h0) vs" "last vs = (l, h, x)" "next_rid h \<noteq> rid_deleted"
    and tx: "map_of (db_active s) tx = Some X" "tx_level X = READ_COMMITTED" "tx \<noteq> 0"
    and lock: "may_lock s tx (lock_key hf (first_rid h0))" "prompt w"
    and row: "row_fits (hf_schema hf) row" "tuple_len row + 4 \<le> 4088"
    and at: "db_last_insert s (hf_table_id hf) = int n" "n \<le> length H" "page_in_range (int (length H + 1))"
  shows "\<exists>new s' H'. heap_update w hf r row tx s = Some (Inr new, s') \<and> heap_rep hf s' H' \<and>
     slot_at H new = None \<and>
     slot_at H' l = Some (h\<lparr>t_max := tx, next_rid := new\<rparr>, x) \<and>
     slot_at H' new = Some (new_header tx new (Some (first_rid h0)), row) \<and>
     (\<forall>r. r \<noteq> l \<longrightarrow> r \<noteq> new \<longrightarrow> slot_at H' r = slot_at H r) \<and>
     insert_frame hf tx (Some (first_rid h0)) new (locked tx (lock_key hf (first_rid h0)) s) s' \<and>
     length H \<le> length H' \<and> length H' \<le> length H + 1 \<and> (\<forall>r. in_heap H r \<longrightarrow> in_heap H' r)"
proof -
  let ?f = "first_rid h0"
  let ?s1 = "locked tx (lock_key hf ?f) s"
  have rep1: "heap_rep hf ?s1 H" using rep by (subst heap_rep_cong [of _ _ s]) simp_all
  have lH: "slot_at H l = Some (h, x)"
    using chain_slot [OF chain(1)] last_in_set [OF chain_not_Nil [OF chain(1)]] chain(2) by fastforce
  have f_ok: "rid_ok ?f" using slot_facts(2) [OF rep r] by (simp add: header_ok_def)
  obtain new s2 H2 where ins: "heap_insert hf row tx (Some ?f) ?s1 = Some (Inr new, s2)" "heap_rep hf s2 H2"
    "inserted H H2 new (new_header tx new (Some ?f), row)" "insert_frame hf tx (Some ?f) new ?s1 s2"
    using heap_insert_run [OF rep1 row, of "Some ?f" tx n] f_ok at by auto
  have slots2: "slot_at H2 r = (if r = new then Some (new_header tx new (Some ?f), row) else slot_at H r)"
    "slot_at H new = None" "length H \<le> length H2" "length H2 \<le> length H + 1" "in_heap H r \<Longrightarrow> in_heap H2 r" for r
    using ins(3) by (simp_all add: inserted_def)
  have ln: "l \<noteq> new" using lH slots2(2) by auto
  then have l2: "slot_at H2 l = Some (h, x)" using lH slots2(1) by simp
  have "rid_ok new" by (rule slot_facts(3) [OF ins(2)]) (simp add: slots2(1))
  then obtain s3 where upd: "heap_page hf (page_num l) (writing (\<lambda>p. update_record_header p (dir_slot l) new tx)) s2 =
      Some (Inr (), s3)" "heap_rep hf s3 (upd_slot H2 l (Some (h\<lparr>t_max := tx, next_rid := new\<rparr>, x)))"
      "only_pages hf s2 s3"
    using update_header_run [OF ins(2) l2] by blast
  have "heap_update w hf r row tx s = Some (Inr new, s3)"
  proof -
    have 1: "get_isolation_level tx s = Some (Inr READ_COMMITTED, s)"
      using tx by (simp add: get_isolation_level_def bindA_def act_run)
    have 2: "get_record_header hf r s = Some (Inr (Some h0), s)"
      using get_record_header_run [OF rep slot_at_Some [OF r]] r by simp
    have 3: "try_acquire_lock w tx (hf_table_id hf) ?f s = Some (Inr True, ?s1)"
      using try_acquire_run [of s tx "hf_table_id hf" ?f w] lock tx(1) by (simp add: lock_key_def)
    have 4: "get_last_version hf ?f ?s1 = Some (Inr l, ?s1)"
      using get_last_version_run [OF rep1 chain(1)] chain(2) by simp
    have 5: "get_record_header hf l ?s1 = Some (Inr (Some h), ?s1)"
      using get_record_header_run [OF rep1 slot_at_Some [OF lH]] lH by simp
    show ?thesis
      unfolding heap_update_def
      using chain(3) ins(1) upd(1) by (simp add: bindA_run 1 2 3 4 5 act_run)
  qed
  moreover have "slot_at (upd_slot H2 l (Some (h\<lparr>t_max := tx, next_rid := new\<rparr>, x))) r' =
     (if r' = l then Some (h\<lparr>t_max := tx, next_rid := new\<rparr>, x)
      else if r' = new then Some (new_header tx new (Some ?f), row) else slot_at H r')" for r'
    using slot_at_upd [OF slot_at_Some [OF l2]] slots2(1) by simp
  moreover have "insert_frame hf tx (Some ?f) new ?s1 s3"
    using ins(4) upd(3) only_pages_trans unfolding insert_frame_def by blast
  ultimately show ?thesis using upd(2) slots2(2-5) ln
    by (intro exI [of _ new] exI [of _ s3] exI [of _ "upd_slot H2 l (Some (h\<lparr>t_max := tx, next_rid := new\<rparr>, x))"]) simp
qed

lemma heap_update_chain:
  assumes "chain H f vs" "last vs = (l, h, x)" "tx \<noteq> 0" "rid_ok new" "slot_at H new = None"
    "slot_at H' l = Some (h\<lparr>t_max := tx, next_rid := new\<rparr>, x)"
    "slot_at H' new = Some (new_header tx new (Some f), row)"
    "\<forall>r. r \<noteq> l \<longrightarrow> r \<noteq> new \<longrightarrow> slot_at H' r = slot_at H r"
  shows "chain H' f (butlast vs @ [(l, h\<lparr>t_max := tx, next_rid := new\<rparr>, x), (new, new_header tx new (Some f), row)])"
  using assms not_special [OF slot_at_Some [OF assms(7)]]
  by (intro chain_extend [OF assms(1,2)]) (simp_all add: new_header_def last_header_def)

section \<open>Vacuuming\<close>

lemma vacuum_pages_run:
  assumes rep: "heap_rep hf s H" and ne: "\<forall>ss \<in> set H. ss \<noteq> []" and g: "\<forall>n. length (g n) = PAGE_SIZE"
    and k: "k + m = length H"
  shows "\<exists>s'. vacuum_pages hf g k m s = Some (Inr (), s') \<and>
     heap_rep hf s' (take k H @ map vacuumed (drop k H)) \<and> only_pages hf s s'"
  using rep ne k
proof (induction m arbitrary: k s H)
  case 0
  then show ?case by (auto simp: act_run)
next
  case (Suc m)
  then have k: "k < length H" by simp
  obtain fs where fs: "page_rep (hf_schema hf) (page_at hf s k) (H ! k) fs"
    using rep_page_at [OF Suc.prems(1) k] by metis
  have ne: "H ! k \<noteq> []" using Suc.prems(2) k by simp
  from page_vacuum_rep [OF fs ne g [rule_format, of k]] obtain q where
    q: "page_vacuum (hf_schema hf) (g k) (page_at hf s k) = Inr q"
    "page_rep (hf_schema hf) q (vacuumed (H ! k)) (vacuum_space (H ! k))" by blast
  have vne: "vacuumed (H ! k) \<noteq> []" using length_vacuumed [OF ne] by auto
  then have "slots_rep hf q (vacuumed (H ! k))" using q(2) by (auto simp: slots_rep_def)
  from heap_write_run [OF Suc.prems(1) k, of "page_vacuum (hf_schema hf) (g k)", OF q(1) this]
  obtain s1 where s1: "heap_page hf (int k) (writing (page_vacuum (hf_schema hf) (g k))) s = Some (Inr (), s1)"
    "heap_rep hf s1 (H[k := vacuumed (H ! k)])" "only_pages hf s s1" by blast
  let ?H = "H[k := vacuumed (H ! k)]"
  have "\<forall>ss \<in> set ?H. ss \<noteq> []"
    using Suc.prems(2) vne set_update_subset_insert [of H k "vacuumed (H ! k)"] by auto
  from Suc.IH [OF s1(2) this, of "Suc k"] Suc.prems(3) obtain s2 where
    s2: "vacuum_pages hf g (Suc k) m s1 = Some (Inr (), s2)"
    "heap_rep hf s2 (take (Suc k) ?H @ map vacuumed (drop (Suc k) ?H))" "only_pages hf s1 s2" by auto
  have "take (Suc k) ?H @ map vacuumed (drop (Suc k) ?H) = take k H @ map vacuumed (drop k H)"
    using k by (simp add: take_Suc_conv_app_nth Cons_nth_drop_Suc [OF k, symmetric])
  moreover have "vacuum_pages hf g k (Suc m) s = Some (Inr (), s2)"
    using s1(1) s2(1) by (simp add: bindA_run)
  moreover have "only_pages hf s s2" using only_pages_trans [OF s1(3) s2(3)] .
  ultimately show ?case using s2(2) by metis
qed

lemma slot_at_vacuumed:
  assumes "\<forall>ss \<in> set H. ss \<noteq> []"
  shows "slot_at (map vacuumed H) r = slot_at H r"
proof (cases "in_heap H r")
  case True
  then obtain n i where b: "r = RID (int n) (int i)" "n < length H" "i < length (H ! n)" by (rule in_heapE)
  then have ne: "H ! n \<noteq> []" using assms by simp
  show ?thesis
  proof (cases "i \<le> last_live (H ! n)")
    case True
    with b ne show ?thesis
      by (simp add: slot_at_def in_heap_def length_vacuumed vacuumed_nth)
  next
    case False
    with b ne last_live_last [of "H ! n" i] show ?thesis
      by (simp add: slot_at_def in_heap_def length_vacuumed)
  qed
next
  case False
  have "\<not> in_heap (map vacuumed H) r"
  proof
    assume v: "in_heap (map vacuumed H) r"
    then obtain n i where b: "r = RID (int n) (int i)" "n < length H" "i < length (vacuumed (H ! n))"
      by (auto elim!: in_heapE)
    then have "H ! n \<noteq> []" using assms by simp
    with b length_vacuumed [of "H ! n"] last_live_less [of "H ! n"] have "i < length (H ! n)" by simp
    with b False show False by (simp add: in_heap_def)
  qed
  with False show ?thesis by (simp add: slot_at_def)
qed

lemma heap_vacuum_run:
  assumes rep: "heap_rep hf s H" and ne: "\<forall>ss \<in> set H. ss \<noteq> []" and g: "\<forall>n. length (g n) = PAGE_SIZE"
  shows "\<exists>s'. heap_vacuum hf g s = Some (Inr (), s') \<and> heap_rep hf s' (map vacuumed H) \<and>
     db_last_insert s' (hf_table_id hf) = 0"
proof -
  have "db_count_pages hf s = length H" using rep by (simp add: db_count_pages_def heap_rep_def)
  moreover obtain s1 where s1: "vacuum_pages hf g 0 (length H) s = Some (Inr (), s1)"
    "heap_rep hf s1 (map vacuumed H)" using vacuum_pages_run [OF rep ne g, of 0] by auto
  moreover have "heap_rep hf (s1\<lparr>db_last_insert := (db_last_insert s1)(hf_table_id hf := 0)\<rparr>) (map vacuumed H)"
    using s1(2) by (subst heap_rep_cong [of _ _ s1]) simp_all
  ultimately show ?thesis by (simp add: heap_vacuum_def reset_last_insert_def bindA_run act_run)
qed

text \<open>
  A page without entries: the loop runs zero times, and the number of entries the code writes,
  \<^verbatim>\<open>last_useful_dir + 1\<close>, is 1 all the same. The entry is what the fresh buffer held.
\<close>

lemma page_vacuum_empty:
  assumes rep: "page_rep sch p [] fs" and g: "length g = PAGE_SIZE"
  shows "\<exists>q. page_vacuum sch g p = Inr q \<and> get_dir_count q = Inr 1 \<and> get_free_space q = Inr 4084 \<and>
     get_dir q 0 = Inr (dec32 (slice 8 4 g))"
proof -
  define p1 where "p1 = put 0 g p"
  define p2 where "p2 = put 0 (enc32 1) p1"
  define q where "q = put 4 (enc32 4084) p2"
  have wf: "page_wf p" by (rule page_repD(1) [OF rep])
  have g': "length g = 4096" using g by simp
  have wfs: "page_wf p1" "page_wf p2" using wf g' by (simp_all add: p1_def p2_def)
  have "page_vacuum sch g p = Inr q"
    using page_write_nat [of 0 g p] write_nat(2) [of 0 p1 1] write_nat(2) [of 4 p2 4084] g'
    by (simp add: page_vacuum_def rep_dir_count [OF rep] Let_def q_def p1_def p2_def)
  moreover have "slice 0 4 (pg_bytes q) = enc32 1"
  proof -
    have "slice 0 4 (pg_bytes q) = slice 0 4 (pg_bytes p2)"
      unfolding q_def using wfs by (intro slice_put_disjoint) auto
    also have "\<dots> = enc32 1" unfolding p2_def by (rule slice_put_same [OF wfs(1)]) auto
    finally show ?thesis .
  qed
  moreover have "slice 4 4 (pg_bytes q) = enc32 4084" unfolding q_def using wfs by (intro slice_put_same) auto
  moreover have "slice 8 4 (pg_bytes q) = slice 8 4 g"
  proof -
    have "slice 8 4 (pg_bytes q) = slice 8 4 (pg_bytes p2)"
      unfolding q_def using wfs by (intro slice_put_disjoint) auto
    also have "\<dots> = slice 8 4 (pg_bytes p1)" unfolding p2_def using wfs by (intro slice_put_disjoint) auto
    also have "pg_bytes p1 = g" using wf g' by (simp add: p1_def patch_def page_wf_length)
    finally show ?thesis .
  qed
  ultimately show ?thesis
    using read_int32_nat [of 0 q] read_int32_nat [of 4 q] read_int32_nat [of 8 q]
    by (simp add: get_dir_count_def get_free_space_def get_dir_def bytes_simps int32_def)
qed

end
