(* ===== verification/Exprs.thy ===== *)
theory Exprs
  imports Values
begin

text \<open>
  Expressions: the trees the preprocessor builds over columns
  (\<^verbatim>\<open>src/query/parser/logical_plan/expr/\<close>), the trees the executor evaluates over record
  positions (\<^verbatim>\<open>src/query/executor/expr/\<close>), and the visitor of
  \<^verbatim>\<open>src/query/optimizer/optimizer.cc\<close> that compiles the first into the second.
\<close>

section \<open>Columns\<close>

record column =
  col_alias :: string
  col_table :: string
  col_info :: column_info

text \<open>\<^verbatim>\<open>operator==\<close> and \<^verbatim>\<open>operator<\<close> look at the alias and the name only.\<close>

definition column_eq :: "column \<Rightarrow> column \<Rightarrow> bool" where
  "column_eq a b \<longleftrightarrow> col_alias a = col_alias b \<and> ci_name (col_info a) = ci_name (col_info b)"

definition column_less :: "column \<Rightarrow> column \<Rightarrow> bool" where
  "column_less a b =
     (if col_alias a < col_alias b then True
      else if col_alias b < col_alias a then False
      else ci_name (col_info a) < ci_name (col_info b))"

lemma column_less_trichotomy: "column_less a b \<or> column_eq a b \<or> column_less b a"
  by (auto simp: column_less_def column_eq_def)

lemma column_eq_equiv:
  "column_eq a a" "column_eq a b \<Longrightarrow> column_eq b a" "column_eq a b \<Longrightarrow> column_eq b c \<Longrightarrow> column_eq a c"
  by (auto simp: column_eq_def)

lemma column_less_neq: "column_less a b \<Longrightarrow> \<not> column_eq a b"
  by (auto simp: column_less_def column_eq_def split: if_splits)

lemma column_less_trans: "column_less a b \<Longrightarrow> column_less b c \<Longrightarrow> column_less a c"
  by (auto simp: column_less_def split: if_splits)

text \<open>
  \<^verbatim>\<open>std::set<Column>\<close>: a list in increasing order. Inserting a column that is already there
  keeps the old one.
\<close>

fun col_insert :: "column \<Rightarrow> column list \<Rightarrow> column list" where
  "col_insert c [] = [c]"
| "col_insert c (d # ds) =
     (if column_less c d then c # d # ds
      else if column_less d c then d # col_insert c ds
      else d # ds)"

definition col_union :: "column list \<Rightarrow> column list \<Rightarrow> column list" where
  "col_union xs ys = fold col_insert ys xs"

definition col_mem :: "column \<Rightarrow> column list \<Rightarrow> bool" where
  "col_mem c ds \<longleftrightarrow> (\<exists>d \<in> set ds. column_eq c d)"

definition col_key :: "column \<Rightarrow> string \<times> string" where
  "col_key c = (col_alias c, ci_name (col_info c))"

lemma column_eq_key: "column_eq a b \<longleftrightarrow> col_key a = col_key b"
  by (simp add: column_eq_def col_key_def)

lemma col_mem_key: "col_mem c ds \<longleftrightarrow> col_key c \<in> col_key ` set ds"
  by (auto simp: col_mem_def column_eq_key)

lemma column_less_same: "\<not> column_less c d \<Longrightarrow> \<not> column_less d c \<Longrightarrow> col_key c = col_key d"
  using column_less_trichotomy [of c d] by (simp add: column_eq_key)

lemma col_keys_insert: "col_key ` set (col_insert d ds) = insert (col_key d) (col_key ` set ds)"
  by (induction ds) (auto dest: column_less_same)

lemma col_keys_union: "col_key ` set (col_union xs ys) = col_key ` set xs \<union> col_key ` set ys"
  by (induction ys arbitrary: xs) (auto simp: col_union_def col_keys_insert)

lemma col_mem_union: "col_mem c (col_union xs ys) \<longleftrightarrow> col_mem c xs \<or> col_mem c ys"
  by (simp add: col_mem_key col_keys_union)

lemma set_col_insert: "set (col_insert c ds) \<subseteq> insert c (set ds)"
  by (induction ds) auto

lemma sorted_col_insert: "sorted_wrt column_less ds \<Longrightarrow> sorted_wrt column_less (col_insert c ds)"
proof (induction ds)
  case (Cons d ds)
  show ?case
  proof (cases "column_less c d")
    case True
    with Cons.prems column_less_trans [OF True] show ?thesis by simp
  next
    case False
    with Cons set_col_insert [of c ds] show ?thesis by auto
  qed
qed simp

lemma sorted_col_union: "sorted_wrt column_less xs \<Longrightarrow> sorted_wrt column_less (col_union xs ys)"
  by (induction ys arbitrary: xs) (auto simp: col_union_def sorted_col_insert)

section \<open>Logical expressions\<close>

text \<open>
  \<open>ExprPlanNull\<close> is a null pointer: the unary constructor of \<^verbatim>\<open>ExprPlanArithmetic\<close> leaves \<^verbatim>\<open>lhs\<close>
  null, and an expression the grammar lets be empty leaves the pointer it should set. Every
  method dereferences it; \<^verbatim>\<open>get_datatype\<close> is only called on columns and constants.
\<close>

datatype expr_plan =
    ExprPlanColumn column
  | ExprPlanTerm db_value
  | ExprPlanEquals expr_plan expr_plan
  | ExprPlanNotEquals expr_plan expr_plan
  | ExprPlanLess expr_plan expr_plan
  | ExprPlanLessOrEquals expr_plan expr_plan
  | ExprPlanBetween column db_value db_value
  | ExprPlanLike column string
  | ExprPlanArithmetic expr_plan string expr_plan
  | ExprPlanNull

definition unary_arithmetic :: "string \<Rightarrow> expr_plan \<Rightarrow> expr_plan" where
  "unary_arithmetic op e = ExprPlanArithmetic ExprPlanNull op e"

fun expr_get_datatype :: "expr_plan \<Rightarrow> data_type" where
  "expr_get_datatype (ExprPlanColumn c) = ci_datatype (col_info c)"
| "expr_get_datatype (ExprPlanTerm v) = (if is_string v then DT_STR else DT_INT)"
| "expr_get_datatype (ExprPlanBetween c l u) = ci_datatype (col_info c)"
| "expr_get_datatype (ExprPlanLike c p) = ci_datatype (col_info c)"
| "expr_get_datatype _ = DT_INT"

definition union_of :: "column list res \<Rightarrow> column list res \<Rightarrow> column list res" where
  "union_of m n = bindE m (\<lambda>xs. bindE n (\<lambda>ys. Inr (col_union xs ys)))"

text \<open>\<^verbatim>\<open>get_columns\<close>, class by class; the columns of the operands are arguments.\<close>

definition column_columns :: "column \<Rightarrow> column list res" where [simp]:
  "column_columns c = Inr [c]"

definition term_columns :: "db_value \<Rightarrow> column list res" where [simp]:
  "term_columns v = Inr []"

definition equals_columns :: "column list res \<Rightarrow> column list res \<Rightarrow> column list res" where [simp]:
  "equals_columns l r = union_of l r"

definition not_equals_columns :: "column list res \<Rightarrow> column list res \<Rightarrow> column list res" where [simp]:
  "not_equals_columns l r = union_of l r"

definition less_columns :: "column list res \<Rightarrow> column list res \<Rightarrow> column list res" where [simp]:
  "less_columns l r = union_of l r"

definition less_or_equals_columns :: "column list res \<Rightarrow> column list res \<Rightarrow> column list res" where [simp]:
  "less_or_equals_columns l r = union_of l r"

definition arithmetic_columns :: "column list res \<Rightarrow> column list res \<Rightarrow> column list res" where [simp]:
  "arithmetic_columns l r = union_of l r"

definition between_columns :: "column \<Rightarrow> column list res" where [simp]:
  "between_columns c = Inr [c]"

definition like_columns :: "column \<Rightarrow> column list res" where [simp]:
  "like_columns c = Inr [c]"

fun expr_get_columns :: "expr_plan \<Rightarrow> column list res" where
  "expr_get_columns (ExprPlanColumn c) = column_columns c"
| "expr_get_columns (ExprPlanTerm v) = term_columns v"
| "expr_get_columns (ExprPlanEquals l r) = equals_columns (expr_get_columns l) (expr_get_columns r)"
| "expr_get_columns (ExprPlanNotEquals l r) = not_equals_columns (expr_get_columns l) (expr_get_columns r)"
| "expr_get_columns (ExprPlanLess l r) = less_columns (expr_get_columns l) (expr_get_columns r)"
| "expr_get_columns (ExprPlanLessOrEquals l r) = less_or_equals_columns (expr_get_columns l) (expr_get_columns r)"
| "expr_get_columns (ExprPlanBetween c lo hi) = between_columns c"
| "expr_get_columns (ExprPlanLike c p) = like_columns c"
| "expr_get_columns (ExprPlanArithmetic l op r) = arithmetic_columns (expr_get_columns l) (expr_get_columns r)"
| "expr_get_columns ExprPlanNull = Inl Stuck"

text \<open>\<^verbatim>\<open>clone\<close> copies the tree, and fails on a null operand.\<close>

definition column_clone :: "column \<Rightarrow> expr_plan res" where [simp]:
  "column_clone c = Inr (ExprPlanColumn c)"

definition term_clone :: "db_value \<Rightarrow> expr_plan res" where [simp]:
  "term_clone v = Inr (ExprPlanTerm v)"

definition equals_clone :: "expr_plan res \<Rightarrow> expr_plan res \<Rightarrow> expr_plan res" where [simp]:
  "equals_clone l r = bindE l (\<lambda>l. bindE r (\<lambda>r. Inr (ExprPlanEquals l r)))"

definition not_equals_clone :: "expr_plan res \<Rightarrow> expr_plan res \<Rightarrow> expr_plan res" where [simp]:
  "not_equals_clone l r = bindE l (\<lambda>l. bindE r (\<lambda>r. Inr (ExprPlanNotEquals l r)))"

definition less_clone :: "expr_plan res \<Rightarrow> expr_plan res \<Rightarrow> expr_plan res" where [simp]:
  "less_clone l r = bindE l (\<lambda>l. bindE r (\<lambda>r. Inr (ExprPlanLess l r)))"

definition less_or_equals_clone :: "expr_plan res \<Rightarrow> expr_plan res \<Rightarrow> expr_plan res" where [simp]:
  "less_or_equals_clone l r = bindE l (\<lambda>l. bindE r (\<lambda>r. Inr (ExprPlanLessOrEquals l r)))"

definition arithmetic_clone :: "expr_plan res \<Rightarrow> string \<Rightarrow> expr_plan res \<Rightarrow> expr_plan res" where [simp]:
  "arithmetic_clone l op r = bindE l (\<lambda>l. bindE r (\<lambda>r. Inr (ExprPlanArithmetic l op r)))"

definition between_clone :: "column \<Rightarrow> db_value \<Rightarrow> db_value \<Rightarrow> expr_plan res" where [simp]:
  "between_clone c lo hi = Inr (ExprPlanBetween c lo hi)"

definition like_clone :: "column \<Rightarrow> string \<Rightarrow> expr_plan res" where [simp]:
  "like_clone c p = Inr (ExprPlanLike c p)"

fun expr_clone :: "expr_plan \<Rightarrow> expr_plan res" where
  "expr_clone (ExprPlanColumn c) = column_clone c"
| "expr_clone (ExprPlanTerm v) = term_clone v"
| "expr_clone (ExprPlanEquals l r) = equals_clone (expr_clone l) (expr_clone r)"
| "expr_clone (ExprPlanNotEquals l r) = not_equals_clone (expr_clone l) (expr_clone r)"
| "expr_clone (ExprPlanLess l r) = less_clone (expr_clone l) (expr_clone r)"
| "expr_clone (ExprPlanLessOrEquals l r) = less_or_equals_clone (expr_clone l) (expr_clone r)"
| "expr_clone (ExprPlanBetween c lo hi) = between_clone c lo hi"
| "expr_clone (ExprPlanLike c p) = like_clone c p"
| "expr_clone (ExprPlanArithmetic l op r) = arithmetic_clone (expr_clone l) op (expr_clone r)"
| "expr_clone ExprPlanNull = Inl Stuck"

fun null_free :: "expr_plan \<Rightarrow> bool" where
  "null_free (ExprPlanEquals l r) \<longleftrightarrow> null_free l \<and> null_free r"
| "null_free (ExprPlanNotEquals l r) \<longleftrightarrow> null_free l \<and> null_free r"
| "null_free (ExprPlanLess l r) \<longleftrightarrow> null_free l \<and> null_free r"
| "null_free (ExprPlanLessOrEquals l r) \<longleftrightarrow> null_free l \<and> null_free r"
| "null_free (ExprPlanArithmetic l op r) \<longleftrightarrow> null_free l \<and> null_free r"
| "null_free ExprPlanNull \<longleftrightarrow> False"
| "null_free e \<longleftrightarrow> True"

section \<open>Executable expressions\<close>

text \<open>\<^verbatim>\<open>ExprSum\<close> is never built by the optimizer.\<close>

datatype expr =
    ExprColumn column int
  | ExprTerm db_value
  | ExprEquals expr expr
  | ExprNotEquals expr expr
  | ExprLess expr expr
  | ExprLessOrEquals expr expr
  | ExprBetween expr db_value db_value
  | ExprLike expr string
  | ExprArithmetic expr string expr
  | ExprSum expr expr

definition bool_value :: "bool \<Rightarrow> db_value" where
  "bool_value b = VInt (if b then 1 else 0)"

definition arith_op :: "string \<Rightarrow> db_value \<Rightarrow> db_value \<Rightarrow> db_value res" where
  "arith_op op a b =
     (if op = ''+'' then value_add a b
      else if op = ''-'' then value_sub a b
      else if op = ''*'' then value_mul a b
      else if op = ''/'' then value_div a b
      else if op = ''%'' then value_mod a b
      else Inl (RuntimeError (''Unsupported operator: '' @ op)))"

text \<open>
  \<^verbatim>\<open>like_match\<close> has no body: after the \<^verbatim>\<open>as_string\<close> of its operand the evaluation of
  \<^verbatim>\<open>LIKE\<close> flows off the end of a non-void function.
\<close>

definition like_match :: "string \<Rightarrow> string \<Rightarrow> bool res" where
  "like_match t te = Inl Stuck"

definition value_at :: "row \<Rightarrow> int \<Rightarrow> db_value res" where
  "value_at r i = (if 0 \<le> i then nthE r (nat i) else Inl Stuck)"

text \<open>\<^verbatim>\<open>eval\<close>, class by class; the values of the operands are arguments.\<close>

definition column_eval :: "int \<Rightarrow> row \<Rightarrow> db_value res" where [simp]:
  "column_eval pos r = value_at r pos"

definition term_eval :: "db_value \<Rightarrow> db_value res" where [simp]:
  "term_eval v = Inr v"

definition equals_eval :: "db_value res \<Rightarrow> db_value res \<Rightarrow> db_value res" where [simp]:
  "equals_eval l h = bindE l (\<lambda>a. bindE h (\<lambda>b. Inr (bool_value (a = b))))"

definition not_equals_eval :: "db_value res \<Rightarrow> db_value res \<Rightarrow> db_value res" where [simp]:
  "not_equals_eval l h = bindE l (\<lambda>a. bindE h (\<lambda>b. Inr (bool_value (value_ne a b))))"

definition less_eval :: "db_value res \<Rightarrow> db_value res \<Rightarrow> db_value res" where [simp]:
  "less_eval l h = bindE l (\<lambda>a. bindE h (\<lambda>b. Inr (bool_value (value_less a b))))"

definition less_or_equals_eval :: "db_value res \<Rightarrow> db_value res \<Rightarrow> db_value res" where [simp]:
  "less_or_equals_eval l h = bindE l (\<lambda>a. bindE h (\<lambda>b. Inr (bool_value (value_le a b))))"

definition between_eval :: "db_value res \<Rightarrow> db_value \<Rightarrow> db_value \<Rightarrow> db_value res" where [simp]:
  "between_eval e lo hi = bindE e (\<lambda>a. Inr (bool_value (value_le lo a \<and> value_le a hi)))"

definition like_eval :: "db_value res \<Rightarrow> string \<Rightarrow> db_value res" where [simp]:
  "like_eval e p = bindE e (\<lambda>a. bindE (as_string a) (\<lambda>t. bindE (like_match t p) (\<lambda>b. Inr (bool_value b))))"

definition arithmetic_eval :: "db_value res \<Rightarrow> string \<Rightarrow> db_value res \<Rightarrow> db_value res" where [simp]:
  "arithmetic_eval l op h = bindE l (\<lambda>a. bindE h (\<lambda>b. arith_op op a b))"

definition sum_eval :: "db_value res \<Rightarrow> db_value res \<Rightarrow> db_value res" where [simp]:
  "sum_eval l h = bindE l (\<lambda>a. bindE h (\<lambda>b. value_add a b))"

fun expr_eval :: "expr \<Rightarrow> row \<Rightarrow> db_value res" where
  "expr_eval (ExprColumn c pos) r = column_eval pos r"
| "expr_eval (ExprTerm v) r = term_eval v"
| "expr_eval (ExprEquals l h) r = equals_eval (expr_eval l r) (expr_eval h r)"
| "expr_eval (ExprNotEquals l h) r = not_equals_eval (expr_eval l r) (expr_eval h r)"
| "expr_eval (ExprLess l h) r = less_eval (expr_eval l r) (expr_eval h r)"
| "expr_eval (ExprLessOrEquals l h) r = less_or_equals_eval (expr_eval l r) (expr_eval h r)"
| "expr_eval (ExprBetween e lo hi) r = between_eval (expr_eval e r) lo hi"
| "expr_eval (ExprLike e p) r = like_eval (expr_eval e r) p"
| "expr_eval (ExprArithmetic l op h) r = arithmetic_eval (expr_eval l r) op (expr_eval h r)"
| "expr_eval (ExprSum l h) r = sum_eval (expr_eval l r) (expr_eval h r)"

section \<open>Compilation\<close>

fun col_index :: "column \<Rightarrow> column list \<Rightarrow> int" where
  "col_index c [] = -1"
| "col_index c (d # ds) =
     (if column_eq c d then 0 else let i = col_index c ds in if i = -1 then -1 else i + 1)"

definition compile_column :: "column list \<Rightarrow> column \<Rightarrow> expr res" where
  "compile_column cs c =
     (if col_index c cs = -1 then Inl Stuck else Inr (ExprColumn c (col_index c cs)))"

fun compile_expr :: "column list \<Rightarrow> expr_plan \<Rightarrow> expr res" where
  "compile_expr cs (ExprPlanColumn c) = compile_column cs c"
| "compile_expr cs (ExprPlanTerm v) = Inr (ExprTerm v)"
| "compile_expr cs (ExprPlanEquals l h) =
     bindE (compile_expr cs l) (\<lambda>l. bindE (compile_expr cs h) (\<lambda>h. Inr (ExprEquals l h)))"
| "compile_expr cs (ExprPlanNotEquals l h) =
     bindE (compile_expr cs l) (\<lambda>l. bindE (compile_expr cs h) (\<lambda>h. Inr (ExprNotEquals l h)))"
| "compile_expr cs (ExprPlanLess l h) =
     bindE (compile_expr cs l) (\<lambda>l. bindE (compile_expr cs h) (\<lambda>h. Inr (ExprLess l h)))"
| "compile_expr cs (ExprPlanLessOrEquals l h) =
     bindE (compile_expr cs l) (\<lambda>l. bindE (compile_expr cs h) (\<lambda>h. Inr (ExprLessOrEquals l h)))"
| "compile_expr cs (ExprPlanBetween c lo hi) =
     bindE (compile_column cs c) (\<lambda>e. Inr (ExprBetween e lo hi))"
| "compile_expr cs (ExprPlanLike c p) =
     bindE (compile_column cs c) (\<lambda>e. Inr (ExprLike e p))"
| "compile_expr cs (ExprPlanArithmetic l op h) =
     bindE (compile_expr cs l) (\<lambda>l. bindE (compile_expr cs h) (\<lambda>h. Inr (ExprArithmetic l op h)))"
| "compile_expr cs ExprPlanNull = Inl Stuck"

section \<open>Meaning of a logical expression\<close>

text \<open>
  The value of a logical expression when \<open>env\<close> gives the values of the columns: what the
  compiled expression must compute.
\<close>

definition lift2 :: "(db_value \<Rightarrow> db_value \<Rightarrow> db_value res) \<Rightarrow> db_value res \<Rightarrow> db_value res \<Rightarrow> db_value res" where
  "lift2 f m n = bindE m (\<lambda>a. bindE n (\<lambda>b. f a b))"

fun plan_eval :: "(column \<Rightarrow> db_value res) \<Rightarrow> expr_plan \<Rightarrow> db_value res" where
  "plan_eval env (ExprPlanColumn c) = env c"
| "plan_eval env (ExprPlanTerm v) = Inr v"
| "plan_eval env (ExprPlanEquals l r) =
     lift2 (\<lambda>a b. Inr (bool_value (a = b))) (plan_eval env l) (plan_eval env r)"
| "plan_eval env (ExprPlanNotEquals l r) =
     lift2 (\<lambda>a b. Inr (bool_value (a \<noteq> b))) (plan_eval env l) (plan_eval env r)"
| "plan_eval env (ExprPlanLess l r) =
     lift2 (\<lambda>a b. Inr (bool_value (a < b))) (plan_eval env l) (plan_eval env r)"
| "plan_eval env (ExprPlanLessOrEquals l r) =
     lift2 (\<lambda>a b. Inr (bool_value (a \<le> b))) (plan_eval env l) (plan_eval env r)"
| "plan_eval env (ExprPlanBetween c lo hi) =
     bindE (env c) (\<lambda>a. Inr (bool_value (lo \<le> a \<and> a \<le> hi)))"
| "plan_eval env (ExprPlanLike c p) = bindE (env c) (\<lambda>a. bindE (as_string a) (\<lambda>t. Inl Stuck))"
| "plan_eval env (ExprPlanArithmetic l op r) = lift2 (arith_op op) (plan_eval env l) (plan_eval env r)"
| "plan_eval env ExprPlanNull = Inl Stuck"

text \<open>The environment of a record whose values lie under the columns \<open>cs\<close>.\<close>

definition row_env :: "column list \<Rightarrow> row \<Rightarrow> column \<Rightarrow> db_value res" where
  "row_env cs r c = (if col_index c cs = -1 then Inl Stuck else value_at r (col_index c cs))"

lemma col_index_lower: "- 1 \<le> col_index c cs"
  by (induction cs) (auto simp: Let_def)

lemma col_index_found: "col_index c cs \<noteq> - 1 \<longleftrightarrow> col_mem c cs"
proof (induction cs)
  case (Cons d ds)
  have "col_index c ds + 1 \<noteq> - 1" using col_index_lower [of c ds] by linarith
  with Cons show ?case by (auto simp: Let_def col_mem_def)
qed (simp add: col_mem_def)

lemma col_index_nth:
  assumes "col_mem c cs"
  shows "\<exists>i. col_index c cs = int i \<and> i < length cs \<and> column_eq c (cs ! i) \<and>
    (\<forall>j < i. \<not> column_eq c (cs ! j))"
  using assms
proof (induction cs)
  case (Cons d ds)
  show ?case
  proof (cases "column_eq c d")
    case True
    then show ?thesis by (intro exI [of _ 0]) simp
  next
    case False
    with Cons have "col_mem c ds" by (simp add: col_mem_def)
    with Cons.IH obtain i where i: "col_index c ds = int i" "i < length ds" "column_eq c (ds ! i)"
      "\<forall>j < i. \<not> column_eq c (ds ! j)" by auto
    with False show ?thesis
      by (intro exI [of _ "Suc i"]) (auto simp: less_Suc_eq_0_disj)
  qed
qed (simp add: col_mem_def)

fun columns_in :: "column list \<Rightarrow> expr_plan \<Rightarrow> bool" where
  "columns_in cs (ExprPlanColumn c) \<longleftrightarrow> col_mem c cs"
| "columns_in cs (ExprPlanTerm v) \<longleftrightarrow> True"
| "columns_in cs (ExprPlanEquals l r) \<longleftrightarrow> columns_in cs l \<and> columns_in cs r"
| "columns_in cs (ExprPlanNotEquals l r) \<longleftrightarrow> columns_in cs l \<and> columns_in cs r"
| "columns_in cs (ExprPlanLess l r) \<longleftrightarrow> columns_in cs l \<and> columns_in cs r"
| "columns_in cs (ExprPlanLessOrEquals l r) \<longleftrightarrow> columns_in cs l \<and> columns_in cs r"
| "columns_in cs (ExprPlanBetween c lo hi) \<longleftrightarrow> col_mem c cs"
| "columns_in cs (ExprPlanLike c p) \<longleftrightarrow> col_mem c cs"
| "columns_in cs (ExprPlanArithmetic l op r) \<longleftrightarrow> columns_in cs l \<and> columns_in cs r"
| "columns_in cs ExprPlanNull \<longleftrightarrow> False"

lemma get_columns_defined: "null_free e \<longleftrightarrow> (\<exists>ds. expr_get_columns e = Inr ds)"
  by (induction e) (auto simp: union_of_def bindE_Inr_iff)

lemma union_of_InrE:
  assumes "union_of m n = Inr ds"
  obtains xs ys where "m = Inr xs" "n = Inr ys" "ds = col_union xs ys"
  using assms by (auto simp: union_of_def bindE_Inr_iff)

lemma get_columns_in:
  "expr_get_columns e = Inr ds \<Longrightarrow> columns_in cs e \<longleftrightarrow> (\<forall>c. col_mem c ds \<longrightarrow> col_mem c cs)"
proof -
  have "expr_get_columns e = Inr ds \<Longrightarrow> columns_in cs e \<longleftrightarrow> col_key ` set ds \<subseteq> col_key ` set cs"
  proof (induction e arbitrary: ds)
    case (ExprPlanEquals l r) then show ?case
      by (simp, elim union_of_InrE, simp add: col_keys_union)
  next
    case (ExprPlanNotEquals l r) then show ?case
      by (simp, elim union_of_InrE, simp add: col_keys_union)
  next
    case (ExprPlanLess l r) then show ?case
      by (simp, elim union_of_InrE, simp add: col_keys_union)
  next
    case (ExprPlanLessOrEquals l r) then show ?case
      by (simp, elim union_of_InrE, simp add: col_keys_union)
  next
    case (ExprPlanArithmetic l op r) then show ?case
      by (simp, elim union_of_InrE, simp add: col_keys_union)
  qed (auto simp: col_mem_key)
  moreover have "col_key ` set ds \<subseteq> col_key ` set cs \<longleftrightarrow> (\<forall>c. col_mem c ds \<longrightarrow> col_mem c cs)"
    by (auto simp: col_mem_key)
  ultimately show "expr_get_columns e = Inr ds \<Longrightarrow> columns_in cs e \<longleftrightarrow> (\<forall>c. col_mem c ds \<longrightarrow> col_mem c cs)"
    by simp
qed

lemma get_columns_sorted: "expr_get_columns e = Inr ds \<Longrightarrow> sorted_wrt column_less ds"
  by (induction e arbitrary: ds) (auto simp: union_of_def bindE_Inr_iff sorted_col_union)

lemma compile_defined: "(\<exists>e'. compile_expr cs e = Inr e') \<longleftrightarrow> columns_in cs e"
  by (induction e) (auto simp: compile_column_def bindE_Inr_iff col_index_found [symmetric])

lemma compile_eval:
  "compile_expr cs e = Inr e' \<Longrightarrow> expr_eval e' r = plan_eval (row_env cs r) e"
  by (induction e arbitrary: e')
    (auto simp: compile_column_def bindE_Inr_iff row_env_def lift2_def value_order value_ne_def
      like_match_def split: if_splits)

lemma clone_same: "null_free e \<Longrightarrow> expr_clone e = Inr e"
  by (induction e) auto

lemma clone_null: "\<not> null_free e \<Longrightarrow> expr_clone e = Inl Stuck"
proof (induction e)
  case (ExprPlanEquals l r) then show ?case by (cases "null_free l") (auto simp: clone_same)
next
  case (ExprPlanNotEquals l r) then show ?case by (cases "null_free l") (auto simp: clone_same)
next
  case (ExprPlanLess l r) then show ?case by (cases "null_free l") (auto simp: clone_same)
next
  case (ExprPlanLessOrEquals l r) then show ?case by (cases "null_free l") (auto simp: clone_same)
next
  case (ExprPlanArithmetic l op r) then show ?case by (cases "null_free l") (auto simp: clone_same)
qed auto

section \<open>Types\<close>

fun value_type :: "db_value \<Rightarrow> data_type" where
  "value_type (VStr s) = DT_STR" | "value_type (VInt i) = DT_INT" | "value_type (VRid r) = DT_RID"

lemma int64_result_type: "int64_result i = Inr v \<Longrightarrow> value_type v = DT_INT"
  by (auto simp: int64_result_Inr)

lemma arith_op_type: "arith_op op a b = Inr v \<Longrightarrow> value_type v = DT_INT"
  by (cases a; cases b)
    (auto simp: arith_op_def bindE_Inr_iff dest: int64_result_type split: if_splits)

lemma bool_value_type [simp]: "value_type (bool_value b) = DT_INT"
  by (simp add: bool_value_def)

definition env_typed :: "(column \<Rightarrow> db_value res) \<Rightarrow> bool" where
  "env_typed env \<longleftrightarrow> (\<forall>c v. env c = Inr v \<longrightarrow> value_type v = ci_datatype (col_info c))"

text \<open>The datatype a plan announces, and the one it has.\<close>

fun plan_type :: "expr_plan \<Rightarrow> data_type" where
  "plan_type (ExprPlanColumn c) = ci_datatype (col_info c)"
| "plan_type (ExprPlanTerm v) = value_type v"
| "plan_type _ = DT_INT"

lemma plan_eval_type: "env_typed env \<Longrightarrow> plan_eval env e = Inr v \<Longrightarrow> value_type v = plan_type e"
  by (cases e) (auto simp: env_typed_def lift2_def bindE_Inr_iff dest: arith_op_type)

end
