(* ===== verification/Executor.thy ===== *)
theory Executor
  imports Exprs Actions
begin

text \<open>
  The pull-based query executor (\<^verbatim>\<open>src/query/executor/\<close>): relation scan, projection,
  selection, cartesian product and the three joins, each with the state its object keeps
  between two calls of \<^verbatim>\<open>next()\<close>. The scan of a stored table is an argument
  (\<^verbatim>\<open>RelationIter\<close> is an abstract class); the world \<open>'w\<close> it reads is passed along. A
  \<^verbatim>\<open>while (true)\<close> of the source is recursion on the updated operator, so a call that does
  not return is \<open>None\<close>.
\<close>

section \<open>Operators\<close>

record pcol =
  pc_pos :: nat
  pc_col :: column

text \<open>
  The variables of the join classes: the current rows, \<^verbatim>\<open>valid_lhs\<close>, \<^verbatim>\<open>outer_match\<close>,
  \<^verbatim>\<open>valid_rhs\<close>, \<^verbatim>\<open>rhs_index\<close> and \<^verbatim>\<open>matched_rhs\<close>. \<open>js_drain\<close> is the control point of the
  last loop of \<^verbatim>\<open>FullOuterJoin::next\<close>: it holds only inside that loop.
\<close>

record join_state =
  js_lhs :: row
  js_rhs :: row
  js_valid_lhs :: bool
  js_outer_match :: bool
  js_valid_rhs :: bool
  js_rhs_index :: nat
  js_matched :: "bool list"
  js_drain :: bool

datatype 'i qiter =
    Relation 'i "pcol list"
  | Projection "'i qiter" "column list" nat nat
  | Selection "'i qiter" "expr list"
  | CartesianProduct "'i qiter" "'i qiter" "pcol list" "pcol list" join_state
  | Join "'i qiter" "'i qiter" "pcol list" "pcol list" "(nat \<times> nat) list" join_state
  | LeftOuterJoin "'i qiter" "'i qiter" "pcol list" "pcol list" "(nat \<times> nat) list" join_state
  | FullOuterJoin "'i qiter" "'i qiter" "pcol list" "pcol list" "(nat \<times> nat) list" join_state

text \<open>The operations of the operators are split by class; what the children do is an argument.\<close>

definition relation_columns_of :: "pcol list \<Rightarrow> column list" where [simp]:
  "relation_columns_of pcs = map pc_col pcs"

definition projection_columns_of :: "column list \<Rightarrow> column list" where [simp]:
  "projection_columns_of cs = cs"

definition selection_columns_of :: "column list \<Rightarrow> column list" where [simp]:
  "selection_columns_of child = child"

definition cartesian_columns_of :: "pcol list \<Rightarrow> pcol list \<Rightarrow> column list" where [simp]:
  "cartesian_columns_of lc rc = map pc_col lc @ map pc_col rc"

definition join_columns_of :: "pcol list \<Rightarrow> pcol list \<Rightarrow> column list" where [simp]:
  "join_columns_of lc rc = map pc_col lc @ map pc_col rc"

definition left_outer_columns_of :: "pcol list \<Rightarrow> pcol list \<Rightarrow> column list" where [simp]:
  "left_outer_columns_of lc rc = map pc_col lc @ map pc_col rc"

definition full_outer_columns_of :: "pcol list \<Rightarrow> pcol list \<Rightarrow> column list" where [simp]:
  "full_outer_columns_of lc rc = map pc_col lc @ map pc_col rc"

fun get_columns :: "'i qiter \<Rightarrow> column list" where
  "get_columns (Relation i pcs) = relation_columns_of pcs"
| "get_columns (Projection c cs lim cnt) = projection_columns_of cs"
| "get_columns (Selection c es) = selection_columns_of (get_columns c)"
| "get_columns (CartesianProduct l r lc rc st) = cartesian_columns_of lc rc"
| "get_columns (Join l r lc rc eqs st) = join_columns_of lc rc"
| "get_columns (LeftOuterJoin l r lc rc eqs st) = left_outer_columns_of lc rc"
| "get_columns (FullOuterJoin l r lc rc eqs st) = full_outer_columns_of lc rc"

text \<open>The values standing for null, one for each projected INT or STR column.\<close>

fun null_values :: "pcol list \<Rightarrow> row" where
  "null_values [] = []"
| "null_values (p # ps) =
     (case ci_datatype (col_info (pc_col p)) of
        DT_INT \<Rightarrow> VInt (-1) # null_values ps
      | DT_STR \<Rightarrow> VStr ''-1'' # null_values ps
      | DT_RID \<Rightarrow> null_values ps
      | DT_INVALID \<Rightarrow> null_values ps)"

definition project_pos :: "pcol list \<Rightarrow> row \<Rightarrow> row res" where
  "project_pos pcs r = mapE (\<lambda>p. nthE r (pc_pos p)) pcs"

definition combine :: "pcol list \<Rightarrow> pcol list \<Rightarrow> row \<Rightarrow> row \<Rightarrow> row res" where
  "combine lc rc l r = bindE (project_pos lc l) (\<lambda>a. bindE (project_pos rc r) (\<lambda>b. Inr (a @ b)))"

fun compatible :: "(nat \<times> nat) list \<Rightarrow> row \<Rightarrow> row \<Rightarrow> bool res" where
  "compatible [] l r = Inr True"
| "compatible ((i, j) # eqs) l r =
     bindE (nthE l i) (\<lambda>a. bindE (nthE r j) (\<lambda>b.
       if value_ne a b then Inr False else compatible eqs l r))"

text \<open>
  The conjunction of a selection: the first expression whose integer value is 0 decides.
\<close>

fun sel_matches :: "expr list \<Rightarrow> row \<Rightarrow> bool res" where
  "sel_matches [] r = Inr True"
| "sel_matches (e # es) r =
     bindE (expr_eval e r) (\<lambda>v. bindE (as_int v) (\<lambda>i.
       if i = 0 then Inr False else sel_matches es r))"

text \<open>\<^verbatim>\<open>QueryIter::matches\<close>: only a selection overrides it.\<close>

fun matches :: "'i qiter \<Rightarrow> row \<Rightarrow> bool res" where
  "matches (Selection c es) r = sel_matches es r"
| "matches _ r = Inr True"

text \<open>\<^verbatim>\<open>Projection::next\<close> looks every projected column up in the child's columns.\<close>

fun project_cols :: "column list \<Rightarrow> column list \<Rightarrow> row \<Rightarrow> row res" where
  "project_cols child [] r = Inr []"
| "project_cols child (c # cs) r =
     (if col_index c child = -1 then project_cols child cs r
      else bindE (nthE r (nat (col_index c child))) (\<lambda>v.
           bindE (project_cols child cs r) (\<lambda>vs. Inr (v # vs))))"

section \<open>reset\<close>

type_synonym ('i, 'w) starter = "'w \<Rightarrow> ('i qiter \<times> 'w) res"

definition relation_reset :: "('w \<Rightarrow> ('i \<times> 'w) res) \<Rightarrow> pcol list \<Rightarrow> ('i, 'w) starter" where [simp]:
  "relation_reset c pcs w = bindE (c w) (\<lambda>(i, w). Inr (Relation i pcs, w))"

definition projection_reset :: "('i, 'w) starter \<Rightarrow> column list \<Rightarrow> nat \<Rightarrow> ('i, 'w) starter" where [simp]:
  "projection_reset c cs lim w = bindE (c w) (\<lambda>(c, w). Inr (Projection c cs lim 0, w))"

definition selection_reset :: "('i, 'w) starter \<Rightarrow> expr list \<Rightarrow> ('i, 'w) starter" where [simp]:
  "selection_reset c es w = bindE (c w) (\<lambda>(c, w). Inr (Selection c es, w))"

definition cartesian_reset ::
  "('i, 'w) starter \<Rightarrow> ('i, 'w) starter \<Rightarrow> pcol list \<Rightarrow> pcol list \<Rightarrow>
   join_state \<Rightarrow> ('i, 'w) starter" where [simp]:
  "cartesian_reset rl rh lc rc st w =
     bindE (rl w) (\<lambda>(l, w). bindE (rh w) (\<lambda>(r, w). Inr (CartesianProduct l r lc rc st, w)))"

definition join_reset ::
  "('i, 'w) starter \<Rightarrow> ('i, 'w) starter \<Rightarrow> pcol list \<Rightarrow> pcol list \<Rightarrow>
   (nat \<times> nat) list \<Rightarrow> join_state \<Rightarrow> ('i, 'w) starter" where [simp]:
  "join_reset rl rh lc rc eqs st w =
     bindE (rl w) (\<lambda>(l, w). bindE (rh w) (\<lambda>(r, w). Inr (Join l r lc rc eqs st, w)))"

definition left_outer_reset ::
  "('i, 'w) starter \<Rightarrow> ('i, 'w) starter \<Rightarrow> pcol list \<Rightarrow> pcol list \<Rightarrow>
   (nat \<times> nat) list \<Rightarrow> join_state \<Rightarrow> ('i, 'w) starter" where [simp]:
  "left_outer_reset rl rh lc rc eqs st w =
     bindE (rl w) (\<lambda>(l, w). bindE (rh w) (\<lambda>(r, w). Inr (LeftOuterJoin l r lc rc eqs (st\<lparr>js_valid_lhs := False\<rparr>), w)))"

definition full_outer_reset ::
  "('i, 'w) starter \<Rightarrow> ('i, 'w) starter \<Rightarrow> pcol list \<Rightarrow> pcol list \<Rightarrow>
   (nat \<times> nat) list \<Rightarrow> join_state \<Rightarrow> ('i, 'w) starter" where [simp]:
  "full_outer_reset rl rh lc rc eqs st w =
     bindE (rl w) (\<lambda>(l, w). bindE (rh w) (\<lambda>(r, w). Inr (FullOuterJoin l r lc rc eqs 
       (st\<lparr>js_valid_lhs := False, js_valid_rhs := False, js_rhs_index := 0,
           js_matched := replicate (length (js_matched st)) False\<rparr>), w)))"

fun qreset :: "('i \<Rightarrow> 'w \<Rightarrow> ('i \<times> 'w) res) \<Rightarrow> 'i qiter \<Rightarrow> 'w \<Rightarrow> ('i qiter \<times> 'w) res" where
  "qreset rr (Relation i pcs) w = relation_reset (rr i) pcs w"
| "qreset rr (Projection c cs lim cnt) w = projection_reset (qreset rr c) cs lim w"
| "qreset rr (Selection c es) w = selection_reset (qreset rr c) es w"
| "qreset rr (CartesianProduct l r lc rc st) w = cartesian_reset (qreset rr l) (qreset rr r) lc rc st w"
| "qreset rr (Join l r lc rc eqs st) w = join_reset (qreset rr l) (qreset rr r) lc rc eqs st w"
| "qreset rr (LeftOuterJoin l r lc rc eqs st) w = left_outer_reset (qreset rr l) (qreset rr r) lc rc eqs st w"
| "qreset rr (FullOuterJoin l r lc rc eqs st) w = full_outer_reset (qreset rr l) (qreset rr r) lc rc eqs st w"

section \<open>next\<close>

text \<open>A full outer join records that the current right row has matched.\<close>

definition mark_matched :: "join_state \<Rightarrow> join_state res" where
  "mark_matched st =
     (if js_rhs_index st < length (js_matched st)
      then Inr (st\<lparr>js_outer_match := True,
                   js_matched := (js_matched st)[js_rhs_index st := True],
                   js_rhs_index := js_rhs_index st + 1\<rparr>)
      else Inl Stuck)"

text \<open>
  One definition per operator; \<open>nxt\<close> is the \<^verbatim>\<open>next()\<close> of the operators, this one included.
  They are monotone in it, which is what \<open>qnext\<close> needs.
\<close>

type_synonym ('i, 'w) nexter = "'i qiter \<Rightarrow> 'w \<Rightarrow> (row \<times> 'i qiter \<times> 'w) run"

definition relation_next ::
  "('w \<Rightarrow> (row \<times> 'i \<times> 'w) run) \<Rightarrow> pcol list \<Rightarrow> 'w \<Rightarrow> (row \<times> 'i qiter \<times> 'w) run" where [simp]:
  "relation_next c pcs w = bindO (c w) (\<lambda>(x, i, w). retO (x, Relation i pcs, w))"

definition projection_next ::
  "('i, 'w) nexter \<Rightarrow> 'i qiter \<Rightarrow> column list \<Rightarrow> nat \<Rightarrow> nat \<Rightarrow>
   'w \<Rightarrow> (row \<times> 'i qiter \<times> 'w) run" where
  "projection_next nxt c cs lim cnt w =
     bindO (nxt c w) (\<lambda>(x, c, w).
          if row_invalid x \<or> cnt \<ge> lim then retO (no_row, Projection c cs lim cnt, w)
          else bindO (Some (project_cols (get_columns c) cs x)) (\<lambda>y.
                 retO (y, Projection c cs lim (cnt + 1), w)))"

lemma projection_next_mono [partial_function_mono]:
  assumes "\<And>it w. mono_option (\<lambda>f. N f it w)"
  shows "mono_option (\<lambda>f. projection_next (N f) c cs lim cnt w)"
  unfolding projection_next_def by (intro run_mono assms)

definition selection_next ::
  "('i, 'w) nexter \<Rightarrow> 'i qiter \<Rightarrow> expr list \<Rightarrow>
   'w \<Rightarrow> (row \<times> 'i qiter \<times> 'w) run" where
  "selection_next nxt c es w =
     bindO (nxt c w) (\<lambda>(x, c, w).
          if row_invalid x then retO (no_row, Selection c es, w)
          else bindO (Some (sel_matches es x)) (\<lambda>b.
                 if b then retO (x, Selection c es, w) else nxt (Selection c es) w))"

lemma selection_next_mono [partial_function_mono]:
  assumes "\<And>it w. mono_option (\<lambda>f. N f it w)"
  shows "mono_option (\<lambda>f. selection_next (N f) c es w)"
  unfolding selection_next_def by (intro run_mono assms)

definition cartesian_next ::
  "('i \<Rightarrow> 'w \<Rightarrow> ('i \<times> 'w) res) \<Rightarrow> ('i, 'w) nexter \<Rightarrow> 'i qiter \<Rightarrow> 'i qiter \<Rightarrow>
   pcol list \<Rightarrow> pcol list \<Rightarrow> join_state \<Rightarrow>
   'w \<Rightarrow> (row \<times> 'i qiter \<times> 'w) run" where
  "cartesian_next rr nxt l r lc rc st w =
    (if js_valid_lhs st then
       bindO (nxt r w) (\<lambda>(x, r, w).
         if \<not> row_invalid x then
           bindO (Some (combine lc rc (js_lhs st) x)) (\<lambda>y.
             retO (y, CartesianProduct l r lc rc (st\<lparr>js_rhs := x\<rparr>), w))
         else nxt
                (CartesianProduct l r lc rc (st\<lparr>js_rhs := x, js_valid_lhs := False\<rparr>)) w)
     else
       bindO (nxt l w) (\<lambda>(x, l, w).
         if \<not> row_invalid x then
           bindO (Some (qreset rr r w)) (\<lambda>(r, w).
             nxt
               (CartesianProduct l r lc rc (st\<lparr>js_lhs := x, js_valid_lhs := True\<rparr>)) w)
         else retO (no_row, CartesianProduct l r lc rc (st\<lparr>js_lhs := x\<rparr>), w)))"

lemma cartesian_next_mono [partial_function_mono]:
  assumes "\<And>it w. mono_option (\<lambda>f. N f it w)"
  shows "mono_option (\<lambda>f. cartesian_next rr (N f) l r lc rc st w)"
  unfolding cartesian_next_def by (intro run_mono assms)

definition join_next ::
  "('i \<Rightarrow> 'w \<Rightarrow> ('i \<times> 'w) res) \<Rightarrow> ('i, 'w) nexter \<Rightarrow> 'i qiter \<Rightarrow> 'i qiter \<Rightarrow>
   pcol list \<Rightarrow> pcol list \<Rightarrow> (nat \<times> nat) list \<Rightarrow> join_state \<Rightarrow>
   'w \<Rightarrow> (row \<times> 'i qiter \<times> 'w) run" where
  "join_next rr nxt l r lc rc eqs st w =
    (if js_valid_lhs st then
       bindO (nxt r w) (\<lambda>(x, r, w).
         if \<not> row_invalid x then
           bindO (Some (compatible eqs (js_lhs st) x)) (\<lambda>b.
             if b then
               bindO (Some (combine lc rc (js_lhs st) x)) (\<lambda>y.
                 retO (y, Join l r lc rc eqs (st\<lparr>js_rhs := x\<rparr>), w))
             else nxt (Join l r lc rc eqs (st\<lparr>js_rhs := x\<rparr>)) w)
         else nxt (Join l r lc rc eqs (st\<lparr>js_rhs := x, js_valid_lhs := False\<rparr>)) w)
     else
       bindO (nxt l w) (\<lambda>(x, l, w).
         if \<not> row_invalid x then
           bindO (Some (qreset rr r w)) (\<lambda>(r, w).
             nxt (Join l r lc rc eqs (st\<lparr>js_lhs := x, js_valid_lhs := True\<rparr>)) w)
         else retO (no_row, Join l r lc rc eqs (st\<lparr>js_lhs := x\<rparr>), w)))"

lemma join_next_mono [partial_function_mono]:
  assumes "\<And>it w. mono_option (\<lambda>f. N f it w)"
  shows "mono_option (\<lambda>f. join_next rr (N f) l r lc rc eqs st w)"
  unfolding join_next_def by (intro run_mono assms)

definition left_outer_next ::
  "('i \<Rightarrow> 'w \<Rightarrow> ('i \<times> 'w) res) \<Rightarrow> ('i, 'w) nexter \<Rightarrow> 'i qiter \<Rightarrow> 'i qiter \<Rightarrow>
   pcol list \<Rightarrow> pcol list \<Rightarrow> (nat \<times> nat) list \<Rightarrow> join_state \<Rightarrow>
   'w \<Rightarrow> (row \<times> 'i qiter \<times> 'w) run" where
  "left_outer_next rr nxt l r lc rc eqs st w =
    (if \<not> js_valid_lhs st then
       bindO (nxt l w) (\<lambda>(x, l, w).
         if row_invalid x then retO (no_row, LeftOuterJoin l r lc rc eqs (st\<lparr>js_lhs := x\<rparr>), w)
         else bindO (Some (qreset rr r w)) (\<lambda>(r, w).
                nxt (LeftOuterJoin l r lc rc eqs
                  (st\<lparr>js_lhs := x, js_outer_match := False, js_valid_lhs := True\<rparr>)) w))
     else
       bindO (nxt r w) (\<lambda>(x, r, w).
         if \<not> row_invalid x then
           bindO (Some (compatible eqs (js_lhs st) x)) (\<lambda>b.
             if b then
               bindO (Some (combine lc rc (js_lhs st) x)) (\<lambda>y.
                 retO (y, LeftOuterJoin l r lc rc eqs (st\<lparr>js_rhs := x, js_outer_match := True\<rparr>), w))
             else nxt (LeftOuterJoin l r lc rc eqs (st\<lparr>js_rhs := x\<rparr>)) w)
         else if \<not> js_outer_match st then
           bindO (Some (combine lc rc (js_lhs st) (null_values rc))) (\<lambda>y.
             retO (y, LeftOuterJoin l r lc rc eqs (st\<lparr>js_rhs := x, js_valid_lhs := False\<rparr>), w))
         else nxt
                (LeftOuterJoin l r lc rc eqs (st\<lparr>js_rhs := x, js_valid_lhs := False\<rparr>)) w))"

lemma left_outer_next_mono [partial_function_mono]:
  assumes "\<And>it w. mono_option (\<lambda>f. N f it w)"
  shows "mono_option (\<lambda>f. left_outer_next rr (N f) l r lc rc eqs st w)"
  unfolding left_outer_next_def by (intro run_mono assms)

definition full_outer_next ::
  "('i \<Rightarrow> 'w \<Rightarrow> ('i \<times> 'w) res) \<Rightarrow> ('i, 'w) nexter \<Rightarrow> 'i qiter \<Rightarrow> 'i qiter \<Rightarrow>
   pcol list \<Rightarrow> pcol list \<Rightarrow> (nat \<times> nat) list \<Rightarrow> join_state \<Rightarrow>
   'w \<Rightarrow> (row \<times> 'i qiter \<times> 'w) run" where
  "full_outer_next rr nxt l r lc rc eqs st w =
    (if js_drain st then
       bindO (nxt r w) (\<lambda>(x, r, w).
         if row_invalid x then
           retO (no_row, FullOuterJoin l r lc rc eqs (st\<lparr>js_rhs := x, js_drain := False\<rparr>), w)
         else bindO (Some (nthE (js_matched st) (js_rhs_index st))) (\<lambda>m.
           if \<not> m then
             bindO (Some (combine lc rc (null_values lc) x)) (\<lambda>y.
               retO (y, FullOuterJoin l r lc rc eqs
                 (st\<lparr>js_rhs := x, js_rhs_index := js_rhs_index st + 1, js_drain := False\<rparr>), w))
           else nxt (FullOuterJoin l r lc rc eqs
                  (st\<lparr>js_rhs := x, js_rhs_index := js_rhs_index st + 1\<rparr>)) w))
     else if \<not> js_valid_lhs st then
       bindO (nxt l w) (\<lambda>(x, l, w).
         if row_invalid x then
           (if \<not> js_valid_rhs st then
              bindO (Some (qreset rr r w)) (\<lambda>(r, w).
                nxt (FullOuterJoin l r lc rc eqs
                  (st\<lparr>js_lhs := x, js_rhs_index := 0, js_valid_rhs := True, js_drain := True\<rparr>)) w)
            else nxt (FullOuterJoin l r lc rc eqs (st\<lparr>js_lhs := x, js_drain := True\<rparr>)) w)
         else bindO (Some (qreset rr r w)) (\<lambda>(r, w).
                nxt (FullOuterJoin l r lc rc eqs
                  (st\<lparr>js_lhs := x, js_rhs_index := 0, js_outer_match := False,
                      js_valid_lhs := True\<rparr>)) w))
     else
       bindO (nxt r w) (\<lambda>(x, r, w).
         if \<not> row_invalid x then
           bindO (Some (compatible eqs (js_lhs st) x)) (\<lambda>b.
             if b then
               bindO (Some (mark_matched st)) (\<lambda>st.
               bindO (Some (combine lc rc (js_lhs st) x)) (\<lambda>y.
                 retO (y, FullOuterJoin l r lc rc eqs (st\<lparr>js_rhs := x\<rparr>), w)))
             else nxt (FullOuterJoin l r lc rc eqs
                    (st\<lparr>js_rhs := x, js_rhs_index := js_rhs_index st + 1\<rparr>)) w)
         else if \<not> js_outer_match st then
           bindO (Some (combine lc rc (js_lhs st) (null_values rc))) (\<lambda>y.
             retO (y, FullOuterJoin l r lc rc eqs (st\<lparr>js_rhs := x, js_valid_lhs := False\<rparr>), w))
         else nxt
                (FullOuterJoin l r lc rc eqs (st\<lparr>js_rhs := x, js_valid_lhs := False\<rparr>)) w))"

lemma full_outer_next_mono [partial_function_mono]:
  assumes "\<And>it w. mono_option (\<lambda>f. N f it w)"
  shows "mono_option (\<lambda>f. full_outer_next rr (N f) l r lc rc eqs st w)"
  unfolding full_outer_next_def by (intro run_mono assms)

partial_function (option) qnext ::
  "('i \<Rightarrow> 'w \<Rightarrow> (row \<times> 'i \<times> 'w) run) \<Rightarrow> ('i \<Rightarrow> 'w \<Rightarrow> ('i \<times> 'w) res) \<Rightarrow>
   'i qiter \<Rightarrow> 'w \<Rightarrow> (row \<times> 'i qiter \<times> 'w) run" where
  "qnext rn rr it w =
   (case it of
      Relation i pcs \<Rightarrow> relation_next (rn i) pcs w
    | Projection c cs lim cnt \<Rightarrow> projection_next (qnext rn rr) c cs lim cnt w
    | Selection c es \<Rightarrow> selection_next (qnext rn rr) c es w
    | CartesianProduct l r lc rc st \<Rightarrow> cartesian_next rr (qnext rn rr) l r lc rc st w
    | Join l r lc rc eqs st \<Rightarrow> join_next rr (qnext rn rr) l r lc rc eqs st w
    | LeftOuterJoin l r lc rc eqs st \<Rightarrow> left_outer_next rr (qnext rn rr) l r lc rc eqs st w
    | FullOuterJoin l r lc rc eqs st \<Rightarrow> full_outer_next rr (qnext rn rr) l r lc rc eqs st w)"

section \<open>begin\<close>

text \<open>
  \<open>init_matched\<close> is the counting loop of \<^verbatim>\<open>FullOuterJoin::init_matched_rhs\<close>; \<open>rb\<close> is the
  \<^verbatim>\<open>begin()\<close> of the scan.
\<close>

partial_function (option) init_matched ::
  "('i \<Rightarrow> 'w \<Rightarrow> (row \<times> 'i \<times> 'w) run) \<Rightarrow> ('i \<Rightarrow> 'w \<Rightarrow> ('i \<times> 'w) res) \<Rightarrow>
   'i qiter \<Rightarrow> nat \<Rightarrow> 'w \<Rightarrow> (nat \<times> 'i qiter \<times> 'w) run" where
  "init_matched rn rr it n w =
     bindO (qnext rn rr it w) (\<lambda>(x, it, w).
       if row_invalid x then retO (n, it, w) else init_matched rn rr it (n + 1) w)"

type_synonym ('i, 'w) run_starter = "'w \<Rightarrow> ('i qiter \<times> 'w) run"

definition relation_begin :: "('w \<Rightarrow> ('i \<times> 'w) res) \<Rightarrow> pcol list \<Rightarrow> ('i, 'w) run_starter" where [simp]:
  "relation_begin c pcs w = bindO (Some (c w)) (\<lambda>(i, w). retO (Relation i pcs, w))"

definition projection_begin ::
  "('i, 'w) run_starter \<Rightarrow> column list \<Rightarrow> nat \<Rightarrow> ('i, 'w) run_starter" where [simp]:
  "projection_begin c cs lim w = bindO (c w) (\<lambda>(c, w). retO (Projection c cs lim 0, w))"

definition selection_begin :: "('i, 'w) run_starter \<Rightarrow> expr list \<Rightarrow> ('i, 'w) run_starter" where [simp]:
  "selection_begin c es w = bindO (c w) (\<lambda>(c, w). retO (Selection c es, w))"

definition cartesian_begin ::
  "('i, 'w) run_starter \<Rightarrow> ('i, 'w) run_starter \<Rightarrow> pcol list \<Rightarrow> pcol list \<Rightarrow>
   join_state \<Rightarrow> ('i, 'w) run_starter" where [simp]:
  "cartesian_begin bl bh lc rc st w =
     bindO (bl w) (\<lambda>(l, w). bindO (bh w) (\<lambda>(r, w). retO (CartesianProduct l r lc rc (st\<lparr>js_valid_lhs := False\<rparr>), w)))"

definition join_begin ::
  "('i, 'w) run_starter \<Rightarrow> ('i, 'w) run_starter \<Rightarrow> pcol list \<Rightarrow> pcol list \<Rightarrow>
   (nat \<times> nat) list \<Rightarrow> join_state \<Rightarrow> ('i, 'w) run_starter" where [simp]:
  "join_begin bl bh lc rc eqs st w =
     bindO (bl w) (\<lambda>(l, w). bindO (bh w) (\<lambda>(r, w). retO (Join l r lc rc eqs (st\<lparr>js_valid_lhs := False\<rparr>), w)))"

definition left_outer_begin ::
  "('i, 'w) run_starter \<Rightarrow> ('i, 'w) run_starter \<Rightarrow> pcol list \<Rightarrow> pcol list \<Rightarrow>
   (nat \<times> nat) list \<Rightarrow> join_state \<Rightarrow> ('i, 'w) run_starter" where [simp]:
  "left_outer_begin bl bh lc rc eqs st w =
     bindO (bl w) (\<lambda>(l, w). bindO (bh w) (\<lambda>(r, w). retO (LeftOuterJoin l r lc rc eqs (st\<lparr>js_valid_lhs := False\<rparr>), w)))"

definition full_outer_begin ::
  "('i \<Rightarrow> 'w \<Rightarrow> (row \<times> 'i \<times> 'w) run) \<Rightarrow> ('i \<Rightarrow> 'w \<Rightarrow> ('i \<times> 'w) res) \<Rightarrow>
   ('i, 'w) run_starter \<Rightarrow> ('i, 'w) run_starter \<Rightarrow> pcol list \<Rightarrow> pcol list \<Rightarrow>
   (nat \<times> nat) list \<Rightarrow> join_state \<Rightarrow> ('i, 'w) run_starter" where [simp]:
  "full_outer_begin rn rr bl bh lc rc eqs st w =
     bindO (bl w) (\<lambda>(l, w). bindO (bh w) (\<lambda>(r, w).
     bindO (init_matched rn rr r 0 w) (\<lambda>(n, r, w). bindO (Some (qreset rr r w)) (\<lambda>(r, w).
       retO (FullOuterJoin l r lc rc eqs
              (st\<lparr>js_rhs := no_row, js_valid_lhs := False, js_valid_rhs := False,
                  js_rhs_index := 0, js_matched := replicate n False\<rparr>), w)))))"

fun qbegin ::
  "('i \<Rightarrow> 'w \<Rightarrow> ('i \<times> 'w) res) \<Rightarrow> ('i \<Rightarrow> 'w \<Rightarrow> (row \<times> 'i \<times> 'w) run) \<Rightarrow>
   ('i \<Rightarrow> 'w \<Rightarrow> ('i \<times> 'w) res) \<Rightarrow> 'i qiter \<Rightarrow> 'w \<Rightarrow> ('i qiter \<times> 'w) run" where
  "qbegin rb rn rr (Relation i pcs) w = relation_begin (rb i) pcs w"
| "qbegin rb rn rr (Projection c cs lim cnt) w = projection_begin (qbegin rb rn rr c) cs lim w"
| "qbegin rb rn rr (Selection c es) w = selection_begin (qbegin rb rn rr c) es w"
| "qbegin rb rn rr (CartesianProduct l r lc rc st) w =
     cartesian_begin (qbegin rb rn rr l) (qbegin rb rn rr r) lc rc st w"
| "qbegin rb rn rr (Join l r lc rc eqs st) w =
     join_begin (qbegin rb rn rr l) (qbegin rb rn rr r) lc rc eqs st w"
| "qbegin rb rn rr (LeftOuterJoin l r lc rc eqs st) w =
     left_outer_begin (qbegin rb rn rr l) (qbegin rb rn rr r) lc rc eqs st w"
| "qbegin rb rn rr (FullOuterJoin l r lc rc eqs st) w =
     full_outer_begin rn rr (qbegin rb rn rr l) (qbegin rb rn rr r) lc rc eqs st w"

section \<open>Running a query to its end\<close>

text \<open>Every caller pulls rows until an empty one comes.\<close>

partial_function (option) qcollect ::
  "('i \<Rightarrow> 'w \<Rightarrow> (row \<times> 'i \<times> 'w) run) \<Rightarrow> ('i \<Rightarrow> 'w \<Rightarrow> ('i \<times> 'w) res) \<Rightarrow>
   'i qiter \<Rightarrow> 'w \<Rightarrow> (row list \<times> 'i qiter \<times> 'w) run" where
  "qcollect rn rr it w =
     bindO (qnext rn rr it w) (\<lambda>(x, it, w).
       if row_invalid x then retO ([], it, w)
       else bindO (qcollect rn rr it w) (\<lambda>(xs, it, w). retO (x # xs, it, w)))"

end
