(* ===== verification/Executor_Rows.thy ===== *)
theory Executor_Rows
  imports Executor
begin

text \<open>
  What a query plan means: the list of rows it returns, in order, by recursion on the
  operators (\<open>qrows\<close> from the start, \<open>qrest\<close> from the current state), and the conditions under
  which no operator leaves its defined behaviour (\<open>qok\<close>). The interface to the table scans is
  the locale \<open>relation_iter\<close>; under its laws every operator returns exactly its rows.
\<close>

section \<open>Rows of the operators\<close>

definition pick :: "pcol list \<Rightarrow> row \<Rightarrow> row" where
  "pick pcs r = map (\<lambda>p. r ! pc_pos p) pcs"

definition joined :: "pcol list \<Rightarrow> pcol list \<Rightarrow> row \<Rightarrow> row \<Rightarrow> row" where
  "joined lc rc l r = pick lc l @ pick rc r"

definition compat :: "(nat \<times> nat) list \<Rightarrow> row \<Rightarrow> row \<Rightarrow> bool" where
  "compat eqs l r \<longleftrightarrow> (\<forall>(i, j) \<in> set eqs. l ! i = r ! j)"

definition holds :: "expr list \<Rightarrow> row \<Rightarrow> bool" where
  "holds es r \<longleftrightarrow> sel_matches es r = Inr True"

definition projected :: "column list \<Rightarrow> column list \<Rightarrow> row \<Rightarrow> row" where
  "projected child cs r =
     map (\<lambda>c. r ! nat (col_index c child)) (filter (\<lambda>c. col_index c child \<noteq> -1) cs)"

text \<open>The rows of one left row against the right rows \<open>R\<close>, and what is left of them.\<close>

definition inner_rows :: "(nat \<times> nat) list \<Rightarrow> pcol list \<Rightarrow> pcol list \<Rightarrow> row list \<Rightarrow> row \<Rightarrow> row list" where
  "inner_rows eqs lc rc R l = map (joined lc rc l) (filter (compat eqs l) R)"

definition outer_rows ::
  "(nat \<times> nat) list \<Rightarrow> pcol list \<Rightarrow> pcol list \<Rightarrow> bool \<Rightarrow> row list \<Rightarrow> row \<Rightarrow> row list" where
  "outer_rows eqs lc rc matched R l =
     (let ms = inner_rows eqs lc rc R l in
      if ms = [] \<and> \<not> matched then [joined lc rc l (null_values rc)] else ms)"

text \<open>The right rows without a partner, from position \<open>k\<close> on; \<open>m i\<close> says that row \<open>i\<close> has one.\<close>

definition unmatched_rows :: "pcol list \<Rightarrow> pcol list \<Rightarrow> (nat \<Rightarrow> bool) \<Rightarrow> nat \<Rightarrow> row list \<Rightarrow> row list" where
  "unmatched_rows lc rc m k R =
     map (\<lambda>i. joined lc rc (null_values lc) (R ! i)) (filter (\<lambda>i. \<not> m i) [k..<length R])"

fun qrows :: "('i \<Rightarrow> row list) \<Rightarrow> 'i qiter \<Rightarrow> row list" where
  "qrows R (Relation i pcs) = R i"
| "qrows R (Projection c cs lim cnt) = take lim (map (projected (get_columns c) cs) (qrows R c))"
| "qrows R (Selection c es) = filter (holds es) (qrows R c)"
| "qrows R (CartesianProduct l r lc rc st) =
     concat (map (\<lambda>a. map (joined lc rc a) (qrows R r)) (qrows R l))"
| "qrows R (Join l r lc rc eqs st) =
     concat (map (inner_rows eqs lc rc (qrows R r)) (qrows R l))"
| "qrows R (LeftOuterJoin l r lc rc eqs st) =
     concat (map (outer_rows eqs lc rc False (qrows R r)) (qrows R l))"
| "qrows R (FullOuterJoin l r lc rc eqs st) =
     concat (map (outer_rows eqs lc rc False (qrows R r)) (qrows R l)) @
     unmatched_rows lc rc (\<lambda>i. \<exists>a \<in> set (qrows R l). compat eqs a (qrows R r ! i)) 0 (qrows R r)"

lemma qrows_cong: "(\<And>i. i \<in> set_qiter it \<Longrightarrow> R i = S i) \<Longrightarrow> qrows R it = qrows S it"
  by (induction it) simp_all

fun qrest :: "('i \<Rightarrow> row list) \<Rightarrow> ('i \<Rightarrow> row list) \<Rightarrow> 'i qiter \<Rightarrow> row list" where
  "qrest R S (Relation i pcs) = S i"
| "qrest R S (Projection c cs lim cnt) =
     take (lim - cnt) (map (projected (get_columns c) cs) (qrest R S c))"
| "qrest R S (Selection c es) = filter (holds es) (qrest R S c)"
| "qrest R S (CartesianProduct l r lc rc st) =
     (if js_valid_lhs st then map (joined lc rc (js_lhs st)) (qrest R S r) else []) @
     concat (map (\<lambda>a. map (joined lc rc a) (qrows R r)) (qrest R S l))"
| "qrest R S (Join l r lc rc eqs st) =
     (if js_valid_lhs st then inner_rows eqs lc rc (qrest R S r) (js_lhs st) else []) @
     concat (map (inner_rows eqs lc rc (qrows R r)) (qrest R S l))"
| "qrest R S (LeftOuterJoin l r lc rc eqs st) =
     (if js_valid_lhs st
      then outer_rows eqs lc rc (js_outer_match st) (qrest R S r) (js_lhs st) else []) @
     concat (map (outer_rows eqs lc rc False (qrows R r)) (qrest R S l))"
| "qrest R S (FullOuterJoin l r lc rc eqs st) =
     (if js_valid_rhs st then
        unmatched_rows lc rc (\<lambda>i. js_matched st ! i) (js_rhs_index st) (qrows R r)
      else
        (if js_valid_lhs st
         then outer_rows eqs lc rc (js_outer_match st) (qrest R S r) (js_lhs st) else []) @
        concat (map (outer_rows eqs lc rc False (qrows R r)) (qrest R S l)) @
        unmatched_rows lc rc
          (\<lambda>i. js_matched st ! i \<or>
               (js_valid_lhs st \<and> js_rhs_index st \<le> i \<and> compat eqs (js_lhs st) (qrows R r ! i)) \<or>
               (\<exists>a \<in> set (qrest R S l). compat eqs a (qrows R r ! i)))
          0 (qrows R r))"

section \<open>Well-formed plans\<close>

definition in_row :: "pcol list \<Rightarrow> row \<Rightarrow> bool" where
  "in_row pcs r \<longleftrightarrow> (\<forall>p \<in> set pcs. pc_pos p < length r)"

definition lhs_ok :: "pcol list \<Rightarrow> (nat \<times> nat) list \<Rightarrow> row \<Rightarrow> bool" where
  "lhs_ok lc eqs l \<longleftrightarrow> in_row lc l \<and> (\<forall>(i, j) \<in> set eqs. i < length l)"

definition rhs_ok :: "pcol list \<Rightarrow> (nat \<times> nat) list \<Rightarrow> row \<Rightarrow> bool" where
  "rhs_ok rc eqs r \<longleftrightarrow> in_row rc r \<and> (\<forall>(i, j) \<in> set eqs. j < length r)"

fun noproj :: "'i qiter \<Rightarrow> bool" where
  "noproj (Relation i pcs) = True"
| "noproj (Projection c cs lim cnt) = False"
| "noproj (Selection c es) = noproj c"
| "noproj (CartesianProduct l r lc rc st) = (noproj l \<and> noproj r)"
| "noproj (Join l r lc rc eqs st) = (noproj l \<and> noproj r)"
| "noproj (LeftOuterJoin l r lc rc eqs st) = (noproj l \<and> noproj r)"
| "noproj (FullOuterJoin l r lc rc eqs st) = (noproj l \<and> noproj r)"

text \<open>
  No operator is in the middle of a left row: the state in which \<^verbatim>\<open>reset()\<close>, which does not
  touch \<^verbatim>\<open>valid_lhs\<close> of products and joins, really starts over.
\<close>

fun settled :: "'i qiter \<Rightarrow> bool" where
  "settled (Relation i pcs) = True"
| "settled (Projection c cs lim cnt) = settled c"
| "settled (Selection c es) = settled c"
| "settled (CartesianProduct l r lc rc st) = (\<not> js_valid_lhs st \<and> settled l \<and> settled r)"
| "settled (Join l r lc rc eqs st) = (\<not> js_valid_lhs st \<and> settled l \<and> settled r)"
| "settled (LeftOuterJoin l r lc rc eqs st) = (settled l \<and> settled r)"
| "settled (FullOuterJoin l r lc rc eqs st) = (\<not> js_drain st \<and> settled l \<and> settled r)"

definition qall :: "('i \<Rightarrow> row list) \<Rightarrow> ('i \<Rightarrow> row list) \<Rightarrow> 'i qiter \<Rightarrow> row set" where
  "qall R S it = set (qrows R it) \<union> set (qrest R S it)"

definition join_ok ::
  "('i \<Rightarrow> row list) \<Rightarrow> ('i \<Rightarrow> row list) \<Rightarrow> 'i qiter \<Rightarrow> 'i qiter \<Rightarrow> pcol list \<Rightarrow> pcol list \<Rightarrow>
   (nat \<times> nat) list \<Rightarrow> join_state \<Rightarrow> bool" where
  "join_ok R S l r lc rc eqs st \<longleftrightarrow>
     noproj l \<and> noproj r \<and> lc @ rc \<noteq> [] \<and>
     (\<forall>a \<in> qall R S l. lhs_ok lc eqs a) \<and> (\<forall>b \<in> qall R S r. rhs_ok rc eqs b) \<and>
     (js_valid_lhs st \<longrightarrow> lhs_ok lc eqs (js_lhs st))"

fun qok :: "('i \<Rightarrow> bool) \<Rightarrow> ('i \<Rightarrow> row list) \<Rightarrow> ('i \<Rightarrow> row list) \<Rightarrow> 'i qiter \<Rightarrow> bool" where
  "qok good R S (Relation i pcs) \<longleftrightarrow> good i"
| "qok good R S (Projection c cs lim cnt) \<longleftrightarrow>
     qok good R S c \<and> (\<exists>x \<in> set cs. col_mem x (get_columns c)) \<and>
     (\<forall>a \<in> qall R S c. \<forall>x \<in> set cs. col_index x (get_columns c) < int (length a))"
| "qok good R S (Selection c es) \<longleftrightarrow>
     qok good R S c \<and> (\<forall>a \<in> qall R S c. \<exists>b. sel_matches es a = Inr b)"
| "qok good R S (CartesianProduct l r lc rc st) \<longleftrightarrow>
     qok good R S l \<and> qok good R S r \<and> join_ok R S l r lc rc [] st \<and>
     (\<not> js_valid_lhs st \<longrightarrow> settled r)"
| "qok good R S (Join l r lc rc eqs st) \<longleftrightarrow>
     qok good R S l \<and> qok good R S r \<and> join_ok R S l r lc rc eqs st \<and>
     (\<not> js_valid_lhs st \<longrightarrow> settled r)"
| "qok good R S (LeftOuterJoin l r lc rc eqs st) \<longleftrightarrow>
     qok good R S l \<and> qok good R S r \<and> join_ok R S l r lc rc eqs st \<and>
     in_row rc (null_values rc) \<and> (\<not> js_valid_lhs st \<longrightarrow> settled r)"
| "qok good R S (FullOuterJoin l r lc rc eqs st) \<longleftrightarrow>
     qok good R S l \<and> qok good R S r \<and> join_ok R S l r lc rc eqs st \<and>
     in_row rc (null_values rc) \<and> in_row lc (null_values lc) \<and>
     length (js_matched st) = length (qrows R r) \<and>
     js_rhs_index st \<le> length (qrows R r) \<and>
     (js_valid_lhs st \<or> js_valid_rhs st \<longrightarrow> qrest R S r = drop (js_rhs_index st) (qrows R r)) \<and>
     (js_valid_rhs st \<longrightarrow> \<not> js_valid_lhs st \<and> qrest R S l = [] \<and> settled l) \<and>
     (js_drain st \<longrightarrow> js_valid_rhs st) \<and>
     (\<not> js_valid_lhs st \<and> \<not> js_valid_rhs st \<longrightarrow> settled r)"

section \<open>The operators on good rows\<close>

lemma project_pos_pick: "in_row pcs r \<Longrightarrow> project_pos pcs r = Inr (pick pcs r)"
  by (simp add: project_pos_def pick_def in_row_def mapE_Inr_map)

lemma combine_joined: "in_row lc l \<Longrightarrow> in_row rc r \<Longrightarrow> combine lc rc l r = Inr (joined lc rc l r)"
  by (simp add: combine_def joined_def project_pos_pick)

lemma compatible_compat:
  "(\<forall>(i, j) \<in> set eqs. i < length l) \<Longrightarrow> (\<forall>(i, j) \<in> set eqs. j < length r) \<Longrightarrow>
   compatible eqs l r = Inr (compat eqs l r)"
  by (induction eqs l r rule: compatible.induct) (auto simp: compat_def value_ne_def)

lemma joined_nonempty: "lc @ rc \<noteq> [] \<Longrightarrow> joined lc rc l r \<noteq> []"
  by (auto simp: joined_def pick_def)

lemma project_cols_projected:
  "(\<forall>x \<in> set cs. col_index x child < int (length r)) \<Longrightarrow>
   project_cols child cs r = Inr (projected child cs r)"
proof (induction cs)
  case (Cons c cs)
  with col_index_lower [of c child] show ?case by (auto simp: projected_def nthE_def)
qed (simp add: projected_def)

lemma projected_nonempty: "\<exists>x \<in> set cs. col_mem x child \<Longrightarrow> projected child cs r \<noteq> []"
  by (auto simp: projected_def filter_empty_conv col_index_found)

lemma unmatched_cong:
  "(\<And>i. k \<le> i \<Longrightarrow> i < length R \<Longrightarrow> f i = g i) \<Longrightarrow>
   unmatched_rows lc rc f k R = unmatched_rows lc rc g k R"
  unfolding unmatched_rows_def by (intro arg_cong2 [where f = map] filter_cong) auto

lemma unmatched_unfold:
  "k < length R \<Longrightarrow> unmatched_rows lc rc f k R =
     (if f k then [] else [joined lc rc (null_values lc) (R ! k)]) @ unmatched_rows lc rc f (Suc k) R"
  by (simp add: unmatched_rows_def upt_conv_Cons)

lemma unmatched_end: "length R \<le> k \<Longrightarrow> unmatched_rows lc rc f k R = []"
  by (simp add: unmatched_rows_def)

lemma drop_eq_Cons:
  assumes "drop k R = x # xs"
  shows "k < length R" "R ! k = x" "drop (Suc k) R = xs"
proof -
  show k: "k < length R" using assms by (rule contrapos_pp) simp
  show "R ! k = x" "drop (Suc k) R = xs" using assms Cons_nth_drop_Suc [OF k] by simp_all
qed

lemma inner_rows_simps:
  "inner_rows eqs lc rc [] l = []"
  "inner_rows eqs lc rc (x # xs) l =
     (if compat eqs l x then joined lc rc l x # inner_rows eqs lc rc xs l
      else inner_rows eqs lc rc xs l)"
  by (simp_all add: inner_rows_def)

lemma outer_rows_simps:
  "outer_rows eqs lc rc m [] l = (if m then [] else [joined lc rc l (null_values rc)])"
  "compat eqs l x \<Longrightarrow> outer_rows eqs lc rc m (x # xs) l = joined lc rc l x # outer_rows eqs lc rc True xs l"
  "\<not> compat eqs l x \<Longrightarrow> outer_rows eqs lc rc m (x # xs) l = outer_rows eqs lc rc m xs l"
  by (simp_all add: outer_rows_def inner_rows_def Let_def)

lemma holds_matches: "sel_matches es r = Inr b \<Longrightarrow> holds es r \<longleftrightarrow> b"
  by (simp add: holds_def)

section \<open>Stepping through a plan\<close>

definition head_row :: "row list \<Rightarrow> row" where
  "head_row xs = (case xs of [] \<Rightarrow> no_row | x # _ \<Rightarrow> x)"

lemma head_row_simps [simp]: "head_row [] = []" "head_row (x # xs) = x"
  by (simp_all add: head_row_def)

fun depth :: "'i qiter \<Rightarrow> nat" where
  "depth (Relation i pcs) = 0"
| "depth (Projection c cs lim cnt) = Suc (depth c)"
| "depth (Selection c es) = Suc (depth c)"
| "depth (CartesianProduct l r lc rc st) = Suc (max (depth l) (depth r))"
| "depth (Join l r lc rc eqs st) = Suc (max (depth l) (depth r))"
| "depth (LeftOuterJoin l r lc rc eqs st) = Suc (max (depth l) (depth r))"
| "depth (FullOuterJoin l r lc rc eqs st) = Suc (max (depth l) (depth r))"

text \<open>What a call changes in an operator: its state, not its shape or its meaning.\<close>

definition kept :: "('i \<Rightarrow> row list) \<Rightarrow> 'i qiter \<Rightarrow> 'i qiter \<Rightarrow> bool" where
  "kept R it it' \<longleftrightarrow> qrows R it' = qrows R it \<and> get_columns it' = get_columns it \<and>
     noproj it' = noproj it \<and> depth it' = depth it"

lemma kept_refl [simp]: "kept R it it"
  by (simp add: kept_def)

lemma kept_trans [trans]: "kept R a b \<Longrightarrow> kept R b c \<Longrightarrow> kept R a c"
  by (simp add: kept_def)

definition after ::
  "('i \<Rightarrow> bool) \<Rightarrow> ('i \<Rightarrow> row list) \<Rightarrow> ('i \<Rightarrow> row list) \<Rightarrow> 'i qiter \<Rightarrow> 'i qiter \<Rightarrow> bool" where
  "after good R S it it' \<longleftrightarrow> qok good R S it' \<and> qrest R S it' = tl (qrest R S it) \<and> kept R it it' \<and>
     (qrest R S it = [] \<and> noproj it \<longrightarrow> settled it')"

lemma set_tl_subset: "set (tl xs) \<subseteq> set xs"
  by (cases xs) auto

lemma after_qall: "after good R S it it' \<Longrightarrow> qall R S it' \<subseteq> qall R S it"
  using set_tl_subset [of "qrest R S it"] by (auto simp: after_def kept_def qall_def)

lemma afterD:
  assumes "after good R S it it'"
  shows "qok good R S it'" "qrest R S it' = tl (qrest R S it)" "qrows R it' = qrows R it"
    "get_columns it' = get_columns it" "noproj it' = noproj it" "depth it' = depth it"
    "qall R S it' \<subseteq> qall R S it" "qrest R S it = [] \<Longrightarrow> noproj it \<Longrightarrow> settled it'"
  using assms after_qall [OF assms] by (simp_all add: after_def kept_def)

lemma join_ok_mono:
  assumes "join_ok R S l r lc rc eqs st" "qall R S l' \<subseteq> qall R S l" "qall R S r' \<subseteq> qall R S r"
    "noproj l' = noproj l" "noproj r' = noproj r" "js_valid_lhs st' \<Longrightarrow> lhs_ok lc eqs (js_lhs st')"
  shows "join_ok R S l' r' lc rc eqs st'"
  using assms unfolding join_ok_def by (meson subsetD)

section \<open>The interface to table scans\<close>

text \<open>
  A scan returns its rows one by one, then empty rows for ever; \<^verbatim>\<open>reset()\<close> starts over; in
  a state satisfying \<open>good\<close> neither changes the world.
\<close>

locale relation_iter =
  fixes w :: 'w
    and rn :: "'i \<Rightarrow> 'w \<Rightarrow> (row \<times> 'i \<times> 'w) run"
    and rr :: "'i \<Rightarrow> 'w \<Rightarrow> ('i \<times> 'w) res"
    and good :: "'i \<Rightarrow> bool"
    and R :: "'i \<Rightarrow> row list"
    and S :: "'i \<Rightarrow> row list"
  assumes next_step: "good i \<Longrightarrow> \<exists>i'. rn i w = Some (Inr (head_row (S i), i', w)) \<and> good i' \<and>
      S i' = tl (S i) \<and> R i' = R i"
    and reset_step: "good i \<Longrightarrow> \<exists>i'. rr i w = Inr (i', w) \<and> good i' \<and> S i' = R i \<and> R i' = R i"
    and rows_nonempty: "good i \<Longrightarrow> [] \<notin> set (R i) \<union> set (S i)"
begin

abbreviation "ok \<equiv> qok good R S"
abbreviation "rest \<equiv> qrest R S"

lemma ok_nonempty: "ok it \<Longrightarrow> [] \<notin> qall R S it"
proof (induction it)
  case (Relation i pcs)
  then show ?case using rows_nonempty by (simp add: qall_def)
next
  case (Projection c cs lim cnt)
  then have "[] \<noteq> projected (get_columns c) cs a" for a
    using projected_nonempty [of cs "get_columns c" a] by (auto simp del: projected_nonempty)
  then show ?case by (auto simp: qall_def dest!: in_set_takeD)
next
  case (Selection c es)
  then show ?case by (auto simp: qall_def)
next
  case (CartesianProduct l r lc rc st)
  then have "joined lc rc a b \<noteq> []" "[] \<noteq> joined lc rc a b" for a b
    using joined_nonempty [of lc rc a b] by (auto simp: join_ok_def)
  then show ?case by (auto simp: qall_def)
next
  case (Join l r lc rc eqs st)
  then have "joined lc rc a b \<noteq> []" "[] \<noteq> joined lc rc a b" for a b
    using joined_nonempty [of lc rc a b] by (auto simp: join_ok_def)
  then show ?case by (auto simp: qall_def inner_rows_def)
next
  case (LeftOuterJoin l r lc rc eqs st)
  then have "joined lc rc a b \<noteq> []" "[] \<noteq> joined lc rc a b" for a b
    using joined_nonempty [of lc rc a b] by (auto simp: join_ok_def)
  then have "[] \<notin> set (outer_rows eqs lc rc m bs a)" for m bs a
    by (auto simp: outer_rows_def inner_rows_def Let_def)
  then show ?case by (auto simp: qall_def)
next
  case (FullOuterJoin l r lc rc eqs st)
  then have j: "joined lc rc a b \<noteq> []" "[] \<noteq> joined lc rc a b" for a b
    using joined_nonempty [of lc rc a b] by (auto simp: join_ok_def)
  then have "[] \<notin> set (outer_rows eqs lc rc m bs a)" "[] \<notin> set (unmatched_rows lc rc f k bs)"
    for m bs a f k by (auto simp: outer_rows_def inner_rows_def unmatched_rows_def Let_def)
  then show ?case by (auto simp: qall_def)
qed

definition step :: "'i qiter \<Rightarrow> bool" where
  "step it \<longleftrightarrow> (\<exists>it'. qnext rn rr it w = Some (Inr (head_row (rest it), it', w)) \<and>
                     after good R S it it')"

lemma step_cases:
  assumes "step c" "ok c"
  obtains (Nil) c' where "qnext rn rr c w = Some (Inr ([], c', w))" "rest c = []" "after good R S c c'"
  | (Cons) x xs c' where "qnext rn rr c w = Some (Inr (x, c', w))" "rest c = x # xs" "x \<noteq> []"
      "\<not> row_invalid x" "x \<in> qall R S c" "after good R S c c'"
proof (cases "rest c")
  case Nil
  with assms(1) show ?thesis using that(1) by (auto simp: step_def)
next
  case (Cons x xs)
  with ok_nonempty [OF assms(2)] have "x \<noteq> []" "x \<in> qall R S c" by (auto simp: qall_def)
  with Cons assms(1) show ?thesis using that(2) by (auto simp: step_def row_invalid_def)
qed

lemma step_via:
  assumes "qnext rn rr it w = qnext rn rr it1 w" "step it1" "rest it1 = rest it" "kept R it it1"
  shows "step it"
  using assms unfolding step_def after_def kept_def by auto

lemma reset_ok:
  "ok it \<Longrightarrow> settled it \<Longrightarrow> noproj it \<Longrightarrow>
   \<exists>it'. qreset rr it w = Inr (it', w) \<and> ok it' \<and> rest it' = qrows R it \<and> kept R it it' \<and> settled it'"
proof (induction it)
  case (Relation i pcs)
  then show ?case using reset_step [of i] by (auto simp: kept_def)
next
  case (Selection c es)
  then obtain c' where "qreset rr c w = Inr (c', w)" "ok c'" "rest c' = qrows R c" "kept R c c'"
    "settled c'" by auto
  with Selection.prems show ?case by (auto simp: kept_def qall_def)
next
  case (CartesianProduct l r lc rc st)
  then obtain l' r' where l': "qreset rr l w = Inr (l', w)" "ok l'" "rest l' = qrows R l" "kept R l l'"
    "settled l'" and r': "qreset rr r w = Inr (r', w)" "ok r'" "rest r' = qrows R r" "kept R r r'"
    "settled r'" by (auto simp: join_ok_def)
  moreover from this have "qall R S l' \<subseteq> qall R S l" "qall R S r' \<subseteq> qall R S r"
    by (auto simp: qall_def kept_def)
  ultimately show ?case using CartesianProduct.prems by (auto simp: kept_def elim!: join_ok_mono)
next
  case (Join l r lc rc eqs st)
  then obtain l' r' where l': "qreset rr l w = Inr (l', w)" "ok l'" "rest l' = qrows R l" "kept R l l'"
    "settled l'" and r': "qreset rr r w = Inr (r', w)" "ok r'" "rest r' = qrows R r" "kept R r r'"
    "settled r'" by (auto simp: join_ok_def)
  moreover from this have "qall R S l' \<subseteq> qall R S l" "qall R S r' \<subseteq> qall R S r"
    by (auto simp: qall_def kept_def)
  ultimately show ?case using Join.prems by (auto simp: kept_def elim!: join_ok_mono)
next
  case (LeftOuterJoin l r lc rc eqs st)
  then obtain l' r' where l': "qreset rr l w = Inr (l', w)" "ok l'" "rest l' = qrows R l" "kept R l l'"
    "settled l'" and r': "qreset rr r w = Inr (r', w)" "ok r'" "rest r' = qrows R r" "kept R r r'"
    "settled r'" by (auto simp: join_ok_def)
  moreover from this have "qall R S l' \<subseteq> qall R S l" "qall R S r' \<subseteq> qall R S r"
    by (auto simp: qall_def kept_def)
  ultimately show ?case using LeftOuterJoin.prems by (auto simp: kept_def elim!: join_ok_mono)
next
  case (FullOuterJoin l r lc rc eqs st)
  then obtain l' r' where l': "qreset rr l w = Inr (l', w)" "ok l'" "rest l' = qrows R l" "kept R l l'"
    "settled l'" and r': "qreset rr r w = Inr (r', w)" "ok r'" "rest r' = qrows R r" "kept R r r'"
    "settled r'" by (auto simp: join_ok_def)
  moreover from this have "qall R S l' \<subseteq> qall R S l" "qall R S r' \<subseteq> qall R S r"
    by (auto simp: qall_def kept_def)
  moreover from this have "unmatched_rows lc rc (\<lambda>i. replicate (length (js_matched st)) False ! i \<or> f i) 0
      (qrows R r) = unmatched_rows lc rc f 0 (qrows R r)" for f
    using FullOuterJoin.prems by (intro unmatched_cong) auto
  ultimately show ?case using FullOuterJoin.prems by (auto simp: kept_def elim!: join_ok_mono)
qed auto

end

end
