(* ===== verification/Executor_Correct.thy ===== *)
theory Executor_Correct
  imports Executor_Rows
begin

text \<open>
  Every operator returns the rows its plan means, one per call, then empty rows; the proof
  goes through one lemma per operator. On top of it: a query run to its end returns
  \<open>qrows\<close> of its plan and always returns.
\<close>

context relation_iter
begin

lemmas qstep = qnext.simps [of rn rr]

lemma step_relation: "ok (Relation i pcs) \<Longrightarrow> step (Relation i pcs)"
  using next_step [of i] by (auto simp: step_def qstep retO_def after_def kept_def)

lemma step_projection:
  assumes "step c" "ok (Projection c cs lim cnt)"
  shows "step (Projection c cs lim cnt)"
proof -
  let ?p = "Projection c cs lim cnt"
  have okc: "ok c" using assms(2) by simp
  from assms(1) okc show ?thesis
  proof (cases rule: step_cases)
    case (Nil c')
    then have "qnext rn rr ?p w = Some (Inr ([], Projection c' cs lim cnt, w))"
      by (simp add: qstep projection_next_def retO_def)
    moreover have "after good R S ?p (Projection c' cs lim cnt)"
      using assms(2) afterD [OF Nil(3)] Nil(2) by (auto simp: after_def kept_def)
    ultimately show ?thesis using Nil(2) by (auto simp: step_def)
  next
    case (Cons x xs c')
    note a = afterD [OF Cons(6)]
    have pr: "project_cols (get_columns c) cs x = Inr (projected (get_columns c) cs x)"
      using assms(2) Cons(5) by (intro project_cols_projected) simp
    show ?thesis
    proof (cases "cnt \<ge> lim")
      case True
      with Cons have "qnext rn rr ?p w = Some (Inr ([], Projection c' cs lim cnt, w))"
        by (simp add: qstep projection_next_def retO_def)
      moreover have "after good R S ?p (Projection c' cs lim cnt)"
        using assms(2) a True by (auto simp: after_def kept_def)
      ultimately show ?thesis using True by (auto simp: step_def)
    next
      case False
      with Cons a(4) have "qnext rn rr ?p w =
          Some (Inr (projected (get_columns c) cs x, Projection c' cs lim (cnt + 1), w))"
        by (simp add: qstep projection_next_def retO_def pr)
      moreover have rest: "rest ?p = projected (get_columns c) cs x #
          take (lim - (cnt + 1)) (map (projected (get_columns c) cs) xs)"
        using False Cons(2) by (cases "lim - cnt") (auto simp: Suc_diff_Suc diff_Suc)
      moreover have "after good R S ?p (Projection c' cs lim (cnt + 1))"
        using assms(2) a Cons(2) rest by (auto simp: after_def kept_def)
      ultimately show ?thesis by (auto simp: step_def)
    qed
  qed
qed

lemma step_selection:
  assumes IH: "\<And>c. depth c = d \<Longrightarrow> ok c \<Longrightarrow> step c"
  shows "depth c = d \<Longrightarrow> ok (Selection c es) \<Longrightarrow> step (Selection c es)"
proof (induction "length (rest c)" arbitrary: c rule: less_induct)
  case less
  have okc: "ok c" using less.prems by simp
  from IH [OF less.prems(1) okc] okc show ?case
  proof (cases rule: step_cases)
    case (Nil c')
    then have "qnext rn rr (Selection c es) w = Some (Inr ([], Selection c' es, w))"
      by (simp add: qstep selection_next_def retO_def)
    moreover have "after good R S (Selection c es) (Selection c' es)"
      using less.prems afterD [OF Nil(3)] Nil(2) by (auto simp: after_def kept_def)
    ultimately show ?thesis using Nil(2) by (auto simp: step_def)
  next
    case (Cons x xs c')
    note a = afterD [OF Cons(6)]
    obtain b where b: "sel_matches es x = Inr b" using less.prems(2) Cons(5) by auto
    have ok': "ok (Selection c' es)" using less.prems(2) a by auto
    show ?thesis
    proof (cases b)
      case True
      with b Cons have "qnext rn rr (Selection c es) w = Some (Inr (x, Selection c' es, w))"
        by (simp add: qstep selection_next_def retO_def)
      moreover have "after good R S (Selection c es) (Selection c' es)"
        using ok' a True b Cons(2) by (auto simp: after_def kept_def holds_matches)
      ultimately show ?thesis using True b Cons(2) by (auto simp: step_def holds_matches)
    next
      case False
      have "step (Selection c' es)"
        using a Cons(2) less.prems(1) ok' by (intro less.hyps) simp_all
      then show ?thesis
      proof (rule step_via [rotated])
        show "qnext rn rr (Selection c es) w = qnext rn rr (Selection c' es) w"
          using b False Cons by (subst qstep) (simp add: selection_next_def)
        show "rest (Selection c' es) = rest (Selection c es)" "kept R (Selection c es) (Selection c' es)"
          using a Cons(2) b False by (simp_all add: kept_def holds_matches)
      qed
    qed
  qed
qed

subsection \<open>Products and inner joins\<close>

definition loop_measure :: "'i qiter \<Rightarrow> 'i qiter \<Rightarrow> join_state \<Rightarrow> nat" where
  "loop_measure l r st =
     length (rest l) * (length (qrows R r) + 2) + (if js_valid_lhs st then Suc (length (rest r)) else 0)"

lemma reset_join:
  assumes "ok r" "settled r" "noproj r"
  obtains r' where "qreset rr r w = Inr (r', w)" "ok r'" "rest r' = qrows R r" "qrows R r' = qrows R r"
    "get_columns r' = get_columns r" "noproj r'" "depth r' = depth r" "qall R S r' \<subseteq> qall R S r"
    "settled r'"
  using reset_ok [OF assms] assms(3) by (auto simp: kept_def qall_def)

lemma step_cartesian:
  assumes IH: "\<And>c. depth c \<le> d \<Longrightarrow> ok c \<Longrightarrow> step c"
  shows "depth l \<le> d \<Longrightarrow> depth r \<le> d \<Longrightarrow> ok (CartesianProduct l r lc rc st) \<Longrightarrow>
     step (CartesianProduct l r lc rc st)"
proof (induction "loop_measure l r st" arbitrary: l r st rule: less_induct)
  case less
  let ?it = "CartesianProduct l r lc rc st"
  note ok = less.prems(3)
  have okl: "ok l" and okr: "ok r" and j: "join_ok R S l r lc rc [] st" using ok by simp_all
  have np: "noproj l" "noproj r" using j by (simp_all add: join_ok_def)
  show ?case
  proof (cases "js_valid_lhs st")
    case True
    from IH [OF less.prems(2) okr] okr show ?thesis
    proof (cases rule: step_cases)
      case (Nil r')
      note a = afterD [OF Nil(3)]
      let ?it' = "CartesianProduct l r' lc rc (st\<lparr>js_rhs := [], js_valid_lhs := False\<rparr>)"
      have j': "join_ok R S l r' lc rc [] (st\<lparr>js_rhs := [], js_valid_lhs := False\<rparr>)"
        by (rule join_ok_mono [OF j]) (use a in auto)
      have "step ?it'"
        by (rule less.hyps) (use True less.prems okl a np Nil(2) j' in \<open>simp_all add: loop_measure_def\<close>)
      then show ?thesis
        by (rule step_via [rotated])
          (use True Nil a in \<open>simp_all add: qstep cartesian_next_def kept_def\<close>)
    next
      case (Cons x xs r')
      note a = afterD [OF Cons(6)]
      have c: "combine lc rc (js_lhs st) x = Inr (joined lc rc (js_lhs st) x)"
        using j Cons(5) True by (intro combine_joined) (auto simp: join_ok_def lhs_ok_def rhs_ok_def)
      let ?it' = "CartesianProduct l r' lc rc (st\<lparr>js_rhs := x\<rparr>)"
      have "qnext rn rr ?it w = Some (Inr (joined lc rc (js_lhs st) x, ?it', w))"
        using True Cons c by (simp add: qstep cartesian_next_def retO_def)
      moreover have "join_ok R S l r' lc rc [] (st\<lparr>js_rhs := x\<rparr>)"
        by (rule join_ok_mono [OF j]) (use a True j in \<open>auto simp: join_ok_def\<close>)
      ultimately show ?thesis
        using True Cons(2) a okl ok by (auto simp: step_def after_def kept_def)
    qed
  next
    case False
    from IH [OF less.prems(1) okl] okl show ?thesis
    proof (cases rule: step_cases)
      case (Nil l')
      note a = afterD [OF Nil(3)]
      let ?it' = "CartesianProduct l' r lc rc (st\<lparr>js_lhs := []\<rparr>)"
      have "qnext rn rr ?it w = Some (Inr ([], ?it', w))"
        using False Nil by (simp add: qstep cartesian_next_def retO_def)
      moreover have "join_ok R S l' r lc rc [] (st\<lparr>js_lhs := []\<rparr>)"
        by (rule join_ok_mono [OF j]) (use a False in auto)
      ultimately show ?thesis
        using False Nil(2) a okr ok np by (auto simp: step_def after_def kept_def)
    next
      case (Cons x xs l')
      note a = afterD [OF Cons(6)]
      have "settled r" using ok False by simp
      from reset_join [OF okr this np(2)] obtain r' where r': "qreset rr r w = Inr (r', w)" "ok r'"
        "rest r' = qrows R r" "qrows R r' = qrows R r" "get_columns r' = get_columns r" "noproj r'"
        "depth r' = depth r" "qall R S r' \<subseteq> qall R S r" .
      let ?st = "st\<lparr>js_lhs := x, js_valid_lhs := True\<rparr>"
      have j': "join_ok R S l' r' lc rc [] ?st"
        by (rule join_ok_mono [OF j]) (use a r' np j Cons(5) in \<open>auto simp: join_ok_def\<close>)
      have "step (CartesianProduct l' r' lc rc ?st)"
        by (rule less.hyps)
          (use False less.prems a r' np Cons(2) j' in \<open>simp_all add: loop_measure_def\<close>)
      then show ?thesis
        by (rule step_via [rotated])
          (use False Cons a r' np in \<open>simp_all add: qstep cartesian_next_def kept_def\<close>)
    qed
  qed
qed

lemma step_join:
  assumes IH: "\<And>c. depth c \<le> d \<Longrightarrow> ok c \<Longrightarrow> step c"
  shows "depth l \<le> d \<Longrightarrow> depth r \<le> d \<Longrightarrow> ok (Join l r lc rc eqs st) \<Longrightarrow>
     step (Join l r lc rc eqs st)"
proof (induction "loop_measure l r st" arbitrary: l r st rule: less_induct)
  case less
  let ?it = "Join l r lc rc eqs st"
  note ok = less.prems(3)
  have okl: "ok l" and okr: "ok r" and j: "join_ok R S l r lc rc eqs st" using ok by simp_all
  have np: "noproj l" "noproj r" using j by (simp_all add: join_ok_def)
  show ?case
  proof (cases "js_valid_lhs st")
    case True
    from IH [OF less.prems(2) okr] okr show ?thesis
    proof (cases rule: step_cases)
      case (Nil r')
      note a = afterD [OF Nil(3)]
      let ?st = "st\<lparr>js_rhs := [], js_valid_lhs := False\<rparr>"
      have j': "join_ok R S l r' lc rc eqs ?st" by (rule join_ok_mono [OF j]) (use a in auto)
      have "step (Join l r' lc rc eqs ?st)"
        by (rule less.hyps) (use True less.prems okl a np Nil(2) j' in \<open>simp_all add: loop_measure_def\<close>)
      then show ?thesis
        by (rule step_via [rotated])
          (use True Nil a in \<open>simp_all add: qstep join_next_def kept_def inner_rows_simps\<close>)
    next
      case (Cons x xs r')
      note a = afterD [OF Cons(6)]
      have good: "lhs_ok lc eqs (js_lhs st)" "rhs_ok rc eqs x"
        using j Cons(5) True by (auto simp: join_ok_def)
      then have c: "combine lc rc (js_lhs st) x = Inr (joined lc rc (js_lhs st) x)"
        "compatible eqs (js_lhs st) x = Inr (compat eqs (js_lhs st) x)"
        by (auto simp: lhs_ok_def rhs_ok_def intro: combine_joined compatible_compat)
      let ?it' = "Join l r' lc rc eqs (st\<lparr>js_rhs := x\<rparr>)"
      have j': "join_ok R S l r' lc rc eqs (st\<lparr>js_rhs := x\<rparr>)"
        by (rule join_ok_mono [OF j]) (use a good in auto)
      show ?thesis
      proof (cases "compat eqs (js_lhs st) x")
        case m: True
        with True Cons c have "qnext rn rr ?it w = Some (Inr (joined lc rc (js_lhs st) x, ?it', w))"
          by (simp add: qstep join_next_def retO_def)
        with m show ?thesis
          using True Cons(2) a okl ok j' by (auto simp: step_def after_def kept_def inner_rows_simps)
      next
        case m: False
        have "step ?it'"
          by (rule less.hyps)
            (use True less.prems okl a np Cons(2) j' in \<open>simp_all add: loop_measure_def\<close>)
        then show ?thesis
          by (rule step_via [rotated])
            (use True Cons a c m in \<open>simp_all add: qstep [of ?it] join_next_def kept_def inner_rows_simps\<close>)
      qed
    qed
  next
    case False
    from IH [OF less.prems(1) okl] okl show ?thesis
    proof (cases rule: step_cases)
      case (Nil l')
      note a = afterD [OF Nil(3)]
      let ?it' = "Join l' r lc rc eqs (st\<lparr>js_lhs := []\<rparr>)"
      have "qnext rn rr ?it w = Some (Inr ([], ?it', w))"
        using False Nil by (simp add: qstep join_next_def retO_def)
      moreover have "join_ok R S l' r lc rc eqs (st\<lparr>js_lhs := []\<rparr>)"
        by (rule join_ok_mono [OF j]) (use a False in auto)
      ultimately show ?thesis
        using False Nil(2) a okr ok np by (auto simp: step_def after_def kept_def)
    next
      case (Cons x xs l')
      note a = afterD [OF Cons(6)]
      have "settled r" using ok False by simp
      from reset_join [OF okr this np(2)] obtain r' where r': "qreset rr r w = Inr (r', w)" "ok r'"
        "rest r' = qrows R r" "qrows R r' = qrows R r" "get_columns r' = get_columns r" "noproj r'"
        "depth r' = depth r" "qall R S r' \<subseteq> qall R S r" .
      let ?st = "st\<lparr>js_lhs := x, js_valid_lhs := True\<rparr>"
      have j': "join_ok R S l' r' lc rc eqs ?st"
        by (rule join_ok_mono [OF j]) (use a r' np j Cons(5) in \<open>auto simp: join_ok_def\<close>)
      have "step (Join l' r' lc rc eqs ?st)"
        by (rule less.hyps)
          (use False less.prems a r' np Cons(2) j' in \<open>simp_all add: loop_measure_def\<close>)
      then show ?thesis
        by (rule step_via [rotated])
          (use False Cons a r' np in \<open>simp_all add: qstep join_next_def kept_def\<close>)
    qed
  qed
qed

subsection \<open>Outer joins\<close>

lemma step_left_outer:
  assumes IH: "\<And>c. depth c \<le> d \<Longrightarrow> ok c \<Longrightarrow> step c"
  shows "depth l \<le> d \<Longrightarrow> depth r \<le> d \<Longrightarrow> ok (LeftOuterJoin l r lc rc eqs st) \<Longrightarrow>
     step (LeftOuterJoin l r lc rc eqs st)"
proof (induction "loop_measure l r st" arbitrary: l r st rule: less_induct)
  case less
  let ?it = "LeftOuterJoin l r lc rc eqs st"
  note ok = less.prems(3)
  have okl: "ok l" and okr: "ok r" and j: "join_ok R S l r lc rc eqs st"
    and nulls: "in_row rc (null_values rc)" using ok by simp_all
  have np: "noproj l" "noproj r" using j by (simp_all add: join_ok_def)
  show ?case
  proof (cases "js_valid_lhs st")
    case True
    then have good: "lhs_ok lc eqs (js_lhs st)" using j by (simp add: join_ok_def)
    from IH [OF less.prems(2) okr] okr show ?thesis
    proof (cases rule: step_cases)
      case (Nil r')
      note a = afterD [OF Nil(3)]
      let ?st = "st\<lparr>js_rhs := [], js_valid_lhs := False\<rparr>"
      let ?it' = "LeftOuterJoin l r' lc rc eqs ?st"
      have j': "join_ok R S l r' lc rc eqs ?st" by (rule join_ok_mono [OF j]) (use a in auto)
      have ok': "ok ?it'" using j' nulls okl a np Nil(2) by simp
      show ?thesis
      proof (cases "js_outer_match st")
        case m: True
        have "step ?it'"
          by (rule less.hyps) (use True less.prems a Nil(2) ok' in \<open>simp_all add: loop_measure_def\<close>)
        then show ?thesis
          by (rule step_via [rotated])
            (use True m Nil a in \<open>simp_all add: qstep left_outer_next_def kept_def outer_rows_simps\<close>)
      next
        case m: False
        have c: "combine lc rc (js_lhs st) (null_values rc) = Inr (joined lc rc (js_lhs st) (null_values rc))"
          using good nulls by (intro combine_joined) (simp_all add: lhs_ok_def)
        have "qnext rn rr ?it w = Some (Inr (joined lc rc (js_lhs st) (null_values rc), ?it', w))"
          using True m Nil c by (simp add: qstep left_outer_next_def retO_def)
        then show ?thesis
          using True m Nil(2) a ok' by (auto simp: step_def after_def kept_def outer_rows_simps)
      qed
    next
      case (Cons x xs r')
      note a = afterD [OF Cons(6)]
      have "rhs_ok rc eqs x" using j Cons(5) by (auto simp: join_ok_def)
      with good have c: "combine lc rc (js_lhs st) x = Inr (joined lc rc (js_lhs st) x)"
        "compatible eqs (js_lhs st) x = Inr (compat eqs (js_lhs st) x)"
        by (auto simp: lhs_ok_def rhs_ok_def intro: combine_joined compatible_compat)
      have j': "join_ok R S l r' lc rc eqs (st\<lparr>js_rhs := x, js_outer_match := b\<rparr>)" for b
        by (rule join_ok_mono [OF j]) (use a good in auto)
      have ok': "ok (LeftOuterJoin l r' lc rc eqs (st\<lparr>js_rhs := x, js_outer_match := b\<rparr>))" for b
        using j' nulls okl a True by simp
      show ?thesis
      proof (cases "compat eqs (js_lhs st) x")
        case m: True
        let ?it' = "LeftOuterJoin l r' lc rc eqs (st\<lparr>js_rhs := x, js_outer_match := True\<rparr>)"
        from m True Cons c have "qnext rn rr ?it w = Some (Inr (joined lc rc (js_lhs st) x, ?it', w))"
          by (simp add: qstep left_outer_next_def retO_def)
        with m show ?thesis
          using True Cons(2) a ok' [of True] by (auto simp: step_def after_def kept_def outer_rows_simps)
      next
        case m: False
        let ?it' = "LeftOuterJoin l r' lc rc eqs (st\<lparr>js_rhs := x\<rparr>)"
        have "ok ?it'" using ok' [of "js_outer_match st"] by simp
        then have "step ?it'"
          by (intro less.hyps)
            (use True less.prems a Cons(2) in \<open>simp_all add: loop_measure_def\<close>)
        then show ?thesis
          by (rule step_via [rotated])
            (use True Cons a c m in
              \<open>simp_all add: qstep [of ?it] left_outer_next_def kept_def outer_rows_simps\<close>)
      qed
    qed
  next
    case False
    from IH [OF less.prems(1) okl] okl show ?thesis
    proof (cases rule: step_cases)
      case (Nil l')
      note a = afterD [OF Nil(3)]
      let ?it' = "LeftOuterJoin l' r lc rc eqs (st\<lparr>js_lhs := []\<rparr>)"
      have "qnext rn rr ?it w = Some (Inr ([], ?it', w))"
        using False Nil by (simp add: qstep left_outer_next_def retO_def)
      moreover have "join_ok R S l' r lc rc eqs (st\<lparr>js_lhs := []\<rparr>)"
        by (rule join_ok_mono [OF j]) (use a False in auto)
      ultimately show ?thesis
        using False Nil(2) a okr ok np by (auto simp: step_def after_def kept_def)
    next
      case (Cons x xs l')
      note a = afterD [OF Cons(6)]
      have "settled r" using ok False by simp
      from reset_join [OF okr this np(2)] obtain r' where r': "qreset rr r w = Inr (r', w)" "ok r'"
        "rest r' = qrows R r" "qrows R r' = qrows R r" "get_columns r' = get_columns r" "noproj r'"
        "depth r' = depth r" "qall R S r' \<subseteq> qall R S r" .
      let ?st = "st\<lparr>js_lhs := x, js_outer_match := False, js_valid_lhs := True\<rparr>"
      have j': "join_ok R S l' r' lc rc eqs ?st"
        by (rule join_ok_mono [OF j]) (use a r' np j Cons(5) in \<open>auto simp: join_ok_def\<close>)
      have "step (LeftOuterJoin l' r' lc rc eqs ?st)"
        by (rule less.hyps)
          (use False less.prems a r' np Cons(2) j' nulls in \<open>simp_all add: loop_measure_def\<close>)
      then show ?thesis
        by (rule step_via [rotated])
          (use False Cons a r' np in \<open>simp_all add: qstep left_outer_next_def kept_def\<close>)
    qed
  qed
qed

lemma step_full_drain:
  assumes IH: "\<And>c. depth c \<le> d \<Longrightarrow> ok c \<Longrightarrow> step c"
  shows "depth r \<le> d \<Longrightarrow> ok (FullOuterJoin l r lc rc eqs st) \<Longrightarrow> js_drain st \<Longrightarrow>
     step (FullOuterJoin l r lc rc eqs st)"
proof (induction "length (rest r)" arbitrary: r st rule: less_induct)
  case less
  let ?it = "FullOuterJoin l r lc rc eqs st" and ?k = "js_rhs_index st"
  note ok = less.prems(2)
  have okl: "ok l" and okr: "ok r" and j: "join_ok R S l r lc rc eqs st"
    and nulls: "in_row rc (null_values rc)" "in_row lc (null_values lc)"
    and v: "js_valid_rhs st" "\<not> js_valid_lhs st" "rest l = []" "settled l"
    and len: "length (js_matched st) = length (qrows R r)"
    and pos: "rest r = drop ?k (qrows R r)" "?k \<le> length (qrows R r)"
    using ok less.prems(3) by simp_all
  have np: "noproj l" "noproj r" using j by (simp_all add: join_ok_def)
  from IH [OF less.prems(1) okr] okr show ?case
  proof (cases rule: step_cases)
    case (Nil r')
    note a = afterD [OF Nil(3)]
    let ?it' = "FullOuterJoin l r' lc rc eqs (st\<lparr>js_rhs := [], js_drain := False\<rparr>)"
    have "join_ok R S l r' lc rc eqs (st\<lparr>js_rhs := [], js_drain := False\<rparr>)"
      by (rule join_ok_mono [OF j]) (use a v in auto)
    moreover have "qnext rn rr ?it w = Some (Inr ([], ?it', w))"
      using less.prems(3) Nil by (simp add: qstep full_outer_next_def retO_def)
    moreover have "unmatched_rows lc rc f ?k (qrows R r) = []" for f
      using Nil(2) pos by (intro unmatched_end) simp
    ultimately show ?thesis
      using v okl nulls len pos a np Nil(2) by (auto simp: step_def after_def kept_def)
  next
    case (Cons x xs r')
    note a = afterD [OF Cons(6)]
    have k: "?k < length (qrows R r)" "qrows R r ! ?k = x" "drop (Suc ?k) (qrows R r) = xs"
      using pos(1) Cons(2) drop_eq_Cons [of ?k "qrows R r" x xs] by simp_all
    have x: "in_row rc x" using j Cons(5) by (auto simp: join_ok_def rhs_ok_def)
    have m: "nthE (js_matched st) ?k = Inr (js_matched st ! ?k)" using len k(1) by simp
    have c: "combine lc rc (null_values lc) x = Inr (joined lc rc (null_values lc) x)"
      using nulls x by (intro combine_joined)
    have j': "join_ok R S l r' lc rc eqs (st\<lparr>js_rhs := x, js_rhs_index := i, js_drain := b\<rparr>)" for i b
      by (rule join_ok_mono [OF j]) (use a v in auto)
    let ?it' = "\<lambda>b. FullOuterJoin l r' lc rc eqs (st\<lparr>js_rhs := x, js_rhs_index := Suc ?k, js_drain := b\<rparr>)"
    have ok': "ok (?it' b)" for b
      using j' v okl nulls len a np k Cons(2) by simp
    show ?thesis
    proof (cases "js_matched st ! ?k")
      case True
      let ?it1 = "FullOuterJoin l r' lc rc eqs (st\<lparr>js_rhs := x, js_rhs_index := Suc ?k\<rparr>)"
      have e: "st\<lparr>js_rhs := x, js_rhs_index := Suc ?k, js_drain := True\<rparr>
          = st\<lparr>js_rhs := x, js_rhs_index := Suc ?k\<rparr>" using less.prems(3) by simp
      have "step ?it1"
        by (rule less.hyps) (use less.prems a Cons(2) ok' [of True] e k(1) in \<open>simp_all add: diff_less_mono2\<close>)
      then show ?thesis
        by (rule step_via [rotated])
          (use True less.prems(3) Cons a m v k(1) in
            \<open>simp_all add: qstep [of ?it] full_outer_next_def kept_def unmatched_unfold\<close>)
    next
      case False
      with less.prems(3) Cons m c
      have "qnext rn rr ?it w = Some (Inr (joined lc rc (null_values lc) x, ?it' False, w))"
        by (simp add: qstep full_outer_next_def retO_def)
      then show ?thesis
        using v a ok' [of False] k False by (auto simp: step_def after_def kept_def unmatched_unfold)
    qed
  qed
qed

lemma step_full_outer:
  assumes IH: "\<And>c. depth c \<le> d \<Longrightarrow> ok c \<Longrightarrow> step c"
  shows "depth l \<le> d \<Longrightarrow> depth r \<le> d \<Longrightarrow> ok (FullOuterJoin l r lc rc eqs st) \<Longrightarrow>
     step (FullOuterJoin l r lc rc eqs st)"
proof (induction "loop_measure l r st" arbitrary: l r st rule: less_induct)
  case less
  let ?it = "FullOuterJoin l r lc rc eqs st" and ?k = "js_rhs_index st"
  note ok = less.prems(3)
  have okl: "ok l" and okr: "ok r" and j: "join_ok R S l r lc rc eqs st"
    and nulls: "in_row rc (null_values rc)" "in_row lc (null_values lc)"
    and len: "length (js_matched st) = length (qrows R r)" "?k \<le> length (qrows R r)"
    using ok by simp_all
  have np: "noproj l" "noproj r" using j by (simp_all add: join_ok_def)
  consider (drain) "js_drain st" | (valid) "\<not> js_drain st" "js_valid_lhs st" "\<not> js_valid_rhs st"
    | (next_lhs) "\<not> js_drain st" "\<not> js_valid_lhs st" using ok by auto
  then show ?case
  proof cases
    case drain
    show ?thesis by (rule step_full_drain [OF IH less.prems(2) ok drain])
  next
    case valid
    then have good: "lhs_ok lc eqs (js_lhs st)" using j by (simp add: join_ok_def)
    have pos: "rest r = drop ?k (qrows R r)" using ok valid by simp
    from IH [OF less.prems(2) okr] okr show ?thesis
    proof (cases rule: step_cases)
      case (Nil r')
      note a = afterD [OF Nil(3)]
      have k: "?k = length (qrows R r)" using pos Nil(2) len(2) by simp
      let ?st = "st\<lparr>js_rhs := [], js_valid_lhs := False\<rparr>"
      let ?it' = "FullOuterJoin l r' lc rc eqs ?st"
      have j': "join_ok R S l r' lc rc eqs ?st" by (rule join_ok_mono [OF j]) (use a in auto)
      have ok': "ok ?it'" using j' nulls okl a np Nil(2) len valid by simp
      have um: "unmatched_rows lc rc (\<lambda>i. js_matched st ! i \<or> f i) 0 (qrows R r) =
          unmatched_rows lc rc
            (\<lambda>i. js_matched st ! i \<or> ?k \<le> i \<and> compat eqs (js_lhs st) (qrows R r ! i) \<or> f i) 0
            (qrows R r)" for f
        using k by (intro unmatched_cong) auto
      show ?thesis
      proof (cases "js_outer_match st")
        case m: True
        have "step ?it'"
          by (rule less.hyps) (use valid less.prems a Nil(2) ok' in \<open>simp_all add: loop_measure_def\<close>)
        then show ?thesis
          by (rule step_via [rotated])
            (use valid m Nil a um in \<open>simp_all add: qstep full_outer_next_def kept_def outer_rows_simps\<close>)
      next
        case m: False
        have c: "combine lc rc (js_lhs st) (null_values rc) = Inr (joined lc rc (js_lhs st) (null_values rc))"
          using good nulls by (intro combine_joined) (simp_all add: lhs_ok_def)
        have "qnext rn rr ?it w = Some (Inr (joined lc rc (js_lhs st) (null_values rc), ?it', w))"
          using valid m Nil c by (simp add: qstep full_outer_next_def retO_def)
        then show ?thesis
          using valid m Nil(2) a ok' um by (auto simp: step_def after_def kept_def outer_rows_simps)
      qed
    next
      case (Cons x xs r')
      note a = afterD [OF Cons(6)]
      note k = drop_eq_Cons [OF trans [OF pos [symmetric] Cons(2)]]
      have "rhs_ok rc eqs x" using j Cons(5) by (auto simp: join_ok_def)
      with good have c: "combine lc rc (js_lhs st) x = Inr (joined lc rc (js_lhs st) x)"
        "compatible eqs (js_lhs st) x = Inr (compat eqs (js_lhs st) x)"
        by (auto simp: lhs_ok_def rhs_ok_def intro: combine_joined compatible_compat)
      have j': "join_ok R S l r' lc rc eqs st'" if "js_lhs st' = js_lhs st" for st'
        by (rule join_ok_mono [OF j]) (use a good that in auto)
      show ?thesis
      proof (cases "compat eqs (js_lhs st) x")
        case m: True
        let ?st = "st\<lparr>js_outer_match := True, js_matched := (js_matched st)[?k := True],
            js_rhs_index := Suc ?k, js_rhs := x\<rparr>"
        let ?it' = "FullOuterJoin l r' lc rc eqs ?st"
        have mm: "mark_matched st = Inr (st\<lparr>js_outer_match := True,
            js_matched := (js_matched st)[?k := True], js_rhs_index := Suc ?k\<rparr>)"
          using k(1) len(1) by (simp add: mark_matched_def)
        have run: "qnext rn rr ?it w = Some (Inr (joined lc rc (js_lhs st) x, ?it', w))"
          using valid Cons c m mm by (simp add: qstep full_outer_next_def retO_def)
        have um: "unmatched_rows lc rc
            (\<lambda>i. (js_matched st)[?k := True] ! i \<or>
                 Suc ?k \<le> i \<and> compat eqs (js_lhs st) (qrows R r ! i) \<or> f i) 0 (qrows R r) =
          unmatched_rows lc rc
            (\<lambda>i. js_matched st ! i \<or> ?k \<le> i \<and> compat eqs (js_lhs st) (qrows R r ! i) \<or> f i) 0
            (qrows R r)" for f
          using k m len(1) by (intro unmatched_cong) (auto simp: nth_list_update le_Suc_eq Suc_le_eq le_less)
        have "ok ?it'" using j' [of ?st] nulls okl a valid len k Cons(2) by simp
        then show ?thesis
          using run valid m Cons(2) a um by (auto simp: step_def after_def kept_def outer_rows_simps)
      next
        case m: False
        let ?st = "st\<lparr>js_rhs := x, js_rhs_index := Suc ?k\<rparr>"
        let ?it' = "FullOuterJoin l r' lc rc eqs ?st"
        have ok': "ok ?it'" using j' [of ?st] nulls okl a valid len k Cons(2) by simp
        have um: "unmatched_rows lc rc
            (\<lambda>i. js_matched st ! i \<or> Suc ?k \<le> i \<and> compat eqs (js_lhs st) (qrows R r ! i) \<or> f i) 0
            (qrows R r) =
          unmatched_rows lc rc
            (\<lambda>i. js_matched st ! i \<or> ?k \<le> i \<and> compat eqs (js_lhs st) (qrows R r ! i) \<or> f i) 0
            (qrows R r)" for f
          using k m by (intro unmatched_cong) (auto simp: Suc_le_eq le_less)
        have "loop_measure l r' ?st < loop_measure l r st"
          using valid a(2,3) Cons(2) by (simp add: loop_measure_def)
        then have "step ?it'" using less.prems a ok' by (intro less.hyps) simp_all
        then show ?thesis
          by (rule step_via [rotated])
            (use valid Cons a c m um in
              \<open>simp_all add: qstep [of ?it] full_outer_next_def kept_def outer_rows_simps\<close>)
      qed
    qed
  next
    case next_lhs
    from IH [OF less.prems(1) okl] okl show ?thesis
    proof (cases rule: step_cases)
      case (Nil l')
      note a = afterD [OF Nil(3)]
      show ?thesis
      proof (cases "js_valid_rhs st")
        case v: True
        let ?st = "st\<lparr>js_lhs := [], js_drain := True\<rparr>"
        let ?it' = "FullOuterJoin l' r lc rc eqs ?st"
        have j': "join_ok R S l' r lc rc eqs ?st" by (rule join_ok_mono [OF j]) (use a next_lhs in auto)
        have "ok ?it'" using ok j' a v next_lhs np Nil(2) by simp
        then have "step ?it'" using less.prems(2) by (intro step_full_drain [OF IH]) simp_all
        then show ?thesis
          by (rule step_via [rotated])
            (use next_lhs v Nil a in \<open>simp_all add: qstep [of ?it] full_outer_next_def kept_def\<close>)
      next
        case v: False
        have "settled r" using ok next_lhs v by simp
        from reset_join [OF okr this np(2)] obtain r' where r': "qreset rr r w = Inr (r', w)" "ok r'"
          "rest r' = qrows R r" "qrows R r' = qrows R r" "get_columns r' = get_columns r" "noproj r'"
          "depth r' = depth r" "qall R S r' \<subseteq> qall R S r" .
        let ?st = "st\<lparr>js_lhs := [], js_rhs_index := 0, js_valid_rhs := True, js_drain := True\<rparr>"
        let ?it' = "FullOuterJoin l' r' lc rc eqs ?st"
        have j': "join_ok R S l' r' lc rc eqs ?st"
          by (rule join_ok_mono [OF j]) (use a r' next_lhs np in auto)
        have "ok ?it'" using ok j' a v r' next_lhs np Nil(2) by simp
        then have "step ?it'"
          using less.prems(2) r' by (intro step_full_drain [OF IH]) simp_all
        then show ?thesis
          by (rule step_via [rotated])
            (use next_lhs v Nil a r' np in \<open>simp_all add: qstep [of ?it] full_outer_next_def kept_def\<close>)
      qed
    next
      case (Cons x xs l')
      note a = afterD [OF Cons(6)]
      have v: "\<not> js_valid_rhs st" using ok Cons(2) by auto
      have "settled r" using ok next_lhs v by simp
      from reset_join [OF okr this np(2)] obtain r' where r': "qreset rr r w = Inr (r', w)" "ok r'"
        "rest r' = qrows R r" "qrows R r' = qrows R r" "get_columns r' = get_columns r" "noproj r'"
        "depth r' = depth r" "qall R S r' \<subseteq> qall R S r" .
      let ?st = "st\<lparr>js_lhs := x, js_rhs_index := 0, js_outer_match := False, js_valid_lhs := True\<rparr>"
      have j': "join_ok R S l' r' lc rc eqs ?st"
        by (rule join_ok_mono [OF j]) (use a r' np j Cons(5) in \<open>auto simp: join_ok_def\<close>)
      have "step (FullOuterJoin l' r' lc rc eqs ?st)"
        by (rule less.hyps)
          (use next_lhs v less.prems a r' np Cons(2) j' nulls len in \<open>simp_all add: loop_measure_def\<close>)
      then show ?thesis
        by (rule step_via [rotated])
          (use next_lhs v Cons a r' np in
            \<open>simp_all add: qstep [of ?it] full_outer_next_def kept_def ex_disj_distrib disj_assoc\<close>)
    qed
  qed
qed

theorem every_step: "ok it \<Longrightarrow> step it"
proof (induction "depth it" arbitrary: it rule: less_induct)
  case less
  have IH: "step c" if "depth c \<le> d" "d < depth it" "ok c" for c d
    using less.hyps [of c] that by simp
  show ?case
  proof (cases it)
    case (Relation i pcs)
    with less.prems show ?thesis by (simp add: step_relation)
  next
    case (Projection c cs lim cnt)
    with less show ?thesis by (simp add: step_projection)
  next
    case (Selection c es)
    have "step (Selection c es)"
      using IH [of _ "depth c"] Selection less.prems
      by (intro step_selection [of "depth c"]) auto
    with Selection show ?thesis by simp
  next
    case (CartesianProduct l r lc rc st)
    have "step (CartesianProduct l r lc rc st)"
      using IH [of _ "max (depth l) (depth r)"] CartesianProduct less.prems
      by (intro step_cartesian [of "max (depth l) (depth r)"]) auto
    with CartesianProduct show ?thesis by simp
  next
    case (Join l r lc rc eqs st)
    have "step (Join l r lc rc eqs st)"
      using IH [of _ "max (depth l) (depth r)"] Join less.prems
      by (intro step_join [of "max (depth l) (depth r)"]) auto
    with Join show ?thesis by simp
  next
    case (LeftOuterJoin l r lc rc eqs st)
    have "step (LeftOuterJoin l r lc rc eqs st)"
      using IH [of _ "max (depth l) (depth r)"] LeftOuterJoin less.prems
      by (intro step_left_outer [of "max (depth l) (depth r)"]) auto
    with LeftOuterJoin show ?thesis by simp
  next
    case (FullOuterJoin l r lc rc eqs st)
    have "step (FullOuterJoin l r lc rc eqs st)"
      using IH [of _ "max (depth l) (depth r)"] FullOuterJoin less.prems
      by (intro step_full_outer [of "max (depth l) (depth r)"]) auto
    with FullOuterJoin show ?thesis by simp
  qed
qed

subsection \<open>Whole queries\<close>

lemma collect_rest:
  "ok it \<Longrightarrow> \<exists>it'. qcollect rn rr it w = Some (Inr (rest it, it', w)) \<and> ok it' \<and> rest it' = [] \<and>
     kept R it it'"
proof (induction "length (rest it)" arbitrary: it)
  case 0
  from every_step [OF 0(2)] 0(2) show ?case
  proof (cases rule: step_cases)
    case (Nil it')
    then show ?thesis
      by (auto simp: qcollect.simps [of rn rr it] retO_def after_def)
  qed (use 0 in simp)
next
  case (Suc n)
  from every_step [OF Suc(3)] Suc(3) show ?case
  proof (cases rule: step_cases)
    case (Cons x xs it')
    note a = afterD [OF Cons(6)]
    from Suc(1) [of it'] Suc(2) a Cons(2) obtain it'' where
      "qcollect rn rr it' w = Some (Inr (rest it', it'', w))" "ok it''" "rest it'' = []" "kept R it' it''"
      by auto
    with Cons a show ?thesis
      by (auto simp: qcollect.simps [of rn rr it] retO_def kept_def)
  qed (use Suc in simp)
qed

lemma init_matched_count:
  "ok it \<Longrightarrow> \<exists>it'. init_matched rn rr it n w = Some (Inr (n + length (rest it), it', w)) \<and> ok it' \<and>
     rest it' = [] \<and> kept R it it' \<and> qall R S it' \<subseteq> qall R S it \<and> (noproj it \<longrightarrow> settled it')"
proof (induction "length (rest it)" arbitrary: it n)
  case 0
  from every_step [OF 0(2)] 0(2) show ?case
  proof (cases rule: step_cases)
    case (Nil it')
    with afterD [OF Nil(3)] show ?thesis
      by (auto simp: init_matched.simps [of rn rr it] retO_def kept_def)
  qed (use 0 in simp)
next
  case (Suc m)
  from every_step [OF Suc(3)] Suc(3) show ?case
  proof (cases rule: step_cases)
    case (Cons x xs it')
    note a = afterD [OF Cons(6)]
    from Suc(1) [of it' "Suc n"] Suc(2) a Cons(2) obtain it'' where
      "init_matched rn rr it' (Suc n) w = Some (Inr (Suc n + length (rest it'), it'', w))" "ok it''"
      "rest it'' = []" "kept R it' it''" "qall R S it'' \<subseteq> qall R S it'" "noproj it' \<longrightarrow> settled it''"
      by auto
    with Cons a show ?thesis
      by (auto simp: init_matched.simps [of rn rr it] retO_def kept_def)
  qed (use Suc in simp)
qed

end

section \<open>From the start\<close>

text \<open>
  A plan as the optimizer builds it: fresh scans, positions inside the rows of the children,
  predicates that evaluate on them, at least one projected column. \<^verbatim>\<open>begin()\<close> takes it to a
  state in which all its rows are still to come.
\<close>

definition join_plan_ok ::
  "('i \<Rightarrow> row list) \<Rightarrow> 'i qiter \<Rightarrow> 'i qiter \<Rightarrow> pcol list \<Rightarrow> pcol list \<Rightarrow> (nat \<times> nat) list \<Rightarrow> bool" where
  "join_plan_ok R l r lc rc eqs \<longleftrightarrow> noproj l \<and> noproj r \<and> lc @ rc \<noteq> [] \<and>
     (\<forall>a \<in> set (qrows R l). lhs_ok lc eqs a) \<and> (\<forall>b \<in> set (qrows R r). rhs_ok rc eqs b)"

fun plan_ok :: "('i \<Rightarrow> bool) \<Rightarrow> ('i \<Rightarrow> row list) \<Rightarrow> ('i \<Rightarrow> row list) \<Rightarrow> 'i qiter \<Rightarrow> bool" where
  "plan_ok good R S (Relation i pcs) \<longleftrightarrow> good i \<and> S i = R i"
| "plan_ok good R S (Projection c cs lim cnt) \<longleftrightarrow>
     plan_ok good R S c \<and> (\<exists>x \<in> set cs. col_mem x (get_columns c)) \<and>
     (\<forall>a \<in> set (qrows R c). \<forall>x \<in> set cs. col_index x (get_columns c) < int (length a))"
| "plan_ok good R S (Selection c es) \<longleftrightarrow>
     plan_ok good R S c \<and> (\<forall>a \<in> set (qrows R c). \<exists>b. sel_matches es a = Inr b)"
| "plan_ok good R S (CartesianProduct l r lc rc st) \<longleftrightarrow>
     plan_ok good R S l \<and> plan_ok good R S r \<and> join_plan_ok R l r lc rc []"
| "plan_ok good R S (Join l r lc rc eqs st) \<longleftrightarrow>
     plan_ok good R S l \<and> plan_ok good R S r \<and> join_plan_ok R l r lc rc eqs"
| "plan_ok good R S (LeftOuterJoin l r lc rc eqs st) \<longleftrightarrow>
     plan_ok good R S l \<and> plan_ok good R S r \<and> join_plan_ok R l r lc rc eqs \<and>
     in_row rc (null_values rc)"
| "plan_ok good R S (FullOuterJoin l r lc rc eqs st) \<longleftrightarrow>
     plan_ok good R S l \<and> plan_ok good R S r \<and> join_plan_ok R l r lc rc eqs \<and>
     in_row rc (null_values rc) \<and> in_row lc (null_values lc) \<and> \<not> js_drain st"

locale relation_scan = relation_iter +
  fixes rb :: "'b \<Rightarrow> 'a \<Rightarrow> ('b \<times> 'a) res"
  assumes begin_step: "good i \<Longrightarrow> S i = R i \<Longrightarrow>
      \<exists>i'. rb i w = Inr (i', w) \<and> good i' \<and> S i' = R i \<and> R i' = R i"
begin

definition ready :: "'b qiter \<Rightarrow> 'b qiter \<Rightarrow> bool" where
  "ready it it' \<longleftrightarrow> ok it' \<and> rest it' = qrows R it \<and> kept R it it' \<and> settled it'"

lemma readyD:
  assumes "ready it it'"
  shows "ok it'" "rest it' = qrows R it" "qrows R it' = qrows R it" "get_columns it' = get_columns it"
    "noproj it' = noproj it" "depth it' = depth it" "qall R S it' = set (qrows R it)" "settled it'"
  using assms by (auto simp: ready_def kept_def qall_def)

lemma ready_join:
  assumes "join_plan_ok R l r lc rc eqs" "ready l l'" "ready r r'" "\<not> js_valid_lhs st"
  shows "join_ok R S l' r' lc rc eqs st"
  using assms readyD [OF assms(2)] readyD [OF assms(3)] by (simp add: join_ok_def join_plan_ok_def)

lemma begin_ready:
  "plan_ok good R S it \<Longrightarrow> \<exists>it'. qbegin rb rn rr it w = Some (Inr (it', w)) \<and> ready it it'"
proof (induction it)
  case (Relation i pcs)
  then show ?case using begin_step [of i] by (auto simp: retO_def ready_def kept_def)
next
  case (Projection c cs lim cnt)
  then obtain c' where "qbegin rb rn rr c w = Some (Inr (c', w))" "ready c c'" by auto
  with readyD [OF this(2)] Projection.prems show ?case
    by (auto simp: retO_def ready_def [of "Projection c cs lim cnt"] kept_def)
next
  case (Selection c es)
  then obtain c' where "qbegin rb rn rr c w = Some (Inr (c', w))" "ready c c'" by auto
  with readyD [OF this(2)] Selection.prems show ?case
    by (auto simp: retO_def ready_def [of "Selection c es"] kept_def)
next
  case (CartesianProduct l r lc rc st)
  then obtain l' r' where l: "qbegin rb rn rr l w = Some (Inr (l', w))" "ready l l'"
    and r: "qbegin rb rn rr r w = Some (Inr (r', w))" "ready r r'" by auto
  have "join_ok R S l' r' lc rc [] (st\<lparr>js_valid_lhs := False\<rparr>)"
    using CartesianProduct.prems by (intro ready_join [OF _ l(2) r(2)]) simp_all
  then show ?case
    using l(1) r(1) readyD [OF l(2)] readyD [OF r(2)]
    by (auto simp: retO_def ready_def [of "CartesianProduct l r lc rc st"] kept_def)
next
  case (Join l r lc rc eqs st)
  then obtain l' r' where l: "qbegin rb rn rr l w = Some (Inr (l', w))" "ready l l'"
    and r: "qbegin rb rn rr r w = Some (Inr (r', w))" "ready r r'" by auto
  have "join_ok R S l' r' lc rc eqs (st\<lparr>js_valid_lhs := False\<rparr>)"
    using Join.prems by (intro ready_join [OF _ l(2) r(2)]) simp_all
  then show ?case
    using l(1) r(1) readyD [OF l(2)] readyD [OF r(2)]
    by (auto simp: retO_def ready_def [of "Join l r lc rc eqs st"] kept_def)
next
  case (LeftOuterJoin l r lc rc eqs st)
  then obtain l' r' where l: "qbegin rb rn rr l w = Some (Inr (l', w))" "ready l l'"
    and r: "qbegin rb rn rr r w = Some (Inr (r', w))" "ready r r'" by auto
  have "join_ok R S l' r' lc rc eqs (st\<lparr>js_valid_lhs := False\<rparr>)"
    using LeftOuterJoin.prems by (intro ready_join [OF _ l(2) r(2)]) simp_all
  then show ?case
    using l(1) r(1) readyD [OF l(2)] readyD [OF r(2)] LeftOuterJoin.prems
    by (auto simp: retO_def ready_def [of "LeftOuterJoin l r lc rc eqs st"] kept_def)
next
  case (FullOuterJoin l r lc rc eqs st)
  then obtain l' r' where l: "qbegin rb rn rr l w = Some (Inr (l', w))" "ready l l'"
    and r: "qbegin rb rn rr r w = Some (Inr (r', w))" "ready r r'" by auto
  note lD = readyD [OF l(2)] and rD = readyD [OF r(2)]
  have np: "noproj r'" using FullOuterJoin.prems rD by (simp add: join_plan_ok_def)
  obtain r2 where r2: "init_matched rn rr r' 0 w = Some (Inr (length (qrows R r), r2, w))" "ok r2"
    "kept R r' r2" "settled r2"
    using init_matched_count [OF rD(1), of 0] np rD(2) by auto
  obtain r3 where r3: "qreset rr r2 w = Inr (r3, w)" "ok r3" "rest r3 = qrows R r2"
    "kept R r2 r3" "settled r3"
    using reset_ok [OF r2(2,4)] np r2(3) by (auto simp: kept_def)
  have r3': "ready r r3" using r2 r3 rD by (auto simp: ready_def kept_def)
  let ?st = "st\<lparr>js_rhs := [], js_valid_lhs := False, js_valid_rhs := False,
      js_rhs_index := 0, js_matched := replicate (length (qrows R r)) False\<rparr>"
  have j: "join_ok R S l' r3 lc rc eqs ?st"
    using FullOuterJoin.prems by (intro ready_join [OF _ l(2) r3']) simp_all
  have "unmatched_rows lc rc (\<lambda>i. replicate (length (qrows R r)) False ! i \<or> f i) 0 (qrows R r)
      = unmatched_rows lc rc f 0 (qrows R r)" for f by (intro unmatched_cong) auto
  with j show ?case
    using l(1) r(1) r2(1) r3(1) lD readyD [OF r3'] FullOuterJoin.prems
    by (auto simp: retO_def ready_def [of "FullOuterJoin l r lc rc eqs st"] kept_def)
qed

text \<open>A query from \<^verbatim>\<open>begin()\<close> to its last row.\<close>

lemma run_plan_columns:
  assumes "plan_ok good R S it"
  shows "\<exists>it' it''. qbegin rb rn rr it w = Some (Inr (it', w)) \<and> get_columns it' = get_columns it \<and>
     qcollect rn rr it' w = Some (Inr (qrows R it, it'', w))"
proof -
  obtain it' where b: "qbegin rb rn rr it w = Some (Inr (it', w))" "ready it it'"
    using begin_ready [OF assms] by blast
  from collect_rest [OF readyD(1) [OF b(2)]] b readyD(2,4) [OF b(2)] show ?thesis by auto
qed

lemma run_plan:
  assumes "plan_ok good R S it"
  shows "\<exists>it' it''. qbegin rb rn rr it w = Some (Inr (it', w)) \<and>
     qcollect rn rr it' w = Some (Inr (qrows R it, it'', w))"
  using run_plan_columns [OF assms] by blast

end

end
