(* ===== verification/Heap_Scan.thy ===== *)
theory Heap_Scan
  imports Heap_File_Ops Executor_Correct
begin

text \<open>
  The iterator over a heap file returns the visible version of every record, in the order of
  the first versions. The iterator provides the scan that the query operators rely on
  (interpretation \<open>heap_scan\<close>).
\<close>

section \<open>The slots of a state, computed\<close>

definition page_slots :: "schema \<Rightarrow> page \<Rightarrow> slot list" where
  "page_slots sch p =
     (case get_dir_count p of
        Inl e \<Rightarrow> []
      | Inr n \<Rightarrow> map (\<lambda>i. case page_record_header p (int i) of
            Inr (Some h) \<Rightarrow> (case page_get_record sch p (int i) of Inr r \<Rightarrow> Some (h, r) | Inl e \<Rightarrow> None)
          | _ \<Rightarrow> None) [0..<nat n])"

definition heap_of :: "heap_file \<Rightarrow> db \<Rightarrow> heap" where
  "heap_of hf s = map (\<lambda>n. page_slots (hf_schema hf) (page_at hf s n)) [0..<db_count_pages hf s]"

lemma page_slots_rep:
  assumes rep: "page_rep sch p ss fs"
  shows "page_slots sch p = ss"
proof (rule nth_equalityI)
  fix i assume "i < length (page_slots sch p)"
  then have i: "i < length ss" by (simp add: page_slots_def rep_dir_count [OF rep])
  then show "page_slots sch p ! i = ss ! i"
    using rep_page_record_header [OF rep i] rep_page_get_record [OF rep i]
    by (simp add: page_slots_def rep_dir_count [OF rep] split: option.splits)
qed (simp add: page_slots_def rep_dir_count [OF rep])

lemma heap_of_rep:
  assumes "heap_rep hf s H"
  shows "heap_of hf s = H"
proof (rule nth_equalityI)
  show len: "length (heap_of hf s) = length H" using assms by (simp add: heap_of_def db_count_pages_def heap_rep_def)
  fix n assume "n < length (heap_of hf s)"
  then have n: "n < length H" using len by simp
  from rep_page_at [OF assms n] page_slots_rep show "heap_of hf s ! n = H ! n"
    using n len by (metis (mono_tags, lifting) heap_of_def length_map length_upt map_nth nth_map nth_upt
        add_0 diff_zero)
qed

section \<open>The rows a transaction reads\<close>

text \<open>Every record's versions form a chain that ends.\<close>

definition chains_ok :: "heap \<Rightarrow> bool" where
  "chains_ok H \<longleftrightarrow> (\<forall>r h x. slot_at H r = Some (h, x) \<longrightarrow> first_rid h = r \<longrightarrow> (\<exists>vs. chain H r vs))"

definition seen_row :: "db \<Rightarrow> tx_id \<Rightarrow> heap \<Rightarrow> rid \<Rightarrow> row list" where
  "seen_row s tx H r =
     (case slot_at H r of
        None \<Rightarrow> []
      | Some (h, x) \<Rightarrow>
          if first_rid h \<noteq> r then []
          else (case first_seen s tx (chain_of H r) of
                  None \<Rightarrow> []
                | Some v \<Rightarrow> if v_row v = [] then [] else [v_row v @ [VRid r]]))"

definition page_rows :: "db \<Rightarrow> tx_id \<Rightarrow> heap \<Rightarrow> nat \<Rightarrow> nat \<Rightarrow> row list" where
  "page_rows s tx H n k = concat (map (\<lambda>i. seen_row s tx H (RID (int n) (int i))) [k..<length (H ! n)])"

definition rows_from :: "db \<Rightarrow> tx_id \<Rightarrow> heap \<Rightarrow> nat \<Rightarrow> nat \<Rightarrow> nat \<Rightarrow> row list" where
  "rows_from s tx H t n k = page_rows s tx H n k @ concat (map (\<lambda>m. page_rows s tx H m 0) [Suc n..<t])"

text \<open>All rows of the first \<open>t\<close> pages.\<close>

definition visible_rows :: "db \<Rightarrow> tx_id \<Rightarrow> heap \<Rightarrow> nat \<Rightarrow> row list" where
  "visible_rows s tx H t = concat (map (\<lambda>m. page_rows s tx H m 0) [0..<t])"

lemma rows_from_step:
  "k < length (H ! n) \<Longrightarrow> rows_from s tx H t n k = seen_row s tx H (RID (int n) (int k)) @ rows_from s tx H t n (Suc k)"
  by (simp add: rows_from_def page_rows_def upt_conv_Cons)

lemma rows_from_page:
  "k = length (H ! n) \<Longrightarrow> rows_from s tx H t n k = (if Suc n < t then rows_from s tx H t (Suc n) 0 else [])"
  by (simp add: rows_from_def page_rows_def upt_conv_Cons)

lemma visible_rows_from: "0 < t \<Longrightarrow> rows_from s tx H t 0 0 = visible_rows s tx H t"
  by (simp add: rows_from_def visible_rows_def upt_conv_Cons)

text \<open>
  Under READ COMMITTED the row of a record is its newest version: the last one of its chain written by the reader or by
  a transaction that has ended, if none of them deleted it.
\<close>

definition newest_row :: "db \<Rightarrow> tx_id \<Rightarrow> heap \<Rightarrow> rid \<Rightarrow> row list" where
  "newest_row s tx H r =
     (case slot_at H r of
        None \<Rightarrow> []
      | Some (h, x) \<Rightarrow>
          if first_rid h \<noteq> r then []
          else (case newest s tx (chain_of H r) of
                  None \<Rightarrow> []
                | Some v \<Rightarrow> if v_row v = [] then [] else [v_row v @ [VRid r]]))"

definition newest_rows :: "db \<Rightarrow> tx_id \<Rightarrow> heap \<Rightarrow> nat \<Rightarrow> row list" where
  "newest_rows s tx H t =
     concat (map (\<lambda>n. concat (map (\<lambda>i. newest_row s tx H (RID (int n) (int i))) [0..<length (H ! n)])) [0..<t])"

text \<open>Every record has the shape that updates under its lock give it.\<close>

definition locked_updates :: "db \<Rightarrow> heap \<Rightarrow> bool" where
  "locked_updates s H \<longleftrightarrow> (\<forall>r h x. slot_at H r = Some (h, x) \<longrightarrow> first_rid h = r \<longrightarrow> mvcc s (chain_of H r))"

lemma visible_newest:
  assumes "rc_reader s tx" "locked_updates s H"
  shows "visible_rows s tx H t = newest_rows s tx H t"
proof -
  have "seen_row s tx H r = newest_row s tx H r" for r
    using assms first_seen_newest [OF assms(1), of "chain_of H r"]
    by (auto simp: seen_row_def newest_row_def locked_updates_def split: option.splits)
  then show ?thesis by (simp add: visible_rows_def newest_rows_def page_rows_def)
qed

section \<open>The iterator\<close>

definition iter_rows :: "db \<Rightarrow> heap_iter \<Rightarrow> row list" where
  "iter_rows s it = visible_rows s (hi_tx it) (heap_of (hi_file it) s) (nat (hi_total it))"

definition iter_newest :: "db \<Rightarrow> heap_iter \<Rightarrow> row list" where
  "iter_newest s it = newest_rows s (hi_tx it) (heap_of (hi_file it) s) (nat (hi_total it))"

definition iter_rest :: "db \<Rightarrow> heap_iter \<Rightarrow> row list" where
  "iter_rest s it =
     (if \<not> hi_open it then []
      else rows_from s (hi_tx it) (heap_of (hi_file it) s) (nat (hi_total it))
             (nat (hi_number it)) (nat (hi_pos it + 1)))"

definition iter_ok :: "db \<Rightarrow> heap_iter \<Rightarrow> bool" where
  "iter_ok s it \<longleftrightarrow>
     (let H = heap_of (hi_file it) s in
      heap_rep (hi_file it) s H \<and> chains_ok H \<and> map_of (db_active s) (hi_tx it) \<noteq> None \<and>
      0 < hi_total it \<and> hi_total it \<le> int (length H) \<and>
      (hi_open it \<longrightarrow> 0 \<le> hi_number it \<and> hi_number it < hi_total it \<and>
         -1 \<le> hi_pos it \<and> hi_pos it < int (length (H ! nat (hi_number it)))))"

definition iter_at :: "heap_file \<Rightarrow> tx_id \<Rightarrow> nat \<Rightarrow> nat \<Rightarrow> int \<Rightarrow> heap_iter" where
  "iter_at hf tx t n pos =
     \<lparr>hi_file = hf, hi_tx = tx, hi_total = int t, hi_open = True, hi_number = int n, hi_pos = pos\<rparr>"

lemma iter_atE:
  assumes "iter_ok s it" "hi_open it"
  obtains n k t where "it = iter_at (hi_file it) (hi_tx it) t n (int k - 1)" "n < t"
    "t \<le> length (heap_of (hi_file it) s)" "k \<le> length (heap_of (hi_file it) s ! n)"
proof -
  have "it = iter_at (hi_file it) (hi_tx it) (nat (hi_total it)) (nat (hi_number it)) (int (nat (hi_pos it + 1)) - 1)"
    using assms by (simp add: iter_ok_def iter_at_def Let_def)
  then show ?thesis
    using assms by (intro that [of "nat (hi_total it)" "nat (hi_number it)" "nat (hi_pos it + 1)"])
      (auto simp: iter_ok_def Let_def)
qed

text \<open>One slot of the scan.\<close>

lemma iter_next_slot:
  assumes rep: "heap_rep hf s H" and ok: "chains_ok H" and tx: "map_of (db_active s) tx = Some X"
    and n: "n < length H" and k: "k < length (H ! n)"
  shows "iter_next (iter_at hf tx t n (int k - 1)) s =
    (case seen_row s tx H (RID (int n) (int k)) of
       [] \<Rightarrow> iter_next (iter_at hf tx t n (int k)) s
     | r # _ \<Rightarrow> Some (Inr (r, iter_at hf tx t n (int k)), s))"
proof -
  let ?r = "RID (int n) (int k)"
  have r: "in_heap H ?r" using n k by (simp add: in_heap_def)
  have it: "iter_next (iter_at hf tx t n (int k - 1)) s =
     bindA (get_record_header hf ?r) (\<lambda>h s. case h of
         None \<Rightarrow> iter_next (iter_at hf tx t n (int k)) s
       | Some h \<Rightarrow>
           if ?r = first_rid h then
             bindA (heap_read hf ?r tx) (\<lambda>x s.
               if \<not> snd x then iter_next (iter_at hf tx t n (int k)) s
               else bindA (get_record hf (fst x)) (\<lambda>rec s.
                 if \<not> row_invalid rec then returnA (rec @ [VRid (first_rid h)], iter_at hf tx t n (int k)) s
                 else iter_next (iter_at hf tx t n (int k)) s) s) s
           else iter_next (iter_at hf tx t n (int k)) s) s"
    using dir_count_run [OF rep n] k
    by (subst iter_next.simps) (simp add: iter_at_def bindA_run get_current_RID_def Let_def cong: if_cong option.case_cong)
  show ?thesis
  proof (cases "slot_at H ?r")
    case None
    with get_record_header_run [OF rep r] show ?thesis unfolding it by (simp add: bindA_run seen_row_def)
  next
    case (Some hx)
    obtain h x where hx: "hx = (h, x)" by (cases hx)
    show ?thesis
    proof (cases "first_rid h = ?r")
      case False
      with Some hx get_record_header_run [OF rep r] show ?thesis
        unfolding it by (simp add: bindA_run seen_row_def eq_commute [of ?r])
    next
      case True
      then obtain vs where vs: "chain H ?r vs" using ok Some hx unfolding chains_ok_def by blast
      note rd = heap_read_chain [OF rep tx vs]
      show ?thesis
      proof (cases "first_seen s tx vs")
        case None
        with Some hx True rd get_record_header_run [OF rep r] show ?thesis
          unfolding it by (simp add: bindA_run seen_row_def chain_of_eq [OF vs])
      next
        case v: (Some v)
        have "v \<in> set vs" using v by (auto simp: first_seen_def find_Some_iff)
        then have sl: "slot_at H (v_rid v) = Some (snd v)" by (rule chain_slot [OF vs])
        have "get_record hf (v_rid v) s = Some (Inr (v_row v), s)"
          using get_record_run [OF rep slot_at_Some [OF sl]] sl by (simp add: split_def)
        with v Some hx True rd get_record_header_run [OF rep r] show ?thesis
          unfolding it by (simp add: bindA_run seen_row_def chain_of_eq [OF vs] act_run row_invalid_def)
      qed
    qed
  qed
qed

lemma seen_row_single: "seen_row s tx H r = [] \<or> (\<exists>x. x \<noteq> [] \<and> seen_row s tx H r = [x])"
  by (auto simp: seen_row_def split: option.splits prod.splits)

lemma iter_next_page:
  assumes rep: "heap_rep hf s H" and n: "n < t" "t \<le> length H"
  shows "iter_next (iter_at hf tx t n (int (length (H ! n)) - 1)) s =
    (if Suc n < t then iter_next (iter_at hf tx t (Suc n) (-1)) s
     else Some (Inr (no_row, (iter_at hf tx t (Suc n) (-1))\<lparr>hi_open := False\<rparr>), s))"
proof (cases "Suc n < t")
  case True
  then show ?thesis
    using dir_count_run [OF rep, of n] open_page_run [OF rep, of "Suc n"] n
    by (subst iter_next.simps) (simp add: iter_at_def bindA_run Let_def add.commute)
next
  case False
  then show ?thesis
    using dir_count_run [OF rep, of n] n
    by (subst iter_next.simps) (simp add: iter_at_def bindA_run Let_def add.commute act_run)
qed

text \<open>From slot \<open>k\<close> of page \<open>n\<close> the iterator returns the first of the remaining rows.\<close>

definition iter_after :: "heap_file \<Rightarrow> tx_id \<Rightarrow> nat \<Rightarrow> heap \<Rightarrow> db \<Rightarrow> row list \<Rightarrow> heap_iter \<Rightarrow> bool" where
  "iter_after hf tx t H s rows it \<longleftrightarrow>
     hi_file it = hf \<and> hi_tx it = tx \<and> hi_total it = int t \<and>
     (if hi_open it
      then \<exists>n k. it = iter_at hf tx t n (int k - 1) \<and> n < t \<and> k \<le> length (H ! n) \<and> rows = rows_from s tx H t n k
      else rows = [])"

lemma scan_from:
  assumes rep: "heap_rep hf s H" and ok: "chains_ok H" and tx: "map_of (db_active s) tx = Some X"
    and t: "t \<le> length H"
  shows "n < t \<Longrightarrow> k \<le> length (H ! n) \<Longrightarrow>
    \<exists>it'. iter_next (iter_at hf tx t n (int k - 1)) s = Some (Inr (head_row (rows_from s tx H t n k), it'), s) \<and>
      iter_after hf tx t H s (tl (rows_from s tx H t n k)) it'"
proof (induction "t - n" arbitrary: n k)
  case (Suc m)
  show ?case
    using Suc.prems(2)
  proof (induction "length (H ! n) - k" arbitrary: k)
    case 0
    then have k: "k = length (H ! n)" by simp
    show ?case
    proof (cases "Suc n < t")
      case True
      have "m = t - Suc n" using Suc.hyps(2) by simp
      from Suc.hyps(1) [OF this True, of 0] True show ?thesis
        by (simp add: k iter_next_page [OF rep Suc.prems(1) t] rows_from_page)
    next
      case False
      then show ?thesis
        by (simp add: k iter_next_page [OF rep Suc.prems(1) t] rows_from_page)
          (simp add: iter_after_def iter_at_def)
    qed
  next
    case inner: (Suc j)
    then have k: "k < length (H ! n)" by simp
    have n: "n < length H" using Suc.prems(1) t by simp
    note slot = iter_next_slot [OF rep ok tx n k]
    consider "seen_row s tx H (RID (int n) (int k)) = []"
      | x where "seen_row s tx H (RID (int n) (int k)) = [x]"
      using seen_row_single by blast
    then show ?case
    proof cases
      case 1
      have "j = length (H ! n) - Suc k" "Suc k \<le> length (H ! n)" using inner(2) k by simp_all
      from inner(1) [OF this] show ?thesis by (simp add: slot 1 rows_from_step [OF k])
    next
      case (2 x)
      have "iter_after hf tx t H s (rows_from s tx H t n (Suc k)) (iter_at hf tx t n (int k))"
        unfolding iter_after_def using k Suc.prems(1)
        by (auto simp: iter_at_def intro!: exI [of _ "Suc k"])
      then show ?thesis by (simp add: slot 2 rows_from_step [OF k])
    qed
  qed
qed simp

section \<open>The iterator provides the scan of the executor\<close>

text \<open>The query operators drop the state with the exception.\<close>

definition drop_state :: "('a res \<times> db) option \<Rightarrow> ('a \<times> db) run" where
  "drop_state m = map_option (\<lambda>(r, s). case r of Inl e \<Rightarrow> Inl e | Inr x \<Rightarrow> Inr (x, s)) m"

definition scan_next :: "heap_iter \<Rightarrow> db \<Rightarrow> (row \<times> heap_iter \<times> db) run" where
  "scan_next it s = bindO (drop_state (iter_next it s)) (\<lambda>((x, it), s). retO (x, it, s))"

definition scan_reset :: "heap_iter \<Rightarrow> db \<Rightarrow> (heap_iter \<times> db) res" where
  "scan_reset it s = (case drop_state (iter_reset it s) of Some r \<Rightarrow> r | None \<Rightarrow> Inl Stuck)"

definition scan_begin :: "heap_iter \<Rightarrow> db \<Rightarrow> (heap_iter \<times> db) res" where
  "scan_begin it s = (case drop_state (iter_begin it s) of Some r \<Rightarrow> r | None \<Rightarrow> Inl Stuck)"

lemma rows_nonempty: "[] \<notin> set (rows_from s tx H t n k)" "[] \<notin> set (visible_rows s tx H t)"
proof -
  have "[] \<notin> set (seen_row s tx H r)" for r
    using seen_row_single [of s tx H r] by auto
  then have "[] \<notin> set (page_rows s tx H m j)" for m j by (simp add: page_rows_def)
  then show "[] \<notin> set (rows_from s tx H t n k)" "[] \<notin> set (visible_rows s tx H t)"
    by (auto simp: rows_from_def visible_rows_def)
qed

lemma iter_next_ok:
  assumes "iter_ok s it"
  shows "\<exists>it'. iter_next it s = Some (Inr (head_row (iter_rest s it), it'), s) \<and> iter_ok s it' \<and>
     iter_rest s it' = tl (iter_rest s it) \<and> iter_rows s it' = iter_rows s it \<and>
     hi_file it' = hi_file it \<and> hi_tx it' = hi_tx it"
proof (cases "hi_open it")
  case False
  with assms show ?thesis
    by (subst iter_next.simps) (auto simp: act_run iter_rest_def)
next
  case True
  let ?hf = "hi_file it" and ?tx = "hi_tx it"
  let ?H = "heap_of ?hf s"
  obtain n k t where it: "it = iter_at ?hf ?tx t n (int k - 1)" "n < t" "t \<le> length ?H" "k \<le> length (?H ! n)"
    using iter_atE [OF assms True] by metis
  obtain X where ok: "heap_rep ?hf s ?H" "chains_ok ?H" "map_of (db_active s) ?tx = Some X"
    using assms by (auto simp: iter_ok_def Let_def)
  have rest: "iter_rest s it = rows_from s ?tx ?H t n k"
    by (subst it(1)) (simp add: iter_rest_def iter_at_def)
  obtain it' where it': "iter_next it s = Some (Inr (head_row (rows_from s ?tx ?H t n k), it'), s)"
    "iter_after ?hf ?tx t ?H s (tl (rows_from s ?tx ?H t n k)) it'"
    using scan_from [OF ok it(3,2,4)] it(1) by metis
  have same: "hi_file it' = ?hf" "hi_tx it' = ?tx" "hi_total it' = int t" "hi_total it = int t"
    using it'(2) arg_cong [OF it(1), of hi_total] by (simp_all add: iter_after_def iter_at_def)
  have "iter_ok s it'"
    using it'(2) ok it(2,3) by (auto simp: iter_ok_def Let_def iter_after_def same iter_at_def)
  moreover have "iter_rest s it' = tl (rows_from s ?tx ?H t n k)"
    using it'(2) by (auto simp: iter_rest_def iter_after_def same iter_at_def)
  moreover have "iter_rows s it' = iter_rows s it" by (simp add: iter_rows_def same)
  ultimately show ?thesis using it'(1) rest same(1,2) by auto
qed

lemma iter_reset_ok:
  assumes "iter_ok s it"
  shows "\<exists>it'. iter_reset it s = Some (Inr it', s) \<and> iter_ok s it' \<and>
     iter_rest s it' = iter_rows s it \<and> iter_rows s it' = iter_rows s it"
proof -
  let ?it = "it\<lparr>hi_pos := -1, hi_number := 0, hi_open := True\<rparr>" and ?H = "heap_of (hi_file it) s"
  have ok: "heap_rep (hi_file it) s ?H" "0 < length ?H" "0 < hi_total it"
    using assms by (auto simp: iter_ok_def Let_def)
  have "iter_reset it s = Some (Inr ?it, s)"
    using open_page_run [OF ok(1,2)] by (simp add: iter_reset_def bindA_run act_run)
  moreover have "iter_ok s ?it" using assms by (auto simp: iter_ok_def Let_def)
  moreover have "iter_rest s ?it = iter_rows s it"
    using visible_rows_from [of "nat (hi_total it)"] ok(3) by (simp add: iter_rest_def iter_rows_def)
  ultimately show ?thesis by (auto simp: iter_rows_def)
qed

interpretation heap_scan: relation_scan s scan_next scan_reset "iter_ok s" "iter_rows s" "iter_rest s" scan_begin
  for s
proof
  fix it assume ok: "iter_ok s it"
  from iter_next_ok [OF ok] show "\<exists>i'. scan_next it s = Some (Inr (head_row (iter_rest s it), i', s)) \<and>
      iter_ok s i' \<and> iter_rest s i' = tl (iter_rest s it) \<and> iter_rows s i' = iter_rows s it"
    by (auto simp: scan_next_def drop_state_def retO_def)
  from iter_reset_ok [OF ok] show "\<exists>i'. scan_reset it s = Inr (i', s) \<and> iter_ok s i' \<and>
      iter_rest s i' = iter_rows s it \<and> iter_rows s i' = iter_rows s it"
    by (auto simp: scan_reset_def drop_state_def)
  show "[] \<notin> set (iter_rows s it) \<union> set (iter_rest s it)"
    using rows_nonempty by (auto simp: iter_rows_def iter_rest_def)
  show "\<exists>i'. scan_begin it s = Inr (i', s) \<and> iter_ok s i' \<and> iter_rest s i' = iter_rows s it \<and>
      iter_rows s i' = iter_rows s it" if "iter_rest s it = iter_rows s it"
    using ok that by (simp add: scan_begin_def drop_state_def iter_begin_def act_run)
qed

end
