(* ===== verification/Catalog.thy ===== *)
theory Catalog
  imports Heap_Scan
begin

text \<open>
  The catalog (\<^verbatim>\<open>src/system/catalog.cc\<close>): tables by name, records of a table, vacuum of all
  tables, and the file \<^verbatim>\<open>catalog.dat\<close> the catalog is read from and written to.
\<close>

section \<open>The catalog file\<close>

fun datatype_code :: "data_type \<Rightarrow> 64 word" where
  "datatype_code DT_STR = 0" | "datatype_code DT_INT = 1" | "datatype_code DT_RID = 2"
| "datatype_code DT_INVALID = 3"

text \<open>The \<^verbatim>\<open>static_cast\<close> of a number that is no enumerator is left undefined.\<close>

definition datatype_of_code :: "64 word \<Rightarrow> data_type res" where
  "datatype_of_code w =
     (if w = 0 then Inr DT_STR else if w = 1 then Inr DT_INT else if w = 2 then Inr DT_RID
      else if w = 3 then Inr DT_INVALID else Inl Stuck)"

definition write_i64 :: "64 word \<Rightarrow> byte list" where
  "write_i64 w = enc64 w"

definition write_str :: "string \<Rightarrow> byte list" where
  "write_str s = write_i64 (of_nat (length s)) @ map byte_of_char s"

definition write_columns :: "column_info list \<Rightarrow> byte list" where
  "write_columns cs = concat (map (\<lambda>c. write_i64 (datatype_code (ci_datatype c)) @ write_str (ci_name c)) cs)"

definition write_table :: "table_info \<Rightarrow> byte list" where
  "write_table ti =
     write_str (ti_name ti) @ write_i64 (ti_cardinality ti) @ write_i64 (ti_table_id ti) @
     write_i64 (of_nat (length (columns (ti_schema ti)))) @ write_columns (columns (ti_schema ti))"

text \<open>What the destructor writes at the start of the file.\<close>

definition catalog_bytes :: "db \<Rightarrow> byte list" where
  "catalog_bytes s =
     write_i64 (db_tx_counter s) @ write_i64 (db_table_counter s) @
     write_i64 (of_nat (length (db_tables s))) @ concat (map (\<lambda>(t, ti). write_table ti) (db_tables s))"

text \<open>Reading: a short read leaves the stream in a failed state, which \<^verbatim>\<open>read_int64\<close> reports.\<close>

type_synonym 'a reader = "byte list \<Rightarrow> ('a \<times> byte list) res"

definition read_i64 :: "(64 word) reader" where
  "read_i64 bs =
     (if length bs < 8 then Inl (RuntimeError ''Error reading int64'')
      else Inr (dec64 (take 8 bs), drop 8 bs))"

text \<open>\<^verbatim>\<open>read_string\<close> does not look at the stream: a short string would be uninitialised memory.\<close>

definition read_str :: "string reader" where
  "read_str bs =
     bindE (read_i64 bs) (\<lambda>(n, bs).
       if sint n < 0 \<or> length bs < unat n then Inl Stuck
       else Inr (map char_of_byte (take (unat n) bs), drop (unat n) bs))"

fun read_cols :: "nat \<Rightarrow> table_id \<Rightarrow> (column_info list) reader" where
  "read_cols 0 tid bs = Inr ([], bs)"
| "read_cols (Suc n) tid bs =
     bindE (read_i64 bs) (\<lambda>(d, bs).
     bindE (datatype_of_code d) (\<lambda>d.
     bindE (read_str bs) (\<lambda>(name, bs).
     bindE (read_cols n tid bs) (\<lambda>(cs, bs).
       Inr (\<lparr>ci_name = name, ci_datatype = d, ci_table_id = tid\<rparr> # cs, bs)))))"

record table_entry =
  te_name :: string
  te_cardinality :: "64 word"
  te_table_id :: table_id
  te_columns :: "column_info list"

definition read_table :: "table_entry reader" where
  "read_table bs =
     bindE (read_str bs) (\<lambda>(name, bs).
     bindE (read_i64 bs) (\<lambda>(card, bs).
     bindE (read_i64 bs) (\<lambda>(tid, bs).
     bindE (read_i64 bs) (\<lambda>(n, bs).
     bindE (read_cols (nat (sint n)) tid bs) (\<lambda>(cs, bs).
       Inr (\<lparr>te_name = name, te_cardinality = card, te_table_id = tid, te_columns = cs\<rparr>, bs))))))"

section \<open>Files of tables\<close>

definition db_get_file_id :: "string \<Rightarrow> (db, file_id) act" where
  "db_get_file_id name =
     bindA getA (\<lambda>s. case map_of (db_names s) name of
       Some fd \<Rightarrow> returnA fd
     | None \<Rightarrow>
         (case db_dir s name of
            Some fd \<Rightarrow> bindA (modifyA (\<lambda>s. s\<lparr>db_names := (name, fd) # db_names s\<rparr>)) (\<lambda>_. returnA fd)
          | None \<Rightarrow>
              (let fd = db_next_file s in
               bindA (modifyA (\<lambda>s. s\<lparr>db_pages := (db_pages s)(fd := []), db_dir := (db_dir s)(name \<mapsto> fd),
                        db_next_file := fd + 1, db_names := (name, fd) # db_names s\<rparr>))
                 (\<lambda>_. returnA fd))))"

definition table_file_id :: "string \<Rightarrow> table_id \<Rightarrow> (db, file_id) act" where
  "table_file_id name tid = db_get_file_id (nat_to_string (unat tid) @ ''_'' @ name @ ''.tbl'')"

text \<open>The constructor of \<^verbatim>\<open>HeapFile\<close> stamps its columns with the table id.\<close>

definition new_heap_file :: "schema \<Rightarrow> file_id \<Rightarrow> table_id \<Rightarrow> heap_file" where
  "new_heap_file sch fd tid =
     \<lparr>hf_schema = \<lparr>columns = map (\<lambda>c. c\<lparr>ci_table_id := tid\<rparr>) (columns sch)\<rparr>, hf_table_id = tid, hf_file_id = fd\<rparr>"

definition fresh_last_insert :: "table_id \<Rightarrow> db \<Rightarrow> db" where
  "fresh_last_insert tid s = s\<lparr>db_last_insert := (db_last_insert s)(tid := 0)\<rparr>"

section \<open>Opening the catalog\<close>

fun load_tables :: "nat \<Rightarrow> byte list \<Rightarrow> (db, byte list) act" where
  "load_tables 0 bs = returnA bs"
| "load_tables (Suc n) bs =
     bindA (liftA (read_table bs)) (\<lambda>(te, bs).
     bindA (liftA (normalize (te_name te))) (\<lambda>name.
     bindA (table_file_id name (te_table_id te)) (\<lambda>fd.
     bindA (modifyA (\<lambda>s. fresh_last_insert (te_table_id te) (s\<lparr>db_tables :=
              insert_table \<lparr>ti_name = name, ti_schema = \<lparr>columns = te_columns te\<rparr>,
                ti_heap_file = new_heap_file \<lparr>columns = te_columns te\<rparr> fd (te_table_id te),
                ti_table_id = te_table_id te, ti_cardinality = te_cardinality te\<rparr> (db_tables s)\<rparr>)))
       (\<lambda>_. load_tables n bs))))"

definition catalog_open :: "byte list \<Rightarrow> (db, unit) act" where
  "catalog_open bs =
     (if bs = [] then returnA ()
      else bindA (liftA (read_i64 bs)) (\<lambda>(txs, bs).
           bindA (liftA (read_i64 bs)) (\<lambda>(tids, bs).
           bindA (liftA (read_i64 bs)) (\<lambda>(n, bs).
           bindA (modifyA (\<lambda>s. s\<lparr>db_tx_counter := txs, db_table_counter := tids\<rparr>)) (\<lambda>_.
           bindA (load_tables (nat (sint n)) bs) (\<lambda>_. returnA ()))))))"

section \<open>Tables and their records\<close>

definition create_table :: "string \<Rightarrow> schema \<Rightarrow> tx_id \<Rightarrow> (db, table_info) act" where
  "create_table name sch tx =
     bindA (liftA (normalize name)) (\<lambda>n.
     bindA (get_table_info n tx) (\<lambda>found.
       if found \<noteq> None then throwA (QueryException (''Table `'' @ name @ ''` already exists.''))
       else
         bindA getA (\<lambda>s. let tid = db_table_counter s in
         bindA (modifyA (\<lambda>s. s\<lparr>db_table_counter := tid + 1\<rparr>)) (\<lambda>_.
           if columns sch = [] \<or> ci_datatype (last (columns sch)) = DT_RID then throwA Stuck
           else
             (let cols = map (\<lambda>c. c\<lparr>ci_table_id := tid\<rparr>)
                    (columns sch @ [\<lparr>ci_name = ''RID'', ci_datatype = DT_RID, ci_table_id = tid\<rparr>]) in
              bindA (table_file_id n tid) (\<lambda>fd.
                let ti = \<lparr>ti_name = n, ti_schema = \<lparr>columns = cols\<rparr>,
                          ti_heap_file = new_heap_file \<lparr>columns = cols\<rparr> fd tid,
                          ti_table_id = tid, ti_cardinality = 0\<rparr> in
                bindA (modifyA (\<lambda>s. fresh_last_insert tid (s\<lparr>db_in_process :=
                         AList.map_default tx [ti] (\<lambda>tis. tis @ [ti]) (db_in_process s)\<rparr>)))
                  (\<lambda>_. returnA ti)))))))"

definition no_table :: "string \<Rightarrow> db_error" where
  "no_table name = QueryException (''Table `'' @ name @ ''` does not exist.'')"

definition cat_insert_record :: "string \<Rightarrow> row \<Rightarrow> tx_id \<Rightarrow> (db, rid) act" where
  "cat_insert_record name rec tx =
     bindA (get_table_info name tx) (\<lambda>t. case t of
       None \<Rightarrow> throwA (no_table name)
     | Some ti \<Rightarrow> heap_insert (ti_heap_file ti) rec tx None)"

definition cat_delete_record :: "wait \<Rightarrow> string \<Rightarrow> rid \<Rightarrow> tx_id \<Rightarrow> (db, unit) act" where
  "cat_delete_record w name r tx =
     bindA (get_table_info name tx) (\<lambda>t. case t of
       None \<Rightarrow> throwA (no_table name)
     | Some ti \<Rightarrow> heap_delete w (ti_heap_file ti) r tx)"

definition cat_update_record :: "wait \<Rightarrow> string \<Rightarrow> rid \<Rightarrow> row \<Rightarrow> tx_id \<Rightarrow> (db, rid) act" where
  "cat_update_record w name r rec tx =
     bindA (get_table_info name tx) (\<lambda>t. case t of
       None \<Rightarrow> throwA (no_table name)
     | Some ti \<Rightarrow> heap_update w (ti_heap_file ti) r rec tx)"

text \<open>The ids of the committed tables are collected first, then each is looked up again.\<close>

fun vacuum_tables :: "(heap_file \<Rightarrow> (db, unit) act) \<Rightarrow> table_id list \<Rightarrow> tx_id \<Rightarrow> (db, unit) act" where
  "vacuum_tables v [] tx = returnA ()"
| "vacuum_tables v (t # ts) tx =
     bindA getA (\<lambda>s. bindA (case get_table_by_id t tx s of
         None \<Rightarrow> returnA ()
       | Some ti \<Rightarrow> v (ti_heap_file ti)) (\<lambda>_. vacuum_tables v ts tx))"

definition cat_vacuum :: "(table_id \<Rightarrow> nat \<Rightarrow> byte list) \<Rightarrow> tx_id \<Rightarrow> (db, unit) act" where
  "cat_vacuum g tx =
     bindA getA (\<lambda>s. vacuum_tables (\<lambda>hf. heap_vacuum hf (g (hf_table_id hf))) (map fst (db_tables s)) tx)"

definition cat_full_vacuum ::
  "(table_id \<Rightarrow> nat \<Rightarrow> byte list) \<Rightarrow> (table_id \<Rightarrow> nat \<Rightarrow> byte list) \<Rightarrow> tx_id \<Rightarrow> (db, unit) act" where
  "cat_full_vacuum g stale tx =
     bindA getA (\<lambda>s. vacuum_tables (\<lambda>hf. heap_full_vacuum hf (g (hf_table_id hf)) (stale (hf_table_id hf)))
       (map fst (db_tables s)) tx)"

end
