(* ===== verification/Catalog_File.thy ===== *)
theory Catalog_File
  imports Catalog
begin

text \<open>
  The catalog file is read back as it was written: codecs for integers, strings and table
  entries (interpretations of \<open>codec\<close>), and the whole file. What an older, longer catalog left
  behind the new one in the file is ignored.
\<close>

section \<open>Codecs\<close>

definition reads :: "'a reader \<Rightarrow> byte list \<Rightarrow> ('a \<times> byte list) option" where
  "reads rd bs = (case rd bs of Inl e \<Rightarrow> None | Inr x \<Rightarrow> Some x)"

lemma reads_Some: "reads rd bs = Some x \<longleftrightarrow> rd bs = Inr x"
  by (simp add: reads_def split: sum.splits)

definition short :: "'a list \<Rightarrow> bool" where
  "short xs \<longleftrightarrow> length xs < 2 ^ 63"

lemma short_unat: "short xs \<Longrightarrow> unat (of_nat (length xs) :: 64 word) = length xs"
  by (simp add: short_def unat_of_nat take_bit_nat_eq_self)

lemma short_sint: "short xs \<Longrightarrow> sint (of_nat (length xs) :: 64 word) = int (length xs)"
  by (simp add: short_def signed_of_nat signed_take_bit_int_eq_self)

lemma read_write_i64: "read_i64 (write_i64 w @ rest) = Inr (w, rest)"
  by (simp add: read_i64_def write_i64_def dec64_enc64)

lemma read_write_str: "short s \<Longrightarrow> read_str (write_str s @ rest) = Inr (s, rest)"
  by (simp add: read_str_def write_str_def read_write_i64 short_unat short_sint comp_def)

lemma write_i64_not_Nil: "write_i64 w \<noteq> []"
proof -
  have "length (write_i64 w) = 8" by (simp add: write_i64_def)
  then show ?thesis by force
qed

interpretation i64: codec write_i64 "reads read_i64" "\<lambda>w. True"
  by unfold_locales (simp add: reads_Some read_write_i64)

interpretation str: codec write_str "reads read_str" short
  by unfold_locales (simp add: reads_Some read_write_str)

lemma datatype_code_of: "datatype_of_code (datatype_code d) = Inr d"
  by (cases d) (simp_all add: datatype_of_code_def)

lemma read_write_columns:
  "(\<forall>c \<in> set cs. ci_table_id c = tid \<and> short (ci_name c)) \<Longrightarrow>
   read_cols (length cs) tid (write_columns cs @ rest) = Inr (cs, rest)"
  by (induction cs)
    (auto simp: write_columns_def read_write_i64 read_write_str datatype_code_of)

definition entry_of :: "table_info \<Rightarrow> table_entry" where
  "entry_of ti = \<lparr>te_name = ti_name ti, te_cardinality = ti_cardinality ti, te_table_id = ti_table_id ti,
                  te_columns = columns (ti_schema ti)\<rparr>"

definition entry_ok :: "table_info \<Rightarrow> bool" where
  "entry_ok ti \<longleftrightarrow> short (ti_name ti) \<and> short (columns (ti_schema ti)) \<and> list_all name_char (ti_name ti) \<and>
     (\<forall>c \<in> set (columns (ti_schema ti)). ci_table_id c = ti_table_id ti \<and> short (ci_name c))"

lemma read_write_table: "entry_ok ti \<Longrightarrow> read_table (write_table ti @ rest) = Inr (entry_of ti, rest)"
  by (simp add: entry_ok_def read_table_def write_table_def read_write_i64 read_write_str
      read_write_columns short_sint entry_of_def)

section \<open>Names\<close>

lemma tolower_name: "name_char c \<Longrightarrow> tolower c = c"
  by (auto simp: name_char_def tolower_def Let_def)

lemma normalize_name: "list_all name_char n \<Longrightarrow> normalize n = Inr n"
proof -
  assume n: "list_all name_char n"
  then have "map tolower n = n" by (induction n) (simp_all add: tolower_name)
  with n show ?thesis by (simp add: normalize_def Let_def)
qed

lemma normalize_Inr: "normalize n = Inr m \<Longrightarrow> list_all name_char m \<and> m = map tolower n"
  by (auto simp: normalize_def Let_def split: if_splits)

text \<open>The file of a table.\<close>

definition table_file :: "string \<Rightarrow> table_id \<Rightarrow> string" where
  "table_file n tid = nat_to_string (unat tid) @ ''_'' @ n @ ''.tbl''"

section \<open>Reading the file back\<close>

definition tables_ok :: "db \<Rightarrow> bool" where
  "tables_ok s \<longleftrightarrow> short (db_tables s) \<and> sorted_wrt (<) (map fst (db_tables s)) \<and>
     (\<forall>(t, ti) \<in> set (db_tables s). ti_table_id ti = t \<and> entry_ok ti)"

lemma insert_table_last:
  "(\<forall>t \<in> set (map fst ts). t < ti_table_id ti) \<Longrightarrow> insert_table ti ts = ts @ [(ti_table_id ti, ti)]"
proof -
  assume l: "\<forall>t \<in> set (map fst ts). t < ti_table_id ti"
  then have "map_of ts (ti_table_id ti) = None" by (fastforce simp: map_of_eq_None_iff)
  moreover have "takeWhile (\<lambda>(t, x). t < ti_table_id ti) ts = ts"
    using l by (intro takeWhile_eq_all_conv [THEN iffD2]) auto
  moreover have "dropWhile (\<lambda>(t, x). t < ti_table_id ti) ts = []"
    using l by (intro dropWhile_eq_Nil_conv [THEN iffD2]) auto
  ultimately show ?thesis by (simp add: insert_table_def)
qed

text \<open>Registering a file changes the file manager's part of the state.\<close>

lemma table_file_id_run:
  "\<exists>fd s'. table_file_id n tid s = Some (Inr fd, s') \<and> db_tables s' = db_tables s \<and>
     db_tx_counter s' = db_tx_counter s \<and> db_table_counter s' = db_table_counter s \<and>
     db_in_process s' = db_in_process s \<and> db_active s' = db_active s \<and> db_locks s' = db_locks s"
  by (auto simp: table_file_id_def db_get_file_id_def bindA_def act_run Let_def split: option.splits)

definition entries :: "(table_id \<times> table_info) list \<Rightarrow> (table_id \<times> table_entry) list" where
  "entries ts = map (\<lambda>(t, ti). (t, entry_of ti)) ts"

lemma load_tables_run:
  assumes "sorted_wrt (<) (map fst (db_tables s) @ map fst ts)"
    "\<forall>(t, ti) \<in> set ts. ti_table_id ti = t \<and> entry_ok ti"
  shows "\<exists>s'. load_tables (length ts) (concat (map (\<lambda>(t, ti). write_table ti) ts) @ rest) s = Some (Inr rest, s') \<and>
     entries (db_tables s') = entries (db_tables s) @ entries ts \<and>
     db_tx_counter s' = db_tx_counter s \<and> db_table_counter s' = db_table_counter s"
  using assms
proof (induction ts arbitrary: s)
  case Nil
  then show ?case by (simp add: act_run entries_def)
next
  case (Cons x ts)
  obtain t ti where x: "x = (t, ti)" by (cases x)
  have ti: "ti_table_id ti = t" "entry_ok ti" using Cons.prems(2) x by auto
  then have name: "normalize (ti_name ti) = Inr (ti_name ti)"
    by (simp add: entry_ok_def normalize_name)
  obtain fd s1 where s1: "table_file_id (ti_name ti) t s = Some (Inr fd, s1)" "db_tables s1 = db_tables s"
    "db_tx_counter s1 = db_tx_counter s" "db_table_counter s1 = db_table_counter s"
    using table_file_id_run by blast
  define ti' where "ti' = \<lparr>ti_name = ti_name ti, ti_schema = \<lparr>columns = columns (ti_schema ti)\<rparr>,
      ti_heap_file = new_heap_file \<lparr>columns = columns (ti_schema ti)\<rparr> fd t,
      ti_table_id = t, ti_cardinality = ti_cardinality ti\<rparr>"
  define s2 where "s2 = fresh_last_insert t (s1\<lparr>db_tables := insert_table ti' (db_tables s1)\<rparr>)"
  have e: "entry_of ti' = entry_of ti" by (simp add: ti'_def entry_of_def ti)
  have "insert_table ti' (db_tables s1) = db_tables s @ [(t, ti')]"
    using Cons.prems(1) x s1(2)
    by (subst insert_table_last) (auto simp: ti'_def sorted_wrt_append)
  then have t2: "db_tables s2 = db_tables s @ [(t, ti')]" by (simp add: s2_def fresh_last_insert_def)
  have "sorted_wrt (<) (map fst (db_tables s2) @ map fst ts)"
    using Cons.prems(1) x by (simp add: t2 sorted_wrt_append)
  then obtain s' where s': "load_tables (length ts) (concat (map (\<lambda>(t, ti). write_table ti) ts) @ rest) s2 =
      Some (Inr rest, s')" "entries (db_tables s') = entries (db_tables s2) @ entries ts"
      "db_tx_counter s' = db_tx_counter s2" "db_table_counter s' = db_table_counter s2"
    using Cons.IH [of s2] Cons.prems(2) by auto
  have "load_tables (length (x # ts)) (concat (map (\<lambda>(t, ti). write_table ti) (x # ts)) @ rest) s =
      Some (Inr rest, s')"
    using s'(1) by (simp add: x read_write_table [OF ti(2)] entry_of_def name ti(1) bindA_def s1(1) act_run
        ti'_def [symmetric] s2_def [symmetric])
  then show ?case using s'(2-4) s1(3,4) e
    by (simp add: t2 entries_def x) (simp add: s2_def fresh_last_insert_def)
qed

lemma catalog_reopen:
  assumes ok: "tables_ok s" and empty: "db_tables s0 = []"
  shows "\<exists>s'. catalog_open (catalog_bytes s @ rest) s0 = Some (Inr (), s') \<and>
     entries (db_tables s') = entries (db_tables s) \<and> db_tx_counter s' = db_tx_counter s \<and>
     db_table_counter s' = db_table_counter s"
proof -
  let ?s = "s0\<lparr>db_tx_counter := db_tx_counter s, db_table_counter := db_table_counter s\<rparr>"
  obtain s' where s': "load_tables (length (db_tables s))
      (concat (map (\<lambda>(t, ti). write_table ti) (db_tables s)) @ rest) ?s = Some (Inr rest, s')"
      "entries (db_tables s') = entries (db_tables s)"
      "db_tx_counter s' = db_tx_counter s" "db_table_counter s' = db_table_counter s"
    using load_tables_run [of ?s "db_tables s" rest] ok empty by (auto simp: tables_ok_def entries_def)
  have "short (db_tables s)" using ok by (simp add: tables_ok_def)
  then have "catalog_open (catalog_bytes s @ rest) s0 = Some (Inr (), s')"
    using s'(1)
    by (simp add: catalog_open_def catalog_bytes_def read_write_i64 short_sint bindA_def act_run
        write_i64_not_Nil)
  with s' show ?thesis by blast
qed

end
