(* ===== verification/Aborts.thy ===== *)
theory Aborts
  imports Heap_File_Ops
begin

text \<open>
  What an abort does when the records of the transaction's write set are there: it ends the transaction and
  changes no page, since \<^verbatim>\<open>HeapFile::undo\<close> is a stub.
\<close>

section \<open>Undoing\<close>

text \<open>The first versions a transaction wrote or locked are in slots of the files of their tables.\<close>

definition records_there :: "tx_id \<Rightarrow> tuple_key list \<Rightarrow> db \<Rightarrow> bool" where
  "records_there tx ks s \<longleftrightarrow> (\<forall>k \<in> set ks. \<exists>ti H. get_table_by_id (tk_table k) tx s = Some ti \<and>
     heap_rep (ti_heap_file ti) s H \<and> in_heap H (tk_rid k))"

lemma undo_run: "heap_rep hf s H \<Longrightarrow> in_heap H r \<Longrightarrow> undo hf r tx s = Some (Inr (), s)"
  by (simp add: undo_def get_record_header_run bindA_def act_run)

lemma undo_all_run: "records_there tx ks s \<Longrightarrow> undo_all tx ks s = Some (Inr (), s)"
  by (induction ks) (auto simp: records_there_def undo_run bindA_def act_run)

section \<open>Aborting\<close>

lemma delete_file_keeps [simp]:
  "db_pages (db_delete_file fd s) = db_pages s" "db_active (db_delete_file fd s) = db_active s"
  "db_locks (db_delete_file fd s) = db_locks s"
  by (simp_all add: db_delete_file_def Let_def split: option.split)

lemma delete_files_keep [simp]:
  fixes tis :: "table_info list"
  defines "del \<equiv> \<lambda>ti. db_delete_file (hf_file_id (ti_heap_file ti))"
  shows "db_pages (fold del tis s) = db_pages s" "db_active (fold del tis s) = db_active s"
    "db_locks (fold del tis s) = db_locks s"
  by (induction tis arbitrary: s) (simp_all add: del_def)

lemma abort_tables_run:
  "\<exists>s'. abort_in_progress_tables tx s = Some (Inr (), s') \<and> db_pages s' = db_pages s \<and> db_active s' = db_active s \<and>
     db_locks s' = db_locks s"
  by (cases "map_of (db_in_process s) tx") (simp_all add: abort_in_progress_tables_def act_run)

lemma aborts:
  assumes "records_there tx (tx_first_rids x) s" "map_of (db_active s) tx = Some x"
  shows "\<exists>s'. abort_transaction tx s = Some (Inr (), s') \<and> db_pages s' = db_pages s \<and>
    map_of (db_active s') = (map_of (db_active s))(tx := None) \<and>
    db_locks s' = fold (release_key tx) (tx_first_rids x) (db_locks s)"
proof -
  obtain s1 where s1: "abort_in_progress_tables tx s = Some (Inr (), s1)" "db_pages s1 = db_pages s"
    "db_active s1 = db_active s" "db_locks s1 = db_locks s" using abort_tables_run by blast
  let ?s = "erase_transaction tx ((update_transaction tx (\<lambda>x. x\<lparr>tx_state := COMMITTED\<rparr>) s1)
    \<lparr>db_locks := fold (release_key tx) (tx_first_rids x) (db_locks s)\<rparr>)"
  have "abort_transaction tx s = Some (Inr (), ?s)"
    using s1 undo_all_run [OF assms(1)] assms(2)
    by (simp add: abort_transaction_def abort_found_def set_state_def release_all_locks_def bindA_def act_run update_transaction_def)
  moreover have "map_of (db_active ?s) = (map_of (db_active s))(tx := None)"
    using s1(3) by (auto simp: erase_transaction_def update_transaction_def delete_conv map_of_map_entry fun_eq_iff)
  ultimately show ?thesis using s1(2) by (intro exI [of _ ?s]) (simp add: erase_transaction_def update_transaction_def)
qed

text \<open>The versions of the transaction stay, and count as those of a transaction that has ended.\<close>

lemma state_after_abort:
  "map_of (db_active s') = (map_of (db_active s))(t := None) \<Longrightarrow> state_of u s' = (if u = t then COMMITTED else state_of u s)"
  by (simp add: state_of_def)

lemma mvcc_after_abort:
  assumes "map_of (db_active s') = (map_of (db_active s))(t := None)"
  shows "mvcc s vs \<Longrightarrow> mvcc s' vs"
  by (induction vs rule: induct_list012) (simp_all add: state_after_abort [OF assms] split: if_splits)

lemma newest_after_abort:
  fixes s :: db
  assumes "map_of (db_active s') = (map_of (db_active s))(t := None)" "vs \<noteq> []"
    "t_min (v_head (last vs)) = t" "t_max (v_head (last vs)) = 0"
  shows "newest s' tx vs = Some (last vs)"
proof -
  have w: "written_for s' tx (last vs)" using assms(3) by (simp add: written_for_def state_after_abort [OF assms(1)])
  have "filter (written_for s' tx) vs = filter (written_for s' tx) (butlast vs) @ [last vs]"
    using w arg_cong [OF append_butlast_last_id [OF assms(2)], of "filter (written_for s' tx)", symmetric] by simp
  then have "filter (written_for s' tx) vs \<noteq> []" "last (filter (written_for s' tx) vs) = last vs" by simp_all
  with assms(4) show ?thesis
    by (cases "filter (written_for s' tx) vs") (simp_all add: newest_def deleted_for_def)
qed

lemma not_newest_before:
  assumes "state_of t s = ACTIVE" "t \<noteq> tx" "t_min (v_head (last vs)) = t"
  shows "newest s tx vs \<noteq> Some (last vs)"
proof
  assume new: "newest s tx vs = Some (last vs)"
  then have "filter (written_for s tx) vs \<noteq> []" "last (filter (written_for s tx) vs) = last vs"
    by (auto simp: newest_def split: list.splits if_splits)
  then have "last vs \<in> set (filter (written_for s tx) vs)" by (metis last_in_set)
  with assms show False by (simp add: written_for_def)
qed

lemma reader_after_abort:
  "map_of (db_active s') = (map_of (db_active s))(t := None) \<Longrightarrow> tx \<noteq> t \<Longrightarrow> rc_reader s tx \<Longrightarrow> rc_reader s' tx"
  by (simp add: rc_reader_def)

end
