(* ===== verification/Examples.thy ===== *)
theory Examples
  imports Catalog_File Aborts
begin

text \<open>
  A small database for the witnesses: one table with two integer columns, in an empty file, and
  two active transactions under READ COMMITTED.
\<close>

definition demo_column :: column_info where
  "demo_column = \<lparr>ci_name = ''a'', ci_datatype = DT_INT, ci_table_id = 0\<rparr>"

definition demo_schema :: schema where
  "demo_schema = \<lparr>columns = [demo_column, demo_column\<lparr>ci_name := ''b''\<rparr>, \<lparr>ci_name = ''RID'', ci_datatype = DT_RID, ci_table_id = 0\<rparr>]\<rparr>"

definition demo_file :: heap_file where
  "demo_file = \<lparr>hf_schema = demo_schema, hf_table_id = 0, hf_file_id = 3\<rparr>"

definition demo_table :: table_info where
  "demo_table = \<lparr>ti_name = ''t'', ti_schema = demo_schema, ti_heap_file = demo_file,
                 ti_table_id = 0, ti_cardinality = 0\<rparr>"

definition demo_db :: db where
  "demo_db = \<lparr>db_pages = (\<lambda>f. []), db_names = [(''0_t.tbl'', 3)], db_dir = [''0_t.tbl'' \<mapsto> 3], db_next_file = 4,
     db_last_insert = (\<lambda>t. 0), db_active = [(1, new_transaction READ_COMMITTED), (2, new_transaction READ_COMMITTED)],
     db_locks = (\<lambda>k. None), db_tables = [(0, demo_table)], db_in_process = [], db_table_counter = 1,
     db_tx_counter = 3\<rparr>"

definition demo_wait :: wait where
  "demo_wait = \<lparr>w_env = (\<lambda>n s. s), w_clock = (\<lambda>n. int n * 10 ^ 10)\<rparr>"

lemmas demo_defs = demo_column_def demo_schema_def demo_file_def demo_table_def demo_db_def

lemma demo_clock [simp]: "prompt demo_wait" "sleeps demo_wait"
  by (simp_all add: prompt_def sleeps_def late_def MAX_TIME_def demo_wait_def)

lemma demo_row: "row_fits demo_schema [VInt i, VInt j]"
  by (simp add: demo_defs row_fits_def stored_types_def)

lemma demo_size: "tuple_len [VInt i, VInt j] + 4 \<le> 4088"
  by (simp add: tuple_len_def)

lemma demo_rep: "heap_rep demo_file demo_db []"
  by (simp add: heap_rep_def demo_defs page_in_range_def)

text \<open>One record, inserted by transaction 1.\<close>

lemma demo_inserted:
  "\<exists>rid s H. heap_insert demo_file [VInt 7, VInt 9] 1 None demo_db = Some (Inr rid, s) \<and> heap_rep demo_file s H \<and>
     inserted [] H rid (new_header 1 rid None, [VInt 7, VInt 9]) \<and> insert_frame demo_file 1 None rid demo_db s"
  using heap_insert_run [OF demo_rep, of "[VInt 7, VInt 9]" None 1 0] demo_row demo_size
  by (simp add: demo_defs page_in_range_def)

text \<open>The record is a chain of one version, its own first.\<close>

lemma demo_chain:
  assumes "inserted [] H rid (new_header 1 rid None, [VInt 7, VInt 9])"
  shows "slot_at H rid = Some (new_header 1 rid None, [VInt 7, VInt 9])"
    "chain H rid [(rid, new_header 1 rid None, [VInt 7, VInt 9])]"
    "length H \<le> 1" "chains_ok H"
proof -
  have sl: "slot_at H r = (if r = rid then Some (new_header 1 rid None, [VInt 7, VInt 9]) else None)" for r
    using assms by (simp add: inserted_def) (simp add: slot_at_def in_heap_def)
  then show "slot_at H rid = Some (new_header 1 rid None, [VInt 7, VInt 9])" by simp
  then show ch: "chain H rid [(rid, new_header 1 rid None, [VInt 7, VInt 9])]"
    by (rule chain_last) (simp add: new_header_def last_header_def)
  show "length H \<le> 1" using assms by (simp add: inserted_def)
  show "chains_ok H" unfolding chains_ok_def using sl ch by (auto split: if_splits)
qed

text \<open>What the insertion leaves as it was, and where it got to.\<close>

lemma demo_frame:
  assumes "insert_frame demo_file 1 None rid demo_db s"
  shows "db_last_insert s 0 = page_num rid"
    "map_of (db_active s) 1 = Some ((new_transaction READ_COMMITTED)\<lparr>tx_first_rids := [TupleKey 0 rid]\<rparr>)"
    "map_of (db_active s) 2 = Some (new_transaction READ_COMMITTED)" "db_locks s = (\<lambda>k. None)"
  using assms
  by (auto simp: insert_frame_def only_pages_def set_pages_def insert_noted_def update_transaction_def
      demo_defs new_transaction_def insort_insert_key_def)

lemma demo_records_there:
  assumes "heap_rep demo_file s H" "inserted [] H rid (new_header 1 rid None, [VInt 7, VInt 9])"
    "insert_frame demo_file 1 None rid demo_db s"
  shows "records_there 1 [TupleKey 0 rid] s"
proof -
  have "db_tables s = db_tables demo_db"
    using assms(3) by (auto simp: insert_frame_def only_pages_def set_pages_def insert_noted_def update_transaction_def)
  then have "get_table_by_id 0 1 s = Some demo_table" by (simp add: get_table_by_id_def demo_db_def)
  then show ?thesis
    using assms(1) slot_at_Some [OF demo_chain(1) [OF assms(2)]] by (auto simp: records_there_def demo_table_def)
qed

text \<open>Transaction 1 sees the record it inserted.\<close>

lemma concat_single: "k < n \<Longrightarrow> concat (map (\<lambda>i. if i = k then xs else []) [0..<n]) = xs"
proof -
  assume "k < n"
  then have "[0..<n] = [0..<k] @ k # [Suc k..<n]"
    using upt_add_eq_append [of 0 k "n - k"] upt_conv_Cons [of k n] by simp
  moreover have "map (\<lambda>i. if i = k then xs else []) [0..<k] = map (\<lambda>i. []) [0..<k]"
    "map (\<lambda>i. if i = k then xs else []) [Suc k..<n] = map (\<lambda>i. []) [Suc k..<n]" by (auto intro!: map_cong)
  ultimately show ?thesis by (simp only: map_append list.map concat_append concat.simps refl if_True) (simp add: map_replicate_const)
qed

lemma demo_visible:
  "\<exists>rid s H. heap_insert demo_file [VInt 7, VInt 9] 1 None demo_db = Some (Inr rid, s) \<and> heap_rep demo_file s H \<and>
     length H = 1 \<and> chains_ok H \<and> map_of (db_active s) 1 \<noteq> None \<and> db_tables s = db_tables demo_db \<and>
     visible_rows s 1 H (length H) = [[VInt 7, VInt 9, VRid rid]] \<and> rc_reader s 1 \<and> locked_updates s H"
proof -
  obtain rid s H where ins: "heap_insert demo_file [VInt 7, VInt 9] 1 None demo_db = Some (Inr rid, s)"
    "heap_rep demo_file s H" "inserted [] H rid (new_header 1 rid None, [VInt 7, VInt 9])"
    "insert_frame demo_file 1 None rid demo_db s"
    using demo_inserted by blast
  note fr = demo_frame [OF ins(4)] and ch = demo_chain [OF ins(3)]
  obtain k where k: "rid = RID 0 (int k)" "k < length (H ! 0)" "length H = 1"
    using slot_at_Some [OF ch(1)] ch(3) by (auto elim!: in_heapE) (metis One_nat_def less_one le_less_Suc_eq not_less
        less_le_trans linorder_not_le nat_less_le)
  have "seen_row s 1 H (RID 0 (int i)) = (if i = k then [[VInt 7, VInt 9, VRid rid]] else [])"
    if "i < length (H ! 0)" for i
  proof (cases "i = k")
    case True
    have "first_seen s 1 [(rid, new_header 1 rid None, [VInt 7, VInt 9])] =
        Some (rid, new_header 1 rid None, [VInt 7, VInt 9])"
      using fr(2) by (simp add: first_seen_def sees_def new_header_def visible_rc_def state_of_def new_transaction_def)
    with True ch(1) k(1) chain_of_eq [OF ch(2)] show ?thesis
      by (simp add: seen_row_def new_header_def)
  next
    case False
    with ins(3) k(1) show ?thesis by (simp add: seen_row_def inserted_def) (simp add: slot_at_def in_heap_def)
  qed
  then have "page_rows s 1 H 0 0 =
      concat (map (\<lambda>i. if i = k then [[VInt 7, VInt 9, VRid rid]] else []) [0..<length (H ! 0)])"
    unfolding page_rows_def by (intro arg_cong [where f = concat] map_cong) simp_all
  then have "visible_rows s 1 H (length H) = [[VInt 7, VInt 9, VRid rid]]"
    by (simp add: visible_rows_def k(3) concat_single [OF k(2)])
  moreover have "db_tables s = db_tables demo_db"
    using ins(4) by (auto simp: insert_frame_def only_pages_def set_pages_def insert_noted_def update_transaction_def)
  moreover have "rc_reader s 1" using fr(2) by (simp add: rc_reader_def new_transaction_def)
  moreover have "locked_updates s H"
    unfolding locked_updates_def
  proof (intro allI impI)
    fix r h x assume "slot_at H r = Some (h, x)"
    then have "r = rid" using ins(3) by (auto simp: inserted_def split: if_splits) (auto simp: slot_at_def in_heap_def split: if_splits)
    then show "mvcc s (chain_of H r)" by (simp add: chain_of_eq [OF ch(2)] new_header_def)
  qed
  ultimately show ?thesis using ins(1,2) k(3) ch(4) fr(2) by auto
qed

end
