(* ===== verification/Storage_Properties.thy ===== *)
theory Storage_Properties
  imports Examples
begin

text \<open>
  What the storage engine guarantees: page reads and writes, the slotted page, the buffer
  manager under the heap files, insertion, update and vacuum of heap files, visibility, and
  the catalog file. Each property is followed by a witness on a concrete input.
\<close>

text \<open>
  C9. Under READ COMMITTED, reading a record whose versions have the shape that updates
  under the record lock produce yields the newest version that the reader itself or a transaction that has ended
  wrote, and reports the record as gone when that version was deleted by one of them (or there
  is none). Ended means not active any more, which is all that \<^verbatim>\<open>get_states\<close> can tell: a transaction that committed, but
  also one that aborted, whose versions stay because \<^verbatim>\<open>undo\<close> is a stub (\<open>aborted_versions_read\<close>). Versions of other
  active transactions are never returned.
\<close>

theorem read_committed:
  assumes "heap_rep hf s H" "chain H r vs" "mvcc s vs" "rc_reader s tx"
  shows "heap_read hf r tx s = Some (Inr
    (case newest s tx vs of Some v \<Rightarrow> (v_rid v, True) | None \<Rightarrow> (next_rid (v_head (last vs)), False)), s)"
proof -
  obtain x where "map_of (db_active s) tx = Some x" using assms(4) by (auto simp: rc_reader_def)
  from heap_read_chain [OF assms(1) this assms(2)] show ?thesis
    using first_seen_newest [OF assms(4,3)] by simp
qed

theorem read_committed_witness:
  "\<exists>rid s. heap_insert demo_file [VInt 7, VInt 9] 1 None demo_db = Some (Inr rid, s) \<and>
     heap_read demo_file rid 1 s = Some (Inr (rid, True), s) \<and>
     heap_read demo_file rid 2 s = Some (Inr (rid, False), s)"
proof -
  obtain rid s H where ins: "heap_insert demo_file [VInt 7, VInt 9] 1 None demo_db = Some (Inr rid, s)"
    "heap_rep demo_file s H" "inserted [] H rid (new_header 1 rid None, [VInt 7, VInt 9])"
    "insert_frame demo_file 1 None rid demo_db s"
    using demo_inserted by blast
  note fr = demo_frame [OF ins(4)]
  let ?vs = "[(rid, new_header 1 rid None, [VInt 7, VInt 9])]"
  have "mvcc s ?vs" by (simp add: new_header_def)
  moreover have "rc_reader s 1" "rc_reader s 2" using fr(2,3) by (simp_all add: rc_reader_def new_transaction_def)
  moreover have "newest s 1 ?vs = Some (rid, new_header 1 rid None, [VInt 7, VInt 9])"
    by (simp add: newest_def written_for_def deleted_for_def new_header_def)
  moreover have "newest s 2 ?vs = None"
    using fr(2) by (simp add: newest_def written_for_def new_header_def state_of_def new_transaction_def)
  ultimately have "heap_read demo_file rid 1 s = Some (Inr (rid, True), s)"
    "heap_read demo_file rid 2 s = Some (Inr (rid, False), s)"
    using read_committed [OF ins(2) demo_chain(2) [OF ins(3)]] by (simp_all add: new_header_def)
  with ins(1) show ?thesis by blast
qed

text \<open>
  C39. A version that an aborted transaction wrote is read after the abort: if the last version of a record was written by
  an active transaction and not deleted, other READ COMMITTED readers do not get it, but once that transaction has aborted
  (which it can, if the records of its write set are there), they all do. The comments of the source
  promise the opposite.
\<close>

theorem aborted_versions_read:
  assumes "map_of (db_active s) t = Some x" "tx_state x = ACTIVE" "records_there t (tx_first_rids x) s"
    "heap_rep hf s H" "chain H r vs" "mvcc s vs" "rc_reader s tx" "tx \<noteq> t"
    "t_min (v_head (last vs)) = t" "t_max (v_head (last vs)) = 0"
  shows "(\<forall>s'. heap_read hf r tx s \<noteq> Some (Inr (v_rid (last vs), True), s')) \<and>
    (\<exists>s'. abort_transaction t s = Some (Inr (), s') \<and> heap_read hf r tx s' = Some (Inr (v_rid (last vs), True), s'))"
proof
  have read: "heap_read hf r tx s' = Some (Inr
      (case newest s' tx vs of Some v \<Rightarrow> (v_rid v, True) | None \<Rightarrow> (next_rid (v_head (last vs)), False)), s')"
    if "heap_rep hf s' H" "mvcc s' vs" "rc_reader s' tx" for s'
    using heap_read_chain [OF that(1) _ assms(5)] first_seen_newest [OF that(3,2)] that(3) by (auto simp: rc_reader_def)
  have st: "state_of t s = ACTIVE" using assms(1,2) by (simp add: state_of_def)
  have ne: "vs \<noteq> []" by (rule chain_not_Nil [OF assms(5)])
  have "v_rid v \<noteq> v_rid (last vs)" if "newest s tx vs = Some v" for v
  proof
    assume same: "v_rid v = v_rid (last vs)"
    have "v \<in> set vs" using that newest_mem by blast
    then have "v = last vs" using chain_distinct [OF assms(5)] ne same
      by (auto simp: distinct_map dest: inj_onD)
    with that not_newest_before [OF st _ assms(9)] assms(8) show False by metis
  qed
  then show "\<forall>s'. heap_read hf r tx s \<noteq> Some (Inr (v_rid (last vs), True), s')"
    using read [OF assms(4,6,7)] by (auto split: option.splits)
  obtain s' where s': "abort_transaction t s = Some (Inr (), s')" "db_pages s' = db_pages s"
    "map_of (db_active s') = (map_of (db_active s))(t := None)"
    using aborts [OF assms(3,1)] by blast
  have "heap_rep hf s' H" using assms(4) heap_rep_cong [of s' hf s] s'(2) by simp
  from read [OF this mvcc_after_abort [OF s'(3) assms(6)] reader_after_abort [OF s'(3) assms(8,7)]]
  show "\<exists>s'. abort_transaction t s = Some (Inr (), s') \<and> heap_read hf r tx s' = Some (Inr (v_rid (last vs), True), s')"
    using s'(1) newest_after_abort [OF s'(3) ne assms(9,10)] by auto
qed

theorem aborted_versions_read_witness:
  "\<exists>rid s s'. heap_insert demo_file [VInt 7, VInt 9] 1 None demo_db = Some (Inr rid, s) \<and>
     abort_transaction 1 s = Some (Inr (), s') \<and> heap_read demo_file rid 2 s' = Some (Inr (rid, True), s')"
proof -
  obtain rid s H where ins: "heap_insert demo_file [VInt 7, VInt 9] 1 None demo_db = Some (Inr rid, s)"
    "heap_rep demo_file s H" "inserted [] H rid (new_header 1 rid None, [VInt 7, VInt 9])"
    "insert_frame demo_file 1 None rid demo_db s"
    using demo_inserted by blast
  note fr = demo_frame [OF ins(4)] and ch = demo_chain [OF ins(3)]
  let ?vs = "[(rid, new_header 1 rid None, [VInt 7, VInt 9])]"
  note there = demo_records_there [OF ins(2-4)]
  have "mvcc s ?vs" by (simp add: new_header_def)
  moreover have "rc_reader s 2" using fr(3) by (simp add: rc_reader_def new_transaction_def)
  ultimately have "\<exists>s'. abort_transaction 1 s = Some (Inr (), s') \<and> heap_read demo_file rid 2 s' = Some (Inr (rid, True), s')"
    using aborted_versions_read [OF fr(2) _ _ ins(2) ch(2)] there by (simp add: new_header_def new_transaction_def)
  with ins(1) show ?thesis by blast
qed

text \<open>
  C10. Inserting a record that fits into an empty page always returns: the record is stored,
  with a fresh header, in a slot that was free; every other slot keeps its version; and only
  the file's pages, its last insertion page and (for a new record) the transaction's write set change.
\<close>

theorem insert_returns:
  assumes "heap_rep hf s H" "row_fits (hf_schema hf) row" "tuple_len row + 4 \<le> 4088"
    "first \<noteq> None \<longrightarrow> rid_ok (the first)" "first = None \<longrightarrow> map_of (db_active s) tx \<noteq> None"
    "db_last_insert s (hf_table_id hf) = int n" "n \<le> length H" "page_in_range (int (length H + 1))"
  shows "\<exists>rid s' H'. heap_insert hf row tx first s = Some (Inr rid, s') \<and> heap_rep hf s' H' \<and>
    inserted H H' rid (new_header tx rid first, row) \<and> insert_frame hf tx first rid s s'"
  by (rule heap_insert_run [OF assms])

theorem insert_returns_witness:
  "\<exists>rid s'. heap_insert demo_file [VInt 7, VInt 9] 1 None demo_db = Some (Inr rid, s')"
  using insert_returns [OF demo_rep, of "[VInt 7, VInt 9]" None 1 0] demo_row demo_size
  by (simp add: demo_defs page_in_range_def) blast

text \<open>
  C8. An update under READ COMMITTED that gets the record lock appends a version: the chain of the
  record is the old one with its last version closed by this transaction and the new version
  after it; every other version of the file is as it was, and the lock and the write set hold the record.
\<close>

theorem update_appends_version:
  assumes "heap_rep hf s H" "slot_at H r = Some (h0, x0)" "chain H (first_rid h0) vs" "last vs = (l, h, x)"
    "next_rid h \<noteq> rid_deleted" "map_of (db_active s) tx = Some X" "tx_level X = READ_COMMITTED" "tx \<noteq> 0"
    "may_lock s tx (lock_key hf (first_rid h0))" "prompt w"
    "row_fits (hf_schema hf) row" "tuple_len row + 4 \<le> 4088"
    "db_last_insert s (hf_table_id hf) = int n" "n \<le> length H" "page_in_range (int (length H + 1))"
  shows "\<exists>new s' H'. heap_update w hf r row tx s = Some (Inr new, s') \<and> heap_rep hf s' H' \<and>
    chain H' (first_rid h0) (butlast vs @ [(l, h\<lparr>t_max := tx, next_rid := new\<rparr>, x),
      (new, new_header tx new (Some (first_rid h0)), row)]) \<and>
    (\<forall>r. r \<noteq> l \<and> r \<noteq> new \<longrightarrow> slot_at H' r = slot_at H r) \<and>
    insert_frame hf tx (Some (first_rid h0)) new (locked tx (lock_key hf (first_rid h0)) s) s'"
proof -
  obtain new s' H' where run: "heap_update w hf r row tx s = Some (Inr new, s')" "heap_rep hf s' H'"
    "slot_at H new = None" "slot_at H' l = Some (h\<lparr>t_max := tx, next_rid := new\<rparr>, x)"
    "slot_at H' new = Some (new_header tx new (Some (first_rid h0)), row)"
    "\<forall>r. r \<noteq> l \<longrightarrow> r \<noteq> new \<longrightarrow> slot_at H' r = slot_at H r"
    "insert_frame hf tx (Some (first_rid h0)) new (locked tx (lock_key hf (first_rid h0)) s) s'"
    using heap_update_run [OF assms] by blast
  have "rid_ok new" by (rule slot_facts(3) [OF run(2,5)])
  from heap_update_chain [OF assms(3,4,8) this run(3-6)] run show ?thesis by blast
qed

theorem update_appends_version_witness:
  "\<exists>rid s new s'. heap_insert demo_file [VInt 7, VInt 9] 1 None demo_db = Some (Inr rid, s) \<and>
     heap_update demo_wait demo_file rid [VInt 8, VInt 9] 1 s = Some (Inr new, s')"
proof -
  obtain rid s H where ins: "heap_insert demo_file [VInt 7, VInt 9] 1 None demo_db = Some (Inr rid, s)"
    "heap_rep demo_file s H" "inserted [] H rid (new_header 1 rid None, [VInt 7, VInt 9])"
    "insert_frame demo_file 1 None rid demo_db s"
    using demo_inserted by blast
  note fr = demo_frame [OF ins(4)] and ch = demo_chain [OF ins(3)]
  have at: "in_heap H rid" by (rule slot_at_Some [OF ch(1)])
  then have n: "db_last_insert s 0 = int (nat (page_num rid))" "nat (page_num rid) \<le> length H"
    using fr(1) by (auto simp: in_heap_def)
  have room: "page_in_range (int (length H + 1))" using ch(3) by (simp add: page_in_range_def)
  let ?h = "new_header 1 rid None"
  have h: "chain H (first_rid ?h) [(rid, ?h, [VInt 7, VInt 9])]" "last [(rid, ?h, [VInt 7, VInt 9])] = (rid, ?h, [VInt 7, VInt 9])"
    "next_rid ?h \<noteq> rid_deleted"
    using ch(2) not_special [OF at] by (simp_all add: new_header_def)
  have st: "may_lock s 1 (lock_key demo_file (first_rid ?h))" "prompt demo_wait"
    "row_fits (hf_schema demo_file) [VInt 8, VInt 9]" "db_last_insert s (hf_table_id demo_file) = int (nat (page_num rid))"
    using fr(4) n(1) demo_row by (simp_all add: may_lock_def demo_defs)
  from update_appends_version [OF ins(2) ch(1) h fr(2) _ _ st(1,2,3) demo_size st(4) n(2) room]
  show ?thesis using ins(1) by (auto simp: new_transaction_def)
qed

text \<open>
  C7. Running the query operators over heap files, from \<^verbatim>\<open>begin\<close> to the end, yields exactly the rows the plan denotes
  over the rows of its scans, which are, for every record in the order of the first versions, the first version along
  its chain that the reader sees, with the record's RID after its values. If the readers are READ COMMITTED and
  the records have the shape that updates under their locks produce, that version is the record's newest one: the last
  one of the chain written by the reader or by a transaction that has ended, unless one of them deleted it.
\<close>

theorem query_rows:
  assumes "plan_ok (iter_ok s) (iter_rows s) (iter_rest s) it"
  shows "(\<exists>it' it''. qbegin scan_begin scan_next scan_reset it s = Some (Inr (it', s)) \<and>
     qcollect scan_next scan_reset it' s = Some (Inr (qrows (iter_rows s) it, it'', s))) \<and>
   ((\<forall>x \<in> set_qiter it. rc_reader s (hi_tx x) \<and> locked_updates s (heap_of (hi_file x) s)) \<longrightarrow>
     qrows (iter_rows s) it = qrows (iter_newest s) it)"
proof
  show "\<exists>it' it''. qbegin scan_begin scan_next scan_reset it s = Some (Inr (it', s)) \<and>
     qcollect scan_next scan_reset it' s = Some (Inr (qrows (iter_rows s) it, it'', s))"
    by (rule heap_scan.run_plan [OF assms])
  show "(\<forall>x \<in> set_qiter it. rc_reader s (hi_tx x) \<and> locked_updates s (heap_of (hi_file x) s)) \<longrightarrow>
     qrows (iter_rows s) it = qrows (iter_newest s) it"
    by (auto intro!: qrows_cong simp: iter_rows_def iter_newest_def visible_newest)
qed

text \<open>The row transaction 1 inserted, read by transaction 1 itself.\<close>

theorem query_rows_witness:
  "\<exists>rid s it. heap_insert demo_file [VInt 7, VInt 9] 1 None demo_db = Some (Inr rid, s) \<and>
     get_record_iter demo_file 1 s = Some (Inr it, s) \<and> qrows (iter_newest s) (Relation it []) = [[VInt 7, VInt 9, VRid rid]] \<and>
     (\<exists>it' it''. qbegin scan_begin scan_next scan_reset (Relation it []) s = Some (Inr (it', s)) \<and>
        qcollect scan_next scan_reset it' s = Some (Inr ([[VInt 7, VInt 9, VRid rid]], it'', s)))"
proof -
  obtain rid s H where ex: "heap_insert demo_file [VInt 7, VInt 9] 1 None demo_db = Some (Inr rid, s)"
    "heap_rep demo_file s H" "length H = 1" "chains_ok H" "map_of (db_active s) 1 \<noteq> None"
    "visible_rows s 1 H (length H) = [[VInt 7, VInt 9, VRid rid]]" "rc_reader s 1" "locked_updates s H"
    using demo_visible by blast
  let ?it = "iter_at demo_file 1 1 0 (-1)"
  have it: "get_record_iter demo_file 1 s = Some (Inr ?it, s)"
    using open_page_run [OF ex(2), of 0] ex(2,3)
    by (simp add: get_record_iter_def bindA_run act_run iter_at_def db_count_pages_def heap_rep_def)
  have H: "heap_of demo_file s = H" by (rule heap_of_rep [OF ex(2)])
  have "iter_ok s ?it" using ex(2-5) by (simp add: iter_ok_def Let_def iter_at_def H)
  moreover have rows: "iter_rows s ?it = [[VInt 7, VInt 9, VRid rid]]"
    using ex(3,6) by (simp add: iter_rows_def iter_at_def H)
  moreover have "iter_rest s ?it = iter_rows s ?it"
    using visible_rows_from [of 1] by (simp add: iter_rest_def iter_rows_def iter_at_def)
  ultimately have "plan_ok (iter_ok s) (iter_rows s) (iter_rest s) (Relation ?it [])" by simp
  note q = query_rows [OF this]
  have "qrows (iter_newest s) (Relation ?it []) = [[VInt 7, VInt 9, VRid rid]]"
    using q [THEN conjunct2] ex(7,8) rows by (simp add: iter_at_def H)
  with q [THEN conjunct1] rows ex(1) it show ?thesis by (metis qrows.simps(1))
qed

section \<open>Pages of a heap file\<close>

text \<open>
  C11. Inserting into a page that holds the slots \<open>ss\<close> and has \<open>fs\<close> bytes free refuses exactly when the
  tuple and a new directory entry, if one is needed, do not fit, leaving the page alone; otherwise the tuple goes
  into the first free slot and the page holds the slots with it added, its free space reduced
  by what it takes.
\<close>

theorem page_insert:
  assumes "page_rep sch p ss fs" "row_fits sch row" "int32 (get_page_number p)"
    "first \<noteq> None \<longrightarrow> rid_ok (the first)"
  shows "(fs < insert_space ss row \<longrightarrow> try_insert_record p row tx first = Inr (None, p)) \<and>
    (insert_space ss row \<le> fs \<longrightarrow>
      (\<exists>q. try_insert_record p row tx first = Inr (Some (RID (get_page_number p) (int (free_slot ss))), q) \<and>
        page_rep sch q (set_slot ss (free_slot ss)
          (Some (new_header tx (RID (get_page_number p) (int (free_slot ss))) first, row))) (fs - insert_space ss row)))"
  using try_insert_refused [OF assms(1)] try_insert_accepted [OF assms] by blast

definition demo_page :: page where
  "demo_page = page_image 3 0 zero_page"

lemma demo_page_rep: "\<exists>q. heap_page_init demo_page = Inr q \<and> page_rep demo_schema q [] 4088 \<and> get_page_number q = 0"
proof -
  have "pg_bytes demo_page = replicate 4096 0" by (simp add: demo_page_def page_image_def zero_page_def)
  then obtain q where "heap_page_init demo_page = Inr q" "page_rep demo_schema q [] 4088" "page_evolves demo_page q"
    using init_rep by blast
  with page_number_evolves [OF this(3)] show ?thesis
    by (simp add: demo_page_def page_image_def get_page_number_def)
qed

theorem page_insert_witness:
  "\<exists>q q'. heap_page_init demo_page = Inr q \<and> try_insert_record q [VInt 7, VInt 9] 1 None = Inr (Some (RID 0 0), q') \<and>
     page_rep demo_schema q' [Some (new_header 1 (RID 0 0) None, [VInt 7, VInt 9])] 4036"
proof -
  obtain q where q: "heap_page_init demo_page = Inr q" "page_rep demo_schema q [] 4088" "get_page_number q = 0"
    using demo_page_rep by blast
  with page_insert [OF q(2) demo_row [of 7], where tx = 1 and first = None] show ?thesis
    by (auto simp: insert_space_def tuple_len_def set_slot_def int32_def)
qed

text \<open>
  C12. Vacuuming a page with entries keeps every version at its slot number, drops the free entries after the
  last live one, and makes all bytes that no version uses free again.
\<close>

theorem vacuum_compacts:
  assumes "page_rep sch p ss fs" "ss \<noteq> []" "length garbage = PAGE_SIZE"
  shows "\<exists>q. page_vacuum sch garbage p = Inr q \<and> page_rep sch q (vacuumed ss) (vacuum_space ss) \<and>
    (\<forall>i < length ss. (if i < length (vacuumed ss) then vacuumed ss ! i else None) = ss ! i)"
proof -
  have "(if i < length (vacuumed ss) then vacuumed ss ! i else None) = ss ! i" if "i < length ss" for i
    using that vacuumed_nth [of i ss] last_live_last [of ss i] length_vacuumed [OF assms(2)]
    by (cases "i \<le> last_live ss") simp_all
  with page_vacuum_rep [OF assms] show ?thesis by blast
qed

theorem vacuum_compacts_witness:
  "\<exists>q q' q''. heap_page_init demo_page = Inr q \<and> try_insert_record q [VInt 7, VInt 9] 1 None = Inr (Some (RID 0 0), q') \<and>
     page_vacuum demo_schema (replicate 4096 42) q' = Inr q''"
proof -
  obtain q where q: "heap_page_init demo_page = Inr q" "page_rep demo_schema q [] 4088" "get_page_number q = 0"
    using demo_page_rep by blast
  then obtain q' where q': "try_insert_record q [VInt 7, VInt 9] 1 None = Inr (Some (RID 0 0), q')"
    "page_rep demo_schema q' [Some (new_header 1 (RID 0 0) None, [VInt 7, VInt 9])] 4036"
    using try_insert_accepted [OF q(2) demo_row [of 7], where tx = 1 and first = None]
    by (auto simp: insert_space_def tuple_len_def set_slot_def int32_def)
  from vacuum_compacts [OF q'(2), of "replicate 4096 42"] q(1) q'(1) show ?thesis by auto
qed

text \<open>
  C14. Vacuuming a page that has no entries yet (as a scan of an empty table leaves it) gives it
  one: the number of entries becomes 1 and the entry is whatever four bytes the fresh
  buffer of the vacuum held, so that uninitialised memory is taken for the address of a record.
\<close>

theorem vacuum_empty_page:
  assumes "page_rep sch p [] fs" "length garbage = PAGE_SIZE"
  shows "\<exists>q. page_vacuum sch garbage p = Inr q \<and> get_dir_count q = Inr 1 \<and> get_free_space q = Inr 4084 \<and>
    get_dir q 0 = Inr (dec32 (slice 8 4 garbage))"
  by (rule page_vacuum_empty [OF assms])

theorem vacuum_empty_page_witness:
  "\<exists>q q'. heap_page_init demo_page = Inr q \<and> page_vacuum demo_schema (replicate 4096 1) q = Inr q' \<and>
     get_dir_count q' = Inr 1 \<and> get_dir q' 0 = Inr 16843009"
proof -
  obtain q where q: "heap_page_init demo_page = Inr q" "page_rep demo_schema q [] 4088"
    using demo_page_rep by blast
  have "dec32 (slice 8 4 (replicate 4096 1)) = 16843009"
  proof -
    have "slice 8 4 (replicate 4096 (1::byte)) = [1, 1, 1, 1]" by (simp add: slice_def numeral_eq_Suc)
    then show ?thesis by (simp add: dec32_def)
  qed
  with vacuum_empty_page [OF q(2), of "replicate 4096 1"] q(1) show ?thesis by auto
qed

text \<open>
  C13. Vacuuming a heap file whose pages all have entries keeps the version in every slot and
  lets insertion start at the first page again.
\<close>

theorem heap_vacuum_keeps:
  assumes "heap_rep hf s H" "\<forall>ss \<in> set H. ss \<noteq> []" "\<forall>n. length (g n) = PAGE_SIZE"
  shows "\<exists>s'. heap_vacuum hf g s = Some (Inr (), s') \<and> heap_rep hf s' (map vacuumed H) \<and>
    (\<forall>r. slot_at (map vacuumed H) r = slot_at H r) \<and> db_last_insert s' (hf_table_id hf) = 0"
  using heap_vacuum_run [OF assms] slot_at_vacuumed [OF assms(2)] by blast

text \<open>The page of one record, whose version stays in its slot.\<close>

theorem heap_vacuum_keeps_witness:
  "\<exists>rid s s' H'. heap_insert demo_file [VInt 7, VInt 9] 1 None demo_db = Some (Inr rid, s) \<and>
     heap_vacuum demo_file (\<lambda>n. replicate 4096 9) s = Some (Inr (), s') \<and> heap_rep demo_file s' H' \<and> length H' = 1 \<and>
     slot_at H' rid = Some (new_header 1 rid None, [VInt 7, VInt 9])"
proof -
  obtain rid s H where ins: "heap_insert demo_file [VInt 7, VInt 9] 1 None demo_db = Some (Inr rid, s)"
    "heap_rep demo_file s H" "inserted [] H rid (new_header 1 rid None, [VInt 7, VInt 9])"
    using demo_inserted by blast
  note ch = demo_chain [OF ins(3)]
  have "in_heap H rid" by (rule slot_at_Some [OF ch(1)])
  then have H: "length H = 1" "H ! 0 \<noteq> []" using ch(3) by (auto simp: in_heap_def le_Suc_eq)
  then have "\<forall>ss \<in> set H. ss \<noteq> []" by (auto simp: in_set_conv_nth)
  from heap_vacuum_keeps [OF ins(2) this, of "\<lambda>n. replicate 4096 9"] ins(1) ch(1) H(1) show ?thesis
    by fastforce
qed

end
