(* ===== verification/Component_Properties.thy ===== *)
theory Component_Properties
  imports Storage_Properties
begin

text \<open>
  What the buffer manager and the expressions guarantee to the parts above
  them. Each property with a hypothesis is followed by a witness.
\<close>

section \<open>Buffer manager\<close>

definition demo_fs :: fs_state where
  "demo_fs = \<lparr>fs_dir = [''0_t.tbl'' \<mapsto> 3], fs_content = (\<lambda>f. []), fs_next = 4, fs_names = [(''0_t.tbl'', 3)],
     fs_calls = 0, fs_fault = (\<lambda>n. False)\<rparr>"

definition demo_buf :: buf_state where
  "demo_buf = buf_init demo_fs 8192"

lemma demo_represents: "represents demo_buf (\<lambda>f. [])"
proof -
  have "b_frames demo_buf = replicate 2 (set_bytes new_page (replicate PAGE_SIZE 0))" "b_map demo_buf = (\<lambda>_. None)"
    "b_fs demo_buf = demo_fs" "b_clock demo_buf = 0"
    by (simp_all add: demo_buf_def buf_init_def)
  then show ?thesis
    by (auto intro: exI [of _ 0] simp: represents_def buf_wf_def buf_room_def frame_ok_def buf_pages_def demo_fs_def fs_wf_def no_faults_def
        file_size_def count_pages_def Let_def new_page_def set_bytes_def page_wf_def UNASSIGNED_def)
qed

text \<open>
  C21. The buffer manager implements the pages of the files: an operation on a page that succeeds on
  the pages themselves succeeds with the same result through the frames, whatever is loaded or evicted, and the
  frames and the disk present the changed pages afterwards.
\<close>

theorem buffer_refines_pages:
  assumes "represents s P" "buf_live s f" "page_op op" "with_page f n op P = Some (Inr x, P')"
  shows "\<exists>s'. with_frame f n op s = Some (Inr x, s') \<and> represents s' P' \<and> (\<forall>g. buf_live s' g = buf_live s g)"
  by (rule with_frame_run [OF assms])

theorem buffer_refines_pages_witness:
  "\<exists>s'. with_frame 3 0 (\<lambda>p. try_insert_record p [VInt 7, VInt 9] 1 None) demo_buf = Some (Inr (Some (RID 0 0)), s')"
proof -
  let ?op = "\<lambda>p. try_insert_record p [VInt 7, VInt 9] 1 None"
  have live: "buf_live demo_buf 3" by (simp add: buf_live_def demo_buf_def buf_init_def demo_fs_def UNASSIGNED_def)
  obtain q where q: "heap_page_init demo_page = Inr q" "page_rep demo_schema q [] 4088" "get_page_number q = 0"
    using demo_page_rep by blast
  then obtain q' where "try_insert_record q [VInt 7, VInt 9] 1 None = Inr (Some (RID 0 0), q')"
    using try_insert_accepted [OF q(2) demo_row [of 7], where tx = 1 and first = None]
    by (auto simp: insert_space_def tuple_len_def set_slot_def int32_def)
  then have "open_then ?op (page_image 3 0 zero_page) = Inr (Some (RID 0 0), q')"
    using q(1) by (simp add: open_then_def demo_page_def)
  then have "with_page 3 0 ?op (\<lambda>f. []) = Some (Inr (Some (RID 0 0)), (\<lambda>f. [])(3 := [pg_bytes q']))"
    by (simp add: with_page_def page_in_range_def grow_def Let_def)
  from buffer_refines_pages [OF demo_represents live _ this] show ?thesis
    using page_op_intros(11) [of "[VInt 7, VInt 9]" 1 None] by blast
qed

text \<open>
  C25. The clock replacement ends whenever some frame is not pinned: it comes back with such a frame, whose second chance
  is used up, and changes nothing about the frames but second chances.
\<close>

theorem replacement_ends:
  assumes "c < length fr" "u < length fr" "pg_pins (fr ! u) = 0"
  shows "\<exists>i fr'. clock_scan fr c = Some (Inr (i, fr')) \<and> i < length fr \<and> pg_pins (fr ! i) = 0 \<and>
    \<not> pg_second_chance (fr' ! i) \<and>
    (\<forall>j < length fr. fr' ! j = fr ! j \<or> fr' ! j = (fr ! j)\<lparr>pg_second_chance := False\<rparr>)"
proof -
  obtain i fr' where r: "clock_scan fr c = Some (Inr (i, fr'))" "i < length fr" "frames_sim fr fr'"
    "pg_pins (fr' ! i) = 0" "\<not> pg_second_chance (fr' ! i)"
    using clock_scan_stops [OF assms] by blast
  then have "pg_pins (fr ! i) = 0" by (auto simp: frames_sim_def)
  with r show ?thesis by (auto simp: frames_sim_def)
qed

theorem replacement_ends_witness:
  "\<exists>i fr'. clock_scan (b_frames demo_buf) 0 = Some (Inr (i, fr')) \<and> i < 2 \<and> \<not> pg_second_chance (fr' ! i)"
proof -
  have "b_frames demo_buf = replicate 2 (set_bytes new_page (replicate PAGE_SIZE 0))"
    by (simp add: demo_buf_def buf_init_def)
  then have "0 < length (b_frames demo_buf)" "pg_pins (b_frames demo_buf ! 0) = 0" "length (b_frames demo_buf) = 2"
    by (simp_all add: new_page_def set_bytes_def)
  from replacement_ends [OF this(1,1,2)] this(3) show ?thesis by auto
qed

section \<open>Expressions\<close>

text \<open>
  C27. Compiling an expression over the columns of a row succeeds exactly when all its columns are
  there, and the compiled expression computes what the plan's expression means.
\<close>

theorem compiled_expression:
  "case compile_expr cs e of
     Inl _ \<Rightarrow> \<not> columns_in cs e
   | Inr e' \<Rightarrow> columns_in cs e \<and> (\<forall>r. expr_eval e' r = plan_eval (row_env cs r) e)"
  using compile_defined [of cs e] compile_eval [of cs e] by (auto split: sum.splits)

text \<open>The values of a row have the types of its columns.\<close>

definition row_typed :: "column list \<Rightarrow> row \<Rightarrow> bool" where
  "row_typed cs r \<longleftrightarrow> list_all2 (\<lambda>c v. value_type v = ci_datatype (col_info c)) cs r"

text \<open>A column of an expression has the type of the columns of the row with its alias and name.\<close>

definition same_type :: "column list \<Rightarrow> column \<Rightarrow> bool" where
  "same_type cs c \<longleftrightarrow> list_all (\<lambda>d. column_eq c d \<longrightarrow> ci_datatype (col_info d) = ci_datatype (col_info c)) cs"

lemma row_env_type:
  assumes "row_typed cs r" "same_type cs c" "row_env cs r c = Inr v"
  shows "value_type v = ci_datatype (col_info c)"
proof -
  have "col_mem c cs" using assms(3) by (auto simp: row_env_def col_index_found [symmetric] split: if_splits)
  then obtain i where i: "col_index c cs = int i" "i < length cs" "column_eq c (cs ! i)"
    using col_index_nth by blast
  then have "v = r ! i" using assms(1,3) by (auto simp: row_env_def value_at_def nthE_def row_typed_def list_all2_lengthD split: if_splits)
  with assms(1,2) i show ?thesis
    by (auto simp: row_typed_def same_type_def list_all2_conv_all_nth list_all_length)
qed

text \<open>
  C29. On a row whose values have the types of its columns, every compiled expression that computes a value computes one
  of the type its plan announces with \<^verbatim>\<open>get_datatype\<close>, except that ranges and LIKE, which announce the type of their
  column, compute a truth value, an integer. The columns of the expression must have the types of the row's columns
  of the same alias and name, and there are no constants of the type RID, which the grammar does not have.
\<close>

theorem expression_type:
  assumes "row_typed cs r" "expr_get_columns e = Inr ds" "list_all (same_type cs) ds" "\<And>t. e = ExprPlanTerm t \<Longrightarrow> \<not> is_rid t"
    "compile_expr cs e = Inr e'" "expr_eval e' r = Inr v"
  shows "value_type v = (case e of ExprPlanBetween c lo hi \<Rightarrow> DT_INT | ExprPlanLike c p \<Rightarrow> DT_INT | _ \<Rightarrow> expr_get_datatype e)"
proof -
  have ev: "plan_eval (row_env cs r) e = Inr v" using compile_eval [OF assms(5), of r] assms(6) by simp
  show ?thesis
  proof (cases e)
    case (ExprPlanColumn c)
    with ev assms(2,3) row_env_type [OF assms(1), of c v] show ?thesis by auto
  next
    case (ExprPlanTerm t)
    with ev assms(4) show ?thesis by (cases t) auto
  next
    case (ExprPlanArithmetic l op k)
    with ev show ?thesis by (auto simp: lift2_def bindE_Inr_iff dest: arith_op_type)
  qed (use ev in \<open>auto simp: lift2_def bindE_Inr_iff\<close>)
qed

text \<open>A row with a string: the column announces and has a string, the range announces a string and computes an integer.\<close>

definition demo_string :: column where
  "demo_string = \<lparr>col_alias = ''t'', col_table = ''t'', col_info = demo_column\<lparr>ci_name := ''s'', ci_datatype := DT_STR\<rparr>\<rparr>"

theorem expression_type_witness:
  "\<exists>e' v f w. compile_expr [demo_string] (ExprPlanColumn demo_string) = Inr e' \<and> expr_eval e' [VStr ''x''] = Inr v \<and>
     value_type v = DT_STR \<and>
     compile_expr [demo_string] (ExprPlanBetween demo_string (VStr ''a'') (VStr ''z'')) = Inr f \<and> expr_eval f [VStr ''x''] = Inr w \<and>
     value_type w = DT_INT \<and> expr_get_datatype (ExprPlanBetween demo_string (VStr ''a'') (VStr ''z'')) = DT_STR"
proof -
  let ?c = "ExprPlanColumn demo_string" and ?b = "ExprPlanBetween demo_string (VStr ''a'') (VStr ''z'')"
  have row: "row_typed [demo_string] [VStr ''x'']" by (simp add: row_typed_def demo_string_def)
  have ds: "list_all (same_type [demo_string]) [demo_string]" by (simp add: same_type_def)
  have cols: "expr_get_columns ?c = Inr [demo_string]" "expr_get_columns ?b = Inr [demo_string]" by simp_all
  obtain e' v where e: "compile_expr [demo_string] ?c = Inr e'" "expr_eval e' [VStr ''x''] = Inr v"
    by (simp add: compile_column_def column_eq_key value_at_def nthE_def)
  obtain f w where f: "compile_expr [demo_string] ?b = Inr f" "expr_eval f [VStr ''x''] = Inr w"
    by (simp add: compile_column_def column_eq_key value_at_def nthE_def)
  have "value_type v = DT_STR" using expression_type [OF row cols(1) ds _ e] by (simp add: demo_string_def)
  moreover have "value_type w = DT_INT" using expression_type [OF row cols(2) ds _ f] by simp
  ultimately show ?thesis using e f by (intro exI conjI) (assumption | simp add: demo_string_def)+
qed

end
