(* ===== verification/Logical_Plans.thy ===== *)
theory Logical_Plans
  imports Exprs Database
begin

text \<open>
  Logical plans (\<^verbatim>\<open>src/query/parser/logical_plan/\<close>): what the preprocessor builds and the
  optimizer walks over. Insertion, creation, update and deletion only ever stand at the root,
  so they are a type of their own above the query plans.
\<close>

section \<open>Plans\<close>

datatype query_plan =
    RelationPlan string string
  | SelectionPlan query_plan "expr_plan list"
  | ProjectionPlan query_plan bool "64 word" "column list"
  | CartesianProductPlan "query_plan list"
  | JoinPlan "query_plan list" "(column \<times> column) list"
  | LeftOuterJoinPlan string query_plan query_plan "(column \<times> column) list"
  | FullOuterJoinPlan string query_plan query_plan "(column \<times> column) list"

text \<open>\<^verbatim>\<open>Constant\<close> is \<^verbatim>\<open>std::variant<int64_t, std::string>\<close>.\<close>

datatype sql_constant = CInt "64 word" | CStr string

text \<open>The child of an update or a deletion is a pointer that may be null.\<close>

datatype logical_plan =
    QueryPlan query_plan
  | CreationPlan string schema
  | InsertionPlan string "sql_constant list"
  | UpdatePlan table_info "(nat \<times> expr_plan) list" "query_plan option"
  | DeletionPlan table_info "query_plan option"

fun is_action :: "logical_plan \<Rightarrow> bool" where
  "is_action (QueryPlan p) = False"
| "is_action (CreationPlan t s) = True"
| "is_action (InsertionPlan t vs) = True"
| "is_action (UpdatePlan ti upd c) = True"
| "is_action (DeletionPlan ti c) = True"

text \<open>\<^verbatim>\<open>operator!=\<close> of \<^verbatim>\<open>Column\<close>.\<close>

definition column_neq :: "column \<Rightarrow> column \<Rightarrow> bool" where
  "column_neq a b \<longleftrightarrow> \<not> column_eq a b"

section \<open>Clone\<close>

text \<open>
  The outer joins cast the clones of their children to relations; the cast of another plan is
  undefined. The clone of an update has no assignments: the source declares the vector for
  them and never fills it.
\<close>

fun is_relation :: "query_plan \<Rightarrow> bool" where
  "is_relation (RelationPlan a t) = True"
| "is_relation _ = False"

definition as_relation :: "query_plan \<Rightarrow> query_plan res" where
  "as_relation p = (if is_relation p then Inr p else Inl Stuck)"

definition relation_clone :: "string \<Rightarrow> string \<Rightarrow> query_plan res" where [simp]:
  "relation_clone a t = Inr (RelationPlan a t)"

definition selection_clone :: "query_plan res \<Rightarrow> expr_plan list \<Rightarrow> query_plan res" where [simp]:
  "selection_clone p es = bindE (mapE expr_clone es) (\<lambda>es. bindE p (\<lambda>p. Inr (SelectionPlan p es)))"

definition projection_clone ::
  "query_plan res \<Rightarrow> bool \<Rightarrow> 64 word \<Rightarrow> column list \<Rightarrow> query_plan res" where [simp]:
  "projection_clone p d lim cs = bindE p (\<lambda>p. Inr (ProjectionPlan p d lim cs))"

definition product_clone :: "query_plan list res \<Rightarrow> query_plan res" where [simp]:
  "product_clone ps = bindE ps (\<lambda>ps. Inr (CartesianProductPlan ps))"

definition join_clone :: "query_plan list res \<Rightarrow> (column \<times> column) list \<Rightarrow> query_plan res" where [simp]:
  "join_clone ps cs =
     bindE ps (\<lambda>ps. if length ps > 1 \<and> cs \<noteq> [] then Inr (JoinPlan ps cs) else Inl Stuck)"

definition left_outer_clone ::
  "string \<Rightarrow> query_plan res \<Rightarrow> query_plan res \<Rightarrow> (column \<times> column) list \<Rightarrow>
   query_plan res" where [simp]:
  "left_outer_clone a l r cs =
     bindE l (\<lambda>l. bindE (as_relation l) (\<lambda>l.
     bindE r (\<lambda>r. bindE (as_relation r) (\<lambda>r.
       if cs \<noteq> [] then Inr (LeftOuterJoinPlan a l r cs) else Inl Stuck))))"

definition full_outer_clone ::
  "string \<Rightarrow> query_plan res \<Rightarrow> query_plan res \<Rightarrow> (column \<times> column) list \<Rightarrow>
   query_plan res" where [simp]:
  "full_outer_clone a l r cs =
     bindE l (\<lambda>l. bindE (as_relation l) (\<lambda>l.
     bindE r (\<lambda>r. bindE (as_relation r) (\<lambda>r.
       if cs \<noteq> [] then Inr (FullOuterJoinPlan a l r cs) else Inl Stuck))))"

fun plan_clone :: "query_plan \<Rightarrow> query_plan res" where
  "plan_clone (RelationPlan a t) = relation_clone a t"
| "plan_clone (SelectionPlan p es) = selection_clone (plan_clone p) es"
| "plan_clone (ProjectionPlan p d lim cs) = projection_clone (plan_clone p) d lim cs"
| "plan_clone (CartesianProductPlan ps) = product_clone (mapE plan_clone ps)"
| "plan_clone (JoinPlan ps cs) = join_clone (mapE plan_clone ps) cs"
| "plan_clone (LeftOuterJoinPlan a l r cs) = left_outer_clone a (plan_clone l) (plan_clone r) cs"
| "plan_clone (FullOuterJoinPlan a l r cs) = full_outer_clone a (plan_clone l) (plan_clone r) cs"

definition child_clone :: "query_plan option \<Rightarrow> query_plan option res" where
  "child_clone c = (case c of None \<Rightarrow> Inr None | Some p \<Rightarrow> bindE (plan_clone p) (\<lambda>p. Inr (Some p)))"

definition creation_clone :: "string \<Rightarrow> schema \<Rightarrow> logical_plan res" where [simp]:
  "creation_clone t s = Inr (CreationPlan t s)"

definition insertion_clone :: "string \<Rightarrow> sql_constant list \<Rightarrow> logical_plan res" where [simp]:
  "insertion_clone t vs = Inr (InsertionPlan t vs)"

definition update_clone :: "table_info \<Rightarrow> query_plan option \<Rightarrow> logical_plan res" where [simp]:
  "update_clone ti c = bindE (child_clone c) (\<lambda>c. Inr (UpdatePlan ti [] c))"

definition deletion_clone :: "table_info \<Rightarrow> query_plan option \<Rightarrow> logical_plan res" where [simp]:
  "deletion_clone ti c = bindE (child_clone c) (\<lambda>c. Inr (DeletionPlan ti c))"

fun logical_clone :: "logical_plan \<Rightarrow> logical_plan res" where
  "logical_clone (QueryPlan p) = bindE (plan_clone p) (\<lambda>p. Inr (QueryPlan p))"
| "logical_clone (CreationPlan t s) = creation_clone t s"
| "logical_clone (InsertionPlan t vs) = insertion_clone t vs"
| "logical_clone (UpdatePlan ti upd c) = update_clone ti c"
| "logical_clone (DeletionPlan ti c) = deletion_clone ti c"

text \<open>Plans the constructors accept and \<^verbatim>\<open>clone\<close> can copy.\<close>

fun plan_wf :: "query_plan \<Rightarrow> bool" where
  "plan_wf (RelationPlan a t) = True"
| "plan_wf (SelectionPlan p es) = (plan_wf p \<and> list_all null_free es)"
| "plan_wf (ProjectionPlan p d lim cs) = plan_wf p"
| "plan_wf (CartesianProductPlan ps) = list_all plan_wf ps"
| "plan_wf (JoinPlan ps cs) = (list_all plan_wf ps \<and> length ps > 1 \<and> cs \<noteq> [])"
| "plan_wf (LeftOuterJoinPlan a l r cs) = (is_relation l \<and> is_relation r \<and> cs \<noteq> [])"
| "plan_wf (FullOuterJoinPlan a l r cs) = (is_relation l \<and> is_relation r \<and> cs \<noteq> [])"

lemma mapE_same: "(\<And>x. x \<in> set xs \<Longrightarrow> f x = Inr x) \<Longrightarrow> mapE f xs = Inr xs"
  by (induction xs) auto

lemma is_relationE: assumes "is_relation p" obtains a t where "p = RelationPlan a t"
  using assms by (cases p) auto

lemma plan_clone_same: "plan_wf p \<Longrightarrow> plan_clone p = Inr p"
proof (induction p)
  case (SelectionPlan p es)
  then have "mapE expr_clone es = Inr es" by (intro mapE_same clone_same) (simp add: list_all_iff)
  with SelectionPlan show ?case by simp
next
  case (CartesianProductPlan ps)
  then have "mapE plan_clone ps = Inr ps" by (intro mapE_same) (simp add: list_all_iff)
  then show ?case by simp
next
  case (JoinPlan ps cs)
  then have "mapE plan_clone ps = Inr ps" by (intro mapE_same) (simp add: list_all_iff)
  with JoinPlan.prems show ?case by simp
next
  case (LeftOuterJoinPlan a l r cs)
  then show ?case by (auto simp: as_relation_def elim!: is_relationE)
next
  case (FullOuterJoinPlan a l r cs)
  then show ?case by (auto simp: as_relation_def elim!: is_relationE)
qed auto

end
