(* ===== verification/Query_Actions.thy ===== *)
theory Query_Actions
  imports Catalog Logical_Plans
begin

text \<open>
  The operators that change tables (\<^verbatim>\<open>src/query/executor/update_iter.h\<close>,
  \<^verbatim>\<open>deletion_iter.h\<close>, \<^verbatim>\<open>insertion.h\<close>, \<^verbatim>\<open>creation.h\<close>). Update and deletion pull rows
  from a query, lock each record, read it again and test the condition again before they write.
  A query under them that throws leaves the state as it found it.
\<close>

section \<open>A query inside a stateful operator\<close>

definition run_iter :: "(db \<Rightarrow> ('a \<times> db) run) \<Rightarrow> (db, 'a) act" where
  "run_iter m s =
     (case m s of None \<Rightarrow> None | Some (Inl e) \<Rightarrow> Some (Inl e, s) | Some (Inr (x, s')) \<Rightarrow> Some (Inr x, s'))"

definition child_begin :: "heap_iter qiter \<Rightarrow> (db, heap_iter qiter) act" where
  "child_begin c = run_iter (qbegin scan_begin scan_next scan_reset c)"

definition child_reset :: "heap_iter qiter \<Rightarrow> (db, heap_iter qiter) act" where
  "child_reset c = run_iter (\<lambda>s. Some (qreset scan_reset c s))"

definition child_next :: "heap_iter qiter \<Rightarrow> (db, row \<times> heap_iter qiter) act" where
  "child_next c = run_iter (\<lambda>s. bindO (qnext scan_next scan_reset c s) (\<lambda>(x, c, s). retO ((x, c), s)))"

text \<open>The table is the one of the last column, which must be the RID.\<close>

definition rid_table :: "column list \<Rightarrow> string res" where
  "rid_table cs =
     (if cs = [] \<or> ci_datatype (col_info (last cs)) \<noteq> DT_RID then Inl Stuck else Inr (col_table (last cs)))"

section \<open>Update\<close>

record update_iter =
  ui_child :: "heap_iter qiter"
  ui_assignments :: "(nat \<times> expr) list"
  ui_tx :: tx_id
  ui_columns :: "column list"
  ui_table :: string
  ui_count :: int

definition new_update :: "heap_iter qiter \<Rightarrow> (nat \<times> expr) list \<Rightarrow> tx_id \<Rightarrow> update_iter" where
  "new_update c upd tx =
     \<lparr>ui_child = c, ui_assignments = upd, ui_tx = tx, ui_columns = [], ui_table = [], ui_count = 0\<rparr>"

definition update_begin :: "update_iter \<Rightarrow> (db, update_iter) act" where
  "update_begin u =
     bindA (child_begin (ui_child u)) (\<lambda>c.
     bindA (liftA (rid_table (get_columns c))) (\<lambda>t.
       returnA (u\<lparr>ui_child := c, ui_count := 0, ui_columns := get_columns c, ui_table := t\<rparr>)))"

definition update_reset :: "update_iter \<Rightarrow> (db, update_iter) act" where
  "update_reset u = bindA (child_reset (ui_child u)) (\<lambda>c. returnA (u\<lparr>ui_child := c\<rparr>))"

text \<open>
  The assignments run in order on the row they change, so a later one sees the new values; the
  new value must have the type of the column.
\<close>

definition assign_value :: "column list \<Rightarrow> nat \<Rightarrow> db_value \<Rightarrow> row \<Rightarrow> row res" where
  "assign_value cols i v r =
     bindE (nthE cols i) (\<lambda>c.
       if (is_int v \<and> ci_datatype (col_info c) = DT_INT) \<or> (is_string v \<and> ci_datatype (col_info c) = DT_STR)
       then if i < length r then Inr (r[i := v]) else Inl Stuck
       else Inl (QueryException (''Type mismatch in update assignment for column '' @ ci_name (col_info c))))"

fun assign :: "column list \<Rightarrow> (nat \<times> expr) list \<Rightarrow> row \<Rightarrow> row res" where
  "assign cols [] r = Inr r"
| "assign cols ((i, e) # upd) r =
     bindE (expr_eval e r) (\<lambda>v. bindE (assign_value cols i v r) (\<lambda>r. assign cols upd r))"

partial_function (option) update_next :: "wait \<Rightarrow> update_iter \<Rightarrow> db \<Rightarrow> ((row \<times> update_iter) res \<times> db) option" where
  "update_next w u s =
     bindA (child_next (ui_child u)) (\<lambda>x s. let u = u\<lparr>ui_child := snd x\<rparr> in
       if row_invalid (fst x) then returnA (no_row, u) s
       else bindA (liftA (as_rid (last (fst x)))) (\<lambda>first s.
       bindA (get_table_info (ui_table u) (ui_tx u)) (\<lambda>t s.
       case t of
         None \<Rightarrow> throwA Stuck s
       | Some ti \<Rightarrow>
         bindA (try_acquire_lock w (ui_tx u) (ti_table_id ti) first) (\<lambda>_ s.
         bindA (get_record_header (ti_heap_file ti) first) (\<lambda>h s.
         bindA (heap_read (ti_heap_file ti) first (ui_tx u)) (\<lambda>v s.
           if \<not> snd v then update_next w u s
           else
             bindA (get_record (ti_heap_file ti) (fst v)) (\<lambda>rec s.
             bindA (liftA (matches (ui_child u) rec)) (\<lambda>m s.
               if \<not> m then update_next w u s
               else case h of
                 None \<Rightarrow> throwA Stuck s
               | Some h \<Rightarrow>
                 bindA (liftA (assign (ui_columns u) (ui_assignments u) (rec @ [VRid (first_rid h)]))) (\<lambda>rec.
                 bindA (cat_update_record w (ui_table u) first rec (ui_tx u)) (\<lambda>_.
                   if is_rid (last rec) then returnA (butlast rec, u\<lparr>ui_count := ui_count u + 1\<rparr>)
                   else throwA Stuck)) s) s) s) s) s) s) s) s) s"

section \<open>Deletion\<close>

record deletion_iter =
  di_child :: "heap_iter qiter"
  di_tx :: tx_id
  di_columns :: "column list"
  di_table :: string
  di_count :: int

definition new_deletion :: "heap_iter qiter \<Rightarrow> tx_id \<Rightarrow> deletion_iter" where
  "new_deletion c tx = \<lparr>di_child = c, di_tx = tx, di_columns = [], di_table = [], di_count = 0\<rparr>"

definition deletion_begin :: "deletion_iter \<Rightarrow> (db, deletion_iter) act" where
  "deletion_begin d =
     bindA (child_begin (di_child d)) (\<lambda>c.
     bindA (liftA (rid_table (get_columns c))) (\<lambda>t.
       returnA (d\<lparr>di_child := c, di_count := 0, di_columns := get_columns c, di_table := t\<rparr>)))"

definition deletion_reset :: "deletion_iter \<Rightarrow> (db, deletion_iter) act" where
  "deletion_reset d = bindA (child_reset (di_child d)) (\<lambda>c. returnA (d\<lparr>di_child := c\<rparr>))"

partial_function (option) deletion_next ::
  "wait \<Rightarrow> deletion_iter \<Rightarrow> db \<Rightarrow> ((row \<times> deletion_iter) res \<times> db) option" where
  "deletion_next w d s =
     bindA (child_next (di_child d)) (\<lambda>x s. let d = d\<lparr>di_child := snd x\<rparr> in
       if row_invalid (fst x) then returnA (no_row, d) s
       else bindA (get_table_info (di_table d) (di_tx d)) (\<lambda>t s.
       bindA (liftA (as_rid (last (fst x)))) (\<lambda>first s.
       case t of
         None \<Rightarrow> throwA Stuck s
       | Some ti \<Rightarrow>
         bindA (try_acquire_lock w (di_tx d) (ti_table_id ti) first) (\<lambda>_ s.
         bindA (heap_read (ti_heap_file ti) first (di_tx d)) (\<lambda>v s.
           if \<not> snd v then deletion_next w d s
           else
             bindA (get_record (ti_heap_file ti) (fst v)) (\<lambda>rec s.
             bindA (liftA (matches (di_child d) rec)) (\<lambda>m s.
               if \<not> m then deletion_next w d s
               else
                 bindA (cat_delete_record w (di_table d) first (di_tx d)) (\<lambda>_.
                   returnA (fst x, d\<lparr>di_count := di_count d + 1\<rparr>)) s) s) s) s) s) s) s) s"

section \<open>Insertion and creation\<close>

fun value_of_constant :: "sql_constant \<Rightarrow> db_value res" where
  "value_of_constant (CInt i) = Inr (VInt i)"
| "value_of_constant (CStr t) = value_of_string t"

definition insertion_execute :: "string \<Rightarrow> sql_constant list \<Rightarrow> tx_id \<Rightarrow> (db, unit) act" where
  "insertion_execute table vs tx =
     bindA (liftA (mapE value_of_constant vs)) (\<lambda>r. bindA (cat_insert_record table r tx) (\<lambda>_. returnA ()))"

definition creation_execute :: "string \<Rightarrow> schema \<Rightarrow> tx_id \<Rightarrow> (db, unit) act" where
  "creation_execute table sch tx = bindA (create_table table sch tx) (\<lambda>_. returnA ())"

end
