(* ===== verification/Preprocessor.thy ===== *)
theory Preprocessor
  imports Query_Actions
begin

text \<open>
  The preprocessor (\<^verbatim>\<open>src/query/parser/query_preprocessor/query_preprocessor.cc\<close>): it visits the
  parse tree of a query, looks up its tables and columns in the catalog and builds a logical
  plan. The parse tree has one datatype per rule of \<^verbatim>\<open>IIC3413DBParser.g4\<close>; tokens are strings.
\<close>

section \<open>Parse trees\<close>

datatype constant_ctx = IntegerToken string | StringToken string

text \<open>\<^verbatim>\<open>identifier ('.' identifier)?\<close>\<close>

datatype column_ctx = PlainColumn string | DottedColumn string string

datatype column_or_constant_ctx = ColumnOperand column_ctx | ConstantOperand constant_ctx

text \<open>The second operand of a comparison is optional in the grammar.\<close>

datatype simple_expr_ctx =
    ComparisonExpr column_or_constant_ctx "(string \<times> column_or_constant_ctx) option"
  | LikeExpr column_ctx string
  | BetweenExpr column_ctx constant_ctx constant_ctx

text \<open>Unary and atomic expressions have an empty alternative.\<close>

datatype additive_ctx = AdditiveExpr multiplicative_ctx "(string \<times> multiplicative_ctx) list"
  and multiplicative_ctx = MultiplicativeExpr unary_ctx "(string \<times> unary_ctx) list"
  and unary_ctx = UnaryEmpty | UnaryAtomic atomic_ctx | UnaryPlus unary_ctx | UnaryMinus unary_ctx
  and atomic_ctx =
    AtomicEmpty | AtomicConstant constant_ctx | AtomicParen additive_ctx | AtomicColumn column_ctx

datatype table_item_ctx =
    TableItem string "string option"
  | LeftOuterItem string string "(column_ctx \<times> column_ctx) list" string
  | FullOuterItem string string "(column_ctx \<times> column_ctx) list" string

datatype datatype_ctx = StrType | IntType

text \<open>In a SELECT, no list of columns is the asterisk.\<close>

datatype query_ctx =
    CreateQuery string "(string \<times> datatype_ctx) list"
  | InsertQuery string "constant_ctx list"
  | SelectQuery bool "column_ctx list option" "table_item_ctx list" "simple_expr_ctx list option" "string option"
  | UpdateQuery string "(string \<times> additive_ctx) list" "simple_expr_ctx list option"
  | DeleteQuery string "simple_expr_ctx list option"

text \<open>\<^verbatim>\<open>getText\<close>: the tokens of a context one after the other.\<close>

fun constant_text :: "constant_ctx \<Rightarrow> string" where
  "constant_text (IntegerToken t) = t" | "constant_text (StringToken t) = t"

fun column_text :: "column_ctx \<Rightarrow> string" where
  "column_text (PlainColumn c) = c" | "column_text (DottedColumn a c) = a @ ''.'' @ c"

fun operand_text :: "column_or_constant_ctx \<Rightarrow> string" where
  "operand_text (ColumnOperand c) = column_text c" | "operand_text (ConstantOperand c) = constant_text c"

section \<open>Constants\<close>

definition unescape_char :: "char \<Rightarrow> string" where
  "unescape_char c =
     (if c = CHR ''t'' then [CHR 0x09]
      else if c = CHR ''n'' then [CHR 0x0A]
      else if c = CHR ''r'' then [CHR 0x0D]
      else if c = CHR ''b'' then [CHR 0x08]
      else if c = CHR ''f'' then [CHR 0x0C]
      else if c = CHR 0x22 then [CHR 0x22]
      else [CHR 0x5C, c])"

fun unescape_string :: "string \<Rightarrow> string" where
  "unescape_string [] = []"
| "unescape_string [c] = [c]"
| "unescape_string (c # d # s) =
     (if c = CHR 0x5C then unescape_char d @ unescape_string s
      else c # unescape_string (d # s))"

text \<open>\<^verbatim>\<open>raw.substr(1, raw.size() - 2)\<close>\<close>

definition strip_quotes :: "string \<Rightarrow> string" where
  "strip_quotes raw = take (length raw - 2) (drop 1 raw)"

definition digit_value :: "char \<Rightarrow> nat" where
  "digit_value c = of_char c - 48"

definition is_digit :: "char \<Rightarrow> bool" where
  "is_digit c \<longleftrightarrow> (let n = of_char c :: nat in 48 \<le> n \<and> n \<le> 57)"

definition digits_value :: "string \<Rightarrow> nat" where
  "digits_value s = foldl (\<lambda>n c. 10 * n + digit_value c) 0 (takeWhile is_digit s)"

definition signed_value :: "string \<Rightarrow> int" where
  "signed_value s =
     (case s of [] \<Rightarrow> 0
      | c # cs \<Rightarrow> if c = CHR ''-'' then - int (digits_value cs) else int (digits_value s))"

text \<open>\<^verbatim>\<open>std::stoll\<close> of an \<^verbatim>\<open>INTEGER\<close> token, which is an optional minus sign and digits.\<close>

definition stoll :: "string \<Rightarrow> (64 word) res" where
  "stoll s =
     (let n = signed_value s in
      if - (2 ^ 63) \<le> n \<and> n < 2 ^ 63 then Inr (word_of_int n)
      else Inl (QueryException (''Integer '' @ s @ '' is out of range'')))"

fun get_constant :: "constant_ctx \<Rightarrow> sql_constant res" where
  "get_constant (StringToken raw) =
     (let s = unescape_string (strip_quotes raw) in
      if length s > MAX_STRLEN
      then Inl (QueryException (''String '' @ [CHR 0x22] @ s @ [CHR 0x22] @ '' is too long ('' @
             nat_to_string (length s) @ '' > '' @ nat_to_string MAX_STRLEN @ '')''))
      else Inr (CStr s))"
| "get_constant (IntegerToken t) = bindE (stoll t) (\<lambda>i. Inr (CInt i))"

definition get_value :: "constant_ctx \<Rightarrow> db_value res" where
  "get_value c = bindE (get_constant c) value_of_constant"

section \<open>Tables and columns in scope\<close>

text \<open>\<^verbatim>\<open>from_tables\<close> and \<^verbatim>\<open>from_outer_join_tables\<close>: maps in the order of their keys.\<close>

record scope =
  from_tables :: "(string \<times> string) list"
  from_outer_join_tables :: "(string \<times> string \<times> string) list"

definition empty_scope :: scope where
  "empty_scope = \<lparr>from_tables = [], from_outer_join_tables = []\<rparr>"

fun map_insert :: "string \<Rightarrow> 'b \<Rightarrow> (string \<times> 'b) list \<Rightarrow> (string \<times> 'b) list" where
  "map_insert k v [] = [(k, v)]"
| "map_insert k v ((l, w) # xs) =
     (if k < l then (k, v) # (l, w) # xs else if l < k then (l, w) # map_insert k v xs else (l, w) # xs)"

definition table_exists :: "string \<Rightarrow> tx_id \<Rightarrow> (db, bool) act" where
  "table_exists t tx = bindA (get_table_info t tx) (\<lambda>ti. returnA (ti \<noteq> None))"

definition not_there :: "string \<Rightarrow> db_error" where
  "not_there t = QueryException (''Table '' @ t @ '' does not exist'')"

definition check_table :: "string \<Rightarrow> tx_id \<Rightarrow> (db, unit) act" where
  "check_table t tx =
     bindA (table_exists t tx) (\<lambda>e. if e then returnA () else throwA (not_there t))"

definition known_table :: "string \<Rightarrow> tx_id \<Rightarrow> (db, table_info) act" where
  "known_table t tx =
     bindA (get_table_info t tx) (\<lambda>ti. case ti of None \<Rightarrow> throwA (not_there t) | Some ti \<Rightarrow> returnA ti)"

text \<open>A pointer to a table used without a look at it.\<close>

definition deref_table :: "string \<Rightarrow> tx_id \<Rightarrow> (db, table_info) act" where
  "deref_table t tx =
     bindA (get_table_info t tx) (\<lambda>ti. case ti of None \<Rightarrow> throwA Stuck | Some ti \<Rightarrow> returnA ti)"

definition has_column :: "table_info \<Rightarrow> string \<Rightarrow> bool" where
  "has_column ti c \<longleftrightarrow> (\<exists>d \<in> set (columns (ti_schema ti)). ci_name d = c)"

definition table_has_column :: "string \<Rightarrow> string \<Rightarrow> tx_id \<Rightarrow> (db, bool) act" where
  "table_has_column t c tx = bindA (deref_table t tx) (\<lambda>ti. returnA (has_column ti c))"

text \<open>The datatype of the last column with the name, \<^verbatim>\<open>INVALID\<close> when there is none.\<close>

definition column_type :: "table_info \<Rightarrow> string \<Rightarrow> data_type" where
  "column_type ti c = fold (\<lambda>d t. if ci_name d = c then ci_datatype d else t) (columns (ti_schema ti)) DT_INVALID"

definition column_of :: "string \<Rightarrow> string \<Rightarrow> string \<Rightarrow> tx_id \<Rightarrow> (db, column) act" where
  "column_of a t c tx =
     bindA (deref_table t tx) (\<lambda>ti.
       returnA \<lparr>col_alias = a, col_table = t,
         col_info = \<lparr>ci_name = c, ci_datatype = column_type ti c, ci_table_id = ti_table_id ti\<rparr>\<rparr>)"

fun get_outer_join_table_column :: "column_ctx \<Rightarrow> string \<Rightarrow> tx_id \<Rightarrow> (db, column) act" where
  "get_outer_join_table_column (PlainColumn c) a tx =
     throwA (QueryException ''Invalid call of column getter with implicit column'')"
| "get_outer_join_table_column (DottedColumn t c) a tx =
     bindA (table_has_column t c tx) (\<lambda>h.
       if h then column_of a t c tx
       else throwA (QueryException (''Table '' @ t @ '' does not have column '' @ c)))"

text \<open>Where an unqualified column belongs: a table named in FROM without an alias of its own.\<close>

fun infer_in :: "column_info list \<Rightarrow> string \<Rightarrow> string \<Rightarrow> string option \<Rightarrow> string option res" where
  "infer_in [] t c found = Inr found"
| "infer_in (d # ds) t c found =
     (if ci_name d = c then
        (case found of
           None \<Rightarrow> infer_in ds t c (Some t)
         | Some t' \<Rightarrow> Inl (QueryException (''Ambiguous column `'' @ c @ ''`, present in tables `'' @ t' @
             ''` and `'' @ t @ ''`'')))
      else infer_in ds t c found)"

fun infer_table :: "(string \<times> string) list \<Rightarrow> string \<Rightarrow> tx_id \<Rightarrow> string option \<Rightarrow> (db, string option) act" where
  "infer_table [] c tx found = returnA found"
| "infer_table ((a, t) # ts) c tx found =
     (if a \<noteq> t then infer_table ts c tx found
      else bindA (deref_table t tx) (\<lambda>ti.
           bindA (liftA (infer_in (columns (ti_schema ti)) t c found)) (\<lambda>found.
             infer_table ts c tx found)))"

fun get_column :: "scope \<Rightarrow> tx_id \<Rightarrow> column_ctx \<Rightarrow> (db, column) act" where
  "get_column sc tx (DottedColumn a c) =
     (case map_of (from_outer_join_tables sc) a of
        Some (l, r) \<Rightarrow>
          bindA (table_has_column l c tx) (\<lambda>h.
            if h then column_of a l c tx
            else bindA (table_has_column r c tx) (\<lambda>h.
              if h then column_of a r c tx
              else throwA (QueryException (''Column '' @ c @ '' not present in '' @ a @ '' outer join''))))
      | None \<Rightarrow>
          (case map_of (from_tables sc) a of
             None \<Rightarrow> throwA (QueryException (''Table '' @ a @ '', not present in FROM''))
           | Some t \<Rightarrow> column_of a t c tx))"
| "get_column sc tx (PlainColumn c) =
     bindA (infer_table (from_tables sc) c tx None) (\<lambda>found.
       case found of
         None \<Rightarrow> throwA (QueryException (''Could not infer the table where column `'' @ c @ ''` belongs''))
       | Some t \<Rightarrow> column_of t t c tx)"

section \<open>Expressions\<close>

text \<open>
  The visitors leave their result in \<^verbatim>\<open>current_expr\<close>, which is null whenever one of them starts;
  the empty alternatives leave it so.
\<close>

fun visit_additive :: "scope \<Rightarrow> tx_id \<Rightarrow> additive_ctx \<Rightarrow> (db, expr_plan) act"
  and visit_additive_rest :: "scope \<Rightarrow> tx_id \<Rightarrow> expr_plan \<Rightarrow> (string \<times> multiplicative_ctx) list \<Rightarrow> (db, expr_plan) act"
  and visit_multiplicative :: "scope \<Rightarrow> tx_id \<Rightarrow> multiplicative_ctx \<Rightarrow> (db, expr_plan) act"
  and visit_multiplicative_rest :: "scope \<Rightarrow> tx_id \<Rightarrow> expr_plan \<Rightarrow> (string \<times> unary_ctx) list \<Rightarrow> (db, expr_plan) act"
  and visit_unary :: "scope \<Rightarrow> tx_id \<Rightarrow> unary_ctx \<Rightarrow> (db, expr_plan) act"
  and visit_atomic :: "scope \<Rightarrow> tx_id \<Rightarrow> atomic_ctx \<Rightarrow> (db, expr_plan) act" where
  "visit_additive sc tx (AdditiveExpr m ms) =
     bindA (visit_multiplicative sc tx m) (\<lambda>e. visit_additive_rest sc tx e ms)"
| "visit_additive_rest sc tx e [] = returnA e"
| "visit_additive_rest sc tx e ((op, m) # ms) =
     bindA (visit_multiplicative sc tx m) (\<lambda>r. visit_additive_rest sc tx (ExprPlanArithmetic e op r) ms)"
| "visit_multiplicative sc tx (MultiplicativeExpr u us) =
     bindA (visit_unary sc tx u) (\<lambda>e. visit_multiplicative_rest sc tx e us)"
| "visit_multiplicative_rest sc tx e [] = returnA e"
| "visit_multiplicative_rest sc tx e ((op, u) # us) =
     bindA (visit_unary sc tx u) (\<lambda>r. visit_multiplicative_rest sc tx (ExprPlanArithmetic e op r) us)"
| "visit_unary sc tx UnaryEmpty = returnA ExprPlanNull"
| "visit_unary sc tx (UnaryAtomic a) = visit_atomic sc tx a"
| "visit_unary sc tx (UnaryPlus u) = visit_unary sc tx u"
| "visit_unary sc tx (UnaryMinus u) = bindA (visit_unary sc tx u) (\<lambda>e. returnA (unary_arithmetic ''-'' e))"
| "visit_atomic sc tx AtomicEmpty = returnA ExprPlanNull"
| "visit_atomic sc tx (AtomicConstant c) = bindA (liftA (get_value c)) (\<lambda>v. returnA (ExprPlanTerm v))"
| "visit_atomic sc tx (AtomicParen a) = visit_additive sc tx a"
| "visit_atomic sc tx (AtomicColumn c) = bindA (get_column sc tx c) (\<lambda>c. returnA (ExprPlanColumn c))"

fun visit_column_or_constant :: "scope \<Rightarrow> tx_id \<Rightarrow> column_or_constant_ctx \<Rightarrow> (db, expr_plan) act" where
  "visit_column_or_constant sc tx (ColumnOperand c) =
     bindA (get_column sc tx c) (\<lambda>c. returnA (ExprPlanColumn c))"
| "visit_column_or_constant sc tx (ConstantOperand c) =
     bindA (liftA (get_value c)) (\<lambda>v. returnA (ExprPlanTerm v))"

definition comparison :: "string \<Rightarrow> expr_plan \<Rightarrow> expr_plan \<Rightarrow> expr_plan res" where
  "comparison op l r =
     (if op = ''=='' then Inr (ExprPlanEquals l r)
      else if op = ''!='' then Inr (ExprPlanNotEquals l r)
      else if op = ''<'' then Inr (ExprPlanLess l r)
      else if op = ''<='' then Inr (ExprPlanLessOrEquals l r)
      else if op = ''>='' then Inr (ExprPlanLessOrEquals r l)
      else if op = ''>'' then Inr (ExprPlanLess r l)
      else Inl (RuntimeError (op @ '' not recognized as a valid ComparisonExpr operator'')))"

text \<open>A missing second operand is a null pointer.\<close>

definition visit_comparison ::
  "scope \<Rightarrow> tx_id \<Rightarrow> column_or_constant_ctx \<Rightarrow> (string \<times> column_or_constant_ctx) option \<Rightarrow> (db, expr_plan) act" where
  "visit_comparison sc tx a rest =
     bindA (visit_column_or_constant sc tx a) (\<lambda>l.
       case rest of
         None \<Rightarrow> throwA Stuck
       | Some (op, b) \<Rightarrow>
           bindA (visit_column_or_constant sc tx b) (\<lambda>r.
             if expr_get_datatype l \<noteq> expr_get_datatype r
             then throwA (QueryException (''Cannot compare different DataTypes: '' @ operand_text a @ op @ operand_text b))
             else liftA (comparison op l r)))"

definition visit_like :: "scope \<Rightarrow> tx_id \<Rightarrow> column_ctx \<Rightarrow> string \<Rightarrow> (db, expr_plan) act" where
  "visit_like sc tx c raw =
     bindA (get_column sc tx c) (\<lambda>c.
       if ci_datatype (col_info c) \<noteq> DT_STR then throwA (QueryException ''LIKE can only be applied to strings'')
       else returnA (ExprPlanLike c (unescape_string (strip_quotes raw))))"

definition visit_between :: "scope \<Rightarrow> tx_id \<Rightarrow> column_ctx \<Rightarrow> constant_ctx \<Rightarrow> constant_ctx \<Rightarrow> (db, expr_plan) act" where
  "visit_between sc tx c a b =
     bindA (get_column sc tx c) (\<lambda>c.
     bindA (liftA (get_value a)) (\<lambda>lo.
     bindA (liftA (get_value b)) (\<lambda>hi.
       if \<not> (is_int lo \<and> is_int hi \<or> is_string lo \<and> is_string hi)
       then throwA (QueryException ''BETWEEN bounds must have the same type'')
       else if \<not> (is_int lo \<and> ci_datatype (col_info c) = DT_INT \<or> is_string lo \<and> ci_datatype (col_info c) = DT_STR)
       then throwA (QueryException ''BETWEEN bounds must have the same type as the column used'')
       else returnA (ExprPlanBetween c lo hi))))"

fun visit_simple :: "scope \<Rightarrow> tx_id \<Rightarrow> simple_expr_ctx \<Rightarrow> (db, expr_plan) act" where
  "visit_simple sc tx (ComparisonExpr a rest) = visit_comparison sc tx a rest"
| "visit_simple sc tx (LikeExpr c raw) = visit_like sc tx c raw"
| "visit_simple sc tx (BetweenExpr c a b) = visit_between sc tx c a b"

definition visit_where ::
  "scope \<Rightarrow> tx_id \<Rightarrow> simple_expr_ctx list option \<Rightarrow> query_plan \<Rightarrow> (db, query_plan) act" where
  "visit_where sc tx w p =
     (case w of
        None \<Rightarrow> returnA p
      | Some es \<Rightarrow> bindA (mapA (visit_simple sc tx) es) (\<lambda>es. returnA (SelectionPlan p es)))"

section \<open>FROM\<close>

definition once :: "string \<Rightarrow> db_error" where
  "once a = QueryException (''Table '' @ a @ '' should only appear once in the FROM clause'')"

definition visit_table :: "tx_id \<Rightarrow> string \<Rightarrow> string option \<Rightarrow> scope \<Rightarrow> (db, query_plan \<times> scope) act" where
  "visit_table tx t al sc =
     bindA (check_table t tx) (\<lambda>_.
       let a = (case al of None \<Rightarrow> t | Some a \<Rightarrow> a) in
       if map_of (from_tables sc) a \<noteq> None then throwA (once a)
       else returnA (RelationPlan a t, sc\<lparr>from_tables := map_insert a t (from_tables sc)\<rparr>))"

definition visit_on :: "tx_id \<Rightarrow> string \<Rightarrow> column_ctx \<times> column_ctx \<Rightarrow> (db, column \<times> column) act" where
  "visit_on tx a = (\<lambda>(x, y).
     bindA (get_outer_join_table_column x a tx) (\<lambda>l.
     bindA (get_outer_join_table_column y a tx) (\<lambda>r.
       if ci_datatype (col_info l) \<noteq> ci_datatype (col_info r)
       then throwA (QueryException (''Cannot compare different DataTypes: '' @ column_text x @ ''=='' @ column_text y))
       else returnA (l, r))))"

definition outer_join_columns ::
  "tx_id \<Rightarrow> string \<Rightarrow> string \<Rightarrow> (column_ctx \<times> column_ctx) list \<Rightarrow> string \<Rightarrow> scope \<Rightarrow>
   (db, (column \<times> column) list \<times> scope) act" where
  "outer_join_columns tx l r ons a sc =
     bindA (check_table l tx) (\<lambda>_.
     bindA (check_table r tx) (\<lambda>_.
       if map_of (from_outer_join_tables sc) a \<noteq> None then throwA (once a)
       else bindA (mapA (visit_on tx a) ons) (\<lambda>cs.
         returnA (cs, sc\<lparr>from_outer_join_tables := map_insert a (l, r) (from_outer_join_tables sc)\<rparr>))))"

definition visit_left_outer_join ::
  "tx_id \<Rightarrow> string \<Rightarrow> string \<Rightarrow> (column_ctx \<times> column_ctx) list \<Rightarrow> string \<Rightarrow> scope \<Rightarrow> (db, query_plan \<times> scope) act" where
  "visit_left_outer_join tx l r ons a sc =
     bindA (outer_join_columns tx l r ons a sc) (\<lambda>(cs, sc).
       if cs = [] then throwA Stuck
       else returnA (LeftOuterJoinPlan a (RelationPlan a l) (RelationPlan a r) cs, sc))"

definition visit_full_outer_join ::
  "tx_id \<Rightarrow> string \<Rightarrow> string \<Rightarrow> (column_ctx \<times> column_ctx) list \<Rightarrow> string \<Rightarrow> scope \<Rightarrow> (db, query_plan \<times> scope) act" where
  "visit_full_outer_join tx l r ons a sc =
     bindA (outer_join_columns tx l r ons a sc) (\<lambda>(cs, sc).
       if cs = [] then throwA Stuck
       else returnA (FullOuterJoinPlan a (RelationPlan a l) (RelationPlan a r) cs, sc))"

fun visit_item :: "tx_id \<Rightarrow> table_item_ctx \<Rightarrow> scope \<Rightarrow> (db, query_plan \<times> scope) act" where
  "visit_item tx (TableItem t al) sc = visit_table tx t al sc"
| "visit_item tx (LeftOuterItem l r ons a) sc = visit_left_outer_join tx l r ons a sc"
| "visit_item tx (FullOuterItem l r ons a) sc = visit_full_outer_join tx l r ons a sc"

fun visit_items :: "tx_id \<Rightarrow> table_item_ctx list \<Rightarrow> scope \<Rightarrow> (db, query_plan list \<times> scope) act" where
  "visit_items tx [] sc = returnA ([], sc)"
| "visit_items tx (i # is) sc =
     bindA (visit_item tx i sc) (\<lambda>(p, sc). bindA (visit_items tx is sc) (\<lambda>(ps, sc). returnA (p # ps, sc)))"

definition visit_table_list :: "tx_id \<Rightarrow> table_item_ctx list \<Rightarrow> (db, query_plan \<times> scope) act" where
  "visit_table_list tx is =
     bindA (visit_items tx is empty_scope) (\<lambda>(ps, sc).
       returnA (case ps of [p] \<Rightarrow> p | _ \<Rightarrow> CartesianProductPlan ps, sc))"

section \<open>SELECT\<close>

definition columns_under :: "string \<Rightarrow> string \<Rightarrow> column_info list \<Rightarrow> column list" where
  "columns_under a t = map (\<lambda>c. \<lparr>col_alias = a, col_table = t, col_info = c\<rparr>)"

text \<open>The asterisk: the columns of the tables but the RIDs, then those of the outer joins with the RIDs.\<close>

definition stored_columns :: "table_info \<Rightarrow> column_info list" where
  "stored_columns ti = filter (\<lambda>c. ci_datatype c \<noteq> DT_RID) (columns (ti_schema ti))"

definition all_columns :: "scope \<Rightarrow> tx_id \<Rightarrow> (db, column list) act" where
  "all_columns sc tx =
     bindA (mapA (\<lambda>(a, t). bindA (known_table t tx) (\<lambda>ti. returnA (columns_under a t (stored_columns ti))))
       (from_tables sc)) (\<lambda>tcs.
     bindA (mapA (\<lambda>(a, l, r).
         bindA (known_table l tx) (\<lambda>li. bindA (known_table r tx) (\<lambda>ri.
           returnA (columns_under a l (columns (ti_schema li)) @ columns_under a r (columns (ti_schema ri))))))
       (from_outer_join_tables sc)) (\<lambda>jcs.
       returnA (concat tcs @ concat jcs)))"

definition visit_select :: "scope \<Rightarrow> tx_id \<Rightarrow> column_ctx list option \<Rightarrow> (db, column list) act" where
  "visit_select sc tx cs =
     (case cs of None \<Rightarrow> all_columns sc tx | Some cs \<Rightarrow> mapA (get_column sc tx) cs)"

definition NO_LIMIT :: "64 word" where "NO_LIMIT = 2 ^ 63 - 1"

definition visit_limit :: "string option \<Rightarrow> (64 word) res" where
  "visit_limit l =
     (case l of
        None \<Rightarrow> Inr NO_LIMIT
      | Some t \<Rightarrow> bindE (stoll t) (\<lambda>n.
          if sint n \<le> 0 then Inl (QueryException (''Invalid LIMIT '' @ int_to_string (sint n))) else Inr n))"

definition visit_select_query ::
  "tx_id \<Rightarrow> bool \<Rightarrow> column_ctx list option \<Rightarrow> table_item_ctx list \<Rightarrow> simple_expr_ctx list option \<Rightarrow> string option \<Rightarrow>
   (db, query_plan) act" where
  "visit_select_query tx d cs is w l =
     bindA (liftA (visit_limit l)) (\<lambda>lim.
     bindA (visit_table_list tx is) (\<lambda>(p, sc).
     bindA (visit_where sc tx w p) (\<lambda>p.
     bindA (visit_select sc tx cs) (\<lambda>proj. returnA (ProjectionPlan p d lim proj)))))"

section \<open>Changes\<close>

fun datatype_of :: "datatype_ctx \<Rightarrow> data_type" where
  "datatype_of StrType = DT_STR" | "datatype_of IntType = DT_INT"

definition visit_create :: "tx_id \<Rightarrow> string \<Rightarrow> (string \<times> datatype_ctx) list \<Rightarrow> (db, logical_plan) act" where
  "visit_create tx t cs =
     bindA (table_exists t tx) (\<lambda>e.
       if e then throwA (QueryException (''Table '' @ t @ '' already exists''))
       else returnA (CreationPlan t
         \<lparr>columns = map (\<lambda>(c, d). \<lparr>ci_name = c, ci_datatype = datatype_of d, ci_table_id = 0\<rparr>) cs\<rparr>))"

fun check_constant :: "string \<Rightarrow> column_info \<Rightarrow> sql_constant \<Rightarrow> unit res" where
  "check_constant t c v =
     (case ci_datatype c of
        DT_INT \<Rightarrow> (case v of CInt i \<Rightarrow> Inr ()
          | CStr s \<Rightarrow> Inl (QueryException (''Value for '' @ t @ ''.'' @ ci_name c @ '' must be INT'')))
      | DT_STR \<Rightarrow> (case v of CStr s \<Rightarrow> Inr ()
          | CInt i \<Rightarrow> Inl (QueryException (''Values for '' @ t @ ''.'' @ ci_name c @ '' must be STRING'')))
      | DT_RID \<Rightarrow> Inl (NotImplementedException ''Unhandled DataType: 2'')
      | DT_INVALID \<Rightarrow> Inl (NotImplementedException ''Unhandled DataType: 3''))"

fun insert_values :: "string \<Rightarrow> column_info list \<Rightarrow> constant_ctx list \<Rightarrow> sql_constant list res" where
  "insert_values t (c # cs) (v # vs) =
     bindE (get_constant v) (\<lambda>v. bindE (check_constant t c v) (\<lambda>_.
       bindE (insert_values t cs vs) (\<lambda>vs. Inr (v # vs))))"
| "insert_values t _ _ = Inr []"

text \<open>The last column of the schema is the RID, which is not given.\<close>

definition visit_insert :: "tx_id \<Rightarrow> string \<Rightarrow> constant_ctx list \<Rightarrow> (db, logical_plan) act" where
  "visit_insert tx t vs =
     bindA (check_table t tx) (\<lambda>_.
     bindA (known_table t tx) (\<lambda>ti.
       let n = of_nat (length (columns (ti_schema ti))) - 1 :: 64 word in
       if n \<noteq> of_nat (length vs)
       then throwA (QueryException (''Table '' @ t @ '' has '' @ nat_to_string (unat n) @ '' columns, but '' @
              nat_to_string (unat (of_nat (length vs) :: 64 word)) @ '' values were provided''))
       else bindA (liftA (insert_values t (butlast (columns (ti_schema ti))) vs)) (\<lambda>vs.
         returnA (InsertionPlan t vs))))"

fun column_position :: "column_info list \<Rightarrow> string \<Rightarrow> nat option" where
  "column_position [] c = None"
| "column_position (d # ds) c = (if ci_name d = c then Some 0 else map_option Suc (column_position ds c))"

definition visit_assignment ::
  "scope \<Rightarrow> tx_id \<Rightarrow> table_info \<Rightarrow> string \<Rightarrow> string \<times> additive_ctx \<Rightarrow> (db, nat \<times> expr_plan) act" where
  "visit_assignment sc tx ti t = (\<lambda>(c, e).
     case column_position (columns (ti_schema ti)) c of
       None \<Rightarrow> throwA (QueryException (''Column '' @ c @ '' does not exist in table '' @ t))
     | Some i \<Rightarrow> bindA (visit_additive sc tx e) (\<lambda>e. returnA (i, e)))"

definition table_scope :: "string \<Rightarrow> scope" where
  "table_scope t = \<lparr>from_tables = [(t, t)], from_outer_join_tables = []\<rparr>"

definition visit_update ::
  "tx_id \<Rightarrow> string \<Rightarrow> (string \<times> additive_ctx) list \<Rightarrow> simple_expr_ctx list option \<Rightarrow> (db, logical_plan) act" where
  "visit_update tx t upd w =
     bindA (check_table t tx) (\<lambda>_.
     bindA (known_table t tx) (\<lambda>ti.
     bindA (mapA (visit_assignment (table_scope t) tx ti t) upd) (\<lambda>upd.
     bindA (visit_where (table_scope t) tx w (RelationPlan t t)) (\<lambda>p.
       returnA (UpdatePlan ti upd (Some p))))))"

definition visit_delete :: "tx_id \<Rightarrow> string \<Rightarrow> simple_expr_ctx list option \<Rightarrow> (db, logical_plan) act" where
  "visit_delete tx t w =
     bindA (known_table t tx) (\<lambda>ti.
     bindA (visit_where (table_scope t) tx w (RelationPlan t t)) (\<lambda>p.
       returnA (DeletionPlan ti (Some p))))"

fun preprocess :: "tx_id \<Rightarrow> query_ctx \<Rightarrow> (db, logical_plan) act" where
  "preprocess tx (CreateQuery t cs) = visit_create tx t cs"
| "preprocess tx (InsertQuery t vs) = visit_insert tx t vs"
| "preprocess tx (SelectQuery d cs is w l) =
     bindA (visit_select_query tx d cs is w l) (\<lambda>p. returnA (QueryPlan p))"
| "preprocess tx (UpdateQuery t upd w) = visit_update tx t upd w"
| "preprocess tx (DeleteQuery t w) = visit_delete tx t w"

end
