(* ===== verification/Optimizer.thy ===== *)
theory Optimizer
  imports Query_Actions
begin

text \<open>
  The optimizer (\<^verbatim>\<open>src/query/optimizer/optimizer.cc\<close>): a visitor that turns a logical plan
  into operators. It counts how often each column is needed (\<^verbatim>\<open>column_usage\<close>) on the way down,
  so that relations and joins list only the columns something above them needs.
\<close>

section \<open>Counting the uses of a column\<close>

text \<open>
  \<^verbatim>\<open>std::map<Column, size_t>\<close>: the order of columns compares alias and name, and \<^verbatim>\<open>operator[]\<close>
  enters 0 for a column that is not there.
\<close>

type_synonym usage = "string \<times> string \<Rightarrow> nat"

definition use_column :: "column \<Rightarrow> usage \<Rightarrow> usage" where
  "use_column c u = u(col_key c := u (col_key c) + 1)"

definition drop_column :: "column \<Rightarrow> usage \<Rightarrow> usage" where
  "drop_column c u = u(col_key c := u (col_key c) - 1)"

definition use_pairs :: "(column \<times> column) list \<Rightarrow> usage \<Rightarrow> usage" where
  "use_pairs cs = fold (\<lambda>(a, b) u. use_column b (use_column a u)) cs"

definition drop_pairs :: "(column \<times> column) list \<Rightarrow> usage \<Rightarrow> usage" where
  "drop_pairs cs = fold (\<lambda>(a, b) u. drop_column b (drop_column a u)) cs"

definition used :: "usage \<Rightarrow> column \<Rightarrow> bool" where
  "used u c \<longleftrightarrow> u (col_key c) > 0"

text \<open>The columns of a child that are needed above, with their positions.\<close>

definition used_columns :: "usage \<Rightarrow> column list \<Rightarrow> pcol list" where
  "used_columns u cs =
     map (\<lambda>(i, c). \<lparr>pc_pos = i, pc_col = c\<rparr>) (filter (\<lambda>(i, c). used u c) (enumerate 0 cs))"

section \<open>Products and joins\<close>

text \<open>The variables of a join object before its \<^verbatim>\<open>begin()\<close>.\<close>

definition new_join :: join_state where
  "new_join = \<lparr>js_lhs = no_row, js_rhs = no_row, js_valid_lhs = False, js_outer_match = False,
     js_valid_rhs = False, js_rhs_index = 0, js_matched = [], js_drain = False\<rparr>"

type_synonym plan = "heap_iter qiter"

definition new_product :: "usage \<Rightarrow> plan \<Rightarrow> plan \<Rightarrow> plan" where
  "new_product u l r =
     CartesianProduct l r (used_columns u (get_columns l)) (used_columns u (get_columns r)) new_join"

fun find_pos :: "('a \<Rightarrow> bool) \<Rightarrow> 'a list \<Rightarrow> nat option" where
  "find_pos P [] = None"
| "find_pos P (x # xs) = (if P x then Some 0 else map_option Suc (find_pos P xs))"

definition position_pair :: "nat option \<Rightarrow> nat option \<Rightarrow> (nat \<times> nat) list" where
  "position_pair l r = (case (l, r) of (Some i, Some j) \<Rightarrow> [(i, j)] | _ \<Rightarrow> [])"

text \<open>
  The positions of the join columns. A join tells the sides apart by the alias of the first
  column on the right and compares alias and name; an outer join goes by the table and
  compares name and type.
\<close>

definition join_positions :: "column list \<Rightarrow> column list \<Rightarrow> (column \<times> column) list \<Rightarrow> (nat \<times> nat) list" where
  "join_positions ls rs cs =
     (if ls = [] \<or> rs = [] then []
      else concat (map (\<lambda>(a, b).
        let flip = col_alias a = col_alias (hd rs);
            lc = (if flip then b else a); rc = (if flip then a else b) in
        position_pair (find_pos (\<lambda>c. column_eq c lc) ls) (find_pos (\<lambda>c. column_eq c rc) rs)) cs))"

definition outer_positions :: "column list \<Rightarrow> column list \<Rightarrow> (column \<times> column) list \<Rightarrow> (nat \<times> nat) list" where
  "outer_positions ls rs cs =
     (if ls = [] \<or> rs = [] then []
      else concat (map (\<lambda>(a, b).
        let flip = col_table a = col_table (hd rs);
            lc = (if flip then b else a); rc = (if flip then a else b) in
        position_pair (find_pos (\<lambda>c. column_info_eq (col_info c) (col_info lc)) ls)
          (find_pos (\<lambda>c. column_info_eq (col_info c) (col_info rc)) rs)) cs))"

text \<open>A step of a left-deep join: without a usable equality it is a product.\<close>

definition join_step :: "(column \<times> column) list \<Rightarrow> usage \<Rightarrow> plan \<Rightarrow> plan \<Rightarrow> plan" where
  "join_step cs u l r =
     (let eqs = join_positions (get_columns l) (get_columns r) cs in
      if eqs = [] then new_product u l r
      else Join l r (used_columns u (get_columns l)) (used_columns u (get_columns r)) eqs new_join)"

text \<open>The constructors of the outer joins: there must be an equality.\<close>

definition init_refs :: "pcol list \<Rightarrow> row res" where [simp]:
  "init_refs rc = row_of_types (map (\<lambda>p. ci_datatype (col_info (pc_col p))) rc)"

definition construct_left_outer :: "plan \<Rightarrow> plan \<Rightarrow> pcol list \<Rightarrow> pcol list \<Rightarrow> (nat \<times> nat) list \<Rightarrow> plan res" where [simp]:
  "construct_left_outer l r lc rc eqs =
     (if eqs = [] then Inl Stuck
      else bindE (init_refs rc) (\<lambda>_. Inr (LeftOuterJoin l r lc rc eqs new_join)))"

definition construct_full_outer :: "plan \<Rightarrow> plan \<Rightarrow> pcol list \<Rightarrow> pcol list \<Rightarrow> (nat \<times> nat) list \<Rightarrow> plan res" where [simp]:
  "construct_full_outer l r lc rc eqs = (if eqs = [] then Inl Stuck else Inr (FullOuterJoin l r lc rc eqs new_join))"

definition new_left_outer :: "(column \<times> column) list \<Rightarrow> usage \<Rightarrow> plan \<Rightarrow> plan \<Rightarrow> plan res" where
  "new_left_outer cs u l r =
     construct_left_outer l r (used_columns u (get_columns l)) (used_columns u (get_columns r))
       (outer_positions (get_columns l) (get_columns r) cs)"

definition new_full_outer :: "(column \<times> column) list \<Rightarrow> usage \<Rightarrow> plan \<Rightarrow> plan \<Rightarrow> plan res" where
  "new_full_outer cs u l r =
     construct_full_outer l r (used_columns u (get_columns l)) (used_columns u (get_columns r))
       (outer_positions (get_columns l) (get_columns r) cs)"

section \<open>The join order\<close>

text \<open>
  The search of \<^verbatim>\<open>src/query/optimizer/join_order.cc\<close> is a stub: it estimates the cardinality of the
  children, which looks their tables up, and returns the order of the empty path. The
  estimates are floating point numbers nothing uses; only their lookups are kept.
\<close>

fun estimate_lookup :: "tx_id \<Rightarrow> query_plan \<Rightarrow> (db, unit) act" where
  "estimate_lookup tx (RelationPlan a t) = bindA (get_table_info t tx) (\<lambda>_. returnA ())"
| "estimate_lookup tx (SelectionPlan p es) = estimate_lookup tx p"
| "estimate_lookup tx _ = returnA ()"

type_synonym join_order = "tx_id \<Rightarrow> query_plan list \<Rightarrow> (column \<times> column) list \<Rightarrow> (db, nat list) act"

definition beam_search_join_order :: join_order where
  "beam_search_join_order tx ps cs =
     (if length ps > 64 then throwA Stuck
      else bindA (mapA (estimate_lookup tx) ps) (\<lambda>_. returnA []))"

text \<open>Moving the children in the order given; an index past the end or a child moved twice is undefined.\<close>

definition reorder :: "nat list \<Rightarrow> 'a list \<Rightarrow> 'a list res" where
  "reorder order xs = (if distinct order then mapE (nthE xs) order else Inl Stuck)"

section \<open>Visiting a query\<close>

type_synonym visitor = "usage \<Rightarrow> (db, plan \<times> usage) act"

text \<open>The children from the second on, each combined with what stands to its left.\<close>

fun visit_rest :: "(usage \<Rightarrow> plan \<Rightarrow> plan \<Rightarrow> plan) \<Rightarrow> plan \<Rightarrow> visitor list \<Rightarrow> visitor" where
  "visit_rest step l [] u = returnA (l, u)"
| "visit_rest step l (v # vs) u =
     bindA (v u) (\<lambda>(r, u). visit_rest step (step u l r) vs u)"

definition visit_all :: "(usage \<Rightarrow> plan \<Rightarrow> plan \<Rightarrow> plan) \<Rightarrow> visitor list \<Rightarrow> visitor" where
  "visit_all step vs u =
     (case vs of
        [] \<Rightarrow> throwA Stuck
      | v # vs \<Rightarrow> bindA (v u) (\<lambda>(l, u). visit_rest step l vs u))"

definition visit_product :: "visitor list \<Rightarrow> visitor" where
  "visit_product vs u = (if length vs < 2 then throwA Stuck else visit_all new_product vs u)"

definition visit_projection :: "bool \<Rightarrow> 64 word \<Rightarrow> column list \<Rightarrow> visitor \<Rightarrow> visitor" where
  "visit_projection dist lim cs v u =
     (if dist then throwA (NotImplementedException ''Projection with DISTINCT'')
      else bindA (v (fold use_column cs u)) (\<lambda>(p, u). returnA (Projection p cs (unat lim) 0, u)))"

text \<open>
  A selection counts the columns of its expressions while its child is visited and compiles
  them over the child's columns. No expression is ever entered into \<^verbatim>\<open>deleted_expr_plans\<close>.
\<close>

definition visit_selection :: "expr_plan list \<Rightarrow> visitor \<Rightarrow> visitor" where
  "visit_selection es v u =
     bindA (liftA (mapE expr_get_columns es)) (\<lambda>css.
     bindA (v (fold use_column (concat css) u)) (\<lambda>(p, u).
     bindA (liftA (mapE (compile_expr (get_columns p)) es)) (\<lambda>es.
       returnA (if es = [] then p else Selection p es, fold drop_column (concat css) u))))"

text \<open>A relation lists the columns that are needed and, in any case, its last one, the RID.\<close>

definition table_columns :: "string \<Rightarrow> string \<Rightarrow> schema \<Rightarrow> column list" where
  "table_columns a t sch = map (\<lambda>ci. \<lparr>col_alias = a, col_table = t, col_info = ci\<rparr>) (columns sch)"

definition relation_columns :: "usage \<Rightarrow> column list \<Rightarrow> pcol list res" where
  "relation_columns u cs =
     (if cs = [] then Inr []
      else if used u (last cs) then Inr (used_columns u cs)
      else if ci_datatype (col_info (last cs)) \<noteq> DT_RID then Inl Stuck
      else Inr (used_columns u cs @ [\<lparr>pc_pos = length cs - 1, pc_col = last cs\<rparr>]))"

definition visit_relation :: "tx_id \<Rightarrow> string \<Rightarrow> string \<Rightarrow> visitor" where
  "visit_relation tx a t u =
     bindA (get_table_info t tx) (\<lambda>found. case found of
       None \<Rightarrow> throwA (QueryException (''Table '' @ t @ '' does not exist''))
     | Some ti \<Rightarrow>
         bindA (liftA (relation_columns u (table_columns a t (ti_schema ti)))) (\<lambda>pcs.
         bindA (get_record_iter (ti_heap_file ti) tx) (\<lambda>it.
           returnA (Relation it pcs, u))))"

definition visit_join :: "join_order \<Rightarrow> tx_id \<Rightarrow> query_plan list \<Rightarrow> (column \<times> column) list \<Rightarrow> visitor list \<Rightarrow> visitor" where
  "visit_join ord tx ps cs vs u =
     bindA (ord tx ps cs) (\<lambda>order.
     bindA (liftA (reorder order vs)) (\<lambda>vs.
     bindA (visit_all (join_step cs) vs (use_pairs cs u)) (\<lambda>(p, u).
       returnA (p, drop_pairs cs u))))"

definition visit_outer ::
  "((column \<times> column) list \<Rightarrow> usage \<Rightarrow> plan \<Rightarrow> plan \<Rightarrow> plan res) \<Rightarrow>
   (column \<times> column) list \<Rightarrow> visitor \<Rightarrow> visitor \<Rightarrow> visitor" where
  "visit_outer new cs vl vr u =
     bindA (vl (use_pairs cs u)) (\<lambda>(l, u). bindA (vr u) (\<lambda>(r, u).
     bindA (liftA (new cs u l r)) (\<lambda>p. returnA (p, drop_pairs cs u))))"

definition visit_left_outer :: "(column \<times> column) list \<Rightarrow> visitor \<Rightarrow> visitor \<Rightarrow> visitor" where
  "visit_left_outer = visit_outer new_left_outer"

definition visit_full_outer :: "(column \<times> column) list \<Rightarrow> visitor \<Rightarrow> visitor \<Rightarrow> visitor" where
  "visit_full_outer = visit_outer new_full_outer"

fun visit :: "join_order \<Rightarrow> tx_id \<Rightarrow> query_plan \<Rightarrow> visitor" where
  "visit ord tx (RelationPlan a t) = visit_relation tx a t"
| "visit ord tx (SelectionPlan p es) = visit_selection es (visit ord tx p)"
| "visit ord tx (ProjectionPlan p dist lim cs) = visit_projection dist lim cs (visit ord tx p)"
| "visit ord tx (CartesianProductPlan ps) = visit_product (map (visit ord tx) ps)"
| "visit ord tx (JoinPlan ps cs) = visit_join ord tx ps cs (map (visit ord tx) ps)"
| "visit ord tx (LeftOuterJoinPlan a l r cs) = visit_left_outer cs (visit ord tx l) (visit ord tx r)"
| "visit ord tx (FullOuterJoinPlan a l r cs) = visit_full_outer cs (visit ord tx l) (visit ord tx r)"

section \<open>Physical plans\<close>

datatype physical_plan =
    PhysicalQuery plan
  | PhysicalUpdate update_iter
  | PhysicalDeletion deletion_iter
  | PhysicalInsertion string "sql_constant list" tx_id
  | PhysicalCreation string schema tx_id

text \<open>Updates and deletions need every column of the table.\<close>

definition use_table :: "table_info \<Rightarrow> usage \<Rightarrow> usage" where
  "use_table ti = fold use_column (table_columns (ti_name ti) (ti_name ti) (ti_schema ti))"

definition compile_assignments :: "column list \<Rightarrow> (nat \<times> expr_plan) list \<Rightarrow> (nat \<times> expr) list res" where
  "compile_assignments cs = mapE (\<lambda>(i, e). bindE (compile_expr cs e) (\<lambda>e. Inr (i, e)))"

definition visit_update_plan :: "tx_id \<Rightarrow> table_info \<Rightarrow> (nat \<times> expr_plan) list \<Rightarrow> visitor \<Rightarrow> (db, physical_plan) act" where
  "visit_update_plan tx ti upd v =
     bindA (v (use_table ti (\<lambda>_. 0))) (\<lambda>(q, u).
     bindA (liftA (compile_assignments (get_columns q) upd)) (\<lambda>upd.
       returnA (PhysicalUpdate (new_update q upd tx))))"

definition visit_deletion_plan :: "tx_id \<Rightarrow> table_info \<Rightarrow> visitor \<Rightarrow> (db, physical_plan) act" where
  "visit_deletion_plan tx ti v =
     bindA (v (use_table ti (\<lambda>_. 0))) (\<lambda>(q, u). returnA (PhysicalDeletion (new_deletion q tx)))"

text \<open>The child of an update or a deletion must be there.\<close>

fun create_physical_plan :: "join_order \<Rightarrow> tx_id \<Rightarrow> logical_plan \<Rightarrow> (db, physical_plan) act" where
  "create_physical_plan ord tx (QueryPlan p) =
     bindA (visit ord tx p (\<lambda>_. 0)) (\<lambda>(q, u). returnA (PhysicalQuery q))"
| "create_physical_plan ord tx (CreationPlan t sch) = returnA (PhysicalCreation t sch tx)"
| "create_physical_plan ord tx (InsertionPlan t vs) = returnA (PhysicalInsertion t vs tx)"
| "create_physical_plan ord tx (UpdatePlan ti upd (Some p)) = visit_update_plan tx ti upd (visit ord tx p)"
| "create_physical_plan ord tx (UpdatePlan ti upd None) = throwA Stuck"
| "create_physical_plan ord tx (DeletionPlan ti (Some p)) = visit_deletion_plan tx ti (visit ord tx p)"
| "create_physical_plan ord tx (DeletionPlan ti None) = throwA Stuck"

section \<open>Ranges of columns\<close>

text \<open>
  \<^verbatim>\<open>column_range\<close> and its two operations, which no visitor calls. A string bound is closed on the
  other side by changing its first character; an empty string has none to change.
\<close>

type_synonym ranges = "string \<times> string \<Rightarrow> (db_value \<times> db_value) option"

fun set_first_char :: "char \<Rightarrow> db_value \<Rightarrow> db_value res" where
  "set_first_char c (VStr (x # xs)) = Inr (VStr (c # xs))"
| "set_first_char c _ = Inl Stuck"

definition try_set_lower_bound :: "column \<Rightarrow> db_value \<Rightarrow> ranges \<Rightarrow> ranges res" where
  "try_set_lower_bound c v rs =
     bindE (if is_int v then Inr (VInt (2 ^ 63 - 1)) else set_first_char (CHR 0xFF) v) (\<lambda>top.
       case rs (col_key c) of
         None \<Rightarrow> Inr (rs(col_key c \<mapsto> (v, top)))
       | Some (lo, hi) \<Rightarrow> if value_less lo v then Inr (rs(col_key c \<mapsto> (v, hi))) else Inr rs)"

definition try_set_upper_bound :: "column \<Rightarrow> db_value \<Rightarrow> ranges \<Rightarrow> ranges res" where
  "try_set_upper_bound c v rs =
     bindE (if is_int v then Inr (VInt (2 ^ 63)) else set_first_char (CHR 0x00) v) (\<lambda>bot.
       case rs (col_key c) of
         None \<Rightarrow> Inr (rs(col_key c \<mapsto> (v, bot)))
       | Some (lo, hi) \<Rightarrow> if value_gt lo v then Inr (rs(col_key c \<mapsto> (v, hi))) else Inr rs)"

end
