(* ===== verification/Query_Rewriter.thy ===== *)
theory Query_Rewriter
  imports Logical_Plans
begin

text \<open>
  The two rewriters between preprocessor and optimizer (\<^verbatim>\<open>src/query/parser/query_rewriter/\<close>):
  \<open>build_joins\<close> groups the relations of a product by the equalities of the WHERE clause,
  \<open>push_selection\<close> moves the conditions on one column down to its relation.
\<close>

section \<open>Building joins\<close>

text \<open>
  The aliases reachable over the equalities: \<^verbatim>\<open>joined_aliases\<close> and the queue \<^verbatim>\<open>pending_aliases\<close>.
\<close>

definition add_alias :: "string \<Rightarrow> string list \<times> string list \<Rightarrow> string list \<times> string list" where
  "add_alias a = (\<lambda>(joined, pending).
     if a \<in> set joined then (joined, pending) else (a # joined, pending @ [a]))"

definition follow :: "string \<Rightarrow> column \<times> column \<Rightarrow> string list \<times> string list \<Rightarrow> string list \<times> string list" where
  "follow cur = (\<lambda>(a, b) jp.
     if col_alias a = cur then add_alias (col_alias b) jp
     else if col_alias b = cur then add_alias (col_alias a) jp
     else jp)"

definition aliases :: "(column \<times> column) list \<Rightarrow> string set" where
  "aliases eqs = (\<Union>(a, b) \<in> set eqs. {col_alias a, col_alias b})"

lemma finite_aliases [simp]: "finite (aliases eqs)"
  by (auto simp: aliases_def)

definition alias_room :: "(column \<times> column) list \<Rightarrow> string list \<times> string list \<Rightarrow> nat" where
  "alias_room eqs jp = card (aliases eqs - set (fst jp)) + length (snd jp)"

lemma room_add: "a \<in> aliases eqs \<Longrightarrow> alias_room eqs (add_alias a jp) = alias_room eqs jp"
proof (cases jp)
  case (Pair joined pending)
  assume a: "a \<in> aliases eqs"
  show ?thesis
  proof (cases "a \<in> set joined")
    case False
    have "aliases eqs - set (a # joined) = (aliases eqs - set joined) - {a}" by auto
    moreover have "0 < card (aliases eqs - set joined)" using a False by (auto simp: card_gt_0_iff)
    ultimately show ?thesis using a False by (simp add: Pair add_alias_def alias_room_def card_Diff_singleton)
  qed (simp add: Pair add_alias_def)
qed

lemma room_follow: "e \<in> set eqs \<Longrightarrow> alias_room eqs (follow cur e jp) = alias_room eqs jp"
proof (cases e)
  case (Pair a b)
  assume "e \<in> set eqs"
  then have "col_alias a \<in> aliases eqs" "col_alias b \<in> aliases eqs" by (auto simp: aliases_def Pair)
  then show ?thesis by (simp add: Pair follow_def room_add)
qed

lemma room_fold: "set es \<subseteq> set eqs \<Longrightarrow> alias_room eqs (fold (follow cur) es jp) = alias_room eqs jp"
  by (induction es arbitrary: jp) (simp_all add: room_follow)

function close_aliases :: "(column \<times> column) list \<Rightarrow> string list \<Rightarrow> string list \<Rightarrow> string list" where
  "close_aliases eqs joined [] = joined"
| "close_aliases eqs joined (cur # pending) =
     (let jp = fold (follow cur) eqs (joined, pending) in close_aliases eqs (fst jp) (snd jp))"
  by pat_completeness auto
termination
proof (relation "measure (\<lambda>(eqs, joined, pending). alias_room eqs (joined, pending))")
  fix eqs joined cur pending and jp :: "string list \<times> string list"
  assume "jp = fold (follow cur) eqs (joined, pending)"
  then have "alias_room eqs jp = alias_room eqs (joined, pending)" by (simp add: room_fold)
  then show "((eqs, fst jp, snd jp), eqs, joined, cur # pending) \<in>
      measure (\<lambda>(eqs, joined, pending). alias_room eqs (joined, pending))"
    by (cases jp) (simp add: alias_room_def)
qed simp

text \<open>Only relations and outer joins have an alias; anything else is refused.\<close>

fun plan_alias :: "query_plan \<Rightarrow> string res" where
  "plan_alias (RelationPlan a t) = Inr a"
| "plan_alias (LeftOuterJoinPlan a l r cs) = Inr a"
| "plan_alias (FullOuterJoinPlan a l r cs) = Inr a"
| "plan_alias _ = Inl (QueryException ''Cartesian product expects aliased children'')"

text \<open>Every child must be a relation here, though the loop before lets outer joins pass.\<close>

fun relation_alias :: "query_plan \<Rightarrow> string res" where
  "relation_alias (RelationPlan a t) = Inr a"
| "relation_alias _ = Inl Stuck"

definition touches :: "string list \<Rightarrow> column \<times> column \<Rightarrow> bool" where
  "touches joined = (\<lambda>(a, b). col_alias a \<in> set joined \<or> col_alias b \<in> set joined)"

definition new_group :: "query_plan list \<Rightarrow> (column \<times> column) list \<Rightarrow> query_plan res" where
  "new_group ps cs =
     (case ps of
        [] \<Rightarrow> Inl Stuck
      | [p] \<Rightarrow> Inr p
      | _ \<Rightarrow> if cs = [] then Inl Stuck else Inr (JoinPlan ps cs))"

text \<open>
  One round takes the children whose alias is connected to the first one's. The first child is
  always among them, so the rounds end; \<open>n\<close> bounds their number.
\<close>

fun make_groups :: "(column \<times> column) list \<Rightarrow> nat \<Rightarrow> query_plan list \<Rightarrow> query_plan list res" where
  "make_groups eqs n [] = Inr []"
| "make_groups eqs 0 (p # ps) = Inl Stuck"
| "make_groups eqs (Suc n) (p # ps) =
     bindE (plan_alias p) (\<lambda>a.
     bindE (mapE relation_alias (p # ps)) (\<lambda>as.
       (let joined = close_aliases eqs [a] [a];
            tagged = zip as (p # ps);
            mine = map snd (filter (\<lambda>(a, p). a \<in> set joined) tagged);
            others = map snd (filter (\<lambda>(a, p). a \<notin> set joined) tagged) in
        bindE (new_group mine (filter (touches joined) eqs)) (\<lambda>g.
        bindE (make_groups eqs n others) (\<lambda>gs. Inr (g # gs))))))"

definition build_product :: "(column \<times> column) list \<Rightarrow> query_plan list \<Rightarrow> query_plan res" where
  "build_product eqs ps =
     (if length ps < 2 then Inl Stuck
      else bindE (make_groups eqs (length ps) ps) (\<lambda>gs.
        case gs of [g] \<Rightarrow> Inr g | _ \<Rightarrow> Inr (CartesianProductPlan gs)))"

text \<open>The equalities between two columns leave the selection; the rest stays.\<close>

fun column_equality :: "expr_plan \<Rightarrow> (column \<times> column) option" where
  "column_equality (ExprPlanEquals (ExprPlanColumn a) (ExprPlanColumn b)) = Some (a, b)"
| "column_equality _ = None"

definition equalities_of :: "expr_plan list \<Rightarrow> (column \<times> column) list" where
  "equalities_of es = List.map_filter column_equality es"

fun build_joins :: "query_plan \<Rightarrow> (column \<times> column) list \<Rightarrow> query_plan res" where
  "build_joins (RelationPlan a t) eqs = Inr (RelationPlan a t)"
| "build_joins (ProjectionPlan p d lim cs) eqs =
     bindE (build_joins p eqs) (\<lambda>p. Inr (ProjectionPlan p d lim cs))"
| "build_joins (SelectionPlan p es) eqs =
     bindE (build_joins p (eqs @ equalities_of es)) (\<lambda>p.
       (let rest = filter (\<lambda>e. column_equality e = None) es in
        Inr (if rest = [] then p else SelectionPlan p rest)))"
| "build_joins (CartesianProductPlan ps) eqs = build_product eqs ps"
| "build_joins (JoinPlan ps cs) eqs = Inl Stuck"
| "build_joins (LeftOuterJoinPlan a l r cs) eqs = plan_clone (LeftOuterJoinPlan a l r cs)"
| "build_joins (FullOuterJoinPlan a l r cs) eqs = plan_clone (FullOuterJoinPlan a l r cs)"

section \<open>Pushing selections\<close>

text \<open>
  \<^verbatim>\<open>id2simple_expressions\<close>: the conditions on one column, under alias and table. Taking the
  expressions of a key leaves it with none.
\<close>

type_synonym simple_map = "string \<times> string \<Rightarrow> expr_plan list option"

definition add_simple :: "string \<times> string \<Rightarrow> expr_plan \<Rightarrow> simple_map \<Rightarrow> simple_map" where
  "add_simple k e m = m(k \<mapsto> (case m k of None \<Rightarrow> [e] | Some es \<Rightarrow> es @ [e]))"

fun split_simple :: "expr_plan list \<Rightarrow> simple_map \<Rightarrow> (expr_plan list \<times> simple_map) res" where
  "split_simple [] m = Inr ([], m)"
| "split_simple (e # es) m =
     bindE (expr_get_columns e) (\<lambda>cs.
       case cs of
         [c] \<Rightarrow> split_simple es (add_simple (col_alias c, col_table c) e m)
       | _ \<Rightarrow> bindE (split_simple es m) (\<lambda>(rest, m). Inr (e # rest, m)))"

type_synonym pusher = "simple_map \<Rightarrow> (query_plan \<times> simple_map) res"

fun push_all :: "pusher list \<Rightarrow> simple_map \<Rightarrow> (query_plan list \<times> simple_map) res" where
  "push_all [] m = Inr ([], m)"
| "push_all (f # fs) m =
     bindE (f m) (\<lambda>(p, m). bindE (push_all fs m) (\<lambda>(ps, m). Inr (p # ps, m)))"

definition push_relation :: "string \<Rightarrow> string \<Rightarrow> pusher" where
  "push_relation a t m =
     (case m (a, t) of
        None \<Rightarrow> Inr (RelationPlan a t, m)
      | Some es \<Rightarrow> Inr (SelectionPlan (RelationPlan a t) es, m((a, t) \<mapsto> [])))"

definition push_two :: "(query_plan \<Rightarrow> query_plan \<Rightarrow> query_plan) \<Rightarrow> pusher \<Rightarrow> pusher \<Rightarrow> pusher" where
  "push_two new f g m = bindE (f m) (\<lambda>(l, m). bindE (g m) (\<lambda>(r, m). Inr (new l r, m)))"

fun push_selection :: "query_plan \<Rightarrow> pusher" where
  "push_selection (RelationPlan a t) m = push_relation a t m"
| "push_selection (ProjectionPlan p d lim cs) m =
     bindE (push_selection p m) (\<lambda>(p, m). Inr (ProjectionPlan p d lim cs, m))"
| "push_selection (SelectionPlan p es) m =
     bindE (split_simple es m) (\<lambda>(rest, m).
     bindE (push_selection p m) (\<lambda>(p, m). Inr (if rest = [] then p else SelectionPlan p rest, m)))"
| "push_selection (CartesianProductPlan ps) m =
     bindE (push_all (map push_selection ps) m) (\<lambda>(ps, m). Inr (CartesianProductPlan ps, m))"
| "push_selection (JoinPlan ps cs) m =
     bindE (push_all (map push_selection ps) m) (\<lambda>(ps, m).
       if length ps > 1 \<and> cs \<noteq> [] then Inr (JoinPlan ps cs, m) else Inl Stuck)"
| "push_selection (LeftOuterJoinPlan a l r cs) m =
     (if cs = [] then Inl Stuck
      else push_two (\<lambda>l r. LeftOuterJoinPlan a l r cs) (push_selection l) (push_selection r) m)"
| "push_selection (FullOuterJoinPlan a l r cs) m =
     (if cs = [] then Inl Stuck
      else push_two (\<lambda>l r. FullOuterJoinPlan a l r cs) (push_selection l) (push_selection r) m)"

definition rewrite :: "logical_plan \<Rightarrow> logical_plan res" where
  "rewrite lp =
     (case lp of
        QueryPlan p \<Rightarrow>
          bindE (build_joins p []) (\<lambda>p. bindE (push_selection p (\<lambda>_. None)) (\<lambda>(p, m). Inr (QueryPlan p)))
      | _ \<Rightarrow> Inr lp)"

end
