(* ===== verification/Session.thy ===== *)
theory Session
  imports Preprocessor Optimizer Query_Rewriter
begin

text \<open>
  A client's session (\<^verbatim>\<open>src/server/session.cc\<close>): framing of requests and responses, the commands
  BEGIN, COMMIT, ABORT and VACUUM, and running a query from its text to the rows returned. The
  generated parser is the parameter \<open>parse\<close>: the parse tree of a query text or its error.
\<close>

section \<open>From the text to a plan\<close>

type_synonym parser = "string \<Rightarrow> query_ctx res"

text \<open>\<^verbatim>\<open>Parser::parse\<close>, which the session does not ask to explain.\<close>

definition parse_query :: "parser \<Rightarrow> string \<Rightarrow> tx_id \<Rightarrow> (db, logical_plan) act" where
  "parse_query parse q tx =
     bindA (liftA (parse q)) (\<lambda>t. bindA (preprocess tx t) (\<lambda>lp. liftA (rewrite lp)))"

section \<open>Running a query\<close>

definition aliases_differ :: "column list \<Rightarrow> bool" where
  "aliases_differ cs \<longleftrightarrow> (\<exists>(a, b) \<in> set (zip cs (tl cs)). col_alias a \<noteq> col_alias b)"

definition column_title :: "bool \<Rightarrow> column \<Rightarrow> string" where
  "column_title b c = (if b then col_alias c @ ''.'' else []) @ ci_name (col_info c)"

definition header_line :: "column list \<Rightarrow> string" where
  "header_line cs = join_comma (map (column_title (aliases_differ cs)) cs)"

definition newline :: string where "newline = [CHR 0x0A]"

definition result_text :: "column list \<Rightarrow> row list \<Rightarrow> string" where
  "result_text cs rs = header_line cs @ newline @ concat (map (\<lambda>r. row_to_string r @ newline) rs)"

definition success_text :: "column list \<Rightarrow> row list \<Rightarrow> tx_id \<Rightarrow> string" where
  "success_text cs rs tx =
     ''Query executed successfully with '' @ nat_to_string (length rs) @ '' results in TxID: '' @ tx_name tx @
     newline @ result_text cs rs"

text \<open>Calling \<^verbatim>\<open>next\<close> until there is no record.\<close>

definition collect_query :: "plan \<Rightarrow> (db, row list) act" where
  "collect_query q = run_iter (\<lambda>s. bindO (qcollect scan_next scan_reset q s) (\<lambda>(rs, q, s). retO (rs, s)))"

partial_function (option) collect_update :: "wait \<Rightarrow> update_iter \<Rightarrow> db \<Rightarrow> (row list res \<times> db) option" where
  "collect_update w u s =
     bindA (update_next w u) (\<lambda>x s.
       if row_invalid (fst x) then returnA [] s
       else bindA (collect_update w (snd x)) (\<lambda>rs. returnA (fst x # rs)) s) s"

partial_function (option) collect_deletion :: "wait \<Rightarrow> deletion_iter \<Rightarrow> db \<Rightarrow> (row list res \<times> db) option" where
  "collect_deletion w d s =
     bindA (deletion_next w d) (\<lambda>x s.
       if row_invalid (fst x) then returnA [] s
       else bindA (collect_deletion w (snd x)) (\<lambda>rs. returnA (fst x # rs)) s) s"

definition action_text :: "tx_id \<Rightarrow> string" where
  "action_text tx = ''Action executed successfully in TxID: '' @ tx_name tx"

text \<open>The columns are read after \<^verbatim>\<open>begin\<close>. The commit comes before the text is returned.\<close>

definition finish :: "bool \<Rightarrow> tx_id \<Rightarrow> string \<Rightarrow> (db, string) act" where
  "finish commit_at_end tx msg = bindA (whenA commit_at_end (commit_transaction tx)) (\<lambda>_. returnA msg)"

fun run_plan_text :: "wait \<Rightarrow> bool \<Rightarrow> tx_id \<Rightarrow> physical_plan \<Rightarrow> (db, string) act" where
  "run_plan_text w cm tx (PhysicalInsertion t vs x) =
     bindA (insertion_execute t vs x) (\<lambda>_. finish cm tx (action_text tx))"
| "run_plan_text w cm tx (PhysicalCreation t sch x) =
     bindA (creation_execute t sch x) (\<lambda>_. finish cm tx (action_text tx))"
| "run_plan_text w cm tx (PhysicalQuery q) =
     bindA (child_begin q) (\<lambda>q. bindA (collect_query q) (\<lambda>rs.
       finish cm tx (success_text (get_columns q) rs tx)))"
| "run_plan_text w cm tx (PhysicalUpdate u) =
     bindA (update_begin u) (\<lambda>u. bindA (collect_update w u) (\<lambda>rs.
       finish cm tx (success_text (get_columns (ui_child u)) rs tx)))"
| "run_plan_text w cm tx (PhysicalDeletion d) =
     bindA (deletion_begin d) (\<lambda>d. bindA (collect_deletion w d) (\<lambda>rs.
       finish cm tx (success_text (get_columns (di_child d)) rs tx)))"

definition query_body :: "parser \<Rightarrow> wait \<Rightarrow> string \<Rightarrow> tx_id \<Rightarrow> bool \<Rightarrow> (db, string) act" where
  "query_body parse w q tx cm =
     bindA (parse_query parse q tx) (\<lambda>lp.
     bindA (create_physical_plan beam_search_join_order tx lp) (\<lambda>p. run_plan_text w cm tx p))"

text \<open>
  A \<^verbatim>\<open>TransactionAbortException\<close> passes; any other exception aborts a transaction that was to be
  committed at the end. \<open>Stuck\<close> is no exception.
\<close>

definition execute_query :: "parser \<Rightarrow> wait \<Rightarrow> string \<Rightarrow> tx_id \<Rightarrow> bool \<Rightarrow> (db, string) act" where
  "execute_query parse w q tx cm =
     catchA (query_body parse w q tx cm) (\<lambda>e.
       if is_abort e \<or> e = Stuck then throwA e
       else bindA (whenA cm (abort_transaction tx)) (\<lambda>_. throwA e))"

section \<open>The session\<close>

text \<open>
  \<open>se_state\<close> is 1 inside a transaction of the client and 0 otherwise; \<^verbatim>\<open>tx_id\<close> has no
  initial value.
\<close>

record client_session =
  se_state :: int
  se_tx :: tx_id

definition new_session :: "tx_id \<Rightarrow> client_session" where
  "new_session garbage = \<lparr>se_state = 0, se_tx = garbage\<rparr>"

definition onDb :: "(db, 'a) act \<Rightarrow> (client_session \<times> db, 'a) act" where
  "onDb m = (\<lambda>(se, s). Option.bind (m s) (\<lambda>(r, s). Some (r, (se, s))))"

definition set_session :: "(client_session \<Rightarrow> client_session) \<Rightarrow> (client_session \<times> db, unit) act" where
  "set_session f = modifyA (\<lambda>(se, s). (f se, s))"

text \<open>The loop runs over the target, so a longer command matches too.\<close>

definition my_compare :: "string \<Rightarrow> string \<Rightarrow> bool" where
  "my_compare s target \<longleftrightarrow>
     length target \<le> length s \<and> list_all2 (\<lambda>a b. tolower a = tolower b) (take (length target) s) target"

definition begin_level :: "string \<Rightarrow> isolation_level" where
  "begin_level q =
     (if my_compare q ''BEGIN TRANSACTION SNAPSHOT ISOLATION'' then SNAPSHOT_ISOLATION else READ_COMMITTED)"

definition vacuum_text :: "tx_id \<Rightarrow> string" where
  "vacuum_text tx = ''Vacuum completed successfully in transaction ID: '' @ tx_name tx"

type_synonym page_garbage = "table_id \<Rightarrow> nat \<Rightarrow> byte list"

definition run_idle :: "parser \<Rightarrow> wait \<Rightarrow> page_garbage \<Rightarrow> string \<Rightarrow> (client_session \<times> db, string) act" where
  "run_idle parse w g q =
     (if my_compare q ''BEGIN TRANSACTION'' then
        bindA (set_session (\<lambda>se. se\<lparr>se_state := 1\<rparr>)) (\<lambda>_.
        bindA (onDb (start_transaction (begin_level q))) (\<lambda>tx.
        bindA (set_session (\<lambda>se. se\<lparr>se_tx := tx\<rparr>)) (\<lambda>_.
          returnA (''Transaction started with ID: '' @ tx_name tx))))
      else if my_compare q ''COMMIT'' then returnA ''There is no active transaction to commit''
      else if my_compare q ''ABORT'' then returnA ''There is no active transaction to abort''
      else if my_compare q ''VACUUM'' then
        bindA (onDb (cat_vacuum g 0)) (\<lambda>_. bindA getA (\<lambda>(se, s). returnA (vacuum_text (se_tx se))))
      else
        bindA (onDb (start_transaction READ_COMMITTED)) (\<lambda>tx.
        bindA (set_session (\<lambda>se. se\<lparr>se_tx := tx\<rparr>)) (\<lambda>_.
          onDb (execute_query parse w q tx True))))"

definition run_active :: "parser \<Rightarrow> wait \<Rightarrow> page_garbage \<Rightarrow> string \<Rightarrow> (client_session \<times> db, string) act" where
  "run_active parse w g q =
     bindA getA (\<lambda>(se, s). let tx = se_tx se in
       if my_compare q ''BEGIN TRANSACTION'' then returnA (''Already in a transaction with ID: '' @ tx_name tx)
       else if my_compare q ''COMMIT'' then
         bindA (onDb (commit_transaction tx)) (\<lambda>_.
         bindA (set_session (\<lambda>se. se\<lparr>se_state := 0\<rparr>)) (\<lambda>_. returnA ''Transaction committed successfully''))
       else if my_compare q ''ABORT'' then
         bindA (onDb (abort_transaction tx)) (\<lambda>_.
         bindA (set_session (\<lambda>se. se\<lparr>se_state := 0\<rparr>)) (\<lambda>_. returnA ''Transaction aborted successfully''))
       else if my_compare q ''VACUUM'' then
         bindA (onDb (cat_vacuum g tx)) (\<lambda>_. returnA (vacuum_text tx))
       else onDb (execute_query parse w q tx False))"

definition run_query :: "parser \<Rightarrow> wait \<Rightarrow> page_garbage \<Rightarrow> string \<Rightarrow> (client_session \<times> db, string) act" where
  "run_query parse w g q =
     bindA getA (\<lambda>(se, s).
       if se_state se = 0 then run_idle parse w g q
       else if se_state se = 1 then run_active parse w g q
       else returnA (''Unknown command : '' @ q))"

definition handle_system_abort :: "client_session \<Rightarrow> client_session" where
  "handle_system_abort se = (if se_state se = 1 then se\<lparr>se_state := 0\<rparr> else se)"

text \<open>
  The client went away. \<^verbatim>\<open>std::runtime_error\<close> is the only exception caught. Outside a
  transaction of the client it still aborts whatever \<^verbatim>\<open>tx_id\<close> holds.
\<close>

fun is_runtime_error :: "db_error \<Rightarrow> bool" where
  "is_runtime_error (RuntimeError m) = True"
| "is_runtime_error _ = False"

definition handle_abort :: "(client_session \<times> db, unit) act" where
  "handle_abort =
     bindA getA (\<lambda>(se, s).
     bindA (catchA (onDb (abort_transaction (se_tx se))) (\<lambda>e. if is_runtime_error e then returnA () else throwA e)) (\<lambda>_.
       set_session (\<lambda>se. if se_state se = 1 then se\<lparr>se_state := 0\<rparr> else se)))"

section \<open>Requests and responses\<close>

definition error_text :: "db_error \<Rightarrow> string" where
  "error_text e =
     (case e of
        TransactionAbortException m \<Rightarrow> ''Transaction aborted:'' @ newline @ m
      | QueryParsingException m \<Rightarrow> ''Error running query:'' @ newline @ m
      | QueryException m \<Rightarrow> ''Error running query:'' @ newline @ m
      | NotImplementedException m \<Rightarrow> ''Error running query:'' @ newline @ m
      | RuntimeError m \<Rightarrow> ''Internal error:'' @ newline @ m
      | Stuck \<Rightarrow> [])"

definition respond :: "parser \<Rightarrow> wait \<Rightarrow> page_garbage \<Rightarrow> string \<Rightarrow> (client_session \<times> db, string) act" where
  "respond parse w g q =
     catchA (run_query parse w g q) (\<lambda>e.
       if e = Stuck then throwA Stuck
       else bindA (whenA (is_abort e) (set_session handle_system_abort)) (\<lambda>_. returnA (error_text e)))"

text \<open>Lengths travel in network byte order, as 32 bits.\<close>

definition net32 :: "32 word \<Rightarrow> byte list" where
  "net32 w = rev (le_bytes 4 (unat w))"

definition host32 :: "byte list \<Rightarrow> 32 word" where
  "host32 bs = of_nat (le_nat (rev bs))"

definition response_bytes :: "string \<Rightarrow> byte list" where
  "response_bytes r = net32 (of_nat (length r)) @ map byte_of_char r"

text \<open>
  What the socket delivers: the end of the stream, another error, or a header of four bytes and
  the body it announces. The session goes on reading (\<open>True\<close>) unless a transfer fails.
\<close>

datatype transfer = TransferOk | TransferEof | TransferError

datatype socket_event = HeaderFails transfer | BodyFails "byte list" transfer | Request "byte list" "byte list" transfer

definition lost :: "transfer \<Rightarrow> (client_session \<times> db, unit) act" where
  "lost t = whenA (t = TransferEof) handle_abort"

definition process_query ::
  "parser \<Rightarrow> wait \<Rightarrow> page_garbage \<Rightarrow> string \<Rightarrow> transfer \<Rightarrow> (client_session \<times> db, byte list \<times> bool) act" where
  "process_query parse w g q t =
     bindA (respond parse w g q) (\<lambda>r.
       if t = TransferOk then returnA (response_bytes r, True)
       else bindA (lost t) (\<lambda>_. returnA ([], False)))"

fun session_step ::
  "parser \<Rightarrow> wait \<Rightarrow> page_garbage \<Rightarrow> socket_event \<Rightarrow> (client_session \<times> db, byte list \<times> bool) act" where
  "session_step parse w g (HeaderFails t) = bindA (lost t) (\<lambda>_. returnA ([], False))"
| "session_step parse w g (BodyFails h t) = bindA (lost t) (\<lambda>_. returnA ([], False))"
| "session_step parse w g (Request h b t) =
     (if length h = 4 \<and> length b = unat (host32 h) then process_query parse w g (map char_of_byte b) t
      else throwA Stuck)"

end
