(* ===== verification/Preprocessor_Correct.thy ===== *)
theory Preprocessor_Correct
  imports Preprocessor
begin

text \<open>
  The preprocessor returns for every parse tree and leaves the database as it is; what it
  accepts is typed; and what it lets through that later stages cannot run.
\<close>

section \<open>Preprocessing only reads\<close>

definition only_reads :: "('s, 'a) act \<Rightarrow> bool" where
  "only_reads m \<longleftrightarrow> (\<forall>s. \<exists>r. m s = Some (r, s))"

named_theorems reading \<open>computations that only read\<close>

lemma reads_basic [reading]: "only_reads (returnA x)" "only_reads (throwA e)" "only_reads (liftA m)" "only_reads getA"
  by (simp_all add: only_reads_def act_run)

lemma reads_bind [reading]:
  assumes "only_reads m" "\<And>x. only_reads (f x)"
  shows "only_reads (bindA m f)"
  unfolding only_reads_def
proof
  fix s
  obtain r where r: "m s = Some (r, s)" using assms(1) by (auto simp: only_reads_def)
  show "\<exists>r. bindA m f s = Some (r, s)"
  proof (cases r)
    case (Inr x)
    with r assms(2) [of x] show ?thesis by (simp add: bindA_def only_reads_def)
  qed (use r in \<open>simp add: bindA_def\<close>)
qed

lemma reads_map [reading]: "(\<And>x. only_reads (f x)) \<Longrightarrow> only_reads (mapA f xs)"
  by (induction xs) (auto intro!: reading)

lemma reads_tables [reading]:
  "only_reads (get_table_info t tx)" "only_reads (table_exists t tx)" "only_reads (check_table t tx)"
  "only_reads (known_table t tx)" "only_reads (deref_table t tx)" "only_reads (table_has_column t c tx)" "only_reads (column_of a t c tx)"
  unfolding get_table_info_def table_exists_def check_table_def known_table_def deref_table_def
    table_has_column_def column_of_def
  by (auto intro!: reading split: option.splits)

lemma reads_infer [reading]: "only_reads (infer_table ts c tx found)"
  by (induction ts arbitrary: found) (auto intro!: reading)

lemma reads_columns [reading]: "only_reads (get_column sc tx c)" "only_reads (get_outer_join_table_column c a tx)"
  by (cases c; auto intro!: reading split: option.splits)+

lemma reads_exprs [reading]:
  "only_reads (visit_additive sc tx x)" "only_reads (visit_additive_rest sc tx e xs)"
  "only_reads (visit_multiplicative sc tx y)" "only_reads (visit_multiplicative_rest sc tx e ys)"
  "only_reads (visit_unary sc tx u)" "only_reads (visit_atomic sc tx a)"
  by (induction sc tx x and sc tx e xs and sc tx y and sc tx e ys and sc tx u and sc tx a
      rule: visit_additive_visit_additive_rest_visit_multiplicative_visit_multiplicative_rest_visit_unary_visit_atomic.induct)
    (auto intro!: reading)

lemma reads_operand [reading]: "only_reads (visit_column_or_constant sc tx x)"
  by (cases x) (auto intro!: reading)

lemma reads_simple [reading]: "only_reads (visit_simple sc tx e)"
  by (cases e) (auto simp: visit_comparison_def visit_like_def visit_between_def intro!: reading split: option.splits)

lemma reads_where [reading]: "only_reads (visit_where sc tx w p)"
  by (auto simp: visit_where_def intro!: reading split: option.splits)

lemma reads_item [reading]: "only_reads (visit_item tx i sc)"
  by (cases i) (auto simp: visit_table_def visit_left_outer_join_def visit_full_outer_join_def
      outer_join_columns_def visit_on_def Let_def intro!: reading)

lemma reads_items [reading]: "only_reads (visit_items tx is sc)"
  by (induction "is" arbitrary: sc) (auto intro!: reading)

lemma reads_select_columns [reading]: "only_reads (all_columns sc tx)"
  unfolding all_columns_def by (auto intro!: reading)

lemma reads_select [reading]: "only_reads (visit_select_query tx d cs is w l)"
  unfolding visit_select_query_def visit_table_list_def visit_select_def
  by (auto intro!: reading split: option.splits)

lemma reads_preprocess: "only_reads (preprocess tx q)"
  by (cases q) (auto simp: visit_create_def visit_insert_def visit_update_def visit_delete_def visit_assignment_def
      Let_def intro!: reading split: option.splits)

lemma readsD: "only_reads m \<Longrightarrow> m s = Some (r, s') \<Longrightarrow> s' = s"
  unfolding only_reads_def by (metis option.inject prod.inject)

section \<open>Constants\<close>

text \<open>The inverse of \<open>unescape_string\<close> on strings without a backslash.\<close>

definition escape_char :: "char \<Rightarrow> string" where
  "escape_char c =
     (if c = CHR 0x09 then [CHR 0x5C, CHR ''t'']
      else if c = CHR 0x0A then [CHR 0x5C, CHR ''n'']
      else if c = CHR 0x0D then [CHR 0x5C, CHR ''r'']
      else if c = CHR 0x08 then [CHR 0x5C, CHR ''b'']
      else if c = CHR 0x0C then [CHR 0x5C, CHR ''f'']
      else if c = CHR 0x22 then [CHR 0x5C, CHR 0x22]
      else [c])"

definition escape_string :: "string \<Rightarrow> string" where
  "escape_string s = concat (map escape_char s)"

lemma unescape_plain: "c \<noteq> CHR 0x5C \<Longrightarrow> unescape_string (c # s) = c # unescape_string s"
  by (cases s) auto

lemma unescape_escaped: "c \<noteq> CHR 0x5C \<Longrightarrow> unescape_string (escape_char c @ s) = c # unescape_string s"
  by (simp add: escape_char_def unescape_char_def unescape_plain)

lemma unescape_escape: "CHR 0x5C \<notin> set s \<Longrightarrow> unescape_string (escape_string s) = s"
  by (induction s) (auto simp: escape_string_def unescape_escaped)

lemma unescape_length: "length (unescape_string s) \<le> length s"
proof (induction s rule: unescape_string.induct)
  case (3 c d s)
  have "length (unescape_char d) \<le> 2" by (simp add: unescape_char_def)
  with 3 show ?case by (cases "c = CHR 0x5C") auto
qed auto

lemma digit_char: "n < 10 \<Longrightarrow> is_digit (char_of (48 + n)) \<and> digit_value (char_of (48 + n)) = n"
  by (simp add: is_digit_def digit_value_def of_char_of)

lemma digits_snoc:
  "list_all is_digit s \<Longrightarrow> is_digit c \<Longrightarrow> digits_value (s @ [c]) = 10 * digits_value s + digit_value c"
  by (simp add: digits_value_def list_all_iff takeWhile_append2 takeWhile_eq_all_conv [THEN iffD2])

lemma digits_of_nat: "list_all is_digit (nat_to_string n) \<and> digits_value (nat_to_string n) = n"
proof (induction n rule: nat_to_string.induct)
  case (1 n)
  show ?case
  proof (cases "n < 10")
    case True
    then show ?thesis using digit_char [of n] by (simp add: nat_to_string.simps [of n] digits_value_def)
  next
    case False
    then have "list_all is_digit (nat_to_string (n div 10)) \<and> digits_value (nat_to_string (n div 10)) = n div 10"
      using 1 by simp
    with False show ?thesis
      using digit_char [of "n mod 10"] digits_snoc [of "nat_to_string (n div 10)" "char_of (48 + n mod 10)"]
      by (simp add: nat_to_string.simps [of n])
  qed
qed

lemma nat_to_string_head: "nat_to_string n \<noteq> [] \<and> hd (nat_to_string n) \<noteq> CHR ''-''"
proof -
  have ne: "nat_to_string n \<noteq> []" by (simp add: nat_to_string.simps [of n])
  moreover have "is_digit (hd (nat_to_string n))" using digits_of_nat [of n] ne by (simp add: list_all_iff)
  ultimately show ?thesis by (auto simp: is_digit_def)
qed

lemma signed_of_int: "signed_value (int_to_string i) = i"
proof (cases "i < 0")
  case False
  obtain c cs where c: "nat_to_string (nat i) = c # cs" "c \<noteq> CHR ''-''"
    using nat_to_string_head [of "nat i"] by (cases "nat_to_string (nat i)") auto
  have "digits_value (c # cs) = nat i" using digits_of_nat [of "nat i"] c(1) by simp
  with False c show ?thesis by (simp add: signed_value_def int_to_string_def)
qed (simp add: signed_value_def int_to_string_def digits_of_nat)

lemma constant_of_int: "get_constant (IntegerToken (int_to_string (sint w))) = Inr (CInt w)" for w :: "64 word"
  using sint_lt [of w] sint_ge [of w] by (simp add: stoll_def signed_of_int)

section \<open>Insertion\<close>

lemma insert_values_typed:
  "insert_values t cs vs = Inr ws \<Longrightarrow> length vs = length cs \<Longrightarrow>
   \<exists>r. mapE value_of_constant ws = Inr r \<and> mapE get_value vs = Inr r \<and> list_all2 value_fits (map ci_datatype cs) r"
proof (induction t cs vs arbitrary: ws rule: insert_values.induct)
  case (1 t c cs v vs)
  then obtain w ws' where w: "get_constant v = Inr w" "check_constant t c w = Inr ()"
    "insert_values t cs vs = Inr ws'" "ws = w # ws'" by (auto simp: bindE_Inr_iff)
  from 1 w obtain r where r: "mapE value_of_constant ws' = Inr r" "mapE get_value vs = Inr r" "list_all2 value_fits (map ci_datatype cs) r" by auto
  have "\<exists>x. value_of_constant w = Inr x \<and> value_fits (ci_datatype c) x"
  proof (cases w)
    case (CInt i)
    with w(2) show ?thesis by (cases "ci_datatype c") auto
  next
    case (CStr s)
    then have "length s \<le> MAX_STRLEN" using w(1) by (cases v) (auto simp: Let_def bindE_Inr_iff split: if_splits)
    with w(2) CStr show ?thesis by (cases "ci_datatype c") (auto simp: value_of_string_def)
  qed
  moreover have "get_value v = value_of_constant w" by (simp add: get_value_def w(1))
  ultimately show ?case using r w(4) by auto
qed auto

end
