(* ===== verification/Optimizer_Correct.thy ===== *)
theory Optimizer_Correct
  imports Optimizer "HOL-Library.Multiset"
begin

text \<open>
  What the optimizer's plans compute: visiting changes the column counts only by what projections list, a query
  whose columns are all needed returns the rows its logical plan denotes, and a query that
  leaves a column out reads the wrong values.
\<close>

section \<open>The column counts\<close>

lemma drop_use: "drop_column c (use_column c u) = u"
  by (auto simp: drop_column_def use_column_def fun_eq_iff)

lemma use_commute: "use_column a (use_column b u) = use_column b (use_column a u)"
  by (auto simp: use_column_def fun_eq_iff)

lemma drop_use_commute: "0 < u (col_key b) \<Longrightarrow> drop_column b (use_column a u) = use_column a (drop_column b u)"
  by (auto simp: drop_column_def use_column_def fun_eq_iff)

definition counts :: "column list \<Rightarrow> usage \<Rightarrow> usage" where
  "counts cs u k = u k + length (filter (\<lambda>c. col_key c = k) cs)"

lemma fold_use: "fold use_column cs u = counts cs u"
  by (induction cs arbitrary: u) (auto simp: counts_def use_column_def fun_eq_iff)

lemma fold_drop: "fold drop_column cs (counts cs u) = u"
proof (induction cs arbitrary: u)
  case (Cons c cs)
  have "drop_column c (counts (c # cs) u) = counts cs u"
    by (auto simp: counts_def drop_column_def fun_eq_iff)
  with Cons.IH show ?case by simp
qed (simp add: counts_def fun_eq_iff)

lemma pairs_fold:
  "use_pairs cs = fold use_column (concat (map (\<lambda>(a, b). [a, b]) cs))"
  "drop_pairs cs = fold drop_column (concat (map (\<lambda>(a, b). [a, b]) cs))"
proof -
  have "use_pairs cs u = fold use_column (concat (map (\<lambda>(a, b). [a, b]) cs)) u" for u
    by (induction cs arbitrary: u) (auto simp: use_pairs_def)
  then show "use_pairs cs = fold use_column (concat (map (\<lambda>(a, b). [a, b]) cs))" by (rule ext)
  have "drop_pairs cs u = fold drop_column (concat (map (\<lambda>(a, b). [a, b]) cs)) u" for u
    by (induction cs arbitrary: u) (auto simp: drop_pairs_def)
  then show "drop_pairs cs = fold drop_column (concat (map (\<lambda>(a, b). [a, b]) cs))" by (rule ext)
qed

lemma drop_use_pairs: "drop_pairs cs (use_pairs cs u) = u"
  by (simp add: pairs_fold fold_use fold_drop)

lemma used_counts: "used (counts cs u) c \<longleftrightarrow> used u c \<or> col_mem c cs"
proof -
  have "filter (\<lambda>d. col_key d = col_key c) cs \<noteq> [] \<longleftrightarrow> col_mem c cs"
    unfolding col_mem_def column_eq_key filter_empty_conv by metis
  then show ?thesis by (simp add: used_def counts_def length_greater_0_conv [symmetric] del: length_greater_0_conv)
qed

lemma counts_append: "counts (cs @ ds) u = counts ds (counts cs u)"
  by (simp add: counts_def fun_eq_iff)

lemma counts_commute: "counts cs (counts ds u) = counts ds (counts cs u)"
  by (simp add: counts_def fun_eq_iff)

lemma counts_Nil: "counts [] u = u"
  by (simp add: counts_def fun_eq_iff)

lemma counts_mset:
  assumes "mset cs = mset ds"
  shows "counts cs u = counts ds u"
proof -
  have "length (filter P cs) = length (filter P ds)" for P
    using assms by (metis mset_filter size_mset)
  then show ?thesis by (simp add: counts_def fun_eq_iff)
qed

lemma drop_counted: "fold drop_column cs (counts ds (fold use_column cs u)) = counts ds u"
  by (simp add: fold_use counts_commute [of ds cs] fold_drop)

lemma drop_counted_pairs: "drop_pairs cs (counts ds (use_pairs cs u)) = counts ds u"
  by (simp add: pairs_fold drop_counted)

text \<open>
  \<open>adds ds v\<close>: the visitor gives the counts back with the columns \<open>ds\<close> counted once more, each as often as it is
  listed. Only projections leave such columns behind.
\<close>

definition adds :: "column list \<Rightarrow> visitor \<Rightarrow> bool" where
  "adds ds v \<longleftrightarrow> (\<forall>u s q u' s'. v u s = Some (Inr (q, u'), s') \<longrightarrow> u' = counts ds u)"

lemma addsD: "adds ds v \<Longrightarrow> v u s = Some (Inr (q, u'), s') \<Longrightarrow> u' = counts ds u"
  unfolding adds_def by blast

lemma adds_rest: "list_all2 adds dss vs \<Longrightarrow> adds (concat dss) (visit_rest step l vs)"
proof (induction arbitrary: l rule: list_all2_induct)
  case Nil
  then show ?case by (auto simp: adds_def act_run counts_Nil)
next
  case (Cons ds dss v vs)
  show ?case
    unfolding adds_def
  proof (intro allI impI)
    fix u s q u' s' assume "visit_rest step l (v # vs) u s = Some (Inr (q, u'), s')"
    then obtain r u1 s1 where v: "v u s = Some (Inr (r, u1), s1)"
      and rest: "visit_rest step (step u1 l r) vs u1 s1 = Some (Inr (q, u'), s')"
      by (auto simp: bindA_Inr_iff)
    from addsD [OF Cons.hyps(1) v] addsD [OF Cons.IH rest] show "u' = counts (concat (ds # dss)) u"
      by (simp add: counts_append)
  qed
qed

lemma adds_all: "list_all2 adds dss vs \<Longrightarrow> adds (concat dss) (visit_all step vs)"
proof (cases vs)
  case (Cons v ws)
  assume "list_all2 adds dss vs"
  then obtain ds es where dss: "dss = ds # es" and v: "adds ds v" and ws: "list_all2 adds es ws"
    by (auto simp: Cons list_all2_Cons2)
  show ?thesis
    unfolding adds_def Cons visit_all_def
  proof (clarsimp simp: bindA_Inr_iff)
    fix u s q u' s' l u1 s1
    assume "v u s = Some (Inr (l, u1), s1)" "visit_rest step l ws u1 s1 = Some (Inr (q, u'), s')"
    with addsD [OF v, of u s] addsD [OF adds_rest [OF ws], of step l u1 s1] show "u' = counts (concat dss) u"
      by (simp add: dss counts_append)
  qed
qed (auto simp: adds_def visit_all_def act_run)

text \<open>An order of the children: none, as the stub has it, or one with every child.\<close>

definition full_order :: "join_order \<Rightarrow> bool" where
  "full_order ord \<longleftrightarrow> (\<forall>tx ps cs s order s'. ord tx ps cs s = Some (Inr order, s') \<longrightarrow>
     order = [] \<or> set order = {..<length ps})"

lemma beam_search_full: "full_order beam_search_join_order"
  by (auto simp: full_order_def beam_search_join_order_def bindA_Inr_iff act_run split: if_splits)

lemma mapE_nthE: "mapE (nthE xs) is = Inr ys \<Longrightarrow> set ys \<subseteq> set xs"
  by (induction "is" arbitrary: ys) (auto simp: bindE_Inr_iff nthE_def split: if_splits)

lemma reorder_nth: "reorder order vs = Inr ws \<Longrightarrow> distinct order \<and> set order \<subseteq> {..<length vs} \<and> ws = map (nth vs) order"
proof -
  have "mapE (nthE vs) order = Inr ws \<Longrightarrow> set order \<subseteq> {..<length vs} \<and> ws = map (nth vs) order"
    by (induction order arbitrary: ws) (auto simp: bindE_Inr_iff nthE_def split: if_splits)
  then show "reorder order vs = Inr ws \<Longrightarrow> distinct order \<and> set order \<subseteq> {..<length vs} \<and> ws = map (nth vs) order"
    by (auto simp: reorder_def split: if_splits)
qed

lemma mset_reordered:
  assumes "distinct order" "set order = {..<length xs}"
  shows "mset (map (nth xs) order) = mset xs"
proof -
  have "mset order = mset [0..<length xs]"
    unfolding set_eq_iff_mset_eq_distinct [OF assms(1) distinct_upt, symmetric] by (auto simp: assms(2))
  then have "image_mset (nth xs) (mset order) = image_mset (nth xs) (mset [0..<length xs])" by (rule arg_cong)
  then show ?thesis by (simp only: mset_map [symmetric] map_nth)
qed

lemma mset_concat_eq: "mset xss = mset yss \<Longrightarrow> mset (concat xss) = mset (concat yss)"
  by (simp add: mset_concat) (metis mset_map sum_mset_sum_list)

lemma adds_selection: "adds ds v \<Longrightarrow> adds ds (visit_selection es v)"
  unfolding adds_def visit_selection_def by (clarsimp simp: bindA_Inr_iff act_run) (metis drop_counted)

lemma adds_projection: "adds ds v \<Longrightarrow> adds (cs @ ds) (visit_projection d lim cs v)"
  unfolding adds_def visit_projection_def
  by (clarsimp simp: bindA_Inr_iff act_run fold_use split: if_splits) (metis counts_append)

lemma adds_outer:
  assumes "adds ds v" "adds es v'"
  shows "adds (ds @ es) (visit_outer new cs v v')"
  unfolding adds_def
proof (intro allI impI)
  fix u s q u' s' assume "visit_outer new cs v v' u s = Some (Inr (q, u'), s')"
  then obtain l u1 s1 r u2 s2 where v: "v (use_pairs cs u) s = Some (Inr (l, u1), s1)" "v' u1 s1 = Some (Inr (r, u2), s2)"
    and u': "u' = drop_pairs cs u2"
    by (auto simp: visit_outer_def bindA_Inr_iff act_run)
  have "u2 = counts (ds @ es) (use_pairs cs u)"
    using addsD [OF assms(1) v(1)] addsD [OF assms(2) v(2)] by (simp add: counts_append)
  with u' show "u' = counts (ds @ es) u" by (simp add: drop_counted_pairs)
qed

lemma adds_join:
  assumes "list_all2 adds dss vs" "full_order ord" "length ps = length vs"
  shows "adds (concat dss) (visit_join ord tx ps cs vs)"
  unfolding adds_def
proof (intro allI impI)
  fix u s q u' s' assume "visit_join ord tx ps cs vs u s = Some (Inr (q, u'), s')"
  then obtain order ws u1 s1 s2 where order: "ord tx ps cs s = Some (Inr order, s1)" and ws: "reorder order vs = Inr ws"
    and all: "visit_all (join_step cs) ws (use_pairs cs u) s1 = Some (Inr (q, u1), s2)"
    and u': "u' = drop_pairs cs u1"
    by (auto simp: visit_join_def bindA_Inr_iff act_run)
  note nth = reorder_nth [OF ws]
  have "order \<noteq> []" using all nth by (auto simp: visit_all_def act_run)
  then have set: "set order = {..<length vs}"
    using assms(2,3) order unfolding full_order_def by metis
  then have "list_all2 adds (map (nth dss) order) ws"
    using assms(1) nth by (auto simp: list_all2_conv_all_nth) (metis lessThan_iff nth_mem)
  from addsD [OF adds_all [OF this] all] have "u1 = counts (concat (map (nth dss) order)) (use_pairs cs u)" .
  also have "\<dots> = counts (concat dss) (use_pairs cs u)"
    using nth set list_all2_lengthD [OF assms(1)] by (intro counts_mset mset_concat_eq mset_reordered) auto
  finally show "u' = counts (concat dss) u" by (simp add: u' drop_counted_pairs)
qed

text \<open>The columns of all projections of a plan. Those the preprocessor builds have one, at the root.\<close>

fun projected_columns :: "query_plan \<Rightarrow> column list" where
  "projected_columns (RelationPlan a t) = []"
| "projected_columns (SelectionPlan p es) = projected_columns p"
| "projected_columns (ProjectionPlan p d lim cs) = cs @ projected_columns p"
| "projected_columns (CartesianProductPlan ps) = concat (map projected_columns ps)"
| "projected_columns (JoinPlan ps cs) = concat (map projected_columns ps)"
| "projected_columns (LeftOuterJoinPlan a l r cs) = projected_columns l @ projected_columns r"
| "projected_columns (FullOuterJoinPlan a l r cs) = projected_columns l @ projected_columns r"

lemma visit_adds:
  assumes ord: "full_order ord"
  shows "adds (projected_columns p) (visit ord tx p)"
proof (induction p)
  case (RelationPlan a t)
  show ?case
    by (auto simp: adds_def counts_Nil visit_relation_def bindA_Inr_iff act_run split: option.splits)
next
  case (CartesianProductPlan ps)
  then have "list_all2 adds (map projected_columns ps) (map (visit ord tx) ps)" by (simp add: list.rel_map list.rel_refl_strong)
  from adds_all [OF this, of new_product] show ?case by (auto simp: adds_def visit_product_def act_run split: if_splits)
next
  case (JoinPlan ps cs)
  then have "list_all2 adds (map projected_columns ps) (map (visit ord tx) ps)" by (simp add: list.rel_map list.rel_refl_strong)
  from adds_join [OF this ord] show ?case by simp
qed (simp_all add: adds_selection adds_projection adds_outer visit_left_outer_def visit_full_outer_def)

section \<open>Conditions\<close>

text \<open>The comparisons and ranges a WHERE clause is made of. LIKE is left out: its matcher has no body.\<close>

fun atomic :: "expr_plan \<Rightarrow> bool" where
  "atomic (ExprPlanColumn c) = True"
| "atomic (ExprPlanTerm v) = True"
| "atomic _ = False"

fun condition :: "expr_plan \<Rightarrow> bool" where
  "condition (ExprPlanEquals l r) = (atomic l \<and> atomic r)"
| "condition (ExprPlanNotEquals l r) = (atomic l \<and> atomic r)"
| "condition (ExprPlanLess l r) = (atomic l \<and> atomic r)"
| "condition (ExprPlanLessOrEquals l r) = (atomic l \<and> atomic r)"
| "condition (ExprPlanBetween c lo hi) = True"
| "condition _ = False"

lemma row_env_value: "col_mem c cs \<Longrightarrow> length r = length cs \<Longrightarrow> \<exists>v. row_env cs r c = Inr v"
  using col_index_nth [of c cs] by (auto simp: row_env_def value_at_def nthE_def)

lemma atomic_value:
  "atomic e \<Longrightarrow> columns_in cs e \<Longrightarrow> length r = length cs \<Longrightarrow> \<exists>v. plan_eval (row_env cs r) e = Inr v"
  by (cases e) (auto intro: row_env_value)

lemma comparison_value:
  assumes "atomic a" "atomic b" "columns_in cs a" "columns_in cs b" "length r = length cs"
  shows "\<exists>v. lift2 (\<lambda>x y. Inr (bool_value (f x y))) (plan_eval (row_env cs r) a) (plan_eval (row_env cs r) b) =
    Inr (bool_value v)"
  using atomic_value [OF assms(1,3,5)] atomic_value [OF assms(2,4,5)] by (auto simp: lift2_def)

lemma condition_value:
  "condition e \<Longrightarrow> columns_in cs e \<Longrightarrow> length r = length cs \<Longrightarrow> \<exists>b. plan_eval (row_env cs r) e = Inr (bool_value b)"
proof (cases e)
  case (ExprPlanBetween c lo hi)
  assume "columns_in cs e" "length r = length cs"
  with row_env_value [of c cs r] show ?thesis by (auto simp: ExprPlanBetween)
qed (simp_all add: comparison_value)

lemma condition_null_free: "condition e \<Longrightarrow> null_free e"
proof -
  have "atomic a \<Longrightarrow> null_free a" for a by (cases a) simp_all
  then show "condition e \<Longrightarrow> null_free e" by (cases e) simp_all
qed

definition satisfies :: "column list \<Rightarrow> row \<Rightarrow> expr_plan \<Rightarrow> bool" where
  "satisfies cs r e \<longleftrightarrow> plan_eval (row_env cs r) e = Inr (VInt 1)"

lemma sel_matches_conditions:
  "mapE (compile_expr cs) es = Inr es' \<Longrightarrow> \<forall>e \<in> set es. condition e \<and> columns_in cs e \<Longrightarrow> length r = length cs \<Longrightarrow>
   sel_matches es' r = Inr (\<forall>e \<in> set es. satisfies cs r e)"
proof (induction es arbitrary: es')
  case (Cons e es)
  then obtain e' es'' where c: "compile_expr cs e = Inr e'" "mapE (compile_expr cs) es = Inr es''" "es' = e' # es''"
    by (auto simp: bindE_Inr_iff)
  obtain b where b: "plan_eval (row_env cs r) e = Inr (bool_value b)"
    using condition_value [of e cs r] Cons.prems by auto
  with c(1) compile_eval have "expr_eval e' r = Inr (bool_value b)" by simp
  with b Cons.IH [OF c(2)] Cons.prems c(3) show ?case by (simp add: bool_value_def satisfies_def)
qed simp

lemma compile_all: "\<forall>e \<in> set es. columns_in cs e \<Longrightarrow> \<exists>es'. mapE (compile_expr cs) es = Inr es'"
proof (induction es)
  case (Cons e es)
  then have "\<exists>e'. compile_expr cs e = Inr e'" by (simp add: compile_defined)
  with Cons show ?case by auto
qed simp

section \<open>A query over one table\<close>

text \<open>
  What the catalog's \<open>create_table\<close> makes: stored columns with distinct names, then the RID column;
  the heap file stores the same types.
\<close>

definition table_ok :: "table_info \<Rightarrow> bool" where
  "table_ok ti \<longleftrightarrow> columns (ti_schema ti) \<noteq> [] \<and> ci_datatype (last (columns (ti_schema ti))) = DT_RID \<and>
     list_all (\<lambda>c. stored_type (ci_datatype c)) (butlast (columns (ti_schema ti))) \<and>
     distinct (map ci_name (columns (ti_schema ti))) \<and>
     stored_types (hf_schema (ti_heap_file ti)) = map ci_datatype (butlast (columns (ti_schema ti)))"

lemma used_columns_snoc:
  "used_columns u (cs @ [c]) = used_columns u cs @ (if used u c then [\<lparr>pc_pos = length cs, pc_col = c\<rparr>] else [])"
  by (simp add: used_columns_def enumerate_append_eq)

lemma used_columns_filter: "map pc_col (used_columns u cs) = filter (used u) cs"
  by (induction cs rule: rev_induct) (simp_all add: used_columns_snoc, simp add: used_columns_def)

text \<open>A relation lists the stored columns that are needed, and the RID.\<close>

lemma relation_columns_run:
  assumes "cs \<noteq> []" "ci_datatype (col_info (last cs)) = DT_RID"
  shows "\<exists>pcs. relation_columns u cs = Inr pcs \<and> map pc_col pcs = filter (used u) (butlast cs) @ [last cs]"
proof -
  have cs: "cs = butlast cs @ [last cs]" using assms(1) by simp
  have len: "length cs - 1 = length (butlast cs)" by simp
  have "used_columns u cs = used_columns u (butlast cs) @
      (if used u (last cs) then [\<lparr>pc_pos = length (butlast cs), pc_col = last cs\<rparr>] else [])"
    by (subst cs) (rule used_columns_snoc)
  then show ?thesis using assms by (simp add: relation_columns_def used_columns_filter)
qed

lemma visit_relation_run:
  assumes found: "get_table_info t tx s = Some (Inr (Some ti), s)" and ok: "table_ok ti"
    and rep: "heap_rep (ti_heap_file ti) s H" "H \<noteq> []" and cs: "cs = table_columns a t (ti_schema ti)"
  shows "\<exists>pcs. visit_relation tx a t u s = Some (Inr (Relation (iter_at (ti_heap_file ti) tx (length H) 0 (-1)) pcs, u), s) \<and>
    map pc_col pcs = filter (used u) (butlast cs) @ [last cs]"
proof -
  have "cs \<noteq> []" "ci_datatype (col_info (last cs)) = DT_RID"
    using ok by (simp_all add: cs table_ok_def table_columns_def last_map)
  from relation_columns_run [OF this, of u] obtain pcs where
    pcs: "relation_columns u cs = Inr pcs" "map pc_col pcs = filter (used u) (butlast cs) @ [last cs]" by blast
  have "get_record_iter (ti_heap_file ti) tx s = Some (Inr (iter_at (ti_heap_file ti) tx (length H) 0 (-1)), s)"
    using open_page_run [OF rep(1), of 0] rep
    by (simp add: get_record_iter_def bindA_run act_run iter_at_def db_count_pages_def heap_rep_def)
  then show ?thesis
    using found pcs by (simp add: visit_relation_def bindA_run act_run cs)
qed

lemma visible_row_typed:
  assumes rep: "heap_rep hf s H" and ok: "chains_ok H" and r: "r \<in> set (visible_rows s tx H t)"
  shows "\<exists>x rid. r = x @ [VRid rid] \<and> row_fits (hf_schema hf) x"
proof -
  obtain rid where "r \<in> set (seen_row s tx H rid)"
    using r by (auto simp: visible_rows_def page_rows_def)
  then obtain h x v where h: "slot_at H rid = Some (h, x)" "first_rid h = rid"
    and v: "first_seen s tx (chain_of H rid) = Some v" and r: "r = v_row v @ [VRid rid]"
    by (cases "slot_at H rid") (auto simp: seen_row_def split: option.splits if_splits)
  obtain vs where vs: "chain H rid vs" using ok h by (auto simp: chains_ok_def)
  have "v \<in> set vs" using v by (auto simp: first_seen_def chain_of_eq [OF vs] find_Some_iff)
  with chain_slot [OF vs] have "slot_at H (v_rid v) = Some (v_head v, v_row v)" by (metis prod.collapse)
  with slot_facts(1) [OF rep] r show ?thesis by blast
qed

lemma fresh_iter:
  assumes "heap_rep hf s H" "H \<noteq> []" "chains_ok H" "map_of (db_active s) tx \<noteq> None"
  shows "iter_ok s (iter_at hf tx (length H) 0 (-1))"
    "iter_rows s (iter_at hf tx (length H) 0 (-1)) = visible_rows s tx H (length H)"
    "iter_rest s (iter_at hf tx (length H) 0 (-1)) = visible_rows s tx H (length H)"
  using assms visible_rows_from [of "length H" s tx H]
  by (simp_all add: iter_ok_def iter_rows_def iter_rest_def iter_at_def Let_def heap_of_rep [OF assms(1)])

text \<open>The values of the columns \<open>proj\<close> in a row under the columns \<open>cs\<close>.\<close>

definition values_of :: "column list \<Rightarrow> column list \<Rightarrow> row \<Rightarrow> row" where
  "values_of cs proj r = map (\<lambda>c. r ! nat (col_index c cs)) proj"

lemma projected_values: "\<forall>c \<in> set proj. col_mem c cs \<Longrightarrow> projected cs proj r = values_of cs proj r"
  by (simp add: projected_def values_of_def filter_True col_index_found)

lemma columns_collected:
  "\<forall>e \<in> set es. null_free e \<Longrightarrow> \<exists>css. mapE expr_get_columns es = Inr css \<and>
     (\<forall>c. col_mem c (concat css) \<longleftrightarrow> (\<exists>e \<in> set es. \<exists>ds. expr_get_columns e = Inr ds \<and> col_mem c ds))"
proof (induction es)
  case (Cons e es)
  then obtain ds css where "expr_get_columns e = Inr ds" "mapE expr_get_columns es = Inr css"
    "\<forall>c. col_mem c (concat css) \<longleftrightarrow> (\<exists>e \<in> set es. \<exists>ds. expr_get_columns e = Inr ds \<and> col_mem c ds)"
    using get_columns_defined [of e] by auto
  then show ?case by (auto simp: col_mem_def)
qed (simp add: col_mem_def)

text \<open>A query that needs every stored column of its table.\<close>

definition needs_all :: "column list \<Rightarrow> column list \<Rightarrow> expr_plan list \<Rightarrow> bool" where
  "needs_all cs proj es \<longleftrightarrow> (\<forall>c \<in> set (butlast cs). col_mem c proj \<or>
     (\<exists>e \<in> set es. \<exists>ds. expr_get_columns e = Inr ds \<and> col_mem c ds))"

lemma table_row_length:
  assumes "heap_rep (ti_heap_file ti) s H" "chains_ok H" "table_ok ti" "r \<in> set (visible_rows s tx H n)"
  shows "length r = length (table_columns a t (ti_schema ti))"
proof -
  obtain x rid where r: "r = x @ [VRid rid]" "row_fits (hf_schema (ti_heap_file ti)) x"
    using visible_row_typed [OF assms(1,2,4)] by blast
  then have "length x = length (columns (ti_schema ti)) - 1"
    using assms(3) by (auto simp: row_fits_def table_ok_def dest!: list_all2_lengthD)
  with r(1) assms(3) show ?thesis by (cases "columns (ti_schema ti)") (simp_all add: table_ok_def table_columns_def)
qed

lemma select_run:
  assumes found: "get_table_info t tx s = Some (Inr (Some ti), s)" and ok: "table_ok ti"
    and rep: "heap_rep (ti_heap_file ti) s H" "H \<noteq> []" "chains_ok H" and tx: "map_of (db_active s) tx \<noteq> None"
    and cs: "cs = table_columns a t (ti_schema ti)"
    and proj: "proj \<noteq> []" "\<forall>c \<in> set proj. col_mem c cs"
    and es: "\<forall>e \<in> set es. condition e \<and> columns_in cs e" and all: "needs_all cs proj es"
  shows "\<exists>p it it'. create_physical_plan ord tx
        (QueryPlan (ProjectionPlan (SelectionPlan (RelationPlan a t) es) False lim proj)) s = Some (Inr (PhysicalQuery p), s) \<and>
      qbegin scan_begin scan_next scan_reset p s = Some (Inr (it, s)) \<and>
      qcollect scan_next scan_reset it s = Some (Inr (take (unat lim) (map (values_of cs proj)
        (filter (\<lambda>r. \<forall>e \<in> set es. satisfies cs r e) (visible_rows s tx H (length H)))), it', s))"
proof -
  let ?it = "iter_at (ti_heap_file ti) tx (length H) 0 (-1)" and ?rows = "visible_rows s tx H (length H)"
  obtain css where css: "mapE expr_get_columns es = Inr css"
    "\<And>c. col_mem c (concat css) \<longleftrightarrow> (\<exists>e \<in> set es. \<exists>ds. expr_get_columns e = Inr ds \<and> col_mem c ds)"
    using columns_collected [of es] es condition_null_free by blast
  have "\<forall>c \<in> set (butlast cs). used (counts (concat css) (counts proj (\<lambda>_. 0))) c"
    using all by (auto simp: used_counts needs_all_def css(2))
  then have "filter (used (counts (concat css) (counts proj (\<lambda>_. 0)))) (butlast cs) @ [last cs] = cs"
    using ok by (simp add: filter_True cs table_columns_def table_ok_def)
  with visit_relation_run [OF found ok rep(1,2) cs, of "counts (concat css) (counts proj (\<lambda>_. 0))"] obtain pcs where
    v: "visit_relation tx a t (counts (concat css) (counts proj (\<lambda>_. 0))) s =
      Some (Inr (Relation ?it pcs, counts (concat css) (counts proj (\<lambda>_. 0))), s)" "map pc_col pcs = cs" by auto
  obtain es' where es': "mapE (compile_expr cs) es = Inr es'" using compile_all es by blast
  define q where "q = (if es' = [] then Relation ?it pcs else Selection (Relation ?it pcs) es')"
  have plan: "create_physical_plan ord tx
      (QueryPlan (ProjectionPlan (SelectionPlan (RelationPlan a t) es) False lim proj)) s =
      Some (Inr (PhysicalQuery (Projection q proj (unat lim) 0)), s)"
    using v es' css(1)
    by (simp add: visit_projection_def visit_selection_def bindA_run act_run fold_use q_def)
  note it = fresh_iter [OF rep(1-3) tx]
  have len: "length r = length cs" if "r \<in> set ?rows" for r
    using table_row_length [OF rep(1,3) ok that] cs by simp
  have sel: "sel_matches es' r = Inr (\<forall>e \<in> set es. satisfies cs r e)" if "r \<in> set ?rows" for r
    by (rule sel_matches_conditions [OF es' es len [OF that]])
  have "es' = [] \<longleftrightarrow> es = []" using es' by (cases es) (auto simp: bindE_Inr_iff)
  moreover have "filter (holds es') ?rows = filter (\<lambda>r. \<forall>e \<in> set es. satisfies cs r e) ?rows"
    by (rule filter_cong) (simp_all add: holds_def sel)
  ultimately have q: "qrows (iter_rows s) q = filter (\<lambda>r. \<forall>e \<in> set es. satisfies cs r e) ?rows"
    "get_columns q = cs" "plan_ok (iter_ok s) (iter_rows s) (iter_rest s) q"
    using it v(2) sel by (auto simp: q_def)
  have "col_index c cs < int (length r)" if "r \<in> set (qrows (iter_rows s) q)" "c \<in> set proj" for r c
    using that len [of r] proj(2) col_index_nth [of c cs] by (fastforce simp: q(1))
  then have "plan_ok (iter_ok s) (iter_rows s) (iter_rest s) (Projection q proj (unat lim) 0)"
    using q proj by (cases proj) auto
  from heap_scan.run_plan [OF this] plan show ?thesis
    using projected_values [OF proj(2)] by (auto simp: q cong: map_cong)
qed

lemma filter_only: "x \<in> set xs \<Longrightarrow> distinct xs \<Longrightarrow> filter (\<lambda>y. y = x) xs = [x]"
  by (induction xs) (auto simp: filter_empty_conv)

text \<open>
  One column alone: the relation lists that column first, but its rows are whole, so the
  projection takes their first value, whichever column was asked for.
\<close>

lemma single_column_run:
  assumes found: "get_table_info t tx s = Some (Inr (Some ti), s)" and ok: "table_ok ti"
    and rep: "heap_rep (ti_heap_file ti) s H" "H \<noteq> []" "chains_ok H" and tx: "map_of (db_active s) tx \<noteq> None"
    and cs: "cs = table_columns a t (ti_schema ti)" and c: "c \<in> set (butlast cs)"
  shows "\<exists>p it it'. create_physical_plan ord tx (QueryPlan (ProjectionPlan (RelationPlan a t) False lim [c])) s =
        Some (Inr (PhysicalQuery p), s) \<and>
      qbegin scan_begin scan_next scan_reset p s = Some (Inr (it, s)) \<and>
      qcollect scan_next scan_reset it s =
        Some (Inr (take (unat lim) (map (\<lambda>r. [hd r]) (visible_rows s tx H (length H))), it', s))"
proof -
  let ?it = "iter_at (ti_heap_file ti) tx (length H) 0 (-1)" and ?rows = "visible_rows s tx H (length H)"
  let ?u = "use_column c (\<lambda>_. 0)"
  have "inj_on col_key (set cs)" "distinct cs"
    using ok by (auto simp: cs table_ok_def table_columns_def col_key_def distinct_map inj_on_def)
  then have "used ?u d \<longleftrightarrow> d = c" if "d \<in> set (butlast cs)" for d
    using in_set_butlastD [OF that] in_set_butlastD [OF c]
    by (simp add: used_def use_column_def inj_on_def) metis
  then have "filter (used ?u) (butlast cs) = filter (\<lambda>d. d = c) (butlast cs)" by (rule filter_cong [OF refl])
  moreover have "distinct (butlast cs)" using \<open>distinct cs\<close> by (rule distinct_butlast)
  ultimately have "filter (used ?u) (butlast cs) = [c]" using c by (simp add: filter_only)
  with visit_relation_run [OF found ok rep(1,2) cs, of ?u] obtain pcs where
    v: "visit_relation tx a t ?u s = Some (Inr (Relation ?it pcs, ?u), s)" "map pc_col pcs = [c, last cs]" by auto
  then have plan: "create_physical_plan ord tx (QueryPlan (ProjectionPlan (RelationPlan a t) False lim [c])) s =
      Some (Inr (PhysicalQuery (Projection (Relation ?it pcs) [c] (unat lim) 0)), s)"
    by (simp add: visit_projection_def bindA_run act_run)
  note it = fresh_iter [OF rep(1-3) tx]
  have ne: "r \<noteq> []" if "r \<in> set ?rows" for r
    using rows_nonempty(2) that by metis
  have "plan_ok (iter_ok s) (iter_rows s) (iter_rest s) (Projection (Relation ?it pcs) [c] (unat lim) 0)"
    using it v(2) ne by (auto simp: col_mem_def column_eq_equiv(1))
  from heap_scan.run_plan [OF this] obtain b d where run:
    "qbegin scan_begin scan_next scan_reset (Projection (Relation ?it pcs) [c] (unat lim) 0) s = Some (Inr (b, s))"
    "qcollect scan_next scan_reset b s =
       Some (Inr (qrows (iter_rows s) (Projection (Relation ?it pcs) [c] (unat lim) 0), d, s))" by blast
  have "projected [c, last cs] [c] r = [hd r]" if "r \<in> set ?rows" for r
    using ne [OF that] by (simp add: projected_def column_eq_equiv(1) hd_conv_nth)
  note same = map_cong [OF refl this]
  have "qrows (iter_rows s) (Projection (Relation ?it pcs) [c] (unat lim) 0) =
      take (unat lim) (map (projected [c, last cs] [c]) ?rows)"
    by (simp add: v(2) it(2))
  also have "map (projected [c, last cs] [c]) ?rows = map (\<lambda>r. [hd r]) ?rows" by (rule same)
  finally have "qrows (iter_rows s) (Projection (Relation ?it pcs) [c] (unat lim) 0) =
      take (unat lim) (map (\<lambda>r. [hd r]) ?rows)" .
  with run plan show ?thesis by metis
qed

end
