(* ===== verification/Quiet.thy ===== *)
theory Quiet
  imports Session Preprocessor_Correct Optimizer_Correct
begin

text \<open>
  Operations that touch neither the lock table nor the transactions: everything that reads, and
  everything that only writes pages. The rules of \<open>quiets\<close> follow the structure of the code.
\<close>

section \<open>Rules\<close>

definition tx_view :: "db \<Rightarrow> (tuple_key \<Rightarrow> tx_id option) \<times> (tx_id \<times> transaction) list" where
  "tx_view s = (db_locks s, db_active s)"

definition quiet :: "(db, 'a) act \<Rightarrow> bool" where
  "quiet m \<longleftrightarrow> (\<forall>s r s'. m s = Some (r, s') \<longrightarrow> tx_view s' = tx_view s)"

named_theorems quiets \<open>operations that leave locks and transactions alone\<close>

lemma quietD: "quiet m \<Longrightarrow> m s = Some (r, s') \<Longrightarrow> tx_view s' = tx_view s"
  unfolding quiet_def by blast

lemma quiet_basic [quiets]: "quiet (returnA x)" "quiet (throwA e)" "quiet (liftA m)" "quiet getA"
  by (simp_all add: quiet_def act_run)

lemma quiet_modify: "(\<And>s. tx_view (f s) = tx_view s) \<Longrightarrow> quiet (modifyA f)"
  by (auto simp: quiet_def act_run)

lemma bindA_SomeE:
  assumes "bindA m f s = Some (r, s')"
  obtains (Inl) e where "m s = Some (Inl e, s')" "r = Inl e"
  | (Inr) x s1 where "m s = Some (Inr x, s1)" "f x s1 = Some (r, s')"
  using assms by (auto simp: bindA_def split: option.splits sum.splits Option.bind_splits)

lemma quiet_bind [quiets]:
  assumes "quiet m" "\<And>x. quiet (f x)"
  shows "quiet (bindA m f)"
  unfolding quiet_def
proof (intro allI impI)
  fix s r s' assume "bindA m f s = Some (r, s')"
  then show "tx_view s' = tx_view s"
    by (cases rule: bindA_SomeE) (metis quietD assms)+
qed

lemma quiet_eta: "quiet m \<Longrightarrow> quiet (\<lambda>s. m s)"
  by simp

lemma quiet_case [quiets]:
  "quiet m \<Longrightarrow> (\<And>x. quiet (f x)) \<Longrightarrow> quiet (case y of None \<Rightarrow> m | Some x \<Rightarrow> f x)"
  "quiet m \<Longrightarrow> (\<And>x. quiet (f x)) \<Longrightarrow> quiet (\<lambda>s. case y of None \<Rightarrow> m s | Some x \<Rightarrow> f x s)"
  by (cases y; simp)+

lemma quiet_if [quiets]:
  "quiet m \<Longrightarrow> quiet n \<Longrightarrow> quiet (if b then m else n)"
  "quiet m \<Longrightarrow> quiet n \<Longrightarrow> quiet (\<lambda>s. if b then m s else n s)"
  by (cases b; simp)+

lemma quiet_when [quiets]: "quiet m \<Longrightarrow> quiet (whenA b m)"
  by (simp add: whenA_def quiets)

lemma quiet_map [quiets]: "(\<And>x. quiet (f x)) \<Longrightarrow> quiet (mapA f xs)"
  by (induction xs) (auto intro!: quiets)

lemma quiet_reads: "(\<And>s. \<exists>r. m s = Some (r, s)) \<Longrightarrow> quiet m"
  by (auto simp: quiet_def) (metis option.inject prod.inject)

section \<open>Heap files\<close>

lemma quiet_pages [quiets]: "quiet (onPages m)"
  by (auto simp: quiet_def onPages_def tx_view_def split: Option.bind_splits)

lemma quiet_page [quiets]: "quiet (heap_page hf n op)"
  by (simp add: heap_page_def quiets)

lemma quiet_heap [quiets]:
  "quiet (get_record hf r)" "quiet (get_record_header hf r)" "quiet (undo hf r tx)" "quiet (open_page hf n)"
  "quiet (get_states a b)" "quiet (get_isolation_level tx)" "quiet (get_table_info t tx)"
  unfolding get_record_def get_record_header_def undo_def open_page_def get_states_def get_isolation_level_def get_table_info_def
  by (auto intro!: quiets)

lemma quiet_visible [quiets]: "quiet (is_visible h tx)"
  unfolding is_visible_def by (auto intro!: quiets split: isolation_level.splits prod.splits)

text \<open>The loops, by induction over the calls they make.\<close>

lemma quiet_runs: "(\<And>s y. F s = Some y \<Longrightarrow> tx_view (snd y) = tx_view s) \<Longrightarrow> quiet F"
  by (auto simp: quiet_def)

lemma quiet_step: "bindA m f s = Some y \<Longrightarrow> quiet (bindA m f) \<Longrightarrow> tx_view (snd y) = tx_view s"
  by (cases y) (auto dest: quietD)

lemma quiet_last_version [quiets]: "quiet (get_last_version hf r)"
proof (rule quiet_runs)
  fix s y assume "get_last_version hf r s = Some y"
  then show "tx_view (snd y) = tx_view s"
    by (rule get_last_version.raw_induct [rotated]) (erule quiet_step, (intro quiets; rule quiet_runs; blast))
qed

lemma quiet_read [quiets]: "quiet (heap_read hf r tx)"
proof (rule quiet_runs)
  fix s y assume "heap_read hf r tx s = Some y"
  then show "tx_view (snd y) = tx_view s"
    by (rule heap_read.raw_induct [rotated]) (erule quiet_step, (intro quiets; rule quiet_runs; blast))
qed

lemma quiet_step_if:
  "(if b then returnA x s else bindA m f s) = Some y \<Longrightarrow> quiet (bindA m f) \<Longrightarrow> tx_view (snd y) = tx_view s"
  by (auto simp: act_run split: if_splits elim!: quiet_step)

lemma quiet_next [quiets]: "quiet (iter_next it)"
proof (rule quiet_runs)
  fix s y assume "iter_next it s = Some y"
  then show "tx_view (snd y) = tx_view s"
    by (rule iter_next.raw_induct [rotated])
      (unfold Let_def, erule quiet_step_if, (intro quiets; rule quiet_runs; blast))
qed

lemma quiet_iter [quiets]: "quiet (get_record_iter hf tx)" "quiet (iter_begin it)" "quiet (iter_reset it)"
  unfolding get_record_iter_def iter_begin_def iter_reset_def by (auto intro!: quiets)

lemma quiet_vacuum_pages [quiets]: "quiet (vacuum_pages hf g i n)"
  by (induction n arbitrary: i) (auto intro!: quiets)

lemma quiet_vacuum [quiets]: "quiet (heap_vacuum hf g)"
  unfolding heap_vacuum_def reset_last_insert_def by (intro quiets quiet_modify) (simp add: tx_view_def)

lemma quiet_vacuum_tables: "(\<And>hf. quiet (v hf)) \<Longrightarrow> quiet (vacuum_tables v ts tx)"
  by (induction ts) (auto intro!: quiets)

lemma quiet_cat_vacuum [quiets]: "quiet (cat_vacuum g tx)"
  unfolding cat_vacuum_def by (intro quiets quiet_vacuum_tables)

section \<open>Queries\<close>

text \<open>An invariant of the scans is an invariant of the operators over them.\<close>

lemma bindO_Inr_iff: "bindO m f = Some (Inr z) \<longleftrightarrow> (\<exists>x. m = Some (Inr x) \<and> f x = Some (Inr z))"
  by (auto simp: bindO_def split: option.splits sum.splits Option.bind_splits)

locale scan_invariant =
  fixes rb :: "'i \<Rightarrow> 'w \<Rightarrow> ('i \<times> 'w) res" and rn :: "'i \<Rightarrow> 'w \<Rightarrow> (row \<times> 'i \<times> 'w) run"
    and rr :: "'i \<Rightarrow> 'w \<Rightarrow> ('i \<times> 'w) res" and I :: "'w \<Rightarrow> bool"
  assumes begin_keeps: "I w \<Longrightarrow> rb i w = Inr (i', w') \<Longrightarrow> I w'"
    and next_keeps: "I w \<Longrightarrow> rn i w = Some (Inr (x, i', w')) \<Longrightarrow> I w'"
    and reset_keeps: "I w \<Longrightarrow> rr i w = Inr (i', w') \<Longrightarrow> I w'"
begin

lemma qreset_keeps: "qreset rr it w = Inr (it', w') \<Longrightarrow> I w \<Longrightarrow> I w'"
  by (induction it arbitrary: w it' w') (force simp: bindE_Inr_iff dest: reset_keeps)+

definition keeping :: "('i, 'w) nexter \<Rightarrow> bool" where
  "keeping nxt \<longleftrightarrow> (\<forall>it w x it' w'. I w \<longrightarrow> nxt it w = Some (Inr (x, it', w')) \<longrightarrow> I w')"

lemma keepingD: "keeping nxt \<Longrightarrow> nxt it w = Some (Inr (x, it', w')) \<Longrightarrow> I w \<Longrightarrow> I w'"
  unfolding keeping_def by blast

lemma operators_keep:
  assumes "keeping nxt" "I w"
  shows "projection_next nxt c cs lim cnt w = Some (Inr (x, it', w')) \<Longrightarrow> I w'"
    "selection_next nxt c es w = Some (Inr (x, it', w')) \<Longrightarrow> I w'"
    "cartesian_next rr nxt l r lc rc st w = Some (Inr (x, it', w')) \<Longrightarrow> I w'"
    "join_next rr nxt l r lc rc eqs st w = Some (Inr (x, it', w')) \<Longrightarrow> I w'"
    "left_outer_next rr nxt l r lc rc eqs st w = Some (Inr (x, it', w')) \<Longrightarrow> I w'"
    "full_outer_next rr nxt l r lc rc eqs st w = Some (Inr (x, it', w')) \<Longrightarrow> I w'"
  unfolding projection_next_def selection_next_def cartesian_next_def join_next_def left_outer_next_def full_outer_next_def
  using assms(2)
  by (auto simp: bindO_Inr_iff retO_def split: if_splits dest: keepingD [OF assms(1)] qreset_keeps)

lemma qnext_keeps: "keeping (qnext rn rr)"
proof -
  have "rn' = rn \<longrightarrow> rr' = rr \<longrightarrow> I w \<longrightarrow> (\<forall>x it' w'. y = Inr (x, it', w') \<longrightarrow> I w')"
    if "qnext rn' rr' it w = Some y" for rn' rr' it w y
    using that
  proof (rule qnext.raw_induct [rotated], intro impI allI)
    fix f :: "('i \<Rightarrow> 'w \<Rightarrow> (row \<times> 'i \<times> 'w) run) \<Rightarrow> ('i \<Rightarrow> 'w \<Rightarrow> ('i \<times> 'w) res) \<Rightarrow> ('i, 'w) nexter"
      and rn' rr' it w and y :: "(row \<times> 'i qiter \<times> 'w) res" and x it' w'
    assume IH: "\<And>rn' rr' it w y. f rn' rr' it w = Some y \<Longrightarrow>
        rn' = rn \<longrightarrow> rr' = rr \<longrightarrow> I w \<longrightarrow> (\<forall>x it' w'. y = Inr (x, it', w') \<longrightarrow> I w')"
      and eq: "rn' = rn" "rr' = rr" and w: "I w" and y: "y = Inr (x, it', w')"
    have f: "keeping (f rn rr)" unfolding keeping_def using IH by blast
    assume "(case it of
        Relation i pcs \<Rightarrow> relation_next (rn' i) pcs w
      | Projection c cs lim cnt \<Rightarrow> projection_next (f rn' rr') c cs lim cnt w
      | Selection c es \<Rightarrow> selection_next (f rn' rr') c es w
      | CartesianProduct l r lc rc st \<Rightarrow> cartesian_next rr' (f rn' rr') l r lc rc st w
      | Join l r lc rc eqs st \<Rightarrow> join_next rr' (f rn' rr') l r lc rc eqs st w
      | LeftOuterJoin l r lc rc eqs st \<Rightarrow> left_outer_next rr' (f rn' rr') l r lc rc eqs st w
      | FullOuterJoin l r lc rc eqs st \<Rightarrow> full_outer_next rr' (f rn' rr') l r lc rc eqs st w) = Some y"
    then show "I w'"
      unfolding eq y by (cases it) (auto simp: bindO_Inr_iff retO_def dest: next_keeps [OF w] operators_keep [OF f w])
  qed
  then show ?thesis unfolding keeping_def by blast
qed

lemma init_keeps: "init_matched rn rr it n w = Some (Inr (k, it', w')) \<Longrightarrow> I w \<Longrightarrow> I w'"
proof -
  have "rn' = rn \<longrightarrow> rr' = rr \<longrightarrow> I w \<longrightarrow> (\<forall>k it' w'. y = Inr (k, it', w') \<longrightarrow> I w')"
    if "init_matched rn' rr' it n w = Some y" for rn' rr' it n w y
    using that
    by (rule init_matched.raw_induct [rotated])
      (clarsimp simp: bindO_Inr_iff retO_def split: if_splits, metis keepingD qnext_keeps)
  then show "init_matched rn rr it n w = Some (Inr (k, it', w')) \<Longrightarrow> I w \<Longrightarrow> I w'" by blast
qed

lemma qbegin_keeps: "qbegin rb rn rr it w = Some (Inr (it', w')) \<Longrightarrow> I w \<Longrightarrow> I w'"
proof (induction it arbitrary: w it' w')
  case (FullOuterJoin l r lc rc eqs st)
  then show ?case by (auto simp: bindO_Inr_iff retO_def dest: init_keeps qreset_keeps)
qed (auto simp: bindO_Inr_iff retO_def dest: begin_keeps)

lemma qcollect_keeps: "qcollect rn rr it w = Some (Inr (xs, it', w')) \<Longrightarrow> I w \<Longrightarrow> I w'"
proof -
  have "rn' = rn \<longrightarrow> rr' = rr \<longrightarrow> I w \<longrightarrow> (\<forall>xs it' w'. y = Inr (xs, it', w') \<longrightarrow> I w')"
    if "qcollect rn' rr' it w = Some y" for rn' rr' it w y
    using that
    by (rule qcollect.raw_induct [rotated])
      (clarsimp simp: bindO_Inr_iff retO_def split: if_splits, metis keepingD qnext_keeps)
  then show "qcollect rn rr it w = Some (Inr (xs, it', w')) \<Longrightarrow> I w \<Longrightarrow> I w'" by blast
qed

end

interpretation heap_quiet: scan_invariant scan_begin scan_next scan_reset "\<lambda>s. tx_view s = v" for v
proof
  have b: "quiet (iter_begin it)" "quiet (iter_next it)" "quiet (iter_reset it)" for it by (intro quiets)+
  show "tx_view w' = v" if "tx_view w = v" "scan_begin i w = Inr (i', w')" for w i i' w'
    using that quietD [OF b(1)]
    by (auto simp: scan_begin_def drop_state_def split: option.splits sum.splits) metis?
  show "tx_view w' = v" if "tx_view w = v" "scan_next i w = Some (Inr (x, i', w'))" for w i x i' w'
    using that by (cases "iter_next i w") (auto simp: scan_next_def drop_state_def retO_def dest: quietD [OF b(2)] split: sum.splits)
  show "tx_view w' = v" if "tx_view w = v" "scan_reset i w = Inr (i', w')" for w i i' w'
    using that quietD [OF b(3)]
    by (auto simp: scan_reset_def drop_state_def split: option.splits sum.splits) metis?
qed

lemma quiet_run_iter:
  "(\<And>s x s'. m s = Some (Inr (x, s')) \<Longrightarrow> tx_view s' = tx_view s) \<Longrightarrow> quiet (run_iter m)"
  by (auto simp: quiet_def run_iter_def split: option.splits sum.splits)

lemma quiet_child [quiets]: "quiet (child_begin c)" "quiet (child_reset c)" "quiet (child_next c)" "quiet (collect_query c)"
  unfolding child_begin_def child_reset_def child_next_def collect_query_def
  by (rule quiet_run_iter; auto simp: bindO_Inr_iff retO_def dest: heap_quiet.qbegin_keeps heap_quiet.qreset_keeps
      heap_quiet.qcollect_keeps heap_quiet.keepingD [OF heap_quiet.qnext_keeps])+

section \<open>Planning\<close>

lemma quiet_preprocess [quiets]: "quiet (preprocess tx q)"
  using reads_preprocess [of tx q] by (auto intro!: quiet_reads simp: only_reads_def)

lemma quiet_relation: "quiet (visit_relation tx a t u)"
  unfolding visit_relation_def by (intro quiets)

lemma quiet_prod [quiets]: "(\<And>a b. quiet (f a b)) \<Longrightarrow> quiet (case x of (a, b) \<Rightarrow> f a b)"
  by (cases x) simp

lemma quiet_visit_all: "\<forall>v \<in> set vs. \<forall>u. quiet (v u) \<Longrightarrow> quiet (visit_all step vs u)"
proof -
  have rest: "\<forall>v \<in> set vs. \<forall>u. quiet (v u) \<Longrightarrow> quiet (visit_rest step l vs u)" for l vs u
    by (induction vs arbitrary: l u) (auto intro!: quiets)
  then show "\<forall>v \<in> set vs. \<forall>u. quiet (v u) \<Longrightarrow> quiet (visit_all step vs u)"
    by (cases vs) (auto simp: visit_all_def intro!: quiets rest)
qed

lemma quiet_order [quiets]: "quiet (beam_search_join_order tx ps cs)"
proof -
  have "quiet (estimate_lookup tx p)" for p by (induction p) (auto intro!: quiets)
  then show ?thesis unfolding beam_search_join_order_def by (intro quiets)
qed

lemma quiet_visit: "quiet (visit beam_search_join_order tx p u)"
proof (induction p arbitrary: u)
  case (CartesianProductPlan ps)
  then show ?case by (auto simp: visit_product_def intro!: quiets quiet_visit_all)
next
  case (JoinPlan ps cs)
  have "quiet (bindA (liftA (reorder order (map (visit beam_search_join_order tx) ps))) (\<lambda>vs.
     bindA (visit_all (join_step cs) vs (use_pairs cs u)) (\<lambda>(p, u). returnA (p, drop_pairs cs u))))" for order
  proof (cases "reorder order (map (visit beam_search_join_order tx) ps)")
    case (Inr vs)
    then have "set vs \<subseteq> visit beam_search_join_order tx ` set ps"
      using mapE_nthE [of "map (visit beam_search_join_order tx) ps" order vs]
      by (auto simp: reorder_def split: if_splits)
    with JoinPlan have "\<forall>v \<in> set vs. \<forall>u. quiet (v u)" by auto
    with Inr show ?thesis by (auto intro!: quiets quiet_visit_all)
  qed (simp add: quiets)
  then show ?case unfolding visit.simps visit_join_def by (rule quiet_bind [OF quiet_order])
qed (auto simp: quiet_relation visit_selection_def visit_projection_def visit_left_outer_def visit_full_outer_def visit_outer_def
    intro!: quiets)

lemma quiet_plan [quiets]: "quiet (create_physical_plan beam_search_join_order tx lp)"
proof (cases lp)
  case (UpdatePlan ti upd c)
  then show ?thesis by (cases c) (auto simp: visit_update_plan_def intro!: quiets quiet_visit)
next
  case (DeletionPlan ti c)
  then show ?thesis by (cases c) (auto simp: visit_deletion_plan_def intro!: quiets quiet_visit)
qed (auto intro!: quiets quiet_visit)

lemma quiet_parse [quiets]: "quiet (parse_query parse q tx)"
  unfolding parse_query_def by (intro quiets)

end
