(* ===== verification/Lock_Safety.thy ===== *)
theory Lock_Safety
  imports Quiet
begin

text \<open>
  Locks and transactions across a whole session. Every lock is held by an active transaction
  that lists its key, so the end of the transaction releases it; a session ends no transaction
  but its own. What other sessions do while one waits for a lock is bounded by the same promise,
  which is what each of them keeps in turn.
\<close>

section \<open>The promise\<close>

definition locks_ok :: "db \<Rightarrow> bool" where
  "locks_ok s \<longleftrightarrow> (\<forall>k h. db_locks s k = Some h \<longrightarrow>
     (\<exists>x. map_of (db_active s) h = Some x \<and> k \<in> set (tx_first_rids x)))"

definition active :: "tx_id \<Rightarrow> db \<Rightarrow> bool" where
  "active tx s \<longleftrightarrow> map_of (db_active s) tx \<noteq> None"

definition all_active :: "tx_id set \<Rightarrow> db \<Rightarrow> bool" where
  "all_active os s \<longleftrightarrow> (\<forall>t \<in> os. active t s)"

text \<open>What the others do during a wait: they keep the promise, end neither \<open>tx\<close> nor one of \<open>os\<close>.\<close>

definition rely :: "wait \<Rightarrow> tx_id \<Rightarrow> tx_id set \<Rightarrow> bool" where
  "rely w tx os \<longleftrightarrow> (\<forall>n s. locks_ok s \<and> active tx s \<and> all_active os s \<longrightarrow>
     locks_ok (w_env w n s) \<and> active tx (w_env w n s) \<and> all_active os (w_env w n s))"

text \<open>
  A computation of transaction \<open>tx\<close> keeps the promise; \<open>tx\<close> is still active unless an abort was
  thrown; the transactions \<open>os\<close> of others are still active.
\<close>

definition kept :: "tx_id \<Rightarrow> tx_id set \<Rightarrow> 'a res \<times> db \<Rightarrow> bool" where
  "kept tx os y \<longleftrightarrow> locks_ok (snd y) \<and> all_active os (snd y) \<and>
     (active tx (snd y) \<or> (\<exists>e. fst y = Inl e \<and> is_abort e))"

definition safe_at :: "wait \<Rightarrow> tx_id \<Rightarrow> tx_id set \<Rightarrow> db \<Rightarrow> 'a res \<times> db \<Rightarrow> bool" where
  "safe_at w tx os s y \<longleftrightarrow>
     (tx \<notin> os \<and> rely w tx os \<and> locks_ok s \<and> active tx s \<and> all_active os s \<longrightarrow> kept tx os y)"

definition stays :: "wait \<Rightarrow> tx_id \<Rightarrow> tx_id set \<Rightarrow> (db, 'a) act \<Rightarrow> bool" where
  "stays w tx os m \<longleftrightarrow> (\<forall>s y. m s = Some y \<longrightarrow> safe_at w tx os s y)"

named_theorems stay \<open>computations that keep the promise\<close>

lemma view_cong:
  assumes "tx_view s' = tx_view s"
  shows "locks_ok s' = locks_ok s" "active t s' = active t s" "all_active os s' = all_active os s"
  using assms by (simp_all add: locks_ok_def active_def all_active_def tx_view_def)

lemma staysI: "(\<And>s y. m s = Some y \<Longrightarrow> safe_at w tx os s y) \<Longrightarrow> stays w tx os m"
  by (simp add: stays_def)

lemma staysD: "stays w tx os m \<Longrightarrow> m s = Some y \<Longrightarrow> safe_at w tx os s y"
  unfolding stays_def by blast

lemma stays_quiet: "quiet m \<Longrightarrow> stays w tx os m"
  by (auto simp: stays_def safe_at_def kept_def dest!: quietD intro: view_cong [THEN iffD2])

lemma stays_bind_result:
  assumes "stays w tx os m" "\<And>s x s'. m s = Some (Inr x, s') \<Longrightarrow> stays w tx os (f x)"
  shows "stays w tx os (bindA m f)"
proof (rule staysI)
  fix s y assume "bindA m f s = Some y"
  moreover obtain r s' where "y = (r, s')" by fastforce
  ultimately have "bindA m f s = Some (r, s')" by simp
  then show "safe_at w tx os s y"
  proof (cases rule: bindA_SomeE)
    case (Inl e)
    with staysD [OF assms(1) Inl(1)] \<open>y = (r, s')\<close> show ?thesis by (auto simp: safe_at_def kept_def)
  next
    case (Inr x s1)
    with staysD [OF assms(1) Inr(1)] staysD [OF assms(2) [OF Inr(1)] Inr(2)] \<open>y = (r, s')\<close> show ?thesis
      by (auto simp: safe_at_def kept_def)
  qed
qed

lemma stays_bind [stay]:
  "stays w tx os m \<Longrightarrow> (\<And>x. stays w tx os (f x)) \<Longrightarrow> stays w tx os (bindA m f)"
  by (rule stays_bind_result)

lemma stays_case [stay]:
  "stays w tx os m \<Longrightarrow> (\<And>x. stays w tx os (f x)) \<Longrightarrow> stays w tx os (case y of None \<Rightarrow> m | Some x \<Rightarrow> f x)"
  "stays w tx os m \<Longrightarrow> (\<And>x. stays w tx os (f x)) \<Longrightarrow> stays w tx os (\<lambda>s. case y of None \<Rightarrow> m s | Some x \<Rightarrow> f x s)"
  by (cases y; simp)+

lemma stays_if [stay]:
  "stays w tx os m \<Longrightarrow> stays w tx os n \<Longrightarrow> stays w tx os (if b then m else n)"
  "stays w tx os m \<Longrightarrow> stays w tx os n \<Longrightarrow> stays w tx os (\<lambda>s. if b then m s else n s)"
  by (cases b; simp)+

lemma stays_level [stay]:
  "stays w tx os m \<Longrightarrow> stays w tx os n \<Longrightarrow>
   stays w tx os (case l of READ_COMMITTED \<Rightarrow> m | SNAPSHOT_ISOLATION \<Rightarrow> n)"
  by (cases l) simp_all

lemmas stays_leaves [stay] =
  quiet_basic [THEN stays_quiet] quiet_heap [THEN stays_quiet] quiet_page [THEN stays_quiet]
  quiet_visible [THEN stays_quiet] quiet_last_version [THEN stays_quiet] quiet_read [THEN stays_quiet]
  quiet_child [THEN stays_quiet] quiet_cat_vacuum [THEN stays_quiet]

lemma stays_when [stay]: "stays w tx os m \<Longrightarrow> stays w tx os (whenA b m)"
  by (simp add: whenA_def stay)

section \<open>Ending a transaction\<close>

lemma release_locks:
  "fold (release_key tx) ks locks k = (if k \<in> set ks \<and> locks k = Some tx then None else locks k)"
  by (induction ks arbitrary: locks) (auto simp: release_key_def)

text \<open>The state after the locks are released and the transaction is erased.\<close>

definition ended :: "tx_id \<Rightarrow> db \<Rightarrow> db \<Rightarrow> bool" where
  "ended tx s s' \<longleftrightarrow> (\<forall>k. db_locks s' k = (if db_locks s k = Some tx then None else db_locks s k)) \<and>
     (\<forall>t. map_of (db_active s') t = (if t = tx then None else map_of (db_active s) t))"

lemma endedI:
  assumes "locks_ok s" "map_of (db_active s) tx = Some x"
    "db_locks s' = fold (release_key tx) (tx_first_rids x) (db_locks s)"
    "db_active s' = AList.delete tx (AList.map_entry tx f (db_active s))"
  shows "ended tx s s'"
  using assms
  by (fastforce simp: ended_def release_locks locks_ok_def delete_conv map_of_map_entry)

lemma ended_safe:
  assumes "ended tx s s'" "locks_ok s"
  shows "locks_ok s'" "\<not> active tx s'" "db_locks s' k \<noteq> Some tx" "t \<noteq> tx \<Longrightarrow> active t s' = active t s"
  using assms by (auto simp: ended_def locks_ok_def active_def split: if_splits)

lemma quiet_undo_all [quiets]: "quiet (undo_all tx ks)"
  by (induction ks) (auto intro!: quiets)

lemma delete_file_view [simp]: "tx_view (db_delete_file fd s) = tx_view s"
  by (simp add: db_delete_file_def tx_view_def Let_def split: option.splits)

lemma delete_files_view [simp]: "tx_view (fold (\<lambda>ti. db_delete_file (hf_file_id (ti_heap_file ti))) tis s) = tx_view s"
  by (induction tis arbitrary: s) simp_all

lemma quiet_abort_tables [quiets]: "quiet (abort_in_progress_tables tx)"
  unfolding abort_in_progress_tables_def
proof (rule quiet_modify)
  fix s
  have "tx_view (y\<lparr>db_in_process := z\<rparr>) = tx_view y" for y z by (simp add: tx_view_def)
  then show "tx_view (case map_of (db_in_process s) tx of None \<Rightarrow> s
      | Some tis \<Rightarrow> (fold (\<lambda>ti. db_delete_file (hf_file_id (ti_heap_file ti))) tis s)
          \<lparr>db_in_process := AList.delete tx (db_in_process s)\<rparr>) = tx_view s"
    by (simp split: option.splits)
qed

lemma abort_found_run:
  assumes "abort_found tx x s = Some (r, s')"
  shows "case r of Inl e \<Rightarrow> tx_view s' = tx_view s
    | Inr _ \<Rightarrow> db_locks s' = fold (release_key tx) (tx_first_rids x) (db_locks s) \<and>
        db_active s' = AList.map_entry tx (\<lambda>x. x\<lparr>tx_state := COMMITTED\<rparr>) (db_active s)"
proof -
  have "quiet (bindA (undo_all tx (tx_first_rids x)) (\<lambda>_. abort_in_progress_tables tx))" by (intro quiets)
  moreover have "bindA (bindA (undo_all tx (tx_first_rids x)) (\<lambda>_. abort_in_progress_tables tx))
      (\<lambda>_. bindA (set_state COMMITTED tx) (\<lambda>_. release_all_locks tx x)) s = Some (r, s')"
    using assms by (simp add: abort_found_def bindA_assoc)
  ultimately show ?thesis
    by (cases rule: bindA_SomeE [OF \<open>bindA _ _ s = _\<close>])
      (auto dest!: quietD simp: tx_view_def bindA_def act_run set_state_def release_all_locks_def update_transaction_def)
qed

lemma bind_get: "bindA getA f s = f s s"
  by (simp add: bindA_def act_run)

lemma abort_run:
  assumes "abort_transaction tx s = Some (r, s')" "locks_ok s"
  shows "case r of Inl e \<Rightarrow> tx_view s' = tx_view s | Inr _ \<Rightarrow> ended tx s s'"
proof (cases "map_of (db_active s) tx")
  case None
  with assms show ?thesis by (auto simp: abort_transaction_def bindA_def act_run)
next
  case (Some x)
  have "bindA (abort_found tx x) (\<lambda>_. modifyA (erase_transaction tx)) s = abort_transaction tx s"
    by (simp add: abort_transaction_def bind_get Some)
  with assms(1) have "bindA (abort_found tx x) (\<lambda>_. modifyA (erase_transaction tx)) s = Some (r, s')" by simp
  then show ?thesis
  proof (cases rule: bindA_SomeE)
    case (Inl e)
    with abort_found_run [OF Inl(1)] show ?thesis by simp
  next
    case (Inr u s1)
    then have "r = Inr ()" "s' = erase_transaction tx s1" by (simp_all add: act_run)
    with abort_found_run [OF Inr(1)] show ?thesis
      by (auto simp: erase_transaction_def intro!: endedI [OF assms(2) Some])
  qed
qed

lemma stays_abort_throw [stay]:
  assumes "is_abort e"
  shows "stays w tx os (bindA (abort_transaction tx) (\<lambda>_. throwA e))"
proof (rule staysI)
  fix s and y :: "'a res \<times> db" assume run: "bindA (abort_transaction tx) (\<lambda>_. throwA e) s = Some y"
  obtain r s' where y: "y = (r, s')" by fastforce
  show "safe_at w tx os s y"
    unfolding safe_at_def
  proof (intro impI, elim conjE)
    assume own: "tx \<notin> os" and ok: "locks_ok s" "active tx s" "all_active os s"
    from run [unfolded y] show "kept tx os y"
    proof (cases rule: bindA_SomeE)
      case (Inl e)
      have "tx_view s' = tx_view s" using abort_run [OF Inl(1) ok(1)] by simp
      from view_cong [OF this] ok y show ?thesis by (simp add: kept_def)
    next
      case (Inr x s1)
      then have "ended tx s s'" "r = Inl e" using abort_run [OF Inr(1) ok(1)] by (simp_all add: act_run)
      moreover have "all_active os s'"
        using ended_safe(4) [OF \<open>ended tx s s'\<close> ok(1)] own ok(3) unfolding all_active_def by metis
      ultimately show ?thesis
        using ended_safe(1) [OF _ ok(1)] y assms by (simp add: kept_def)
    qed
  qed
qed

section \<open>Acquiring a lock\<close>

lemma note_run:
  assumes "add_to_write_set tid r tx s = Some (x, s')" "active tx s"
  shows "x = Inr ()" "db_locks s' = db_locks s"
    "db_active s' = AList.map_entry tx (\<lambda>x. x\<lparr>tx_first_rids := insort_insert (TupleKey tid r) (tx_first_rids x)\<rparr>) (db_active s)"
  using assms
  by (auto simp: add_to_write_set_def bind_get active_def act_run update_transaction_def split: option.splits)

lemma noted_safe:
  assumes "locks_ok s" "active tx s"
    "db_active s' = AList.map_entry tx (\<lambda>x. x\<lparr>tx_first_rids := insort_insert k (tx_first_rids x)\<rparr>) (db_active s)"
    "db_locks s' = db_locks s \<or> db_locks s' = (db_locks s)(k \<mapsto> tx)"
  shows "locks_ok s'" "active t s' = active t s"
proof -
  obtain x where x: "map_of (db_active s) tx = Some x" using assms(2) by (auto simp: active_def)
  show "active t s' = active t s"
    by (simp add: active_def assms(3) map_of_map_entry split: option.splits)
  show "locks_ok s'"
    unfolding locks_ok_def
  proof (intro allI impI)
    fix k' h assume "db_locks s' k' = Some h"
    with assms(4) have "db_locks s k' = Some h \<or> (k' = k \<and> h = tx)" by (auto split: if_splits)
    then show "\<exists>x. map_of (db_active s') h = Some x \<and> k' \<in> set (tx_first_rids x)"
      using assms(1) x unfolding locks_ok_def
      by (fastforce simp: assms(3) map_of_map_entry set_insort_insert)
  qed
qed

lemma stays_note [stay]: "stays w tx os (add_to_write_set tid r tx)"
proof (rule staysI)
  fix s y assume "add_to_write_set tid r tx s = Some y"
  then obtain x s' where y: "y = (x, s')" and run: "add_to_write_set tid r tx s = Some (x, s')" by (cases y) simp
  show "safe_at w tx os s y"
    unfolding safe_at_def y kept_def
    using note_run [OF run] noted_safe [where k = "TupleKey tid r" and s = s and s' = s' and tx = tx]
    by (auto simp: all_active_def)
qed

lemma stays_take [stay]:
  "stays w tx os (bindA (modifyA (\<lambda>s. s\<lparr>db_locks := (db_locks s)(TupleKey tid r \<mapsto> tx)\<rparr>)) (\<lambda>_.
     bindA (add_to_write_set tid r tx) (\<lambda>_. returnA True)))"
proof (rule staysI)
  let ?k = "TupleKey tid r"
  fix s y
  assume "bindA (modifyA (\<lambda>s. s\<lparr>db_locks := (db_locks s)(?k \<mapsto> tx)\<rparr>)) (\<lambda>_.
     bindA (add_to_write_set tid r tx) (\<lambda>_. returnA True)) s = Some y"
  then have run: "bindA (add_to_write_set tid r tx) (\<lambda>_. returnA True) (s\<lparr>db_locks := (db_locks s)(?k \<mapsto> tx)\<rparr>) = Some y"
    by (simp add: bindA_def act_run)
  show "safe_at w tx os s y"
    unfolding safe_at_def
  proof (intro impI, elim conjE)
    assume ok: "locks_ok s" "active tx s" "all_active os s"
    let ?s = "s\<lparr>db_locks := (db_locks s)(?k \<mapsto> tx)\<rparr>"
    have act: "active tx ?s" using ok(2) by (simp add: active_def)
    obtain x s' where took: "add_to_write_set tid r tx ?s = Some (x, s')" "y = (Inr True, s')"
      using run act by (auto simp: bindA_def act_run dest!: note_run(1) split: Option.bind_splits)
    have "db_active s' = AList.map_entry tx (\<lambda>x. x\<lparr>tx_first_rids := insort_insert ?k (tx_first_rids x)\<rparr>) (db_active s)"
      "db_locks s' = (db_locks s)(?k \<mapsto> tx)"
      using note_run [OF took(1) act] by simp_all
    with noted_safe [OF ok(1,2), of s' ?k] ok show "kept tx os y" by (simp add: took kept_def all_active_def)
  qed
qed

lemma safe_env:
  assumes "safe_at w tx os (w_env w n s) y"
  shows "safe_at w tx os s y"
  using assms by (auto simp: safe_at_def rely_def)

lemma stays_acquire [stay]: "stays w tx os (try_acquire_lock w tx tid r)"
proof (rule staysI)
  fix s y assume "try_acquire_lock w tx tid r s = Some y"
  then have "acquire_loop w 1 tx tid r s = Some y" by (simp add: try_acquire_lock_def)
  then show "safe_at w tx os s y"
  proof (rule acquire_loop.raw_induct [rotated, where P = "\<lambda>w' n t tid r s y. w' = w \<and> t = tx \<longrightarrow> safe_at w tx os s y",
        THEN mp], goal_cases)
    case (1 loop w' n t tid r s y)
    show ?case
    proof (intro impI, elim conjE)
      assume wt: "w' = w" "t = tx"
      note run = 1(2) [unfolded wt]
      consider (late) "late w n" | (free) "\<not> late w n" "db_locks s (TupleKey tid r) = None"
        | (own) "\<not> late w n" "db_locks s (TupleKey tid r) = Some tx"
        | (taken) h where "\<not> late w n" "db_locks s (TupleKey tid r) = Some h" "h \<noteq> tx"
        by (cases "db_locks s (TupleKey tid r)") auto
      then show "safe_at w tx os s y"
      proof cases
        case late
        with run show ?thesis by (simp only: if_True) (erule staysD [rotated], rule stays_abort_throw, simp)
      next
        case free
        with run show ?thesis by (simp only: if_False option.simps) (erule staysD [OF stays_take])
      next
        case own
        with run show ?thesis by (auto simp: act_run safe_at_def kept_def)
      next
        case taken
        with run have "loop w (n + 1) tx tid r (w_env w n s) = Some y" by simp
        with 1(1) have "safe_at w tx os (w_env w n s) y" by blast
        then show ?thesis by (rule safe_env)
      qed
    qed
  qed simp
qed

section \<open>Changing records\<close>

lemma stays_step: "bindA m f s = Some y \<Longrightarrow> stays w tx os (bindA m f) \<Longrightarrow> safe_at w tx os s y"
  by (auto dest: staysD)

lemma stays_last_insert: "stays w tx os (\<lambda>s. m (s\<lparr>db_last_insert := f s\<rparr>))" if "stays w tx os m"
proof (rule staysI)
  fix s y assume "m (s\<lparr>db_last_insert := f s\<rparr>) = Some y"
  from staysD [OF that this] show "safe_at w tx os s y"
    using view_cong [of "s\<lparr>db_last_insert := f s\<rparr>" s] by (simp add: safe_at_def tx_view_def)
qed

lemma stays_insert [stay]: "stays w tx os (heap_insert hf rec tx first)"
proof (rule staysI)
  fix s y assume "heap_insert hf rec tx first s = Some y"
  then show "safe_at w tx os s y"
    by (rule heap_insert.raw_induct [rotated, where P = "\<lambda>hf rec t first s y. t = tx \<longrightarrow> safe_at w tx os s y", THEN mp])
      (unfold Let_def, intro impI, hypsubst, erule stays_step,
        (intro stay stays_last_insert; rule staysI; blast), simp)
qed

lemma stays_update [stay]: "stays w tx os (heap_update w hf r rec tx)"
  unfolding heap_update_def by (intro stay)

lemma stays_delete [stay]: "stays w tx os (heap_delete w hf r tx)"
  unfolding heap_delete_def Let_def by (intro stay) simp_all

lemma quiet_file_id [quiets]: "quiet (table_file_id n tid)"
  unfolding table_file_id_def db_get_file_id_def Let_def
  by (intro quiets quiet_modify) (simp_all add: tx_view_def)

lemma quiet_create [quiets]: "quiet (create_table name sch tx)"
  unfolding create_table_def Let_def
  by (intro quiets quiet_modify) (simp_all add: tx_view_def fresh_last_insert_def)

lemma stays_actions [stay]:
  "stays w tx os (cat_insert_record t r tx)" "stays w tx os (cat_update_record w t k r tx)"
  "stays w tx os (cat_delete_record w t k tx)" "stays w tx os (insertion_execute t vs tx)"
  "stays w tx os (creation_execute t sch tx)"
  unfolding cat_insert_record_def cat_update_record_def cat_delete_record_def insertion_execute_def creation_execute_def
  by (intro stay quiet_create [THEN stays_quiet])+


lemma stays_update_next: "ui_tx u = tx \<Longrightarrow> stays w tx os (update_next w u)"
proof (rule staysI)
  fix s y assume own: "ui_tx u = tx" and "update_next w u s = Some y"
  from this(2) have "ui_tx u = tx \<longrightarrow> safe_at w tx os s y"
    by (rule update_next.raw_induct [rotated])
      (unfold Let_def, intro impI, hypsubst, erule stays_step,
        (intro stay; (simp add: stays_acquire stays_actions; fail | rule staysI; simp)))
  with own show "safe_at w tx os s y" by simp
qed

lemma stays_deletion_next: "di_tx d = tx \<Longrightarrow> stays w tx os (deletion_next w d)"
proof (rule staysI)
  fix s y assume own: "di_tx d = tx" and "deletion_next w d s = Some y"
  from this(2) have "di_tx d = tx \<longrightarrow> safe_at w tx os s y"
    by (rule deletion_next.raw_induct [rotated])
      (unfold Let_def, intro impI, hypsubst, erule stays_step,
        (intro stay; (simp add: stays_acquire stays_actions; fail | rule staysI; simp)))
  with own show "safe_at w tx os s y" by simp
qed

text \<open>The iterators stay those of their transaction.\<close>

lemma update_next_tx: "update_next w u s = Some (Inr x, s') \<Longrightarrow> ui_tx (snd x) = ui_tx u"
proof -
  assume "update_next w u s = Some (Inr x, s')"
  moreover have "\<forall>x u'. fst y = Inr (x, u') \<longrightarrow> ui_tx u' = ui_tx u" if "update_next w u s = Some y" for y
    using that
    by (rule update_next.raw_induct [rotated])
      (fastforce simp: Let_def bindA_Inr_iff act_run split: if_splits option.splits)
  ultimately show ?thesis by (cases x) fastforce
qed

lemma deletion_next_tx: "deletion_next w d s = Some (Inr x, s') \<Longrightarrow> di_tx (snd x) = di_tx d"
proof -
  assume "deletion_next w d s = Some (Inr x, s')"
  moreover have "\<forall>x d'. fst y = Inr (x, d') \<longrightarrow> di_tx d' = di_tx d" if "deletion_next w d s = Some y" for y
    using that
    by (rule deletion_next.raw_induct [rotated])
      (fastforce simp: Let_def bindA_Inr_iff act_run split: if_splits option.splits)
  ultimately show ?thesis by (cases x) fastforce
qed

lemma stays_collect_update: "ui_tx u = tx \<Longrightarrow> stays w tx os (collect_update w u)"
proof (rule staysI)
  fix s y assume own: "ui_tx u = tx" and "collect_update w u s = Some y"
  from this(2) have "ui_tx u = tx \<longrightarrow> safe_at w tx os s y"
    by (rule collect_update.raw_induct [rotated], intro impI, hypsubst, elim stays_step)
      (intro stays_bind_result [OF stays_update_next [OF refl]] stay, rule staysI, simp add: update_next_tx)
  with own show "safe_at w tx os s y" by simp
qed

lemma stays_collect_deletion: "di_tx d = tx \<Longrightarrow> stays w tx os (collect_deletion w d)"
proof (rule staysI)
  fix s y assume own: "di_tx d = tx" and "collect_deletion w d s = Some y"
  from this(2) have "di_tx d = tx \<longrightarrow> safe_at w tx os s y"
    by (rule collect_deletion.raw_induct [rotated], intro impI, hypsubst, elim stays_step)
      (intro stays_bind_result [OF stays_deletion_next [OF refl]] stay, rule staysI, simp add: deletion_next_tx)
  with own show "safe_at w tx os s y" by simp
qed

section \<open>Running a plan\<close>

text \<open>The plans of a transaction carry its id.\<close>

fun plan_of :: "tx_id \<Rightarrow> physical_plan \<Rightarrow> bool" where
  "plan_of tx (PhysicalInsertion t vs x) = (x = tx)"
| "plan_of tx (PhysicalCreation t sch x) = (x = tx)"
| "plan_of tx (PhysicalQuery q) = True"
| "plan_of tx (PhysicalUpdate u) = (ui_tx u = tx)"
| "plan_of tx (PhysicalDeletion d) = (di_tx d = tx)"

lemma planned: "create_physical_plan ord tx lp s = Some (Inr p, s') \<Longrightarrow> plan_of tx p"
  by (cases "(ord, tx, lp)" rule: create_physical_plan.cases) (auto simp: visit_update_plan_def visit_deletion_plan_def bindA_Inr_iff act_run new_update_def
      new_deletion_def)

text \<open>Running without a commit at the end.\<close>

lemma stays_finish: "stays w tx os (finish False tx msg)"
  by (simp add: finish_def whenA_def stay)

lemma update_begin_tx: "update_begin u s = Some (Inr u', s') \<Longrightarrow> ui_tx u' = ui_tx u"
  by (auto simp: update_begin_def bindA_Inr_iff act_run)

lemma deletion_begin_tx: "deletion_begin d s = Some (Inr d', s') \<Longrightarrow> di_tx d' = di_tx d"
  by (auto simp: deletion_begin_def bindA_Inr_iff act_run)

lemma stays_begin: "stays w tx os (update_begin u)" "stays w tx os (deletion_begin d)"
  unfolding update_begin_def deletion_begin_def by (intro stay)+

text \<open>The rows of a plan, without the commit.\<close>

lemma stays_run_plan: "plan_of tx p \<Longrightarrow> stays w tx os (run_plan_text w False tx p)"
proof (cases p)
  case (PhysicalUpdate u)
  moreover assume "plan_of tx p"
  ultimately show ?thesis
    by (auto intro!: stays_bind_result [OF stays_begin(1)] stays_bind [OF stays_collect_update] stays_finish
        dest: update_begin_tx)
next
  case (PhysicalDeletion d)
  moreover assume "plan_of tx p"
  ultimately show ?thesis
    by (auto intro!: stays_bind_result [OF stays_begin(2)] stays_bind [OF stays_collect_deletion] stays_finish
        dest: deletion_begin_tx)
qed (auto intro!: stay stays_finish)

lemma stays_query_body: "stays w tx os (query_body parse w q tx False)"
  unfolding query_body_def
  by (intro stays_bind [OF stays_quiet [OF quiet_parse]] stays_bind_result [OF stays_quiet [OF quiet_plan]] stays_run_plan)
    (rule planned)

section \<open>Commit\<close>

lemma commit_found_run:
  assumes "commit_found tx x s = Some (r, s')"
  shows "case r of Inl e \<Rightarrow> tx_view s' = tx_view s
    | Inr _ \<Rightarrow> db_locks s' = fold (release_key tx) (tx_first_rids x) (db_locks s) \<and>
        db_active s' = AList.delete tx (AList.map_entry tx (\<lambda>x. x\<lparr>tx_state := COMMITTED\<rparr>) (db_active s))"
proof -
  let ?deltas = "modifyA (fold (\<lambda>(tid, d) s. if d \<noteq> 0 then update_cardinality tid d s else s) (tx_deltas x))"
  have "tx_view (fold (\<lambda>(tid, d) s. if d \<noteq> 0 then update_cardinality tid d s else s) ds s) = tx_view s" for ds s
    by (induction ds arbitrary: s) (auto simp: tx_view_def update_cardinality_def split: prod.splits)
  then have "quiet ?deltas" by (rule quiet_modify)
  moreover have "quiet (commit_in_progress_tables tx)"
    unfolding commit_in_progress_tables_def by (intro quiets quiet_modify) (simp add: tx_view_def)
  ultimately have "quiet (bindA (commit_in_progress_tables tx) (\<lambda>_. ?deltas))" by (intro quiet_bind)
  moreover have "bindA (bindA (commit_in_progress_tables tx) (\<lambda>_. ?deltas))
      (\<lambda>_. bindA (set_state COMMITTED tx) (\<lambda>_. bindA (release_all_locks tx x) (\<lambda>_. modifyA (erase_transaction tx)))) s = Some (r, s')"
    using assms by (simp add: commit_found_def bindA_assoc)
  ultimately show ?thesis
    by (cases rule: bindA_SomeE [OF \<open>bindA _ _ s = _\<close>])
      (auto dest!: quietD simp: tx_view_def bindA_def act_run set_state_def release_all_locks_def update_transaction_def
        erase_transaction_def)
qed

text \<open>
  A commit that returns has ended the transaction. One that throws has changed nothing about it,
  unless it throws the abort.
\<close>

lemma abort_throw_run:
  assumes "bindA (abort_found tx x) (\<lambda>_. bindA (modifyA (erase_transaction tx)) (\<lambda>_. throwA e)) s1 = Some (r, s')"
    "tx_view s1 = tx_view s" "locks_ok s" "map_of (db_active s) tx = Some x"
  shows "tx_view s' = tx_view s \<and> (\<exists>e. r = Inl e) \<or> ended tx s s' \<and> r = Inl e"
  using assms(1)
proof (cases rule: bindA_SomeE)
  case (Inl e')
  with abort_found_run [OF Inl(1)] assms(2) show ?thesis by simp
next
  case (Inr u s2)
  then have "r = Inl e" "s' = erase_transaction tx s2" by (auto simp: bindA_def act_run)
  with abort_found_run [OF Inr(1)] assms show ?thesis
    by (auto simp: erase_transaction_def tx_view_def intro!: endedI [OF assms(3,4)])
qed

lemma commit_run:
  assumes "commit_transaction tx s = Some (r, s')" "locks_ok s"
  shows "case r of Inl e \<Rightarrow> tx_view s' = tx_view s \<or> (ended tx s s' \<and> is_abort e) | Inr _ \<Rightarrow> ended tx s s'"
proof (cases "\<exists>x. map_of (db_active s) tx = Some x \<and> tx_state x = ACTIVE")
  case False
  with assms show ?thesis by (auto simp: commit_transaction_def bind_get act_run split: option.splits)
next
  case True
  then obtain x where x: "map_of (db_active s) tx = Some x" "tx_state x = ACTIVE" by blast
  let ?h = "\<lambda>e. if is_abort e
    then bindA (abort_found tx x) (\<lambda>_. bindA (modifyA (erase_transaction tx)) (\<lambda>_. throwA e)) else throwA e"
  from assms(1) x have "catchA (commit_found tx x) ?h s = Some (r, s')"
    by (simp add: commit_transaction_def bind_get)
  then obtain r1 s1 where c: "commit_found tx x s = Some (r1, s1)"
    "(case r1 of Inl e \<Rightarrow> ?h e s1 | Inr x \<Rightarrow> Some (Inr x, s1)) = Some (r, s')"
    by (auto simp: catchA_def split: Option.bind_splits)
  show ?thesis
  proof (cases r1)
    case (Inr u)
    with c commit_found_run [OF c(1)] show ?thesis by (auto intro!: endedI [OF assms(2) x(1)])
  next
    case (Inl e)
    with commit_found_run [OF c(1)] have same: "tx_view s1 = tx_view s" by simp
    show ?thesis
      using c(2) Inl same abort_throw_run [OF _ same assms(2) x(1), of e r s']
      by (cases "is_abort e") (auto simp: act_run)
  qed
qed

section \<open>Whole queries\<close>

text \<open>A computation that may end its transaction.\<close>

definition closes :: "wait \<Rightarrow> tx_id \<Rightarrow> tx_id set \<Rightarrow> (db, 'a) act \<Rightarrow> bool" where
  "closes w tx os m \<longleftrightarrow> (\<forall>s r s'. m s = Some (r, s') \<longrightarrow> tx \<notin> os \<longrightarrow> rely w tx os \<longrightarrow>
     locks_ok s \<longrightarrow> active tx s \<longrightarrow> all_active os s \<longrightarrow> locks_ok s' \<and> all_active os s')"

lemma closes_stays: "stays w tx os m \<Longrightarrow> closes w tx os m"
  unfolding closes_def using staysD by (fastforce simp: safe_at_def kept_def)

lemma ended_others: "ended tx s s' \<Longrightarrow> locks_ok s \<Longrightarrow> tx \<notin> os \<Longrightarrow> all_active os s \<Longrightarrow> all_active os s'"
  unfolding all_active_def using ended_safe(4) by metis

lemma view_or_ended:
  assumes "tx_view s' = tx_view s \<or> ended tx s s'" "locks_ok s" "tx \<notin> os" "all_active os s"
  shows "locks_ok s' \<and> all_active os s'"
  using assms ended_safe(1) ended_others view_cong(1,3) by metis

lemma closes_commit: "closes w tx os (commit_transaction tx)"
  unfolding closes_def
proof (intro allI impI)
  fix s r s' assume "commit_transaction tx s = Some (r, s')" "tx \<notin> os" "locks_ok s" "all_active os s"
  moreover from commit_run [OF this(1,3)] have "tx_view s' = tx_view s \<or> ended tx s s'" by (auto split: sum.splits)
  ultimately show "locks_ok s' \<and> all_active os s'" by (rule_tac view_or_ended)
qed

lemma closes_bind:
  assumes "stays w tx os m" "\<And>s x s'. m s = Some (Inr x, s') \<Longrightarrow> closes w tx os (f x)"
  shows "closes w tx os (bindA m f)"
  unfolding closes_def
proof (intro allI impI)
  fix s r s' assume run: "bindA m f s = Some (r, s')" and own: "tx \<notin> os" "rely w tx os"
    and ok: "locks_ok s" "active tx s" "all_active os s"
  from run show "locks_ok s' \<and> all_active os s'"
  proof (cases rule: bindA_SomeE)
    case (Inl e)
    with staysD [OF assms(1) Inl(1)] own ok show ?thesis by (simp add: safe_at_def kept_def)
  next
    case (Inr x s1)
    with staysD [OF assms(1) Inr(1)] own ok have "locks_ok s1" "active tx s1" "all_active os s1"
      by (auto simp: safe_at_def kept_def)
    with assms(2) [OF Inr(1)] Inr(2) own show ?thesis unfolding closes_def by blast
  qed
qed

lemma bind_return_run: "bindA m (\<lambda>_. returnA x) s = Some (r, s') \<Longrightarrow> \<exists>r'. m s = Some (r', s')"
  by (auto simp: bindA_def act_run split: Option.bind_splits sum.splits)

lemma closes_finish: "closes w tx os (finish cm tx msg)"
proof (cases cm)
  case True
  have "closes w tx os (bindA (commit_transaction tx) (\<lambda>_. returnA msg))"
    unfolding closes_def
  proof (intro allI impI)
    fix s r s' assume run: "bindA (commit_transaction tx) (\<lambda>_. returnA msg) s = Some (r, s')"
      and ok: "tx \<notin> os" "rely w tx os" "locks_ok s" "active tx s" "all_active os s"
    from bind_return_run [OF run] obtain r' where "commit_transaction tx s = Some (r', s')" by blast
    with closes_commit [of w tx os] ok show "locks_ok s' \<and> all_active os s'" unfolding closes_def by blast
  qed
  with True show ?thesis by (simp add: finish_def whenA_def)
qed (simp add: closes_stays stays_finish)

lemma closes_run_plan: "plan_of tx p \<Longrightarrow> closes w tx os (run_plan_text w cm tx p)"
proof (cases p)
  case (PhysicalUpdate u)
  moreover assume "plan_of tx p"
  ultimately show ?thesis
    by (auto intro!: closes_bind [OF stays_begin(1)] closes_bind [OF stays_collect_update] closes_finish
        dest: update_begin_tx)
next
  case (PhysicalDeletion d)
  moreover assume "plan_of tx p"
  ultimately show ?thesis
    by (auto intro!: closes_bind [OF stays_begin(2)] closes_bind [OF stays_collect_deletion] closes_finish
        dest: deletion_begin_tx)
qed (auto intro!: closes_bind stay closes_finish)

lemma closes_query_body: "closes w tx os (query_body parse w q tx cm)"
  unfolding query_body_def
  by (intro closes_bind [OF stays_quiet [OF quiet_parse]] closes_bind [OF stays_quiet [OF quiet_plan]] closes_run_plan)
    (rule planned)

lemma catch_throw: "catchA m throwA = m"
  by (auto simp: fun_eq_iff catchA_def act_run split: option.splits sum.splits Option.bind_splits)

lemma stays_execute: "stays w tx os (execute_query parse w q tx False)"
proof -
  have "(\<lambda>e. if is_abort e \<or> e = Stuck then throwA e
      else bindA (whenA False (abort_transaction tx)) (\<lambda>_. throwA e)) = (throwA :: db_error \<Rightarrow> (db, string) act)"
    by (simp add: fun_eq_iff whenA_def)
  then have "execute_query parse w q tx False = query_body parse w q tx False"
    unfolding execute_query_def by (simp only: catch_throw)
  then show ?thesis by (simp add: stays_query_body)
qed

lemma closes_execute: "closes w tx os (execute_query parse w q tx True)"
  unfolding closes_def
proof (intro allI impI)
  fix s r s'
  assume run: "execute_query parse w q tx True s = Some (r, s')" and own: "tx \<notin> os" "rely w tx os"
    and ok: "locks_ok s" "active tx s" "all_active os s"
  obtain r1 s1 where body: "query_body parse w q tx True s = Some (r1, s1)"
    and h: "(case r1 of Inr x \<Rightarrow> Some (Inr x, s1) | Inl e \<Rightarrow>
      (if is_abort e \<or> e = Stuck then throwA e else bindA (abort_transaction tx) (\<lambda>_. throwA e)) s1) = Some (r, s')"
    using run unfolding execute_query_def whenA_def if_True catchA_def by (auto split: Option.bind_splits)
  have ok1: "locks_ok s1" "all_active os s1"
    using closes_query_body body own ok unfolding closes_def by blast+
  have "s' = s1 \<or> (\<exists>r. abort_transaction tx s1 = Some (r, s'))"
    using h by (auto simp: act_run bindA_def split: sum.splits if_splits Option.bind_splits)
  then show "locks_ok s' \<and> all_active os s'"
  proof
    assume "\<exists>r. abort_transaction tx s1 = Some (r, s')"
    then obtain r where a: "abort_transaction tx s1 = Some (r, s')" by blast
    have "tx_view s' = tx_view s1 \<or> ended tx s1 s'" using abort_run [OF a ok1(1)] by (auto split: sum.splits)
    from view_or_ended [OF this ok1(1) own(1) ok1(2)] show ?thesis .
  qed (use ok1 in simp)
qed

end
