(* ===== verification/Session_Safety.thy ===== *)
theory Session_Safety
  imports Lock_Safety
begin

text \<open>
  The promise of \<open>Lock_Safety\<close> for the requests of a session: whatever a client sends, and
  however its connection ends, the session keeps it, and its state says whether its transaction
  is active.
\<close>

section \<open>Requests\<close>

text \<open>The transaction a request runs in: the one the client opened, or the one it will start.\<close>

definition step_tx :: "client_session \<Rightarrow> db \<Rightarrow> tx_id" where
  "step_tx se s = (if se_state se = 1 then se_tx se else db_tx_counter s)"

definition session_ok :: "tx_id set \<Rightarrow> client_session \<times> db \<Rightarrow> bool" where
  "session_ok os = (\<lambda>(se, s). locks_ok s \<and> all_active os s \<and> se_tx se \<notin> os \<and>
     (se_state se = 1 \<longrightarrow> active (se_tx se) s))"

text \<open>After a request that threw an abort the session may still have to notice it.\<close>

definition session_mid :: "tx_id set \<Rightarrow> 'a res \<Rightarrow> client_session \<times> db \<Rightarrow> bool" where
  "session_mid os r = (\<lambda>(se, s). locks_ok s \<and> all_active os s \<and> se_tx se \<notin> os \<and>
     (se_state se = 1 \<longrightarrow> active (se_tx se) s \<or> (\<exists>e. r = Inl e \<and> is_abort e)))"

lemma onDb_run: "onDb m (se, s) = Some (r, (se', s')) \<longleftrightarrow> se' = se \<and> m s = Some (r, s')"
  by (auto simp: onDb_def split: Option.bind_splits)

lemma bind_get2: "bindA getA (\<lambda>(se, s). f se s) (se, s) = f se s (se, s)"
  by (simp add: bindA_def act_run)

lemma start_run:
  assumes "start_transaction l s = Some (r, s')" "locks_ok s"
  shows "r = Inr (db_tx_counter s)" "locks_ok s'" "active (db_tx_counter s) s'" "active t s \<Longrightarrow> active t s'"
proof -
  obtain x where s': "r = Inr (db_tx_counter s)" "s' = s\<lparr>db_tx_counter := db_tx_counter s + 1,
      db_active := insert_new (db_tx_counter s) x (db_active s)\<rparr>"
    using assms(1) by (auto simp: start_transaction_def Let_def bindA_def act_run)
  have map: "map_of (db_active s') t = (case map_of (db_active s) t of Some y \<Rightarrow> Some y
      | None \<Rightarrow> if t = db_tx_counter s then Some x else None)" for t
    by (auto simp: s' insert_new_def map_add_def split: option.splits)
  show "r = Inr (db_tx_counter s)" "active (db_tx_counter s) s'" "active t s \<Longrightarrow> active t s'"
    by (auto simp: s'(1) active_def map split: option.splits)
  have locks: "db_locks s' = db_locks s" by (simp add: s'(2))
  show "locks_ok s'"
    unfolding locks_ok_def locks
  proof (intro allI impI)
    fix k h assume "db_locks s k = Some h"
    with assms(2) obtain y where "map_of (db_active s) h = Some y" "k \<in> set (tx_first_rids y)"
      unfolding locks_ok_def by blast
    then show "\<exists>y. map_of (db_active s') h = Some y \<and> k \<in> set (tx_first_rids y)" by (simp add: map)
  qed
qed

lemma staysD2:
  assumes "stays w tx os m" "m s = Some (r, s')" "tx \<notin> os" "rely w tx os" "locks_ok s" "active tx s" "all_active os s"
  shows "locks_ok s'" "all_active os s'" "active tx s' \<or> (\<exists>e. r = Inl e \<and> is_abort e)"
  using staysD [OF assms(1,2)] assms(3-7) by (auto simp: safe_at_def kept_def)

lemma closesD:
  assumes "closes w tx os m" "m s = Some (r, s')" "tx \<notin> os" "rely w tx os" "locks_ok s" "active tx s" "all_active os s"
  shows "locks_ok s'" "all_active os s'"
  using assms unfolding closes_def by blast+

lemma end_run:
  assumes "case r of Inl e \<Rightarrow> tx_view s' = tx_view s \<or> (ended tx s s' \<and> P e) | Inr _ \<Rightarrow> ended tx s s'"
    "locks_ok s" "tx \<notin> os" "all_active os s"
  shows "locks_ok s'" "all_active os s'" "r = Inl e \<Longrightarrow> active tx s \<Longrightarrow> active tx s' \<or> P e"
proof -
  have "tx_view s' = tx_view s \<or> ended tx s s'" using assms(1) by (auto split: sum.splits)
  from view_or_ended [OF this assms(2-4)] show "locks_ok s'" "all_active os s'" by simp_all
  show "active tx s' \<or> P e" if "r = Inl e" "active tx s"
    using assms(1) that view_cong(2) [of s' s tx] by auto
qed

lemma abort_end:
  "abort_transaction tx s = Some (r, s') \<Longrightarrow> locks_ok s \<Longrightarrow>
   case r of Inl e \<Rightarrow> tx_view s' = tx_view s \<or> (ended tx s s' \<and> False) | Inr _ \<Rightarrow> ended tx s s'"
  using abort_run by (fastforce split: sum.splits)

lemma vacuum_run:
  assumes "cat_vacuum g tx s = Some (r, s')"
  shows "locks_ok s' = locks_ok s" "all_active os s' = all_active os s" "active t s' = active t s"
  using view_cong [OF quietD [OF quiet_cat_vacuum assms]] by simp_all

lemma run_active_mid:
  assumes "run_active parse w g q (se, s) = Some (r, st')" "session_ok os (se, s)" "se_state se = 1" "rely w (se_tx se) os"
  shows "session_mid os r st'"
proof -
  let ?tx = "se_tx se"
  have ok: "locks_ok s" "all_active os s" "?tx \<notin> os" "active ?tx s"
    using assms(2,3) by (simp_all add: session_ok_def)
  note facts = assms(1) [unfolded run_active_def Let_def bind_get2]
  consider (start) "my_compare q ''BEGIN TRANSACTION''"
    | (commit) "\<not> my_compare q ''BEGIN TRANSACTION''" "my_compare q ''COMMIT''"
    | (abort) "\<not> my_compare q ''BEGIN TRANSACTION''" "\<not> my_compare q ''COMMIT''" "my_compare q ''ABORT''"
    | (vacuum) "\<not> my_compare q ''BEGIN TRANSACTION''" "\<not> my_compare q ''COMMIT''" "\<not> my_compare q ''ABORT''"
        "my_compare q ''VACUUM''"
    | (query) "\<not> my_compare q ''BEGIN TRANSACTION''" "\<not> my_compare q ''COMMIT''" "\<not> my_compare q ''ABORT''"
        "\<not> my_compare q ''VACUUM''" by blast
  then show ?thesis
  proof cases
    case start
    with facts ok show ?thesis by (auto simp: act_run session_mid_def)
  next
    case commit
    then obtain r1 s1 where c: "commit_transaction ?tx s = Some (r1, s1)"
      "st' = (case r1 of Inl e \<Rightarrow> (se, s1) | Inr _ \<Rightarrow> (se\<lparr>se_state := 0\<rparr>, s1))" "r1 = Inl e \<Longrightarrow> r = Inl e" for e
      using facts by (fastforce simp: bindA_def onDb_def set_session_def act_run split: Option.bind_splits sum.splits)
    from end_run [where P = is_abort, OF commit_run [OF c(1) ok(1)] ok(1,3,2)] c ok show ?thesis
      by (auto simp: session_mid_def split: sum.splits)
  next
    case abort
    then obtain r1 s1 where c: "abort_transaction ?tx s = Some (r1, s1)"
      "st' = (case r1 of Inl e \<Rightarrow> (se, s1) | Inr _ \<Rightarrow> (se\<lparr>se_state := 0\<rparr>, s1))" "r1 = Inl e \<Longrightarrow> r = Inl e" for e
      using facts by (fastforce simp: bindA_def onDb_def set_session_def act_run split: Option.bind_splits sum.splits)
    from end_run [where P = "\<lambda>_. False", OF abort_end [OF c(1) ok(1)] ok(1,3,2)] c ok show ?thesis
      by (auto simp: session_mid_def split: sum.splits)
  next
    case vacuum
    then obtain r1 s1 where "cat_vacuum g ?tx s = Some (r1, s1)" "st' = (se, s1)"
      using facts by (fastforce simp: bindA_def onDb_def act_run split: Option.bind_splits sum.splits)
    with vacuum_run [OF this(1)] ok show ?thesis by (simp add: session_mid_def)
  next
    case query
    with facts obtain s1 where e: "st' = (se, s1)" "execute_query parse w q ?tx False s = Some (r, s1)"
      by (cases st') (auto simp: onDb_run)
    from staysD2 [OF stays_execute e(2) ok(3) assms(4) ok(1,4,2)] ok(3) show ?thesis by (auto simp: e(1) session_mid_def)
  qed
qed

lemma run_idle_mid:
  assumes "run_idle parse w g q (se, s) = Some (r, st')" "session_ok os (se, s)" "se_state se = 0"
    "rely w (db_tx_counter s) os" "db_tx_counter s \<notin> os"
  shows "session_mid os r st'"
proof -
  let ?tx = "db_tx_counter s"
  have ok: "locks_ok s" "all_active os s" "se_tx se \<notin> os" using assms(2) by (simp_all add: session_ok_def)
  have started: "locks_ok s1" "all_active os s1" "active ?tx s1" "x = Inr ?tx"
    if "start_transaction l s = Some (x, s1)" for l x s1
    using start_run [OF that ok(1)] ok(2) by (auto simp: all_active_def)
  note facts = assms(1) [unfolded run_idle_def]
  consider (start) "my_compare q ''BEGIN TRANSACTION''"
    | (nothing) "\<not> my_compare q ''BEGIN TRANSACTION''" "my_compare q ''COMMIT'' \<or> my_compare q ''ABORT''"
    | (vacuum) "\<not> my_compare q ''BEGIN TRANSACTION''" "\<not> my_compare q ''COMMIT''" "\<not> my_compare q ''ABORT''"
        "my_compare q ''VACUUM''"
    | (query) "\<not> my_compare q ''BEGIN TRANSACTION''" "\<not> my_compare q ''COMMIT''" "\<not> my_compare q ''ABORT''"
        "\<not> my_compare q ''VACUUM''" by blast
  then show ?thesis
  proof cases
    case start
    then obtain x s1 where c: "start_transaction (begin_level q) s = Some (x, s1)"
      "x = Inr ?tx \<longrightarrow> st' = (se\<lparr>se_state := 1, se_tx := ?tx\<rparr>, s1)"
      using facts by (fastforce simp: bindA_def onDb_def set_session_def act_run split: Option.bind_splits sum.splits)
    with started [OF c(1)] assms(5) show ?thesis by (simp add: session_mid_def)
  next
    case nothing
    with facts ok assms(3) show ?thesis by (auto simp: act_run session_mid_def split: if_splits)
  next
    case vacuum
    then obtain r1 s1 where "cat_vacuum g 0 s = Some (r1, s1)" "st' = (se, s1)"
      using facts by (fastforce simp: bindA_def onDb_def act_run split: Option.bind_splits sum.splits)
    with vacuum_run [OF this(1)] ok assms(3) show ?thesis by (simp add: session_mid_def)
  next
    case query
    then obtain x s1 where c: "start_transaction READ_COMMITTED s = Some (x, s1)"
      "x = Inr ?tx \<longrightarrow> onDb (execute_query parse w q ?tx True) (se\<lparr>se_tx := ?tx\<rparr>, s1) = Some (r, st')"
      using facts by (fastforce simp: bindA_def onDb_def set_session_def act_run split: Option.bind_splits sum.splits)
    note st = started [OF c(1)]
    obtain s2 where e: "st' = (se\<lparr>se_tx := ?tx\<rparr>, s2)" "execute_query parse w q ?tx True s1 = Some (r, s2)"
      using c(2) st(4) by (cases st') (auto simp: onDb_run)
    from closesD [OF closes_execute e(2) assms(5,4) st(1,3,2)] assms(3,5) show ?thesis by (simp add: e(1) session_mid_def)
  qed
qed

lemma run_query_mid:
  assumes "run_query parse w g q (se, s) = Some (r, st')" "session_ok os (se, s)"
    "rely w (step_tx se s) os" "step_tx se s \<notin> os"
  shows "session_mid os r st'"
proof -
  note facts = assms(1) [unfolded run_query_def bind_get2]
  consider "se_state se = 0" | "se_state se = 1" | "se_state se \<noteq> 0" "se_state se \<noteq> 1" by blast
  then show ?thesis
  proof cases
    case 1
    with run_idle_mid [OF _ assms(2)] facts assms(3,4) show ?thesis by (simp add: step_tx_def)
  next
    case 2
    with run_active_mid [OF _ assms(2)] facts assms(3) show ?thesis by (simp add: step_tx_def)
  next
    case 3
    with facts assms(2) show ?thesis by (auto simp: act_run session_ok_def session_mid_def)
  qed
qed

section \<open>Responses and disconnections\<close>

lemma respond_keeps:
  assumes "respond parse w g q (se, s) = Some (r, st')" "session_ok os (se, s)"
    "rely w (step_tx se s) os" "step_tx se s \<notin> os"
  shows "session_ok os st'"
proof -
  obtain r1 se1 s1 where run: "run_query parse w g q (se, s) = Some (r1, (se1, s1))"
    and h: "(case r1 of Inr x \<Rightarrow> Some (Inr x, (se1, s1)) | Inl e \<Rightarrow>
      (if e = Stuck then throwA Stuck
       else bindA (whenA (is_abort e) (set_session handle_system_abort)) (\<lambda>_. returnA (error_text e))) (se1, s1)) = Some (r, st')"
    using assms(1) unfolding respond_def catchA_def by (auto split: Option.bind_splits)
  from run_query_mid [OF run assms(2-4)] h show ?thesis
    by (auto simp: session_mid_def session_ok_def act_run bindA_def whenA_def set_session_def handle_system_abort_def
        split: sum.splits if_splits)
qed

lemma handle_abort_keeps:
  assumes "handle_abort (se, s) = Some (r, st')" "session_ok os (se, s)"
  shows "session_ok os st'"
proof -
  have ok: "locks_ok s" "all_active os s" "se_tx se \<notin> os" "se_state se = 1 \<longrightarrow> active (se_tx se) s"
    using assms(2) by (simp_all add: session_ok_def)
  let ?caught = "catchA (onDb (abort_transaction (se_tx se))) (\<lambda>e. if is_runtime_error e then returnA () else throwA e)"
  have inner: "\<exists>r1 s1. abort_transaction (se_tx se) s = Some (r1, s1) \<and> st1 = (se, s1) \<and> (\<forall>e. r2 = Inl e \<longrightarrow> r1 = Inl e)"
    if "?caught (se, s) = Some (r2, st1)" for r2 st1
    using that by (auto simp: catchA_def onDb_def act_run split: Option.bind_splits sum.splits if_splits)
  obtain r1 s1 where a: "abort_transaction (se_tx se) s = Some (r1, s1)"
    and st: "st' = (se, s1) \<and> (se_state se \<noteq> 1 \<or> (\<exists>e. r1 = Inl e)) \<or> st' = (se\<lparr>se_state := 0\<rparr>, s1)"
    using assms(1) unfolding handle_abort_def bind_get2
  proof (cases rule: bindA_SomeE)
    case (Inl e)
    with inner [OF Inl(1)] that show ?thesis by blast
  next
    case (Inr x st1)
    with inner [OF Inr(1)] obtain r1 s1 where "abort_transaction (se_tx se) s = Some (r1, s1)"
      "st' = (if se_state se = 1 then se\<lparr>se_state := 0\<rparr> else se, s1)"
      by (auto simp: set_session_def act_run split: if_splits)
    with that show ?thesis by (cases "se_state se = 1") auto
  qed
  from end_run [where P = "\<lambda>_. False", OF abort_end [OF a ok(1)] ok(1,3,2)] st ok(3,4) show ?thesis
    by (auto simp: session_ok_def)
qed

lemma lost_keeps: "lost t (se, s) = Some (r, st') \<Longrightarrow> session_ok os (se, s) \<Longrightarrow> session_ok os st'"
  by (auto simp: lost_def whenA_def act_run handle_abort_keeps split: if_splits)

lemma lost_bind_keeps:
  "bindA (lost t) (\<lambda>_. returnA x) (se, s) = Some (r, st') \<Longrightarrow> session_ok os (se, s) \<Longrightarrow> session_ok os st'"
  by (drule bind_return_run) (auto intro: lost_keeps)

lemma session_step_keeps:
  assumes "session_step parse w g ev (se, s) = Some (r, st')" "session_ok os (se, s)"
    "rely w (step_tx se s) os" "step_tx se s \<notin> os"
  shows "session_ok os st'"
proof -
  have process: "session_ok os st'" if run: "process_query parse w g q t (se, s) = Some (r, st')" for q t
  proof -
    obtain r1 se1 s1 where a: "respond parse w g q (se, s) = Some (r1, (se1, s1))"
      and h: "st' = (se1, s1) \<or> (\<exists>r. bindA (lost t) (\<lambda>_. returnA ([] :: byte list, False)) (se1, s1) = Some (r, st'))"
      using run unfolding process_query_def
    proof (cases rule: bindA_SomeE)
      case (Inl e)
      then show ?thesis by (cases st') (auto intro: that)
    next
      case (Inr x st1)
      obtain se1 s1 where "st1 = (se1, s1)" by fastforce
      with Inr that [of "Sum_Type.Inr x" se1 s1] show ?thesis by (auto simp: act_run split: if_splits)
    qed
    from respond_keeps [OF a assms(2-4)] have "session_ok os (se1, s1)" .
    with h show ?thesis by (elim disjE exE) (simp, erule lost_bind_keeps)
  qed
  show ?thesis
  proof (cases ev)
    case (Request h b t)
    with assms(1,2) process show ?thesis by (auto simp: act_run split: if_splits)
  qed (use assms(1,2) in \<open>auto elim!: lost_bind_keeps\<close>)
qed

end
