(* ===== verification/Lock_Waits.thy ===== *)
theory Lock_Waits
  imports Lock_Safety
begin

text \<open>
  Waiting for a lock: the clock ends it, and what the call can return with.
\<close>

section \<open>Computations that return\<close>

definition returns :: "('s, 'a) act \<Rightarrow> bool" where
  "returns m \<longleftrightarrow> (\<forall>s. \<exists>y. m s = Some y)"

named_theorems returning \<open>computations that return from every state\<close>

lemma returns_basic [returning]:
  "returns (returnA x)" "returns (throwA e)" "returns (liftA m)" "returns getA" "returns (modifyA f)"
  by (simp_all add: returns_def act_run)

lemma returns_bind [returning]:
  assumes "returns m" "\<And>x. returns (f x)"
  shows "returns (bindA m f)"
  unfolding returns_def
proof
  fix s
  obtain r s1 where m: "m s = Some (r, s1)" using assms(1) unfolding returns_def by fastforce
  show "\<exists>y. bindA m f s = Some y"
  proof (cases r)
    case (Inr x)
    obtain y where "f x s1 = Some y" using assms(2) unfolding returns_def by blast
    with m Inr show ?thesis by (simp add: bindA_def)
  qed (simp add: m bindA_def)
qed

lemma returns_case [returning]:
  "returns m \<Longrightarrow> (\<And>x. returns (f x)) \<Longrightarrow> returns (case y of None \<Rightarrow> m | Some x \<Rightarrow> f x)"
  by (cases y) simp_all

lemma returns_if [returning]: "returns m \<Longrightarrow> returns n \<Longrightarrow> returns (if b then m else n)"
  by simp

lemma returns_page [returning]: "returns (heap_page hf n op)"
  by (auto simp: returns_def heap_page_def onPages_def with_page_def Let_def split: sum.splits)

section \<open>Ending a transaction returns\<close>

lemma returns_undo [returning]: "returns (undo_all tx ks)"
proof (induction ks)
  case (Cons k ks)
  have "returns (undo hf r tx)" for hf r
    unfolding undo_def get_record_header_def by (intro returning)
  with Cons show ?case by (auto intro!: returning)
qed (simp add: returning)

lemma returns_abort [returning]: "returns (abort_transaction tx)"
  unfolding abort_transaction_def abort_found_def abort_in_progress_tables_def set_state_def release_all_locks_def
  by (intro returning)

lemma returns_note [returning]: "returns (add_to_write_set tid r tx)"
  unfolding add_to_write_set_def by (intro returning)

section \<open>The deadline\<close>

text \<open>With a clock that moves while the thread sleeps, round 102 is late: ten seconds are a hundred sleeps.\<close>

lemma clock_sleeps:
  assumes "sleeps w"
  shows "w_clock w 0 + int k * 10 ^ 8 \<le> w_clock w (k + 1)"
proof (induction k)
  case (Suc k)
  have "w_clock w (Suc k) + 10 ^ 8 \<le> w_clock w (Suc k + 1)"
    using assms by (simp add: sleeps_def)
  with Suc show ?case by (simp add: algebra_simps)
qed (use assms in \<open>simp add: sleeps_def\<close>)

lemma late_102:
  assumes "sleeps w"
  shows "late w 102"
  using clock_sleeps [OF assms, of 101] by (simp add: late_def MAX_TIME_def)

lemma acquire_late:
  assumes "late w n"
  shows "\<exists>y. acquire_loop w n tx tid r s = Some y"
proof -
  have "returns (bindA (abort_transaction tx) (\<lambda>_. throwA e))" for e :: db_error
    by (intro returning)
  then have "\<exists>y. bindA (abort_transaction tx) (\<lambda>_. throwA e) s = Some y" for e :: db_error
    unfolding returns_def by blast
  with assms show ?thesis by (simp only: acquire_loop.simps [of w n] if_True)
qed

lemma returns_take [returning]:
  "returns (bindA (modifyA (\<lambda>s. s\<lparr>db_locks := (db_locks s)(k \<mapsto> tx)\<rparr>)) (\<lambda>_.
     bindA (add_to_write_set tid r tx) (\<lambda>_. returnA True)))"
  by (intro returning)

lemma acquire_returns:
  assumes "late w m" "n \<le> m"
  shows "\<exists>y. acquire_loop w n tx tid r s = Some y"
  using assms(2)
proof (induction "m - n" arbitrary: n s)
  case 0
  with assms(1) show ?case by (intro acquire_late) simp
next
  case (Suc d)
  show ?case
  proof (cases "late w n")
    case False
    have "\<exists>y. acquire_loop w (n + 1) tx tid r (w_env w n s) = Some y"
      using Suc.hyps(2) by (intro Suc.hyps(1)) simp_all
    moreover note returns_take [unfolded returns_def, rule_format, of "TupleKey tid r" tx tid r s]
    ultimately show ?thesis
      using False by (subst acquire_loop.simps) (auto simp: act_run split: option.splits)
  qed (rule acquire_late)
qed

text \<open>What the others would do after the deadline does not matter.\<close>

lemma acquire_agree:
  assumes "late w m" "n \<le> m" "w_clock w' = w_clock w" "\<And>k. k < m \<Longrightarrow> w_env w' k = w_env w k"
  shows "acquire_loop w' n tx tid r s = acquire_loop w n tx tid r s"
  using assms(2)
proof (induction "m - n" arbitrary: n s)
  case 0
  with assms(1) have "late w n" "late w' n" by (simp_all add: late_def assms(3))
  then show ?case by (simp add: acquire_loop.simps [of w] acquire_loop.simps [of w'])
next
  case (Suc d)
  have "w_env w' n = w_env w n" using Suc.hyps(2) by (intro assms(4)) simp
  moreover have "acquire_loop w' (n + 1) tx tid r s = acquire_loop w (n + 1) tx tid r s" for s
    using Suc.hyps(2) by (intro Suc.hyps(1)) simp_all
  moreover have "late w' n = late w n" by (simp add: late_def assms(3))
  ultimately show ?case
    by (simp only: acquire_loop.simps [of w n] acquire_loop.simps [of w' n])
qed

text \<open>Without the deadline the wait has no end: a clock that stands still, a holder that never lets go.\<close>

lemma acquire_for_ever:
  assumes "\<And>n. \<not> late w n" "\<And>n s. db_locks s (TupleKey tid r) = Some h \<Longrightarrow> db_locks (w_env w n s) (TupleKey tid r) = Some h"
    "h \<noteq> tx" "db_locks s (TupleKey tid r) = Some h"
  shows "acquire_loop w n tx tid r s = None"
proof (rule ccontr)
  let ?P = "\<lambda>w' n tx' tid' r' s (y :: bool res \<times> db).
    w' = w \<and> tx' = tx \<and> tid' = tid \<and> r' = r \<longrightarrow> db_locks s (TupleKey tid r) \<noteq> Some h"
  assume "acquire_loop w n tx tid r s \<noteq> None"
  then obtain y where "acquire_loop w n tx tid r s = Some y" by blast
  then have "?P w n tx tid r s y"
  proof (rule acquire_loop.raw_induct [rotated, where P = ?P], goal_cases)
    case (1 loop w' n tx' tid' r' s y)
    show ?case
    proof (intro impI notI, elim conjE)
      assume same: "w' = w" "tx' = tx" "tid' = tid" "r' = r" and taken: "db_locks s (TupleKey tid r) = Some h"
      have "loop w (n + 1) tx tid r (w_env w n s) = Some y"
        using 1(2) [unfolded same] taken assms(1,3) by simp
      with 1(1) assms(2) [OF taken] show False by blast
    qed
  qed
  with assms(4) show False by simp
qed

section \<open>The abort does not throw the timeout\<close>

text \<open>What an abort throws on the way is undefined behaviour of the program: a page that is not one.\<close>

definition stuck_only :: "('s, 'a) act \<Rightarrow> bool" where
  "stuck_only m \<longleftrightarrow> (\<forall>s e s'. m s = Some (Inl e, s') \<longrightarrow> e = Stuck)"

definition stuck_res :: "'a res \<Rightarrow> bool" where
  "stuck_res x \<longleftrightarrow> (\<forall>e. x = Inl e \<longrightarrow> e = Stuck)"

named_theorems stuck \<open>computations that throw nothing but undefined behaviour\<close>

lemma stuck_basic [stuck]:
  "stuck_only (returnA x)" "stuck_only (throwA Stuck)" "stuck_only getA" "stuck_only (modifyA f)"
  by (simp_all add: stuck_only_def act_run)

lemma stuck_bind [stuck]: "stuck_only m \<Longrightarrow> (\<And>x. stuck_only (f x)) \<Longrightarrow> stuck_only (bindA m f)"
  unfolding stuck_only_def by (auto elim!: bindA_SomeE) blast+

lemma stuck_case [stuck]:
  "stuck_only m \<Longrightarrow> (\<And>x. stuck_only (f x)) \<Longrightarrow> stuck_only (case y of None \<Rightarrow> m | Some x \<Rightarrow> f x)"
  by (cases y) simp_all

lemma stuck_if [stuck]: "stuck_only m \<Longrightarrow> stuck_only n \<Longrightarrow> stuck_only (if b then m else n)"
  by simp

lemma stuck_res_bind [stuck]: "stuck_res m \<Longrightarrow> (\<And>x. stuck_res (f x)) \<Longrightarrow> stuck_res (bindE m f)"
  by (cases m) (auto simp: stuck_res_def)

lemma stuck_res_basic [stuck]: "stuck_res (Inr x)" "stuck_res m \<Longrightarrow> stuck_res n \<Longrightarrow> stuck_res (if b then m else n)"
  by (simp_all add: stuck_res_def)

lemma stuck_words [stuck]:
  "stuck_res (read_int64 p off)" "stuck_res (read_int32 p off)" "stuck_res (write_int32 p off z)"
  by (simp_all add: stuck_res_def read_int64_def read_int32_def write_int32_def page_write_def)

lemma stuck_header [stuck]: "stuck_res (page_record_header p d)" "stuck_res (heap_page_init p)"
  unfolding page_record_header_def heap_page_init_def get_dir_def get_dir_count_def get_free_space_def set_free_space_def
  by (intro stuck)+

lemma stuck_page [stuck]:
  assumes "\<And>p. stuck_res (op p)"
  shows "stuck_only (heap_page hf n op)"
proof -
  have "stuck_res (open_then op p)" for p
    unfolding open_then_def using assms by (intro stuck)
  then show ?thesis
    by (auto simp: stuck_only_def heap_page_def onPages_def with_page_def Let_def stuck_res_def split: sum.splits if_splits)
qed

lemma stuck_reading [stuck]: "(\<And>p. stuck_res (f p)) \<Longrightarrow> stuck_res (reading f p)"
  unfolding reading_def by (intro stuck)

lemma stuck_undo [stuck]: "stuck_only (undo hf r tx)"
  unfolding undo_def get_record_header_def by (intro stuck)

lemma stuck_undo_all [stuck]: "stuck_only (undo_all tx ks)"
  by (induction ks) (auto intro!: stuck)

lemma stuck_abort:
  assumes "abort_transaction tx s = Some (Inl e, s')" "active tx s"
  shows "e = Stuck"
proof -
  obtain x where x: "map_of (db_active s) tx = Some x" using assms(2) by (auto simp: active_def)
  have "stuck_only (bindA (abort_found tx x) (\<lambda>_. modifyA (erase_transaction tx)))"
    unfolding abort_found_def abort_in_progress_tables_def set_state_def release_all_locks_def by (intro stuck)
  with assms(1) x show ?thesis by (auto simp: abort_transaction_def bind_get stuck_only_def)
qed

section \<open>What a call for a lock returns\<close>

text \<open>
  The lock, or, after a late round, the abort of the transaction; or undefined behaviour in the middle of that abort,
  which leaves the transaction as it was.
\<close>

definition outcome :: "wait \<Rightarrow> tx_id \<Rightarrow> tuple_key \<Rightarrow> bool res \<Rightarrow> db \<Rightarrow> bool" where
  "outcome w tx k x s \<longleftrightarrow> (case x of Inr b \<Rightarrow> b \<and> db_locks s k = Some tx \<and> active tx s
     | Inl e \<Rightarrow> (\<exists>n. late w n) \<and>
         (if is_abort e then \<not> active tx s \<and> (\<forall>k. db_locks s k \<noteq> Some tx) else e = Stuck \<and> active tx s))"

lemma timeout_outcome:
  assumes "bindA (abort_transaction tx) (\<lambda>_. throwA (TransactionAbortException m)) s = Some (x, s')" "locks_ok s" "active tx s"
    "late w n"
  shows "outcome w tx k x s'"
  using assms(1)
proof (cases rule: bindA_SomeE)
  case (Inl e)
  with abort_run [OF Inl(1) assms(2)] have "active tx s'" using view_cong(2) [of s' s tx] assms(3) by simp
  with Inl stuck_abort [OF Inl(1) assms(3)] assms(4) show ?thesis by (auto simp: outcome_def)
next
  case (Inr u s1)
  then have "x = Inl (TransactionAbortException m)" "s1 = s'" by (simp_all add: act_run)
  with abort_run [OF Inr(1) assms(2)] ended_safe(2,3) [OF _ assms(2)] assms(4) show ?thesis
    by (auto simp: outcome_def)
qed

lemma take_outcome:
  assumes "bindA (modifyA (\<lambda>s. s\<lparr>db_locks := (db_locks s)(TupleKey tid r \<mapsto> tx)\<rparr>)) (\<lambda>_.
      bindA (add_to_write_set tid r tx) (\<lambda>_. returnA True)) s = Some (x, s')" "active tx s"
  shows "outcome w tx (TupleKey tid r) x s'"
  using assms
  by (auto simp: bindA_def act_run add_to_write_set_def active_def outcome_def update_transaction_def map_of_map_entry
      split: option.splits)

lemma acquire_outcome:
  assumes "acquire_loop w n tx tid r s = Some (x, s')" "rely w tx {}" "locks_ok s" "active tx s"
  shows "outcome w tx (TupleKey tid r) x s'"
proof -
  let ?P = "\<lambda>w' n tx' tid' r' s y. w' = w \<and> tx' = tx \<and> tid' = tid \<and> r' = r \<and> locks_ok s \<and> active tx s \<longrightarrow>
    outcome w tx (TupleKey tid r) (fst y) (snd y)"
  have "?P w n tx tid r s (x, s')"
    using assms(1)
  proof (rule acquire_loop.raw_induct [rotated, where P = ?P], goal_cases)
    case (1 loop w' n tx' tid' r' s y)
    show ?case
    proof (intro impI, elim conjE)
      assume same: "w' = w" "tx' = tx" "tid' = tid" "r' = r" and ok: "locks_ok s" "active tx s"
      obtain x s' where y: "y = (x, s')" by (cases y)
      note run = 1(2) [unfolded same y]
      consider (late) "late w n" | (free) "\<not> late w n" "db_locks s (TupleKey tid r) = None"
        | (own) "\<not> late w n" "db_locks s (TupleKey tid r) = Some tx"
        | (taken) h where "\<not> late w n" "db_locks s (TupleKey tid r) = Some h" "h \<noteq> tx"
        by (cases "db_locks s (TupleKey tid r)") auto
      then show "outcome w tx (TupleKey tid r) (fst y) (snd y)"
      proof cases
        case late
        with run ok show ?thesis unfolding y fst_conv snd_conv by (simp only: if_True) (rule timeout_outcome)
      next
        case free
        with run ok show ?thesis unfolding y fst_conv snd_conv by (simp only: if_False option.simps) (rule take_outcome)
      next
        case own
        with run ok show ?thesis by (auto simp: y act_run outcome_def)
      next
        case taken
        have "locks_ok (w_env w n s)" "active tx (w_env w n s)"
          using assms(2) ok by (simp_all add: rely_def all_active_def)
        moreover have "loop w (n + 1) tx tid r (w_env w n s) = Some y" using run taken y by simp
        ultimately show ?thesis using 1(1) by blast
      qed
    qed
  qed
  with assms(3,4) show ?thesis by simp
qed

end
