(* ===== verification/Client.thy ===== *)
theory Client
  imports Session
begin

text \<open>
  The client program (\<^verbatim>\<open>src/bin/client.cc\<close>) and the byte stream between it and a session: the client frames a
  statement, the session takes it off the stream, and the client takes the answer off its own. The terminal (linenoise)
  is the list of lines it returns; the socket is the bytes it delivers.
\<close>

section \<open>Reading from a stream\<close>

text \<open>\<^verbatim>\<open>asio::read\<close> fills the buffer it is given or throws, when the stream ends before.\<close>

definition read_exactly :: "nat \<Rightarrow> byte list \<Rightarrow> (byte list \<times> byte list) option" where
  "read_exactly n bs = (if n \<le> length bs then Some (take n bs, drop n bs) else None)"

text \<open>
  \<^verbatim>\<open>Session::read_header\<close> and \<^verbatim>\<open>read_query\<close> on what is left of the stream; \<open>t\<close> is how sending the answer will go.
\<close>

definition next_request :: "transfer \<Rightarrow> byte list \<Rightarrow> socket_event \<times> byte list" where
  "next_request t bs =
     (case read_exactly 4 bs of
        None \<Rightarrow> (HeaderFails TransferEof, [])
      | Some (h, bs) \<Rightarrow>
          (case read_exactly (unat (host32 h)) bs of
             None \<Rightarrow> (BodyFails h TransferEof, [])
           | Some (b, bs) \<Rightarrow> (Request h b t, bs)))"

section \<open>The connection\<close>

definition send_query :: "string \<Rightarrow> byte list" where
  "send_query q = net32 (of_nat (length q)) @ map byte_of_char q"

definition receive_response :: "byte list \<Rightarrow> (string \<times> byte list) option" where
  "receive_response bs =
     Option.bind (read_exactly 4 bs) (\<lambda>(h, bs).
     Option.bind (read_exactly (unat (host32 h)) bs) (\<lambda>(b, bs). Some (map char_of_byte b, bs)))"

section \<open>The shell\<close>

definition completion_hook :: "string \<Rightarrow> string list" where
  "completion_hook buf =
     (case buf of
        [] \<Rightarrow> []
      | c # _ \<Rightarrow>
          if c = CHR ''S'' \<or> c = CHR ''s'' then [''SELECT '']
          else if c = CHR ''I'' \<or> c = CHR ''i'' then [''INSERT INTO '']
          else if c = CHR ''C'' \<or> c = CHR ''c'' then [''CREATE TABLE '']
          else [])"

text \<open>\<^verbatim>\<open>std::isspace\<close> of the C locale.\<close>

definition is_space :: "char \<Rightarrow> bool" where
  "is_space c \<longleftrightarrow> c = CHR '' '' \<or> (9 \<le> (of_char c :: nat) \<and> (of_char c :: nat) \<le> 13)"

definition rtrim :: "string \<Rightarrow> string" where
  "rtrim s = rev (dropWhile is_space (rev s))"

text \<open>What a line does, with \<open>query\<close> the lines before it.\<close>

datatype shell_line = ShellExit | ShellEmpty | ShellMore string | ShellSend string

definition read_line :: "string \<Rightarrow> string \<Rightarrow> shell_line" where
  "read_line query raw = (let line = rtrim raw in
     if line = ''exit'' then ShellExit
     else if line = [] then ShellEmpty
     else if last line = CHR '';'' then ShellSend (query @ butlast line)
     else ShellMore (query @ line @ newline))"

text \<open>
  What the loop of \<^verbatim>\<open>main\<close> shows and sends, for the lines typed and the bytes that come back. An exception of the
  socket ends it.
\<close>

datatype shell_event = Prompt string | Sent "byte list" | Printed string | Failed

definition start_cmd :: string where "start_cmd = '' > ''"
definition continue_cmd :: string where "continue_cmd = ''...''"

fun shell :: "string \<Rightarrow> string \<Rightarrow> string list \<Rightarrow> byte list \<Rightarrow> shell_event list" where
  "shell cmd query [] inc = [Prompt cmd]"
| "shell cmd query (l # ls) inc = Prompt cmd #
     (case read_line query l of
        ShellExit \<Rightarrow> []
      | ShellEmpty \<Rightarrow> shell cmd query ls inc
      | ShellMore q \<Rightarrow> shell continue_cmd q ls inc
      | ShellSend q \<Rightarrow> Sent (send_query q) #
          (case receive_response inc of
             None \<Rightarrow> [Failed]
           | Some (r, inc) \<Rightarrow> Printed (newline @ r @ newline @ newline) # shell start_cmd [] ls inc))"

section \<open>Framing\<close>

lemma length_net32 [simp]: "length (net32 w) = 4"
  by (simp add: net32_def)

lemma host_net32: "host32 (net32 w) = w"
  using unsigned_less [of w, where ?'a = nat] by (simp add: host32_def net32_def le_nat_bytes del: le_bytes.simps)

lemma read_frame:
  assumes "length s < 2 ^ 32"
  shows "read_exactly 4 (net32 (of_nat (length s)) @ map byte_of_char s @ rest) =
      Some (net32 (of_nat (length s)), map byte_of_char s @ rest)"
    "read_exactly (unat (host32 (net32 (of_nat (length s))))) (map byte_of_char s @ rest) = Some (map byte_of_char s, rest)"
  using assms by (simp_all add: read_exactly_def host_net32 unat_of_nat)

lemma byte_chars [simp]: "map char_of_byte (map byte_of_char s) = s"
  by (simp add: comp_def)

lemma request_sent:
  assumes "length q < 2 ^ 32"
  shows "next_request t (send_query q @ rest) = (Request (net32 (of_nat (length q))) (map byte_of_char q) t, rest)"
  using read_frame [OF assms, of rest] by (simp add: next_request_def send_query_def)

lemma response_received:
  assumes "length r < 2 ^ 32"
  shows "receive_response (response_bytes r @ rest) = Some (r, rest)"
  using read_frame [OF assms, of rest] by (simp add: receive_response_def response_bytes_def comp_def)

section \<open>Statements\<close>

text \<open>A line that neither ends a statement nor the program.\<close>

definition open_line :: "string \<Rightarrow> bool" where
  "open_line l \<longleftrightarrow> rtrim l \<noteq> ''exit'' \<and> (rtrim l = [] \<or> last (rtrim l) \<noteq> CHR '';'')"

definition line_text :: "string \<Rightarrow> string" where
  "line_text l = (if rtrim l = [] then [] else rtrim l @ newline)"

lemma shell_open:
  "list_all open_line ls \<Longrightarrow> \<exists>cmds cmd'. length cmds = length ls \<and>
     shell cmd q (ls @ later) inc = map Prompt cmds @ shell cmd' (q @ concat (map line_text ls)) later inc"
proof (induction ls arbitrary: cmd q)
  case (Cons l ls)
  then have l: "open_line l" and ls: "list_all open_line ls" by simp_all
  have "\<exists>cmd1. shell cmd q ((l # ls) @ later) inc = Prompt cmd # shell cmd1 (q @ line_text l) (ls @ later) inc"
    using l by (auto simp: read_line_def open_line_def line_text_def Let_def)
  then obtain cmd1 where "shell cmd q ((l # ls) @ later) inc = Prompt cmd # shell cmd1 (q @ line_text l) (ls @ later) inc" ..
  moreover obtain cmds cmd' where "length cmds = length ls"
    "shell cmd1 (q @ line_text l) (ls @ later) inc = map Prompt cmds @ shell cmd' ((q @ line_text l) @ concat (map line_text ls)) later inc"
    using Cons.IH [OF ls] by blast
  ultimately show ?case by (intro exI [of _ "cmd # cmds"] exI [of _ cmd']) simp
qed auto

lemma read_last:
  assumes "rtrim l = stmt @ '';''"
  shows "read_line q l = ShellSend (q @ stmt)"
proof -
  have "stmt @ '';'' \<noteq> ''exit''"
  proof
    assume "stmt @ '';'' = ''exit''"
    then have "last (stmt @ '';'') = last ''exit''" by (rule arg_cong)
    then show False by simp
  qed
  with assms show ?thesis by (simp add: read_line_def)
qed

end
