(* ===== verification/Session_Properties.thy ===== *)
theory Session_Properties
  imports Session_Safety Lock_Waits Client Examples
begin

text \<open>
  What a session guarantees to the others: locks, transactions, and the framing of its messages.
  Each property with a hypothesis is followed by a witness.
\<close>

section \<open>Examples\<close>

text \<open>Transaction 1 holds the lock of a record; transaction 2 is active too.\<close>

definition demo_locked :: db where
  "demo_locked = demo_db\<lparr>db_locks := [TupleKey 0 (RID 0 0) \<mapsto> 1],
     db_active := [(1, (new_transaction READ_COMMITTED)\<lparr>tx_first_rids := [TupleKey 0 (RID 0 0)]\<rparr>),
                   (2, new_transaction READ_COMMITTED)]\<rparr>"

lemma demo_locked_ok: "locks_ok demo_locked" "active 1 demo_locked" "active 2 demo_locked"
  by (auto simp: demo_locked_def locks_ok_def active_def split: if_splits)

lemma demo_rely: "rely demo_wait tx os"
  by (simp add: rely_def demo_wait_def)

section \<open>Locks\<close>

text \<open>
  Every state a session can reach, whatever the client sends, however the connection ends and
  whatever the others do in between and while it waits for a lock, as long as they keep the
  promise themselves.
\<close>

inductive session_run :: "parser \<Rightarrow> client_session \<times> db \<Rightarrow> bool" for parse where
  connected: "db_locks s = (\<lambda>k. None) \<Longrightarrow> session_run parse (new_session garbage, s)"
| request: "session_run parse (se, s) \<Longrightarrow> rely w (step_tx se s) {} \<Longrightarrow>
    session_step parse w g ev (se, s) = Some (r, st') \<Longrightarrow> session_run parse st'"
| others: "session_run parse (se, s) \<Longrightarrow> (locks_ok s \<Longrightarrow> locks_ok s') \<Longrightarrow>
    (se_state se = 1 \<Longrightarrow> active (se_tx se) s \<Longrightarrow> active (se_tx se) s') \<Longrightarrow> session_run parse (se, s')"

lemma session_run_ok: "session_run parse st \<Longrightarrow> session_ok {} st"
proof (induction rule: session_run.induct)
  case (connected s garbage)
  then show ?case by (simp add: session_ok_def locks_ok_def all_active_def new_session_def)
next
  case (request se s w g ev r st')
  then show ?case by (intro session_step_keeps [OF request(3)]) simp_all
next
  case (others se s s')
  then show ?case by (simp add: session_ok_def all_active_def)
qed

text \<open>The client opens a transaction.\<close>

lemma begin_step:
  assumes "length h = 4" "length q = unat (host32 h)" "my_compare q ''BEGIN TRANSACTION''" "se_state se = 0"
  shows "\<exists>out x. session_step parse w g (Request h (map byte_of_char q) TransferOk) (se, s) =
    Some (Inr out, (se\<lparr>se_state := 1, se_tx := db_tx_counter s\<rparr>, s\<lparr>db_tx_counter := db_tx_counter s + 1,
      db_active := insert_new (db_tx_counter s) x (db_active s)\<rparr>))"
proof -
  have "map char_of_byte (map byte_of_char q) = q" by (simp add: comp_def)
  moreover obtain x where "start_transaction (begin_level q) s = Some (Inr (db_tx_counter s), s\<lparr>db_tx_counter := db_tx_counter s + 1,
      db_active := insert_new (db_tx_counter s) x (db_active s)\<rparr>)"
    by (auto simp: start_transaction_def Let_def bindA_def act_run)
  ultimately show ?thesis
    using assms
    by (auto simp: process_query_def respond_def run_query_def run_idle_def bind_get2 catchA_def bindA_def onDb_def
        set_session_def act_run intro!: exI [of _ x])
qed

lemma begin_demo:
  "\<exists>out s. session_step parse demo_wait g (Request [0, 0, 0, 17] (map byte_of_char ''BEGIN TRANSACTION'') TransferOk)
     (new_session 0, demo_db) = Some (Inr out, (\<lparr>se_state = 1, se_tx = 3\<rparr>, s))"
proof -
  have "my_compare q q" for q by (simp add: my_compare_def list_all2_refl)
  then show ?thesis
    using begin_step [of "[0, 0, 0, 17]" "''BEGIN TRANSACTION''" "new_session 0" parse demo_wait g demo_db]
    by (fastforce simp: host32_def new_session_def demo_db_def)
qed

text \<open>
  C5. In every state of a session each lock is held by an active transaction that has its key in
  its write set, which is what the end of the transaction goes through; and a session that is
  inside a transaction of its client has an active one.
\<close>

theorem session_locks:
  assumes "session_run parse (se, s)"
  shows "(\<forall>k h. db_locks s k = Some h \<longrightarrow> (\<exists>x. map_of (db_active s) h = Some x \<and> k \<in> set (tx_first_rids x))) \<and>
    (se_state se = 1 \<longrightarrow> map_of (db_active s) (se_tx se) \<noteq> None)"
  using session_run_ok [OF assms] by (simp add: session_ok_def locks_ok_def active_def)

lemma demo_session: "session_run parse (new_session 0, demo_db)"
  by (rule connected) (simp add: demo_defs)

theorem session_locks_witness:
  "\<exists>out s. session_step (\<lambda>q. Inl Stuck) demo_wait (\<lambda>t n. [])
      (Request [0, 0, 0, 17] (map byte_of_char ''BEGIN TRANSACTION'') TransferOk)
      (new_session 0, demo_db) = Some (Inr out, (\<lparr>se_state = 1, se_tx = 3\<rparr>, s)) \<and> map_of (db_active s) 3 \<noteq> None"
proof -
  obtain out s where step: "session_step (\<lambda>q. Inl Stuck) demo_wait (\<lambda>t n. [])
      (Request [0, 0, 0, 17] (map byte_of_char ''BEGIN TRANSACTION'') TransferOk)
      (new_session 0, demo_db) = Some (Inr out, (\<lparr>se_state = 1, se_tx = 3\<rparr>, s))"
    using begin_demo by blast
  have "session_run (\<lambda>q. Inl Stuck) (\<lparr>se_state = 1, se_tx = 3\<rparr>, s)" by (rule request [OF demo_session demo_rely step])
  from session_locks [OF this] step show ?thesis by auto
qed

text \<open>
  C6. A request ends no transaction but the session's own: every transaction of another session
  stays active, provided the number left in the session from before is not another's transaction.
\<close>

theorem own_transaction_only:
  assumes "session_step parse w g ev (se, s) = Some (r, (se', s'))" "session_ok os (se, s)"
    "rely w (step_tx se s) os" "step_tx se s \<notin> os"
  shows "\<forall>t \<in> os. map_of (db_active s') t \<noteq> None"
  using session_step_keeps [OF assms] by (simp add: session_ok_def all_active_def active_def)

theorem own_transaction_only_witness:
  "\<exists>out s. session_step (\<lambda>q. Inl Stuck) demo_wait (\<lambda>t n. [])
      (Request [0, 0, 0, 17] (map byte_of_char ''BEGIN TRANSACTION'') TransferOk)
      (new_session 0, demo_db) = Some (Inr out, (\<lparr>se_state = 1, se_tx = 3\<rparr>, s)) \<and>
     map_of (db_active s) 1 \<noteq> None \<and> map_of (db_active s) 2 \<noteq> None"
proof -
  obtain out s where step: "session_step (\<lambda>q. Inl Stuck) demo_wait (\<lambda>t n. [])
      (Request [0, 0, 0, 17] (map byte_of_char ''BEGIN TRANSACTION'') TransferOk)
      (new_session 0, demo_db) = Some (Inr out, (\<lparr>se_state = 1, se_tx = 3\<rparr>, s))"
    using begin_demo by blast
  have "session_ok {1, 2} (new_session 0, demo_db)"
    by (simp add: session_ok_def locks_ok_def all_active_def active_def new_session_def demo_db_def)
  from own_transaction_only [OF step this demo_rely] step show ?thesis
    by (auto simp: step_tx_def new_session_def demo_db_def)
qed

text \<open>
  C38. A client that connects and goes away without a word aborts the transaction whose number the
  session's uninitialised \<^verbatim>\<open>tx_id\<close> happens to hold, if that is an active one, whosever it is: provided the records of its
  write set are in slots of their tables' files (the abort reads their headers and is undefined behaviour otherwise), it
  is not active any more, holds no lock, and the client's session ends as if nothing had happened. No page changes.
\<close>

theorem disconnect_aborts:
  assumes "locks_ok s" "map_of (db_active s) tx = Some x" "records_there tx (tx_first_rids x) s"
  shows "\<exists>s'. session_step parse w g (HeaderFails TransferEof) (new_session tx, s) = Some (Inr ([], False), (new_session tx, s')) \<and>
    map_of (db_active s') tx = None \<and> (\<forall>k. db_locks s' k \<noteq> Some tx) \<and> db_pages s' = db_pages s"
proof -
  obtain s' where a: "abort_transaction tx s = Some (Inr (), s')" "db_pages s' = db_pages s"
    using aborts [OF assms(3,2)] by blast
  have "ended tx s s'" using abort_run [OF a(1) assms(1)] by simp
  then have "map_of (db_active s') tx = None" "\<forall>k. db_locks s' k \<noteq> Some tx" by (simp_all add: ended_def)
  with a show ?thesis
    by (simp add: lost_def whenA_def handle_abort_def bind_get2 bindA_def catchA_def onDb_def set_session_def act_run
        new_session_def)
qed

text \<open>Transaction 1 has inserted a record when a client comes whose session holds the number 1.\<close>

theorem disconnect_aborts_witness:
  "\<exists>rid s s'. heap_insert demo_file [VInt 7, VInt 9] 1 None demo_db = Some (Inr rid, s) \<and>
     session_step (\<lambda>q. Inl Stuck) demo_wait (\<lambda>t n. []) (HeaderFails TransferEof) (new_session 1, s) =
       Some (Inr ([], False), (new_session 1, s')) \<and> map_of (db_active s') 1 = None"
proof -
  obtain rid s H where ins: "heap_insert demo_file [VInt 7, VInt 9] 1 None demo_db = Some (Inr rid, s)"
    "heap_rep demo_file s H" "inserted [] H rid (new_header 1 rid None, [VInt 7, VInt 9])"
    "insert_frame demo_file 1 None rid demo_db s"
    using demo_inserted by blast
  note fr = demo_frame [OF ins(4)]
  have "records_there 1 [TupleKey 0 rid] s" "locks_ok s"
    using demo_records_there [OF ins(2-4)] fr(4) by (simp_all add: locks_ok_def)
  with disconnect_aborts [OF _ fr(2), where parse = "\<lambda>q. Inl Stuck" and w = demo_wait and g = "\<lambda>t n. []"] ins(1) show ?thesis
    by auto
qed

section \<open>Waiting for a lock\<close>

text \<open>
  C24. Waiting for a lock ends, whatever the other threads do: with a clock that does not go back and sleeps of a tenth
  of a second at least, the call returns, and what the others would do from the 102nd round on
  is not seen. It is the deadline that ends it: if no round is ever late and the holder keeps the lock, the call
  does not return.
\<close>

theorem lock_wait_ends:
  "(sleeps w \<longrightarrow> (\<exists>y. try_acquire_lock w tx tid r s = Some y \<and>
      (\<forall>w'. w_clock w' = w_clock w \<and> (\<forall>n < 102. w_env w' n = w_env w n) \<longrightarrow> try_acquire_lock w' tx tid r s = Some y))) \<and>
   ((\<forall>n. \<not> late w n) \<and> h \<noteq> tx \<and> db_locks s (TupleKey tid r) = Some h \<and>
      (\<forall>n s. db_locks s (TupleKey tid r) = Some h \<longrightarrow> db_locks (w_env w n s) (TupleKey tid r) = Some h) \<longrightarrow>
      try_acquire_lock w tx tid r s = None)"
proof (intro conjI impI)
  assume w: "sleeps w"
  have le: "(1::nat) \<le> 102" by simp
  obtain y where y: "acquire_loop w 1 tx tid r s = Some y"
    using acquire_returns [OF late_102 [OF w] le] by blast
  moreover have "acquire_loop w' 1 tx tid r s = acquire_loop w 1 tx tid r s"
    if "w_clock w' = w_clock w" "\<forall>n < 102. w_env w' n = w_env w n" for w'
    using that by (intro acquire_agree [OF late_102 [OF w] le]) simp_all
  ultimately show "\<exists>y. try_acquire_lock w tx tid r s = Some y \<and>
     (\<forall>w'. w_clock w' = w_clock w \<and> (\<forall>n < 102. w_env w' n = w_env w n) \<longrightarrow> try_acquire_lock w' tx tid r s = Some y)"
    unfolding try_acquire_lock_def by (intro exI [of _ y]) simp
qed (auto simp: try_acquire_lock_def intro!: acquire_for_ever)

theorem lock_wait_ends_witness:
  "(\<exists>y. try_acquire_lock demo_wait 2 0 (RID 0 0) demo_locked = Some y) \<and>
   try_acquire_lock \<lparr>w_env = \<lambda>n s. s, w_clock = \<lambda>n. 0\<rparr> 2 0 (RID 0 0) demo_locked = None"
proof
  show "\<exists>y. try_acquire_lock demo_wait 2 0 (RID 0 0) demo_locked = Some y"
    using lock_wait_ends [of demo_wait 2 0 "RID 0 0" demo_locked] demo_clock(2) by blast
  show "try_acquire_lock \<lparr>w_env = \<lambda>n s. s, w_clock = \<lambda>n. 0\<rparr> 2 0 (RID 0 0) demo_locked = None"
    by (rule lock_wait_ends [THEN conjunct2, rule_format, of _ 1]) (simp add: late_def MAX_TIME_def demo_locked_def)
qed

text \<open>
  C23. A call for a lock by an active transaction that returns has the lock and leaves the transaction active; or a
  round was late, the transaction has been aborted, is not active any more and holds no lock at all, and the exception
  is the one of an abort. The only other exception is undefined behaviour in the middle of that abort
  (\<open>Stuck\<close>: a page of the write set that is not a record page), and then the transaction is still active.
\<close>

theorem lock_outcome:
  assumes "try_acquire_lock w tx tid r s = Some (x, s')" "rely w tx {}" "locks_ok s" "active tx s"
  shows "case x of Inr b \<Rightarrow> b \<and> db_locks s' (TupleKey tid r) = Some tx \<and> active tx s'
    | Inl e \<Rightarrow> (\<exists>n. late w n) \<and>
        (if is_abort e then \<not> active tx s' \<and> (\<forall>k. db_locks s' k \<noteq> Some tx) else e = Stuck \<and> active tx s')"
  using acquire_outcome [OF assms(1) [unfolded try_acquire_lock_def] assms(2-4)] by (simp add: outcome_def)

theorem lock_outcome_witness:
  "\<exists>e s'. try_acquire_lock demo_wait 2 0 (RID 0 0) demo_locked = Some (Inl e, s') \<and> is_abort e \<and> \<not> active 2 s' \<and>
     (\<forall>k. db_locks s' k \<noteq> Some 2)"
proof -
  have wait: "\<not> late demo_wait (Suc 0)" "late demo_wait 2" "w_env demo_wait n s = s" for n s
    by (simp_all add: late_def MAX_TIME_def demo_wait_def)
  moreover have "db_locks demo_locked (TupleKey 0 (RID 0 0)) = Some 1" by (simp add: demo_locked_def)
  ultimately have "try_acquire_lock demo_wait 2 0 (RID 0 0) demo_locked =
    bindA (abort_transaction 2) (\<lambda>_. throwA (TransactionAbortException
      (''Transaction '' @ tx_name 2 @ '' aborted due to lock timeout''))) demo_locked"
    by (simp add: try_acquire_lock_def acquire_loop.simps [of demo_wait "Suc 0"] acquire_loop.simps [of demo_wait 2]
        numeral_2_eq_2 [symmetric] wait)
  then obtain e s' where run: "try_acquire_lock demo_wait 2 0 (RID 0 0) demo_locked = Some (Inl e, s')" "is_abort e"
    by (auto simp: bindA_def act_run demo_locked_def demo_db_def
        abort_transaction_def abort_found_def abort_in_progress_tables_def set_state_def release_all_locks_def
        new_transaction_def update_transaction_def erase_transaction_def)
  from lock_outcome [OF run(1) demo_rely demo_locked_ok(1,3)] run show ?thesis by simp
qed

text \<open>
  C22. Once a transaction has committed, a lock it held goes to the next active transaction that asks
  for it, at its first try.
\<close>

theorem commit_frees_locks:
  assumes "commit_transaction tx s = Some (Inr (), s')" "locks_ok s" "db_locks s (TupleKey tid r) = Some tx"
    "active t s" "t \<noteq> tx" "prompt w"
  shows "\<exists>s2. try_acquire_lock w t tid r s' = Some (Inr True, s2) \<and> db_locks s2 (TupleKey tid r) = Some t"
proof -
  have e: "ended tx s s'" using commit_run [OF assms(1,2)] by simp
  then have free: "db_locks s' (TupleKey tid r) = None" using assms(3) by (simp add: ended_def)
  have "active t s'" using ended_safe(4) [OF e assms(2,5)] assms(4) by simp
  then obtain x where x: "map_of (db_active s') t = Some x" by (auto simp: active_def)
  from free x assms(6) show ?thesis
    by (simp add: try_acquire_lock_def acquire_loop.simps [of w "Suc 0"] prompt_def bind_get add_to_write_set_def bindA_def
        act_run update_transaction_def)
qed

theorem commit_frees_locks_witness:
  "\<exists>s' s2. commit_transaction 1 demo_locked = Some (Inr (), s') \<and>
     try_acquire_lock demo_wait 2 0 (RID 0 0) s' = Some (Inr True, s2) \<and> db_locks s2 (TupleKey 0 (RID 0 0)) = Some 2"
proof -
  obtain s' where run: "commit_transaction 1 demo_locked = Some (Inr (), s')"
    by (simp add: commit_transaction_def bind_get catchA_def commit_found_def commit_in_progress_tables_def set_state_def
        release_all_locks_def bindA_def act_run demo_locked_def demo_db_def new_transaction_def)
  from commit_frees_locks [OF run demo_locked_ok(1) _ demo_locked_ok(3), of 0 "RID 0 0" demo_wait] run
  show ?thesis by (auto simp: demo_locked_def)
qed

section \<open>Messages\<close>

text \<open>
  C30. One exchange between the client program and a session, over the bytes of the connection: the session takes exactly
  the client's request off the stream and finds the statement as it was sent; if running it gives the answer \<open>r\<close>, what it
  sends back is taken off the client's stream as exactly \<open>r\<close>, whatever follows on either stream. Statement
  and answer are shorter than four gigabytes, the range of the length in the header.
\<close>

theorem response_roundtrip:
  assumes "length q < 2 ^ 32" "respond parse w g q st = Some (Inr r, st')" "length r < 2 ^ 32"
  shows "\<exists>ev out. next_request TransferOk (send_query q @ rest) = (ev, rest) \<and>
    session_step parse w g ev st = Some (Inr (out, True), st') \<and> receive_response (out @ later) = Some (r, later)"
proof -
  have "host32 (net32 (of_nat (length q))) = of_nat (length q)" by (rule host_net32)
  then have "session_step parse w g (Request (net32 (of_nat (length q))) (map byte_of_char q) TransferOk) st =
      Some (Inr (response_bytes r, True), st')"
    using assms(1,2) by (simp add: process_query_def bindA_def act_run unat_of_nat comp_def)
  with request_sent [OF assms(1)] response_received [OF assms(3)] show ?thesis by blast
qed

text \<open>The client asks for a commit outside a transaction.\<close>

theorem response_roundtrip_witness:
  "\<exists>ev out. next_request TransferOk (send_query ''commit'' @ [1, 2]) = (ev, [1, 2]) \<and>
    session_step (\<lambda>q. Inl Stuck) demo_wait (\<lambda>t n. []) ev (new_session 0, demo_db) = Some (Inr (out, True), (new_session 0, demo_db)) \<and>
    receive_response (out @ [3]) = Some (''There is no active transaction to commit'', [3])"
proof -
  have "tolower (CHR ''C'') = CHR ''c''" "tolower (CHR ''O'') = CHR ''o''" "tolower (CHR ''M'') = CHR ''m''"
    "tolower (CHR ''I'') = CHR ''i''" "tolower (CHR ''T'') = CHR ''t''" "tolower (CHR ''c'') = CHR ''c''"
    "tolower (CHR ''o'') = CHR ''o''" "tolower (CHR ''m'') = CHR ''m''" "tolower (CHR ''i'') = CHR ''i''"
    "tolower (CHR ''t'') = CHR ''t''" by code_simp+
  then have "respond (\<lambda>q. Inl Stuck) demo_wait (\<lambda>t n. []) ''commit'' (new_session 0, demo_db) =
      Some (Inr ''There is no active transaction to commit'', (new_session 0, demo_db))"
    by (simp add: respond_def catchA_def run_query_def bind_get2 new_session_def run_idle_def my_compare_def act_run)
  from response_roundtrip [OF _ this] show ?thesis by simp
qed



end
