(* ===== verification/Record_Updates.thy ===== *)
theory Record_Updates
  imports Heap_Scan Visibility
begin

text \<open>
  Updating one record of a table that is scanned: what a transaction sees of the other records
  stays, and the record is seen with its new values. \<open>writable\<close> is what makes this true, and an update
  keeps it.
\<close>

section \<open>What a transaction sees\<close>

definition same_tx :: "db \<Rightarrow> db \<Rightarrow> bool" where
  "same_tx s s' \<longleftrightarrow> (\<forall>t. map_option (\<lambda>x. (tx_level x, tx_state x)) (map_of (db_active s') t) =
     map_option (\<lambda>x. (tx_level x, tx_state x)) (map_of (db_active s) t))"

lemma same_txD:
  assumes "same_tx s s'"
  shows "map_of (db_active s') t = None \<longleftrightarrow> map_of (db_active s) t = None"
    "map_of (db_active s') t = Some x' \<Longrightarrow> \<exists>x. map_of (db_active s) t = Some x \<and> tx_level x' = tx_level x \<and> tx_state x' = tx_state x"
proof -
  note same = assms [unfolded same_tx_def, rule_format, of t]
  show "map_of (db_active s') t = None \<longleftrightarrow> map_of (db_active s) t = None"
    using same by (cases "map_of (db_active s) t"; cases "map_of (db_active s') t") simp_all
  show "\<exists>x. map_of (db_active s) t = Some x \<and> tx_level x' = tx_level x \<and> tx_state x' = tx_state x"
    if "map_of (db_active s') t = Some x'"
    using same that by (cases "map_of (db_active s) t") simp_all
qed

lemma same_tx_refl [simp]: "same_tx s s"
  by (simp add: same_tx_def)

lemma same_tx_trans: "same_tx s1 s2 \<Longrightarrow> same_tx s2 s3 \<Longrightarrow> same_tx s1 s3"
  by (simp add: same_tx_def)

lemma same_tx_views:
  assumes "same_tx s s'"
  shows "state_of t s' = state_of t s" "sees s' t h = sees s t h" "rc_reader s' t = rc_reader s t"
    "first_seen s' t vs = first_seen s t vs" "seen_row s' t H r = seen_row s t H r"
proof -
  have st: "state_of t s' = state_of t s" for t
    using same_txD [OF assms, of t] by (auto simp: state_of_def split: option.splits)
  then show "state_of t s' = state_of t s" .
  have sees: "sees s' t h = sees s t h" for h
    using same_txD [OF assms, of t] by (auto simp: sees_def st split: option.splits)
  then show "sees s' t h = sees s t h" .
  show "rc_reader s' t = rc_reader s t"
    using same_txD [OF assms, of t] by (cases "map_of (db_active s') t") (auto simp: rc_reader_def)
  have seen: "first_seen s' t vs = first_seen s t vs" for vs by (simp add: first_seen_def sees)
  then show "first_seen s' t vs = first_seen s t vs" .
  from seen have "first_seen s' t = first_seen s t" by (simp add: fun_eq_iff)
  then show "seen_row s' t H r = seen_row s t H r" unfolding seen_row_def by (simp only:)
qed

lemma noted_same:
  "same_tx s (update_transaction tx (\<lambda>x. x\<lparr>tx_first_rids := f x\<rparr>) (s\<lparr>db_locks := l\<rparr>))"
  by (auto simp: same_tx_def update_transaction_def map_of_map_entry split: option.splits)

lemma locked_same: "same_tx s (locked tx k s)"
  using noted_same by (auto simp: locked_def)

section \<open>Records that can be updated\<close>

text \<open>The versions of a record name its first version, so no two records share one.\<close>

definition own_chains :: "heap \<Rightarrow> bool" where
  "own_chains H \<longleftrightarrow> (\<forall>r h x. slot_at H r = Some (h, x) \<longrightarrow> first_rid h = r \<longrightarrow>
     (\<exists>vs. chain H r vs \<and> (\<forall>v \<in> set vs. first_rid (v_head v) = r)))"

text \<open>
  Whatever the transaction sees of a record is its last version, not deleted, and its lock is
  free or its own: no other transaction is changing the record.
\<close>

definition updatable :: "heap_file \<Rightarrow> db \<Rightarrow> tx_id \<Rightarrow> heap \<Rightarrow> bool" where
  "updatable hf s tx H \<longleftrightarrow> (\<forall>r h x v. slot_at H r = Some (h, x) \<longrightarrow> first_rid h = r \<longrightarrow>
     first_seen s tx (chain_of H r) = Some v \<longrightarrow>
     v = last (chain_of H r) \<and> next_rid (v_head v) \<noteq> rid_deleted \<and> may_lock s tx (lock_key hf r))"

definition writable :: "heap_file \<Rightarrow> db \<Rightarrow> tx_id \<Rightarrow> heap \<Rightarrow> bool" where
  "writable hf s tx H \<longleftrightarrow> heap_rep hf s H \<and> own_chains H \<and> updatable hf s tx H \<and> rc_reader s tx \<and> tx \<noteq> 0 \<and>
     (\<exists>n. db_last_insert s (hf_table_id hf) = int n \<and> n \<le> length H)"

lemma own_chains_ok: "own_chains H \<Longrightarrow> chains_ok H"
  unfolding own_chains_def chains_ok_def by blast

lemma locked_may: "may_lock s tx k \<Longrightarrow> may_lock s tx k' \<Longrightarrow> may_lock (locked tx k s) tx k'"
  by (auto simp: may_lock_def locked_def update_transaction_def)

lemma locked_writable:
  assumes "writable hf s tx H" "may_lock s tx k"
  shows "writable hf (locked tx k s) tx H"
proof -
  have "heap_rep hf (locked tx k s) = heap_rep hf s" by (rule heap_rep_cong) simp
  then show ?thesis
    using assms locked_may [OF assms(2)] unfolding writable_def updatable_def same_tx_views [OF locked_same]
    by auto
qed

lemma locked_again: "db_locks s k = Some tx \<Longrightarrow> locked tx k s = s"
  by (simp add: locked_def)

section \<open>One update\<close>

text \<open>A chain none of whose versions changed is a chain still.\<close>

lemma chain_kept:
  "chain H r vs \<Longrightarrow> (\<And>v. v \<in> set vs \<Longrightarrow> slot_at H' (v_rid v) = slot_at H (v_rid v)) \<Longrightarrow> chain H' r vs"
proof (induction rule: chain.induct)
  case (chain_last r h x)
  then show ?case by (auto intro: chain.chain_last)
next
  case (chain_more r h x vs)
  have "slot_at H' r = Some (h, x)" using chain_more.hyps(1) chain_more.prems [of "(r, h, x)"] by simp
  with chain_more show ?case by (auto intro!: chain.chain_more)
qed

text \<open>What the writer sees of the record it has updated: the new version only.\<close>

lemma seen_new:
  assumes rc: "rc_reader s tx" and "tx \<noteq> 0"
    and old: "first_seen s tx (us @ [(l, h, x)]) = Some (l, h, x)" "l \<notin> fst ` set us"
  shows "first_seen s tx (us @ [(l, h\<lparr>t_max := tx, next_rid := new\<rparr>, x), (new, new_header tx new (Some f), row)]) =
    Some (new, new_header tx new (Some f), row)"
proof -
  have act: "state_of tx s = ACTIVE" using rc by (auto simp: rc_reader_def state_of_def)
  have "find (\<lambda>v. sees s tx (v_head v)) us = None"
  proof (rule ccontr)
    assume "find (\<lambda>v. sees s tx (v_head v)) us \<noteq> None"
    then obtain v where v: "find (\<lambda>v. sees s tx (v_head v)) us = Some v" by blast
    then have "first_seen s tx (us @ [(l, h, x)]) = Some v" by (induction us) (auto simp: first_seen_def)
    moreover have "v \<in> set us" using v by (auto simp: find_Some_iff)
    ultimately show False using old by force
  qed
  then have "find (\<lambda>v. sees s tx (v_head v)) (us @ ws) = find (\<lambda>v. sees s tx (v_head v)) ws" for ws
    by (induction us) (auto split: if_splits)
  moreover have "\<not> sees s tx (h\<lparr>t_max := tx, next_rid := new\<rparr>)" "sees s tx (new_header tx new (Some f))"
    using assms(2) act by (auto simp: sees_rc [OF rc] visible_rc_def new_header_def)
  ultimately show ?thesis by (simp add: first_seen_def)
qed

text \<open>The record's own chain and the chains of the others.\<close>

lemma update_chains:
  assumes own: "own_chains H" and f: "chain H f vs" "\<forall>v \<in> set vs. first_rid (v_head v) = f" "last vs = (l, h, x)"
    and f': "chain H' f (butlast vs @ [(l, h\<lparr>t_max := tx, next_rid := new\<rparr>, x), (new, new_header tx new (Some f), row)])"
    and new: "slot_at H new = None" "slot_at H' new = Some (new_header tx new (Some f), row)"
    and rest: "\<forall>r. r \<noteq> l \<longrightarrow> r \<noteq> new \<longrightarrow> slot_at H' r = slot_at H r"
  shows "own_chains H'"
    "r \<noteq> f \<Longrightarrow> slot_at H r = Some (k, y) \<Longrightarrow> first_rid k = r \<Longrightarrow> slot_at H' r = Some (k, y) \<and> chain_of H' r = chain_of H r"
    "r \<noteq> f \<Longrightarrow> slot_at H' r = Some (k, y) \<Longrightarrow> first_rid k = r \<Longrightarrow> slot_at H r = Some (k, y)"
proof -
  have vs: "vs \<noteq> []" "(l, h, x) \<in> set vs" using chain_not_Nil [OF f(1)] last_in_set f(3) by metis+
  have lH: "slot_at H l = Some (h, x)" "first_rid h = f" using chain_slot [OF f(1) vs(2)] f(2) vs(2) by auto
  have ln: "l \<noteq> new" using lH(1) new(1) by auto
  have at_l: "slot_at H' l = Some (h\<lparr>t_max := tx, next_rid := new\<rparr>, x)" using chain_slot [OF f'] by force
  have other: "\<exists>ws. chain H r ws \<and> chain H' r ws \<and> (\<forall>v \<in> set ws. first_rid (v_head v) = r)"
    if r: "r \<noteq> f" "slot_at H r = Some (k, y)" "first_rid k = r" for r k y
  proof -
    obtain ws where ws: "chain H r ws" "\<forall>v \<in> set ws. first_rid (v_head v) = r"
      using own r(2,3) unfolding own_chains_def by blast
    have "slot_at H' (v_rid v) = slot_at H (v_rid v)" if v: "v \<in> set ws" for v
    proof -
      have at: "slot_at H (v_rid v) = Some (snd v)" by (rule chain_slot [OF ws(1) v])
      then have "v_rid v \<noteq> new" using new(1) by auto
      moreover have "v_rid v \<noteq> l"
      proof
        assume "v_rid v = l"
        with at lH(1) have "snd v = (h, x)" by simp
        with ws(2) v lH(2) r(1) show False by force
      qed
      ultimately show ?thesis using rest by simp
    qed
    with chain_kept ws show ?thesis by blast
  qed
  show older: "slot_at H r = Some (k, y)" if "r \<noteq> f" "slot_at H' r = Some (k, y)" "first_rid k = r" for r k y
  proof -
    have "first_rid k = f" if "r = new" using that \<open>slot_at H' r = Some (k, y)\<close> new(2) by (auto simp: new_header_def)
    moreover have "first_rid k = f" if "r = l" using that \<open>slot_at H' r = Some (k, y)\<close> at_l lH(2) by auto
    ultimately have "r \<noteq> new" "r \<noteq> l" using \<open>r \<noteq> f\<close> \<open>first_rid k = r\<close> by auto
    then show ?thesis using rest \<open>slot_at H' r = Some (k, y)\<close> by simp
  qed
  show "slot_at H' r = Some (k, y) \<and> chain_of H' r = chain_of H r"
    if "r \<noteq> f" "slot_at H r = Some (k, y)" "first_rid k = r" for r k y
  proof -
    from other [OF that] obtain ws where ws: "chain H r ws" "chain H' r ws" by blast
    then have "slot_at H' r = slot_at H r"
      using chain_slot that by (cases rule: chain.cases [OF ws(2)]; cases rule: chain.cases [OF ws(1)]) auto
    with that ws show ?thesis by (simp add: chain_of_eq)
  qed
  show "own_chains H'"
    unfolding own_chains_def
  proof (intro allI impI)
    fix r k y assume r: "slot_at H' r = Some (k, y)" "first_rid k = r"
    show "\<exists>ws. chain H' r ws \<and> (\<forall>v \<in> set ws. first_rid (v_head v) = r)"
    proof (cases "r = f")
      case True
      have "\<forall>v \<in> set (butlast vs @ [(l, h\<lparr>t_max := tx, next_rid := new\<rparr>, x), (new, new_header tx new (Some f), row)]).
          first_rid (v_head v) = f"
        using f(2) lH(2) by (auto simp: new_header_def dest: in_set_butlastD)
      with f' True show ?thesis by blast
    next
      case False
      from other [OF False older [OF False r] r(2)] show ?thesis by blast
    qed
  qed
qed

text \<open>What an update leaves alone.\<close>

definition update_frame :: "heap_file \<Rightarrow> db \<Rightarrow> db \<Rightarrow> bool" where
  "update_frame hf s s' \<longleftrightarrow> same_tx s s' \<and> db_tables s' = db_tables s \<and> db_in_process s' = db_in_process s \<and>
     (\<forall>g. g \<noteq> hf_file_id hf \<longrightarrow> db_pages s' g = db_pages s g)"

lemma update_frame_refl [simp]: "update_frame hf s s"
  by (simp add: update_frame_def)

lemma update_frame_trans: "update_frame hf s1 s2 \<Longrightarrow> update_frame hf s2 s3 \<Longrightarrow> update_frame hf s1 s3"
  unfolding update_frame_def using same_tx_trans by auto

lemma locked_frame: "update_frame hf s (locked tx k s)"
  by (simp add: update_frame_def locked_same) (simp add: locked_def update_transaction_def)

lemma inserted_fields:
  assumes "insert_frame hf tx (Some f) new s s'"
  shows "update_frame hf s s'" "db_locks s' = db_locks s" "db_last_insert s' (hf_table_id hf) = page_num new"
  using assms
  by (auto simp: update_frame_def same_tx_def insert_frame_def only_pages_def set_pages_def insert_noted_def)

text \<open>The old heap is part of the new one, and only the record \<open>f\<close> looks different.\<close>

definition grown :: "heap \<Rightarrow> heap \<Rightarrow> bool" where
  "grown H H' \<longleftrightarrow> length H \<le> length H' \<and> (\<forall>r. in_heap H r \<longrightarrow> in_heap H' r)"

lemma update_record_run:
  assumes wr: "writable hf s tx H" and f: "slot_at H f = Some (h0, x0)" "first_rid h0 = f"
    and seen: "first_seen s tx (chain_of H f) = Some v"
    and w: "prompt w" and row: "row_fits (hf_schema hf) row" "tuple_len row + 4 \<le> 4088" "row \<noteq> []"
    and room: "page_in_range (int (length H + 1))"
  shows "\<exists>new s' H'. heap_update w hf f row tx s = Some (Inr new, s') \<and> writable hf s' tx H' \<and>
    seen_row s' tx H' f = [row @ [VRid f]] \<and> (\<forall>r. r \<noteq> f \<longrightarrow> seen_row s' tx H' r = seen_row s tx H r) \<and>
    grown H H' \<and> length H' \<le> length H + 1 \<and> update_frame hf s s'"
proof -
  obtain n where wrD: "heap_rep hf s H" "own_chains H" "updatable hf s tx H" "rc_reader s tx" "tx \<noteq> 0"
    "db_last_insert s (hf_table_id hf) = int n" "n \<le> length H"
    using wr unfolding writable_def by blast
  obtain X where X: "map_of (db_active s) tx = Some X" "tx_level X = READ_COMMITTED" using wrD(4) by (auto simp: rc_reader_def)
  obtain vs where vs: "chain H f vs" "\<forall>v \<in> set vs. first_rid (v_head v) = f"
    using wrD(2) f unfolding own_chains_def by blast
  note co = chain_of_eq [OF vs(1)]
  obtain l h x where v: "v = (l, h, x)" by (cases v) auto
  have "v = last (chain_of H f) \<and> next_rid (v_head v) \<noteq> rid_deleted \<and> may_lock s tx (lock_key hf f)"
    using wrD(3) f seen unfolding updatable_def by blast
  then have up: "last vs = (l, h, x)" "next_rid h \<noteq> rid_deleted" "may_lock s tx (lock_key hf f)"
    by (simp_all add: co v)
  let ?ws = "\<lambda>new. butlast vs @ [(l, h\<lparr>t_max := tx, next_rid := new\<rparr>, x), (new, new_header tx new (Some f), row)]"
  let ?k = "lock_key hf f" and ?s = "locked tx (lock_key hf f) s"
  obtain new s' H' where run: "heap_update w hf f row tx s = Some (Inr new, s')" "heap_rep hf s' H'"
    "slot_at H new = None" "slot_at H' l = Some (h\<lparr>t_max := tx, next_rid := new\<rparr>, x)"
    "slot_at H' new = Some (new_header tx new (Some f), row)"
    "\<forall>r. r \<noteq> l \<longrightarrow> r \<noteq> new \<longrightarrow> slot_at H' r = slot_at H r" "insert_frame hf tx (Some f) new ?s s'"
    "length H \<le> length H'" "length H' \<le> length H + 1" "\<forall>r. in_heap H r \<longrightarrow> in_heap H' r"
    using heap_update_run [OF wrD(1) f(1), unfolded f(2), OF vs(1) up(1,2) X wrD(5) up(3) w row(1,2) wrD(6,7) room] by blast
  have ch: "chain H' f (?ws new)"
    using heap_update_chain [OF vs(1) up(1) wrD(5) slot_facts(3) [OF run(2,5)] run(3-6)] .
  note chains = update_chains [OF wrD(2) vs up(1) ch run(3,5,6)]
  note fr = inserted_fields [OF run(7)]
  have same: "same_tx s s'" using same_tx_trans [OF locked_same] fr(1) by (auto simp: update_frame_def)
  note views = same_tx_views [OF same]
  have vs_eq: "vs = butlast vs @ [(l, h, x)]" using append_butlast_last_id [OF chain_not_Nil [OF vs(1)]] up(1) by simp
  have "distinct (map fst (butlast vs @ [(l, h, x)]))" using chain_distinct [OF vs(1)] vs_eq by simp
  then have l_once: "l \<notin> fst ` set (butlast vs)" by simp
  have "first_seen s tx (butlast vs @ [(l, h, x)]) = Some (l, h, x)" using seen co v vs_eq by simp
  from seen_new [OF wrD(4,5) this l_once]
  have seen': "first_seen s tx (?ws new) = Some (new, new_header tx new (Some f), row)" .
  obtain k0 y0 where f': "slot_at H' f = Some (k0, y0)" "first_rid k0 = f"
  proof -
    have "(fst (hd (?ws new)) = f)" using ch by (cases rule: chain.cases) auto
    moreover have "\<forall>v \<in> set (?ws new). first_rid (v_head v) = f"
      using vs(2) up(1) chain_not_Nil [OF vs(1)] last_in_set [of vs] by (auto simp: new_header_def dest: in_set_butlastD)
    moreover have "hd (?ws new) \<in> set (?ws new)" by (intro hd_in_set) simp
    ultimately show ?thesis using that chain_slot [OF ch, of "hd (?ws new)"] by (metis prod.collapse)
  qed
  have row_f: "seen_row s' tx H' f = [row @ [VRid f]]"
    using seen' f' row(3) by (simp add: seen_row_def views(4) chain_of_eq [OF ch])
  have rows: "seen_row s' tx H' r = seen_row s tx H r" if "r \<noteq> f" for r
  proof (cases "\<exists>k y. slot_at H r = Some (k, y) \<and> first_rid k = r")
    case True
    then obtain k y where "slot_at H r = Some (k, y)" "first_rid k = r" by blast
    with chains(2) [OF that this] show ?thesis by (simp add: seen_row_def views(4))
  next
    case False
    then have "\<not> (\<exists>k y. slot_at H' r = Some (k, y) \<and> first_rid k = r)" using chains(3) [OF that] by blast
    with False show ?thesis by (auto simp: seen_row_def split: option.splits)
  qed
  have "updatable hf s' tx H'"
    unfolding updatable_def views(4)
  proof (intro allI impI)
    fix r k y u assume r: "slot_at H' r = Some (k, y)" "first_rid k = r" "first_seen s tx (chain_of H' r) = Some u"
    have may: "may_lock s' tx k'" if "may_lock s tx k'" for k'
      using locked_may [OF up(3) that] fr(2) by (simp add: may_lock_def)
    show "u = last (chain_of H' r) \<and> next_rid (v_head u) \<noteq> rid_deleted \<and> may_lock s' tx (lock_key hf r)"
    proof (cases "r = f")
      case True
      have "new \<noteq> rid_deleted" using not_special [OF slot_at_Some [OF run(5)]] by simp
      with True r(3) seen' may [OF up(3)] show ?thesis by (simp add: chain_of_eq [OF ch] new_header_def)
    next
      case False
      from chains(3) [OF False r(1,2)] have old: "slot_at H r = Some (k, y)" .
      with chains(2) [OF False old r(2)] r wrD(3) may show ?thesis unfolding updatable_def by metis
    qed
  qed
  moreover obtain m i where "new = RID (int m) (int i)" "m < length H'" using slot_at_Some [OF run(5)] by (auto elim!: in_heapE)
  ultimately have "writable hf s' tx H'"
    unfolding writable_def using run(2) chains(1) wrD(4,5) views(3) fr(3) by auto
  moreover have "update_frame hf s s'" using update_frame_trans [OF locked_frame fr(1)] .
  ultimately show ?thesis using run row_f rows unfolding grown_def by blast
qed

section \<open>The rows after an update\<close>

definition with_row :: "rid \<Rightarrow> row \<Rightarrow> row \<Rightarrow> row" where
  "with_row f x r = (if last r = VRid f then x else r)"

lemma seen_row_rid: "x \<in> set (seen_row s tx H r) \<Longrightarrow> x \<noteq> [] \<and> last x = VRid r"
  by (auto simp: seen_row_def split: option.splits if_splits prod.splits)

lemma seen_row_outside: "\<not> in_heap H r \<Longrightarrow> seen_row s tx H r = []"
  using slot_at_Some [of H r] by (cases "slot_at H r") (auto simp: seen_row_def)

text \<open>If every record looks as \<open>g\<close> makes it, so do the rows of a page and of the whole heap.\<close>

lemma page_rows_upto:
  assumes "length (H ! n) \<le> m \<or> length H \<le> n"
  shows "concat (map (\<lambda>i. seen_row s tx H (RID (int n) (int i))) [k..<m]) =
    (if n < length H then page_rows s tx H n k else [])"
proof (cases "n < length H")
  case True
  have out: "seen_row s tx H (RID (int n) (int i)) = []" if "length (H ! n) \<le> i" for i
    using that by (intro seen_row_outside) (simp add: in_heap_def)
  show ?thesis
  proof (cases "k \<le> length (H ! n)")
    case kn: True
    then have "[k..<m] = [k..<length (H ! n)] @ [length (H ! n)..<m]"
      using assms True upt_add_eq_append [of k "length (H ! n)" "m - length (H ! n)"] by simp
    with True out show ?thesis by (simp add: page_rows_def concat_eq_Nil_conv)
  next
    case False
    with True out show ?thesis by (simp add: page_rows_def)
  qed
next
  case False
  then have "seen_row s tx H (RID (int n) (int i)) = []" for i
    by (intro seen_row_outside) (simp add: in_heap_def)
  with False show ?thesis by simp
qed

lemma grown_page:
  assumes "grown H H'" "n < length H"
  shows "n < length H'" "length (H ! n) \<le> length (H' ! n)"
proof -
  show "n < length H'" using assms by (simp add: grown_def)
  show "length (H ! n) \<le> length (H' ! n)"
  proof (cases "length (H ! n)")
    case (Suc k)
    then have "in_heap H (RID (int n) (int k))" using assms(2) by (simp add: in_heap_def)
    then have "in_heap H' (RID (int n) (int k))" using assms(1) by (simp add: grown_def)
    with Suc show ?thesis by (simp add: in_heap_def)
  qed simp
qed

lemma rows_mapped:
  assumes gr: "grown H H'" and g: "\<forall>r. seen_row s' tx H' r = map g (seen_row s tx H r)"
  shows "n < length H \<Longrightarrow> page_rows s' tx H' n k = map g (page_rows s tx H n k)"
    "t \<le> length H \<Longrightarrow> n < t \<Longrightarrow> rows_from s' tx H' t n k = map g (rows_from s tx H t n k)"
    "t \<le> length H \<Longrightarrow> visible_rows s' tx H' t = map g (visible_rows s tx H t)"
    "visible_rows s' tx H' (length H') = map g (visible_rows s tx H (length H))"
proof -
  have page': "page_rows s' tx H' n k = (if n < length H then map g (page_rows s tx H n k) else [])" for n k
  proof -
    have "length (H ! n) \<le> length (H' ! n) \<or> length H \<le> n" using grown_page [OF gr] not_less by blast
    from page_rows_upto [OF this, of s tx k] have
      "map g (concat (map (\<lambda>i. seen_row s tx H (RID (int n) (int i))) [k..<length (H' ! n)])) =
       (if n < length H then map g (page_rows s tx H n k) else [])" by simp
    then show ?thesis unfolding page_rows_def g [rule_format] by (simp only: map_concat map_map o_def)
  qed
  then show page: "n < length H \<Longrightarrow> page_rows s' tx H' n k = map g (page_rows s tx H n k)" for n k by simp
  show "t \<le> length H \<Longrightarrow> n < t \<Longrightarrow> rows_from s' tx H' t n k = map g (rows_from s tx H t n k)"
    by (auto simp: rows_from_def page map_concat intro!: arg_cong [where f = concat])
  show vis: "t \<le> length H \<Longrightarrow> visible_rows s' tx H' t = map g (visible_rows s tx H t)" for t
    by (auto simp: visible_rows_def page map_concat intro!: arg_cong [where f = concat])
  have "[0..<length H'] = [0..<length H] @ [length H..<length H']"
    using gr upt_add_eq_append [of 0 "length H" "length H' - length H"] by (simp add: grown_def)
  then show "visible_rows s' tx H' (length H') = map g (visible_rows s tx H (length H))"
    using vis [of "length H"] page' by (simp add: visible_rows_def concat_eq_Nil_conv)
qed

section \<open>The RID at the end of a row is not stored\<close>

lemma write_values_rid:
  "values_size (rs @ [VRid q]) = values_size rs" "write_values p off (rs @ [VRid q]) = write_values p off rs"
proof -
  show "values_size (rs @ [VRid q]) = values_size rs" by (induction rs) simp_all
  show "write_values p off (rs @ [VRid q]) = write_values p off rs"
    by (induction p off rs rule: write_values.induct) (auto simp: Let_def intro!: bindE_cong)
qed

lemma try_insert_rid: "try_insert_record p (rs @ [VRid q]) tx first = try_insert_record p rs tx first"
  by (simp only: try_insert_record_def write_values_rid)

lemma heap_insert_same:
  assumes run: "heap_insert hf a tx first s = Some y" and same: "\<And>p. try_insert_record p b tx first = try_insert_record p a tx first"
  shows "heap_insert hf b tx first s = Some y"
proof -
  have "a = a \<longrightarrow> tx = tx \<longrightarrow> first = first \<longrightarrow> heap_insert hf b tx first s = Some y"
    using run
  proof (rule heap_insert.raw_induct [rotated, where P = "\<lambda>hf rec t f s y. rec = a \<longrightarrow> t = tx \<longrightarrow> f = first \<longrightarrow>
      heap_insert hf b tx first s = Some y"])
    fix F hf rec t f s y
    assume IH: "\<And>hf rec t f s y. F hf rec t f s = Some y \<Longrightarrow> rec = a \<longrightarrow> t = tx \<longrightarrow> f = first \<longrightarrow>
      heap_insert hf b tx first s = Some y"
      and step: "(let n = db_last_insert s (hf_table_id hf) in
        bindA (heap_page hf n (\<lambda>p. try_insert_record p rec t f)) (\<lambda>r s.
          case r of None \<Rightarrow> F hf rec t f (s\<lparr>db_last_insert := (db_last_insert s)(hf_table_id hf := n + 1)\<rparr>)
          | Some rid \<Rightarrow> bindA (whenA (f = None) (add_to_write_set (hf_table_id hf) rid t)) (\<lambda>_. returnA rid) s) s) = Some y"
    show "rec = a \<longrightarrow> t = tx \<longrightarrow> f = first \<longrightarrow> heap_insert hf b tx first s = Some y"
      using step IH
      by (subst heap_insert.simps, cases y) (auto simp: Let_def same bindA_def split: sum.splits option.splits Option.bind_splits)
  qed
  then show ?thesis by simp
qed

lemma heap_insert_rid: "heap_insert hf (rs @ [VRid q]) tx first s = heap_insert hf rs tx first s"
proof (cases "heap_insert hf rs tx first s")
  case (Some y)
  with heap_insert_same [OF Some try_insert_rid] show ?thesis by simp
next
  case None
  have "heap_insert hf (rs @ [VRid q]) tx first s \<noteq> Some y" for y
    using heap_insert_same [OF _ try_insert_rid [symmetric], of hf rs q tx first s y] None by auto
  then have "heap_insert hf (rs @ [VRid q]) tx first s = None"
    by (cases "heap_insert hf (rs @ [VRid q]) tx first s") auto
  with None show ?thesis by simp
qed

lemma heap_update_rid: "heap_update w hf r (rs @ [VRid q]) tx = heap_update w hf r rs tx"
proof -
  have "heap_insert hf (rs @ [VRid q]) tx first = heap_insert hf rs tx first" for first
    by (rule ext) (rule heap_insert_rid)
  then show ?thesis unfolding heap_update_def by (simp only:)
qed

text \<open>An update of a record the transaction sees, in terms of its rows.\<close>

lemma update_row_run:
  assumes wr: "writable hf s tx H" and seen: "seen_row s tx H f = [x]"
    and w: "prompt w" and row: "row_fits (hf_schema hf) row" "tuple_len row + 4 \<le> 4088" "row \<noteq> []"
    and room: "page_in_range (int (length H + 1))"
  shows "\<exists>new s' H'. heap_update w hf f (row @ [VRid q]) tx s = Some (Inr new, s') \<and> writable hf s' tx H' \<and>
    (\<forall>r. seen_row s' tx H' r = map (with_row f (row @ [VRid f])) (seen_row s tx H r)) \<and>
    grown H H' \<and> length H' \<le> length H + 1 \<and> update_frame hf s s'"
proof -
  obtain h0 x0 v where f: "slot_at H f = Some (h0, x0)" "first_rid h0 = f" "first_seen s tx (chain_of H f) = Some v"
    using seen by (auto simp: seen_row_def split: option.splits if_splits)
  obtain new s' H' where run: "heap_update w hf f row tx s = Some (Inr new, s')" "writable hf s' tx H'"
    "seen_row s' tx H' f = [row @ [VRid f]]" "\<forall>r. r \<noteq> f \<longrightarrow> seen_row s' tx H' r = seen_row s tx H r"
    "grown H H'" "length H' \<le> length H + 1" "update_frame hf s s'"
    using update_record_run [OF wr f w row room] by blast
  have "seen_row s' tx H' r = map (with_row f (row @ [VRid f])) (seen_row s tx H r)" for r
  proof (cases "r = f")
    case True
    with seen run(3) seen_row_rid [of x s tx H f] show ?thesis by (simp add: with_row_def)
  next
    case False
    have "with_row f (row @ [VRid f]) y = y" if "y \<in> set (seen_row s tx H r)" for y
      using seen_row_rid [OF that] False by (simp add: with_row_def)
    with run(4) False show ?thesis by (simp add: map_idI)
  qed
  with run heap_update_rid show ?thesis by metis
qed

end
