(* ===== verification/Rewriter_Correct.thy ===== *)
theory Rewriter_Correct
  imports Query_Rewriter
begin

text \<open>
  What the rewriters guarantee: the search for joined aliases finds exactly the connected ones,
  and pushing selections down a plan of products and joins keeps the rows the plan denotes.
\<close>

section \<open>Connected aliases\<close>

definition linked :: "(column \<times> column) list \<Rightarrow> (string \<times> string) set" where
  "linked eqs = (\<Union>(a, b) \<in> set eqs. {(col_alias a, col_alias b), (col_alias b, col_alias a)})"

lemma add_alias_sets:
  "set (fst (add_alias a jp)) = insert a (set (fst jp))"
  "set (snd jp) \<subseteq> set (snd (add_alias a jp))"
  "a \<in> set (fst jp) \<or> a \<in> set (snd (add_alias a jp))"
  "set (snd (add_alias a jp)) \<subseteq> insert a (set (snd jp))"
  by (auto simp: add_alias_def split: prod.splits)

lemma follow_fold:
  fixes eqs cur jp
  defines "jp' \<equiv> fold (follow cur) eqs jp"
  shows "set (fst jp') = set (fst jp) \<union> linked eqs `` {cur}"
    "set (snd jp) \<subseteq> set (snd jp')"
    "set (fst jp') - set (fst jp) \<subseteq> set (snd jp')"
    "set (snd jp') \<subseteq> set (snd jp) \<union> set (fst jp')"
proof -
  have step: "set (fst (follow cur (a, b) jp)) =
      set (fst jp) \<union> {(col_alias a, col_alias b), (col_alias b, col_alias a)} `` {cur}" for a b jp
    by (auto simp: follow_def add_alias_sets)
  have "set (fst (fold (follow cur) eqs jp)) = set (fst jp) \<union> linked eqs `` {cur}" for jp
  proof (induction eqs arbitrary: jp)
    case (Cons e eqs)
    then show ?case by (cases e) (auto simp: step linked_def)
  qed (simp add: linked_def)
  then show "set (fst jp') = set (fst jp) \<union> linked eqs `` {cur}" by (simp add: jp'_def)
  have grow: "set (snd jp) \<subseteq> set (snd (follow cur e jp)) \<and>
      set (fst jp) \<subseteq> set (fst (follow cur e jp)) \<and>
      set (fst (follow cur e jp)) - set (fst jp) \<subseteq> set (snd (follow cur e jp)) \<and>
      set (snd (follow cur e jp)) \<subseteq> set (snd jp) \<union> set (fst (follow cur e jp))" for e jp
    by (cases e; cases jp) (auto simp: follow_def add_alias_def)
  have "set (snd jp) \<subseteq> set (snd (fold (follow cur) eqs jp)) \<and>
      set (fst jp) \<subseteq> set (fst (fold (follow cur) eqs jp)) \<and>
      set (fst (fold (follow cur) eqs jp)) - set (fst jp) \<subseteq> set (snd (fold (follow cur) eqs jp)) \<and>
      set (snd (fold (follow cur) eqs jp)) \<subseteq> set (snd jp) \<union> set (fst (fold (follow cur) eqs jp))" for jp
  proof (induction eqs arbitrary: jp)
    case (Cons e eqs)
    from Cons.IH [of "follow cur e jp"] grow [of jp e] show ?case by auto
  qed simp
  then show "set (snd jp) \<subseteq> set (snd jp')" "set (fst jp') - set (fst jp) \<subseteq> set (snd jp')"
    "set (snd jp') \<subseteq> set (snd jp) \<union> set (fst jp')" by (simp_all add: jp'_def)
qed

text \<open>What has been taken off the queue has all its neighbours among the joined aliases.\<close>

lemma close_aliases_reach:
  assumes "set pending \<subseteq> set joined" "a \<in> set joined" "set joined \<subseteq> (linked eqs)\<^sup>* `` {a}"
    "\<forall>x \<in> set joined - set pending. linked eqs `` {x} \<subseteq> set joined"
  shows "set (close_aliases eqs joined pending) = (linked eqs)\<^sup>* `` {a}"
  using assms
proof (induction eqs joined pending rule: close_aliases.induct)
  case (1 eqs joined)
  then have "linked eqs `` set joined \<subseteq> set joined" by auto
  then have "(linked eqs)\<^sup>* `` {a} \<subseteq> set joined"
    using Image_closed_trancl [of "linked eqs" "set joined"] 1(2) by blast
  with 1 show ?case by simp
next
  case (2 eqs joined cur pending)
  let ?jp = "fold (follow cur) eqs (joined, pending)"
  note f = follow_fold [where cur = cur and eqs = eqs and jp = "(joined, pending)", simplified]
  have cur: "cur \<in> (linked eqs)\<^sup>* `` {a}" using 2(2,4) by auto
  have "set (close_aliases eqs (fst ?jp) (snd ?jp)) = (linked eqs)\<^sup>* `` {a}"
  proof (rule 2(1) [OF refl])
    show "set (snd ?jp) \<subseteq> set (fst ?jp)" using f(1,4) 2(2) by auto
    show "a \<in> set (fst ?jp)" using f(1) 2(3) by auto
    show "set (fst ?jp) \<subseteq> (linked eqs)\<^sup>* `` {a}"
      using f(1) 2(4) cur by (auto intro: rtrancl_into_rtrancl)
    show "\<forall>x \<in> set (fst ?jp) - set (snd ?jp). linked eqs `` {x} \<subseteq> set (fst ?jp)"
    proof
      fix x assume x: "x \<in> set (fst ?jp) - set (snd ?jp)"
      then have "x \<in> set joined" "x \<notin> set pending" using f(2,3) by auto
      with 2(5) f(1) show "linked eqs `` {x} \<subseteq> set (fst ?jp)" by (cases "x = cur") auto
    qed
  qed
  then show ?case by (simp add: Let_def)
qed

lemma close_aliases_connected: "set (close_aliases eqs [a] [a]) = (linked eqs)\<^sup>* `` {a}"
  by (rule close_aliases_reach) auto

section \<open>Rows of a logical plan\<close>

text \<open>
  A row gives the values of the columns by alias and name; \<open>T a t\<close> are the rows of table \<open>t\<close> under
  the alias \<open>a\<close>.
\<close>

type_synonym lrow = "string \<times> string \<Rightarrow> db_value option"

definition lenv :: "lrow \<Rightarrow> column \<Rightarrow> db_value res" where
  "lenv r c = (case r (col_key c) of None \<Rightarrow> Inl Stuck | Some v \<Rightarrow> Inr v)"

definition true_in :: "lrow \<Rightarrow> expr_plan \<Rightarrow> bool" where
  "true_in r e \<longleftrightarrow> plan_eval (lenv r) e = Inr (VInt 1)"

definition pairs :: "lrow list \<Rightarrow> lrow list \<Rightarrow> lrow list" where
  "pairs R S = concat (map (\<lambda>x. map (\<lambda>y. x ++ y) S) R)"

fun product_all :: "lrow list list \<Rightarrow> lrow list" where
  "product_all [] = [Map.empty]"
| "product_all (R # Rs) = pairs R (product_all Rs)"

definition equal_in :: "(column \<times> column) list \<Rightarrow> lrow \<Rightarrow> bool" where
  "equal_in cs r \<longleftrightarrow> (\<forall>(a, b) \<in> set cs. r (col_key a) = r (col_key b))"

text \<open>Outer joins and projections have no meaning here; \<open>tree\<close> leaves them out.\<close>

fun sem :: "(string \<Rightarrow> string \<Rightarrow> lrow list) \<Rightarrow> query_plan \<Rightarrow> lrow list" where
  "sem T (RelationPlan a t) = T a t"
| "sem T (SelectionPlan p es) = filter (\<lambda>r. \<forall>e \<in> set es. true_in r e) (sem T p)"
| "sem T (CartesianProductPlan ps) = product_all (map (sem T) ps)"
| "sem T (JoinPlan ps cs) = filter (equal_in cs) (product_all (map (sem T) ps))"
| "sem T _ = []"

fun tree :: "query_plan \<Rightarrow> bool" where
  "tree (RelationPlan a t) = True"
| "tree (CartesianProductPlan ps) = list_all tree ps"
| "tree (JoinPlan ps cs) = (list_all tree ps \<and> length ps > 1 \<and> cs \<noteq> [])"
| "tree _ = False"

fun rel_keys :: "query_plan \<Rightarrow> (string \<times> string) list" where
  "rel_keys (RelationPlan a t) = [(a, t)]"
| "rel_keys (CartesianProductPlan ps) = concat (map rel_keys ps)"
| "rel_keys (JoinPlan ps cs) = concat (map rel_keys ps)"
| "rel_keys _ = []"

definition named_rows :: "(string \<Rightarrow> string \<Rightarrow> lrow list) \<Rightarrow> bool" where
  "named_rows T \<longleftrightarrow> (\<forall>a t. \<forall>r \<in> set (T a t). fst ` dom r \<subseteq> {a})"

lemma true_in_single:
  assumes "expr_get_columns e = Inr [c]" "r (col_key c) = r' (col_key c)"
  shows "true_in r e = true_in r' e"
proof -
  have "plan_eval (lenv r) e = plan_eval (lenv r') e"
    if "expr_get_columns e = Inr ds" "\<forall>k \<in> col_key ` set ds. r k = r' k" for ds
    using that
  proof (induction e arbitrary: ds)
    case (ExprPlanEquals a b) then show ?case by (simp, elim union_of_InrE) (simp add: col_keys_union)
  next
    case (ExprPlanNotEquals a b) then show ?case by (simp, elim union_of_InrE) (simp add: col_keys_union)
  next
    case (ExprPlanLess a b) then show ?case by (simp, elim union_of_InrE) (simp add: col_keys_union)
  next
    case (ExprPlanLessOrEquals a b) then show ?case by (simp, elim union_of_InrE) (simp add: col_keys_union)
  next
    case (ExprPlanArithmetic a op b) then show ?case by (simp, elim union_of_InrE) (simp add: col_keys_union)
  qed (auto simp: lenv_def)
  from this [OF assms(1)] assms(2) show ?thesis by (simp add: true_in_def)
qed

section \<open>Pushing selections keeps the rows\<close>

definition exprs_at :: "simple_map \<Rightarrow> string \<times> string \<Rightarrow> expr_plan list" where
  "exprs_at m k = (case m k of None \<Rightarrow> [] | Some es \<Rightarrow> es)"

definition simple_ok :: "simple_map \<Rightarrow> bool" where
  "simple_ok m \<longleftrightarrow> (\<forall>k. \<forall>e \<in> set (exprs_at m k). \<exists>c. expr_get_columns e = Inr [c] \<and> (col_alias c, col_table c) = k)"

definition all_at :: "(expr_plan \<Rightarrow> bool) \<Rightarrow> simple_map \<Rightarrow> (string \<times> string) list \<Rightarrow> bool" where
  "all_at P m ks \<longleftrightarrow> (\<forall>k \<in> set ks. \<forall>e \<in> set (exprs_at m k). P e)"

definition pass :: "simple_map \<Rightarrow> (string \<times> string) list \<Rightarrow> lrow \<Rightarrow> bool" where
  "pass m ks r \<longleftrightarrow> all_at (true_in r) m ks"

definition taken :: "simple_map \<Rightarrow> (string \<times> string) list \<Rightarrow> simple_map" where
  "taken m ks = (\<lambda>k. if k \<in> set ks \<and> m k \<noteq> None then Some [] else m k)"

lemma taken_simps [simp]: "taken m [] = m" "taken (taken m ks) ls = taken m (ks @ ls)"
  by (auto simp: taken_def fun_eq_iff)

lemma exprs_taken: "exprs_at (taken m ks) k = (if k \<in> set ks then [] else exprs_at m k)"
  by (auto simp: exprs_at_def taken_def)

lemma simple_taken: "simple_ok m \<Longrightarrow> simple_ok (taken m ks)"
  by (auto simp: simple_ok_def exprs_taken)

lemma pass_taken: "set ks \<inter> set ls = {} \<Longrightarrow> pass (taken m ks) ls = pass m ls"
  by (auto simp: pass_def all_at_def exprs_taken fun_eq_iff)

lemma filter_pairs:
  "(\<And>x y. x \<in> set R \<Longrightarrow> y \<in> set S \<Longrightarrow> P (x ++ y) = (Q x \<and> Q' y)) \<Longrightarrow>
   filter P (pairs R S) = pairs (filter Q R) (filter Q' S)"
proof (induction R)
  case (Cons x R)
  have "filter (\<lambda>y. P (x ++ y)) S = filter (\<lambda>y. Q x \<and> Q' y) S"
    using Cons.prems [of x] by (intro filter_cong) auto
  then have "filter P (map (\<lambda>y. x ++ y) S) = (if Q x then map (\<lambda>y. x ++ y) (filter Q' S) else [])"
    by (simp add: filter_map o_def)
  with Cons show ?case by (simp add: pairs_def)
qed (simp add: pairs_def)

lemma in_pairs: "r \<in> set (pairs R S) \<longleftrightarrow> (\<exists>x \<in> set R. \<exists>y \<in> set S. r = x ++ y)"
  by (auto simp: pairs_def)

lemma dom_product:
  "(\<And>p r. p \<in> set ps \<Longrightarrow> r \<in> set (f p) \<Longrightarrow> fst ` dom r \<subseteq> A p) \<Longrightarrow> r \<in> set (product_all (map f ps)) \<Longrightarrow>
   fst ` dom r \<subseteq> (\<Union>p \<in> set ps. A p)"
proof (induction ps arbitrary: r)
  case (Cons p ps)
  from Cons.prems(2) have "r \<in> set (pairs (f p) (product_all (map f ps)))" by simp
  then obtain x y where r: "x \<in> set (f p)" "y \<in> set (product_all (map f ps))" "r = x ++ y"
    unfolding in_pairs by blast
  have "fst ` dom x \<subseteq> A p" "fst ` dom y \<subseteq> (\<Union>p \<in> set ps. A p)"
    using Cons.prems(1) [of p x] Cons.IH [OF Cons.prems(1) r(2)] r(1) by auto
  then have "fst ` (dom y \<union> dom x) \<subseteq> A p \<union> (\<Union>p \<in> set ps. A p)" by (simp add: image_Un le_supI1 le_supI2)
  then show ?case by (simp add: r(3))
qed simp

lemma dom_tree: "named_rows T \<Longrightarrow> tree p \<Longrightarrow> r \<in> set (sem T p) \<Longrightarrow> fst ` dom r \<subseteq> fst ` set (rel_keys p)"
proof (induction p arbitrary: r)
  case (CartesianProductPlan ps)
  then have "fst ` dom r \<subseteq> (\<Union>p \<in> set ps. fst ` set (rel_keys p))"
    by (intro dom_product [of ps "sem T"]) (auto simp: list_all_iff)
  then show ?case by (simp add: image_UN)
next
  case (JoinPlan ps cs)
  then have "fst ` dom r \<subseteq> (\<Union>p \<in> set ps. fst ` set (rel_keys p))"
    by (intro dom_product [of ps "sem T"]) (auto simp: list_all_iff)
  then show ?case by (simp add: image_UN)
qed (auto simp: named_rows_def)

lemma unnamed: "fst ` dom r \<subseteq> A \<Longrightarrow> col_alias c \<notin> A \<Longrightarrow> r (col_key c) = None"
  by (metis (no_types) col_key_def domIff fst_conv image_eqI subsetD)

lemma pass_pair:
  assumes m: "simple_ok m" and x: "fst ` dom x \<subseteq> fst ` set ks" and y: "fst ` dom y \<subseteq> fst ` set ls"
    and d: "fst ` set ks \<inter> fst ` set ls = {}"
  shows "pass m (ks @ ls) (x ++ y) \<longleftrightarrow> pass m ks x \<and> pass m ls y"
proof -
  have left: "true_in (x ++ y) e = true_in x e" if "k \<in> set ks" "e \<in> set (exprs_at m k)" for k e
  proof -
    note k = that
    obtain c where c: "expr_get_columns e = Inr [c]" "(col_alias c, col_table c) = k"
      using m k(2) unfolding simple_ok_def by blast
    have "col_alias c \<in> fst ` set ks" using c(2) k(1) by (metis fst_conv image_eqI)
    with d have "col_alias c \<notin> fst ` set ls" by blast
    with y have "y (col_key c) = None" by (rule unnamed)
    then show ?thesis by (intro true_in_single [OF c(1)]) (simp add: map_add_def)
  qed
  have right: "true_in (x ++ y) e = true_in y e" if "k \<in> set ls" "e \<in> set (exprs_at m k)" for k e
  proof -
    note k = that
    obtain c where c: "expr_get_columns e = Inr [c]" "(col_alias c, col_table c) = k"
      using m k(2) unfolding simple_ok_def by blast
    have "col_alias c \<in> fst ` set ls" using c(2) k(1) by (metis fst_conv image_eqI)
    with d have "col_alias c \<notin> fst ` set ks" by blast
    with x have "x (col_key c) = None" by (rule unnamed)
    then show ?thesis by (intro true_in_single [OF c(1)]) (simp add: map_add_def split: option.splits)
  qed
  from left right have "pass m (ks @ ls) (x ++ y) \<longleftrightarrow> (\<forall>k \<in> set ks. \<forall>e \<in> set (exprs_at m k). true_in x e) \<and>
      (\<forall>k \<in> set ls. \<forall>e \<in> set (exprs_at m k). true_in y e)"
    by (simp add: pass_def all_at_def ball_Un)
  then show ?thesis by (simp only: pass_def all_at_def)
qed

text \<open>Pushing into the children of a product, and into a whole tree.\<close>

definition pushed :: "(string \<Rightarrow> string \<Rightarrow> lrow list) \<Rightarrow> simple_map \<Rightarrow> query_plan \<Rightarrow> bool" where
  "pushed T m p \<longleftrightarrow> (\<exists>p'. push_selection p m = Inr (p', taken m (rel_keys p)) \<and>
     sem T p' = filter (pass m (rel_keys p)) (sem T p))"

lemma push_children:
  assumes "named_rows T" "\<And>p m. p \<in> set ps \<Longrightarrow> simple_ok m \<Longrightarrow> pushed T m p"
  shows "list_all tree ps \<Longrightarrow> distinct (map fst (concat (map rel_keys ps))) \<Longrightarrow> simple_ok m \<Longrightarrow>
    \<exists>ps'. push_all (map push_selection ps) m = Inr (ps', taken m (concat (map rel_keys ps))) \<and> length ps' = length ps \<and>
      product_all (map (sem T) ps') = filter (pass m (concat (map rel_keys ps))) (product_all (map (sem T) ps))"
  using assms(2)
proof (induction ps arbitrary: m)
  case Nil
  then show ?case by (simp add: pass_def all_at_def)
next
  case (Cons p ps)
  let ?k = "rel_keys p" and ?l = "concat (map rel_keys ps)"
  have d: "fst ` set ?k \<inter> fst ` set ?l = {}" and d': "set ?k \<inter> set ?l = {}" using Cons.prems(2) by auto
  obtain p' where p': "push_selection p m = Inr (p', taken m ?k)" "sem T p' = filter (pass m ?k) (sem T p)"
    using Cons.prems(4) [of p m] Cons.prems(3) by (auto simp: pushed_def)
  obtain ps' where ps': "push_all (map push_selection ps) (taken m ?k) = Inr (ps', taken (taken m ?k) ?l)"
    "length ps' = length ps"
    "product_all (map (sem T) ps') = filter (pass (taken m ?k) ?l) (product_all (map (sem T) ps))"
    using Cons.IH [OF _ _ simple_taken [OF Cons.prems(3), of ?k]] Cons.prems(1,2,4) by (simp del: taken_simps) blast
  have rest: "product_all (map (sem T) ps') = filter (pass m ?l) (product_all (map (sem T) ps))"
    using ps'(3) pass_taken [OF d'] by simp
  have "filter (pass m (?k @ ?l)) (pairs (sem T p) (product_all (map (sem T) ps))) =
      pairs (filter (pass m ?k) (sem T p)) (filter (pass m ?l) (product_all (map (sem T) ps)))"
  proof (rule filter_pairs, rule pass_pair [OF Cons.prems(3) _ _ d])
    fix x y assume "x \<in> set (sem T p)" "y \<in> set (product_all (map (sem T) ps))"
    then show "fst ` dom x \<subseteq> fst ` set ?k" "fst ` dom y \<subseteq> fst ` set ?l"
      using dom_tree [OF assms(1), of p] dom_tree [OF assms(1), of "CartesianProductPlan ps"] Cons.prems(1)
      by simp_all
  qed
  with p' ps'(1,2) rest show ?case by simp
qed

lemma push_tree:
  "named_rows T \<Longrightarrow> tree p \<Longrightarrow> distinct (map fst (rel_keys p)) \<Longrightarrow> simple_ok m \<Longrightarrow> pushed T m p"
proof (induction p arbitrary: m)
  case (RelationPlan a t)
  show ?case
  proof (cases "m (a, t)")
    case None
    then have "taken m [(a, t)] = m" "pass m [(a, t)] = (\<lambda>r. True)"
      by (auto simp: taken_def pass_def all_at_def exprs_at_def fun_eq_iff)
    with None show ?thesis by (simp add: pushed_def push_relation_def)
  next
    case (Some es)
    then have "taken m [(a, t)] = m((a, t) \<mapsto> [])" "pass m [(a, t)] = (\<lambda>r. \<forall>e \<in> set es. true_in r e)"
      by (auto simp: taken_def pass_def all_at_def exprs_at_def fun_eq_iff)
    with Some show ?thesis by (simp add: pushed_def push_relation_def)
  qed
next
  case (CartesianProductPlan ps)
  have "pushed T m p" if "p \<in> set ps" "simple_ok m" for p m
    using CartesianProductPlan.IH [OF that(1) CartesianProductPlan.prems(1) _ _ that(2)] CartesianProductPlan.prems(2,3) that(1)
    by (auto simp: list_all_iff distinct_map distinct_concat_iff inj_on_def)
  from push_children [OF CartesianProductPlan.prems(1) this] CartesianProductPlan.prems(2-4)
  obtain ps' where "push_all (map push_selection ps) m = Inr (ps', taken m (concat (map rel_keys ps)))"
    "product_all (map (sem T) ps') = filter (pass m (concat (map rel_keys ps))) (product_all (map (sem T) ps))"
    by auto
  then show ?case by (simp add: pushed_def)
next
  case (JoinPlan ps cs)
  have "pushed T m p" if "p \<in> set ps" "simple_ok m" for p m
    using JoinPlan.IH [OF that(1) JoinPlan.prems(1) _ _ that(2)] JoinPlan.prems(2,3) that(1)
    by (auto simp: list_all_iff distinct_map distinct_concat_iff inj_on_def)
  from push_children [OF JoinPlan.prems(1) this] JoinPlan.prems(2-4)
  obtain ps' where "push_all (map push_selection ps) m = Inr (ps', taken m (concat (map rel_keys ps)))"
    "length ps' = length ps"
    "product_all (map (sem T) ps') = filter (pass m (concat (map rel_keys ps))) (product_all (map (sem T) ps))"
    by auto
  moreover have "1 < length ps" "cs \<noteq> []" using JoinPlan.prems(2) by simp_all
  ultimately show ?case by (simp add: pushed_def conj_commute)
qed simp_all


text \<open>The conditions split in two: the simple ones by key, the others in order.\<close>

definition key_of :: "column \<Rightarrow> string \<times> string" where
  "key_of c = (col_alias c, col_table c)"

definition covered :: "(string \<times> string) list \<Rightarrow> expr_plan \<Rightarrow> bool" where
  "covered ks e \<longleftrightarrow> (\<exists>cs. expr_get_columns e = Inr cs \<and> (length cs = 1 \<longrightarrow> key_of (hd cs) \<in> set ks))"

lemma exprs_add: "exprs_at (add_simple k e m) k' = (if k' = k then exprs_at m k @ [e] else exprs_at m k')"
  by (simp add: exprs_at_def add_simple_def split: option.splits)

lemma simple_add: "simple_ok m \<Longrightarrow> expr_get_columns e = Inr [c] \<Longrightarrow> simple_ok (add_simple (col_alias c, col_table c) e m)"
  by (simp add: simple_ok_def exprs_add)

lemma all_at_add:
  "k \<in> set ks \<Longrightarrow> all_at P (add_simple k e m) ks \<longleftrightarrow> all_at P m ks \<and> P e"
  by (auto simp: all_at_def exprs_add)

lemma split_run:
  "list_all (covered ks) es \<Longrightarrow> simple_ok m \<Longrightarrow>
   \<exists>rest m'. split_simple es m = Inr (rest, m') \<and> simple_ok m' \<and>
     (\<forall>P. (\<forall>e \<in> set rest. P e) \<and> all_at P m' ks \<longleftrightarrow> (\<forall>e \<in> set es. P e) \<and> all_at P m ks)"
proof (induction es arbitrary: m)
  case (Cons e es)
  from Cons.prems(1) obtain cs where cs: "expr_get_columns e = Inr cs" "length cs = 1 \<longrightarrow> key_of (hd cs) \<in> set ks"
    by (auto simp: covered_def)
  show ?case
  proof (cases "length cs = 1")
    case True
    then obtain c where c: "cs = [c]" by (auto simp: length_Suc_conv)
    with cs have k: "(col_alias c, col_table c) \<in> set ks" by (simp add: key_of_def)
    have "simple_ok (add_simple (col_alias c, col_table c) e m)"
      using Cons.prems(2) cs(1) c by (intro simple_add) auto
    from Cons.IH [OF _ this] Cons.prems(1) obtain rest m' where
      "split_simple es (add_simple (col_alias c, col_table c) e m) = Inr (rest, m')" "simple_ok m'"
      "\<forall>P. (\<forall>e \<in> set rest. P e) \<and> all_at P m' ks \<longleftrightarrow>
        (\<forall>e \<in> set es. P e) \<and> all_at P (add_simple (col_alias c, col_table c) e m) ks"
      by auto
    then show ?thesis using cs(1) c by (simp add: all_at_add [OF k]) blast
  next
    case False
    have "split_simple (e # es) m = bindE (split_simple es m) (\<lambda>(rest, m). Inr (e # rest, m))"
      using cs(1) False by (cases cs rule: remdups_adj.cases) auto
    moreover obtain rest m' where "split_simple es m = Inr (rest, m')" "simple_ok m'"
      "\<forall>P. (\<forall>e \<in> set rest. P e) \<and> all_at P m' ks \<longleftrightarrow> (\<forall>e \<in> set es. P e) \<and> all_at P m ks"
      using Cons.IH [OF _ Cons.prems(2)] Cons.prems(1) by auto
    ultimately show ?thesis by auto
  qed
qed simp

lemma push_selection_run:
  assumes T: "named_rows T" and p: "tree p" "distinct (map fst (rel_keys p))" "list_all (covered (rel_keys p)) es"
  shows "\<exists>q m. push_selection (SelectionPlan p es) (\<lambda>_. None) = Inr (q, m) \<and> sem T q = sem T (SelectionPlan p es)"
proof -
  have none: "simple_ok (\<lambda>_. None)" "all_at P (\<lambda>_. None) (rel_keys p)" for P
    by (auto simp: simple_ok_def exprs_at_def all_at_def)
  from split_run [OF p(3) none(1)] obtain rest m where
    s: "split_simple es (\<lambda>_. None) = Inr (rest, m)" "simple_ok m" and
    P: "\<forall>P. (\<forall>e \<in> set rest. P e) \<and> all_at P m (rel_keys p) \<longleftrightarrow>
      (\<forall>e \<in> set es. P e) \<and> all_at P (\<lambda>_. None) (rel_keys p)" by blast
  have s3: "(\<forall>e \<in> set rest. true_in r e) \<and> pass m (rel_keys p) r \<longleftrightarrow> (\<forall>e \<in> set es. true_in r e)" for r
    using spec [OF P, of "true_in r"] none(2) by (simp add: pass_def)
  from push_tree [OF T p(1,2) s(2)] obtain q where
    q: "push_selection p m = Inr (q, taken m (rel_keys p))" "sem T q = filter (pass m (rel_keys p)) (sem T p)"
    by (auto simp: pushed_def)
  have "filter (\<lambda>r. \<forall>e \<in> set rest. true_in r e) (sem T q) = sem T (SelectionPlan p es)"
    using s3 by (simp add: q(2) filter_filter conj_commute)
  moreover have "rest = [] \<Longrightarrow> filter (\<lambda>r. \<forall>e \<in> set rest. true_in r e) (sem T q) = sem T q" by simp
  ultimately show ?thesis using s(1) q(1) by auto
qed

end
