(* ===== verification/Query_Correct.thy ===== *)
theory Query_Correct
  imports Session Optimizer_Correct Rewriter_Correct Preprocessor_Correct
begin

text \<open>
  From the text of a SELECT over one table to its rows: the preprocessor's expressions mean what
  the WHERE clause says, the rewriter keeps them, the optimizer's plan returns the rows that
  satisfy them.
\<close>

section \<open>Selections over one relation\<close>

fun over_table :: "string \<Rightarrow> string \<Rightarrow> query_plan \<Rightarrow> bool" where
  "over_table a t (RelationPlan a' t') = (a' = a \<and> t' = t)"
| "over_table a t (SelectionPlan p es) = over_table a t p"
| "over_table a t _ = False"

fun conds :: "query_plan \<Rightarrow> expr_plan list" where
  "conds (SelectionPlan p es) = es @ conds p"
| "conds _ = []"

lemma used_fold: "used u c \<Longrightarrow> used (fold use_column cs u) c"
  by (simp add: fold_use used_counts)

lemma chain_run:
  assumes found: "get_table_info t tx s = Some (Inr (Some ti), s)" and ok: "table_ok ti"
    and rep: "heap_rep (ti_heap_file ti) s H" "H \<noteq> []" "chains_ok H" and tx: "map_of (db_active s) tx \<noteq> None"
    and cs: "cs = table_columns a t (ti_schema ti)"
  shows "over_table a t p \<Longrightarrow> \<forall>e \<in> set (conds p). condition e \<and> columns_in cs e \<Longrightarrow> \<forall>c \<in> set (butlast cs). used u c \<Longrightarrow>
    \<exists>q. visit ord tx p u s = Some (Inr (q, u), s) \<and> get_columns q = cs \<and>
      plan_ok (iter_ok s) (iter_rows s) (iter_rest s) q \<and>
      qrows (iter_rows s) q = filter (\<lambda>r. \<forall>e \<in> set (conds p). satisfies cs r e) (visible_rows s tx H (length H))"
proof (induction p arbitrary: u)
  case (RelationPlan a' t')
  then have "filter (used u) (butlast cs) @ [last cs] = cs"
    using ok by (simp add: filter_True cs table_columns_def table_ok_def)
  with visit_relation_run [OF found ok rep(1,2) cs, of u] obtain pcs where
    "visit_relation tx a t u s = Some (Inr (Relation (iter_at (ti_heap_file ti) tx (length H) 0 (-1)) pcs, u), s)"
    "map pc_col pcs = cs" by auto
  with RelationPlan fresh_iter [OF rep tx] show ?case by simp
next
  case (SelectionPlan p es)
  let ?rows = "visible_rows s tx H (length H)"
  have es: "\<forall>e \<in> set es. condition e \<and> columns_in cs e" using SelectionPlan.prems(2) by simp
  then obtain css where css: "mapE expr_get_columns es = Inr css"
    using columns_collected [of es] condition_null_free by blast
  have "\<forall>c \<in> set (butlast cs). used (fold use_column (concat css) u) c"
    using SelectionPlan.prems(3) used_fold by blast
  with SelectionPlan.IH [of "fold use_column (concat css) u"] SelectionPlan.prems obtain q where
    q: "visit ord tx p (fold use_column (concat css) u) s = Some (Inr (q, fold use_column (concat css) u), s)"
      "get_columns q = cs" "plan_ok (iter_ok s) (iter_rows s) (iter_rest s) q"
      "qrows (iter_rows s) q = filter (\<lambda>r. \<forall>e \<in> set (conds p). satisfies cs r e) ?rows" by auto
  obtain es' where es': "mapE (compile_expr cs) es = Inr es'" using compile_all es by blast
  have sel: "sel_matches es' r = Inr (\<forall>e \<in> set es. satisfies cs r e)" if "r \<in> set ?rows" for r
    using table_row_length [OF rep(1,3) ok that] cs by (intro sel_matches_conditions [OF es' es]) simp
  let ?q = "if es' = [] then q else Selection q es'"
  have v: "visit ord tx (SelectionPlan p es) u s = Some (Inr (?q, u), s)"
    using q(1,2) es' css by (simp add: visit_selection_def bindA_run act_run fold_use fold_drop)
  have "filter (holds es') (qrows (iter_rows s) q) =
      filter (\<lambda>r. \<forall>e \<in> set es. satisfies cs r e) (qrows (iter_rows s) q)"
    by (rule filter_cong) (auto simp: holds_def sel q(4))
  then have rows: "filter (holds es') (qrows (iter_rows s) q) =
      filter (\<lambda>r. \<forall>e \<in> set (conds (SelectionPlan p es)). satisfies cs r e) ?rows"
    by (simp add: q(4) ball_Un conj_commute)
  have "es' = [] \<longleftrightarrow> es = []" using es' by (cases es) (auto simp: bindE_Inr_iff)
  with rows q sel have "get_columns ?q = cs \<and> plan_ok (iter_ok s) (iter_rows s) (iter_rest s) ?q \<and>
      qrows (iter_rows s) ?q = filter (\<lambda>r. \<forall>e \<in> set (conds (SelectionPlan p es)). satisfies cs r e) ?rows"
    by auto
  with v show ?case by blast
qed simp_all

section \<open>Rewriting a query over one relation\<close>

lemma rewrite_chain:
  assumes "\<forall>e \<in> set es. column_equality e = None" "list_all (covered [(a, t)]) es"
    and p: "p = RelationPlan a t \<and> es = [] \<or> p = SelectionPlan (RelationPlan a t) es"
  shows "\<exists>q. rewrite (QueryPlan (ProjectionPlan p d lim proj)) = Inr (QueryPlan (ProjectionPlan q d lim proj)) \<and>
    over_table a t q \<and> (\<forall>P. (\<forall>e \<in> set (conds q). P e) \<longleftrightarrow> (\<forall>e \<in> set es. P e))"
proof (cases "es = []")
  case True
  with p have "build_joins p [] = Inr (RelationPlan a t)" by auto
  with True show ?thesis by (simp add: rewrite_def push_relation_def Ball_def)
next
  case False
  with p have p: "p = SelectionPlan (RelationPlan a t) es" by simp
  have b: "build_joins p [] = Inr p"
    using assms(1) False by (simp add: p filter_True)
  have none: "simple_ok (\<lambda>_. None)" "all_at P (\<lambda>_. None) [(a, t)]" for P
    by (auto simp: simple_ok_def exprs_at_def all_at_def)
  from split_run [OF assms(2) none(1)] obtain rest m where
    s: "split_simple es (\<lambda>_. None) = Inr (rest, m)" "simple_ok m" and
    P: "\<forall>P. (\<forall>e \<in> set rest. P e) \<and> all_at P m [(a, t)] \<longleftrightarrow>
      (\<forall>e \<in> set es. P e) \<and> all_at P (\<lambda>_. None) [(a, t)]" by blast
  have P': "(\<forall>e \<in> set rest. P e) \<and> all_at P m [(a, t)] \<longleftrightarrow> (\<forall>e \<in> set es. P e)" for P
    using P none(2) by blast
  define r where "r = (case m (a, t) of None \<Rightarrow> RelationPlan a t | Some es \<Rightarrow> SelectionPlan (RelationPlan a t) es)"
  have r: "\<exists>m'. push_relation a t m = Inr (r, m')" "over_table a t r" "set (conds r) = set (exprs_at m (a, t))"
    by (auto simp: push_relation_def r_def exprs_at_def split: option.splits)
  let ?q = "if rest = [] then r else SelectionPlan r rest"
  have "\<exists>m'. push_selection p (\<lambda>_. None) = Inr (?q, m')" using s r(1) by (auto simp: p)
  then have "rewrite (QueryPlan (ProjectionPlan p d lim proj)) = Inr (QueryPlan (ProjectionPlan ?q d lim proj))"
    using b by (auto simp: rewrite_def)
  moreover have "(\<forall>e \<in> set (conds ?q). P e) \<longleftrightarrow> (\<forall>e \<in> set es. P e)" for P
    using P' [of P] r(3) by (auto simp: all_at_def)
  ultimately show ?thesis using r(2) by (intro exI [of _ ?q]) auto
qed

section \<open>What a WHERE clause says\<close>

text \<open>
  The meaning of the clause over a row of the table, read off the parse tree: a column is the
  value at the position of its name.
\<close>

fun column_name :: "column_ctx \<Rightarrow> string" where
  "column_name (PlainColumn c) = c"
| "column_name (DottedColumn a c) = c"

definition cell :: "table_info \<Rightarrow> row \<Rightarrow> string \<Rightarrow> db_value res" where
  "cell ti r c = (case column_position (columns (ti_schema ti)) c of None \<Rightarrow> Inl Stuck | Some i \<Rightarrow> nthE r i)"

fun operand :: "table_info \<Rightarrow> row \<Rightarrow> column_or_constant_ctx \<Rightarrow> db_value res" where
  "operand ti r (ColumnOperand c) = cell ti r (column_name c)"
| "operand ti r (ConstantOperand k) = get_value k"

definition compare :: "string \<Rightarrow> db_value \<Rightarrow> db_value \<Rightarrow> bool" where
  "compare op a b =
     (if op = ''=='' then a = b
      else if op = ''!='' then a \<noteq> b
      else if op = ''<'' then a < b
      else if op = ''<='' then a \<le> b
      else if op = ''>='' then b \<le> a
      else b < a)"

fun simple_true :: "table_info \<Rightarrow> row \<Rightarrow> simple_expr_ctx \<Rightarrow> bool" where
  "simple_true ti r (ComparisonExpr a (Some (op, b))) \<longleftrightarrow>
     (\<exists>x y. operand ti r a = Inr x \<and> operand ti r b = Inr y \<and> compare op x y)"
| "simple_true ti r (BetweenExpr c l h) \<longleftrightarrow>
     (\<exists>x lo hi. cell ti r (column_name c) = Inr x \<and> get_value l = Inr lo \<and> get_value h = Inr hi \<and>
        lo \<le> x \<and> x \<le> hi)"
| "simple_true ti r e \<longleftrightarrow> False"

text \<open>
  Left out: LIKE, whose matcher has no body; the equality of two columns, which the rewriter
  drops; and names of columns the table does not have.
\<close>

fun operand_known :: "table_info \<Rightarrow> column_or_constant_ctx \<Rightarrow> bool" where
  "operand_known ti (ColumnOperand c) = has_column ti (column_name c)"
| "operand_known ti (ConstantOperand k) = True"

fun is_column :: "column_or_constant_ctx \<Rightarrow> bool" where
  "is_column (ColumnOperand c) = True"
| "is_column (ConstantOperand k) = False"

fun supported :: "table_info \<Rightarrow> simple_expr_ctx \<Rightarrow> bool" where
  "supported ti (ComparisonExpr a (Some (op, b))) \<longleftrightarrow>
     operand_known ti a \<and> operand_known ti b \<and> \<not> (op = ''=='' \<and> is_column a \<and> is_column b)"
| "supported ti (BetweenExpr c l h) \<longleftrightarrow> has_column ti (column_name c)"
| "supported ti e \<longleftrightarrow> False"

definition one_table :: "string \<Rightarrow> string \<Rightarrow> scope" where
  "one_table a t = \<lparr>from_tables = [(a, t)], from_outer_join_tables = []\<rparr>"

lemma deref_found: "get_table_info t tx s = Some (Inr (Some ti), s) \<Longrightarrow> deref_table t tx s = Some (Inr ti, s)"
  by (simp add: deref_table_def bindA_run act_run)

lemma infer_in_name: "infer_in ds t c found = Inr (Some t') \<Longrightarrow> found \<noteq> Some t' \<Longrightarrow> t' = t"
  by (induction ds arbitrary: found) (auto split: if_splits option.splits)

lemma get_column_one:
  assumes found: "get_table_info t tx s = Some (Inr (Some ti), s)"
    and c: "get_column (one_table a t) tx c s = Some (Inr col, s')"
  shows "col = \<lparr>col_alias = a, col_table = t,
      col_info = \<lparr>ci_name = column_name c, ci_datatype = column_type ti (column_name c), ci_table_id = ti_table_id ti\<rparr>\<rparr> \<and> s' = s"
proof (cases c)
  case (PlainColumn n)
  show ?thesis
  proof (cases "a = t")
    case True
    from c obtain f where "infer_in (columns (ti_schema ti)) t n None = Inr (Some f)" "column_of f f n tx s = Some (Inr col, s')"
      by (auto simp: PlainColumn True one_table_def bindA_Inr_iff act_run deref_found [OF found] split: option.splits)
    moreover from this(1) have "f = t" by (rule infer_in_name) simp
    ultimately show ?thesis
      by (auto simp: PlainColumn True column_of_def bindA_Inr_iff deref_found [OF found] act_run)
  next
    case False
    with c show ?thesis by (simp add: PlainColumn one_table_def act_run)
  qed
next
  case (DottedColumn b n)
  with c show ?thesis
    by (auto simp: one_table_def column_of_def bindA_Inr_iff deref_found [OF found] act_run split: if_splits)
qed

lemma position_column:
  "col_index \<lparr>col_alias = a, col_table = t, col_info = \<lparr>ci_name = n, ci_datatype = d, ci_table_id = i\<rparr>\<rparr>
     (map (\<lambda>ci. \<lparr>col_alias = a, col_table = t', col_info = ci\<rparr>) ds) =
   (case column_position ds n of None \<Rightarrow> -1 | Some k \<Rightarrow> int k)"
  by (induction ds) (auto simp: column_eq_def Let_def split: option.splits)

lemma position_known: "has_column ti n \<longleftrightarrow> column_position (columns (ti_schema ti)) n \<noteq> None"
proof -
  have "(\<exists>d \<in> set ds. ci_name d = n) \<longleftrightarrow> column_position ds n \<noteq> None" for ds
    by (induction ds) auto
  then show ?thesis by (simp add: has_column_def)
qed

lemma cell_column:
  assumes "col = \<lparr>col_alias = a, col_table = t, col_info = \<lparr>ci_name = n, ci_datatype = d, ci_table_id = i\<rparr>\<rparr>"
    and "cs = table_columns a t (ti_schema ti)"
  shows "row_env cs r col = cell ti r n" "has_column ti n \<longleftrightarrow> col_mem col cs"
  using position_column [of a t n d i t "columns (ti_schema ti)"] position_known [of ti n]
  by (auto simp: row_env_def cell_def assms table_columns_def value_at_def col_index_found [symmetric] split: option.splits)


text \<open>The columns may be looked up in any table \<open>tk\<close>, say in one that lacks the RID.\<close>

lemma visit_operand:
  assumes found: "get_table_info t tx s = Some (Inr (Some ti), s)" and cs: "cs = table_columns a t (ti_schema tk)"
    and v: "visit_column_or_constant (one_table a t) tx x s = Some (Inr e, s')" and known: "operand_known tk x"
  shows "s' = s" "atomic e" "columns_in cs e" "plan_eval (row_env cs r) e = operand tk r x"
    "\<exists>ds. expr_get_columns e = Inr ds \<and> (\<forall>c \<in> set ds. key_of c = (a, t)) \<and> (is_column x \<longleftrightarrow> ds \<noteq> [])"
    "is_column x \<longleftrightarrow> (\<exists>c. e = ExprPlanColumn c)"
proof -
  have "s' = s \<and> atomic e \<and> columns_in cs e \<and> plan_eval (row_env cs r) e = operand tk r x \<and>
      (\<exists>ds. expr_get_columns e = Inr ds \<and> (\<forall>c \<in> set ds. key_of c = (a, t)) \<and> (is_column x \<longleftrightarrow> ds \<noteq> [])) \<and>
      (is_column x \<longleftrightarrow> (\<exists>c. e = ExprPlanColumn c))"
  proof (cases x)
    case (ColumnOperand c)
    with v obtain col where col: "get_column (one_table a t) tx c s = Some (Inr col, s')" "e = ExprPlanColumn col"
      by (auto simp: bindA_Inr_iff act_run)
    note one = get_column_one [OF found col(1)]
    note cell = cell_column [OF conjunct1 [OF one] cs]
    have "col_mem col cs" using iffD1 [OF cell(2)] known by (simp add: ColumnOperand)
    moreover have "row_env cs r col = cell tk r (column_name c)" by (rule cell(1))
    moreover have "key_of col = (a, t)" "s' = s" using one by (simp_all add: key_of_def)
    ultimately show ?thesis by (simp add: ColumnOperand col(2))
  next
    case (ConstantOperand k)
    with v show ?thesis by (auto simp: bindA_Inr_iff act_run)
  qed
  then show "s' = s" "atomic e" "columns_in cs e" "plan_eval (row_env cs r) e = operand tk r x"
    "\<exists>ds. expr_get_columns e = Inr ds \<and> (\<forall>c \<in> set ds. key_of c = (a, t)) \<and> (is_column x \<longleftrightarrow> ds \<noteq> [])"
    "is_column x \<longleftrightarrow> (\<exists>c. e = ExprPlanColumn c)" by blast+
qed

text \<open>An expression of the clause as the later stages need it, with its meaning \<open>P\<close> over a row.\<close>

definition sound :: "string \<Rightarrow> string \<Rightarrow> column list \<Rightarrow> row \<Rightarrow> bool \<Rightarrow> expr_plan \<Rightarrow> bool" where
  "sound a t cs r P e \<longleftrightarrow> condition e \<and> columns_in cs e \<and> column_equality e = None \<and> covered [(a, t)] e \<and>
     (satisfies cs r e \<longleftrightarrow> P)"

lemma bool_value_one [simp]: "bool_value b = VInt 1 \<longleftrightarrow> b"
  by (simp add: bool_value_def)

lemma covered_union:
  assumes "expr_get_columns l = Inr xs" "expr_get_columns r = Inr ys" "\<forall>c \<in> set xs \<union> set ys. key_of c = k"
    and "expr_get_columns e = union_of (expr_get_columns l) (expr_get_columns r)"
  shows "covered [k] e"
proof -
  have sub: "set (col_union xs ys) \<subseteq> set xs \<union> set ys" for xs ys
    using set_col_insert by (induction ys arbitrary: xs) (fastforce simp: col_union_def)+
  have "expr_get_columns e = Inr (col_union xs ys)" using assms(1,2,4) by (simp add: union_of_def)
  moreover have "key_of (hd (col_union xs ys)) = k" if "length (col_union xs ys) = 1"
    using that assms(3) sub [of xs ys] hd_in_set [of "col_union xs ys"] by (cases "col_union xs ys") auto
  ultimately show ?thesis by (simp add: covered_def)
qed


lemma comparison_sound:
  assumes e: "comparison op l r = Inr e" and at: "atomic l" "atomic r" "columns_in cs l" "columns_in cs r"
    and ds: "expr_get_columns l = Inr xs" "expr_get_columns r = Inr ys" "\<forall>c \<in> set xs \<union> set ys. key_of c = (a, t)"
    and ne: "\<not> (op = ''=='' \<and> (\<exists>c. l = ExprPlanColumn c) \<and> (\<exists>c. r = ExprPlanColumn c))"
  shows "sound a t cs x (\<exists>u v. plan_eval (row_env cs x) l = Inr u \<and> plan_eval (row_env cs x) r = Inr v \<and> compare op u v) e"
proof -
  have "covered [(a, t)] (ExprPlanEquals l r)" "covered [(a, t)] (ExprPlanNotEquals l r)"
    "covered [(a, t)] (ExprPlanLess l r)" "covered [(a, t)] (ExprPlanLessOrEquals l r)"
    "covered [(a, t)] (ExprPlanLess r l)" "covered [(a, t)] (ExprPlanLessOrEquals r l)"
    using covered_union [OF ds(1,2,3)] covered_union [OF ds(2,1)] ds(3) by (simp_all add: Un_commute)
  moreover have "op = ''=='' \<Longrightarrow> column_equality (ExprPlanEquals l r) = None"
    using ne by (cases l; cases r) auto
  ultimately show ?thesis
    using e at by (cases "plan_eval (row_env cs x) l"; cases "plan_eval (row_env cs x) r")
      (auto simp: comparison_def sound_def satisfies_def lift2_def compare_def split: if_splits)
qed

lemma visit_simple_sound:
  assumes found: "get_table_info t tx s = Some (Inr (Some ti), s)" and cs: "cs = table_columns a t (ti_schema tk)"
    and v: "visit_simple (one_table a t) tx w s = Some (Inr e, s')" and ok: "supported tk w"
  shows "s' = s \<and> sound a t cs r (simple_true tk r w) e"
proof (cases w)
  case (ComparisonExpr x rest)
  with ok obtain op y where w: "w = ComparisonExpr x (Some (op, y))" by (cases rest) auto
  with v obtain l s1 h where l: "visit_column_or_constant (one_table a t) tx x s = Some (Inr l, s1)"
    and h: "visit_column_or_constant (one_table a t) tx y s1 = Some (Inr h, s')" and e: "comparison op l h = Inr e"
    by (auto simp: visit_comparison_def bindA_Inr_iff act_run split: if_splits)
  from ok w have k: "operand_known tk x" "operand_known tk y" by simp_all
  note x = visit_operand [OF found cs l k(1)]
  note h' = h [unfolded x(1)]
  note y = visit_operand [OF found cs h' k(2)]
  from x(5) y(5) obtain xs ys where ds: "expr_get_columns l = Inr xs" "expr_get_columns h = Inr ys"
    "\<forall>c \<in> set xs \<union> set ys. key_of c = (a, t)" by blast
  have "\<not> (op = ''=='' \<and> (\<exists>c. l = ExprPlanColumn c) \<and> (\<exists>c. h = ExprPlanColumn c))"
    using ok w x(6) y(6) by simp
  from comparison_sound [OF e x(2) y(2) x(3) y(3) ds this, of r] show ?thesis
    using y(1) by (simp add: w x(4) y(4))
next
  case (BetweenExpr c l h)
  with v obtain col s1 lo hi where col: "get_column (one_table a t) tx c s = Some (Inr col, s1)"
    and b: "get_value l = Inr lo" "get_value h = Inr hi" "e = ExprPlanBetween col lo hi" "s' = s1"
    by (auto simp: visit_between_def bindA_Inr_iff act_run split: if_splits)
  note one = get_column_one [OF found col]
  note cell = cell_column [OF conjunct1 [OF one] cs]
  have "col_mem col cs" using iffD1 [OF cell(2)] ok by (simp add: BetweenExpr)
  moreover have "row_env cs r col = cell tk r (column_name c)" by (rule cell(1))
  moreover have "key_of col = (a, t)" "s' = s" using one b(4) by (simp_all add: key_of_def)
  moreover have "simple_true tk r w \<longleftrightarrow> (\<exists>x. cell tk r (column_name c) = Inr x \<and> lo \<le> x \<and> x \<le> hi)"
    by (simp add: BetweenExpr b)
  ultimately show ?thesis
    by (cases "cell tk r (column_name c)") (auto simp: b(3) sound_def satisfies_def covered_def)
qed (use ok in simp)

lemma visit_all_sound:
  assumes found: "get_table_info t tx s = Some (Inr (Some ti), s)" and cs: "cs = table_columns a t (ti_schema tk)"
  shows "mapA (visit_simple (one_table a t) tx) w s = Some (Inr es, s') \<Longrightarrow> list_all (supported tk) w \<Longrightarrow>
    s' = s \<and> (\<forall>e \<in> set es. condition e \<and> columns_in cs e \<and> column_equality e = None) \<and> list_all (covered [(a, t)]) es \<and>
    (\<forall>r. (\<forall>e \<in> set es. satisfies cs r e) \<longleftrightarrow> list_all (simple_true tk r) w)"
proof (induction w arbitrary: es s')
  case Nil
  then show ?case by (simp add: act_run)
next
  case (Cons x w)
  then obtain e s1 es' where e: "visit_simple (one_table a t) tx x s = Some (Inr e, s1)"
    and es': "mapA (visit_simple (one_table a t) tx) w s1 = Some (Inr es', s')" and es: "es = e # es'"
    by (auto simp: bindA_Inr_iff act_run)
  have x: "supported tk x" and w: "list_all (supported tk) w" using Cons.prems(2) by simp_all
  have sound: "s1 = s \<and> sound a t cs r (simple_true tk r x) e" for r
    by (rule visit_simple_sound [OF found cs e x])
  then have s1: "s1 = s" by blast
  from sound Cons.IH [OF es' [unfolded s1] w] show ?case by (simp add: es sound_def)
qed

section \<open>SELECT from one table\<close>

lemma chain_select:
  assumes found: "get_table_info t tx s = Some (Inr (Some ti), s)" and ok: "table_ok ti"
    and rep: "heap_rep (ti_heap_file ti) s H" "H \<noteq> []" "chains_ok H" and tx: "map_of (db_active s) tx \<noteq> None"
    and cs: "cs = table_columns a t (ti_schema ti)"
    and proj: "proj \<noteq> []" "\<forall>c \<in> set proj. col_mem c cs" "\<forall>c \<in> set (butlast cs). col_mem c proj"
    and q: "over_table a t q" "\<forall>e \<in> set (conds q). condition e \<and> columns_in cs e"
  shows "\<exists>p it it'. create_physical_plan ord tx (QueryPlan (ProjectionPlan q False lim proj)) s =
        Some (Inr (PhysicalQuery p), s) \<and>
      qbegin scan_begin scan_next scan_reset p s = Some (Inr (it, s)) \<and> get_columns it = proj \<and>
      qcollect scan_next scan_reset it s = Some (Inr (take (unat lim) (map (values_of cs proj)
        (filter (\<lambda>r. \<forall>e \<in> set (conds q). satisfies cs r e) (visible_rows s tx H (length H)))), it', s))"
proof -
  let ?u = "fold use_column proj (\<lambda>_. 0)" and ?rows = "visible_rows s tx H (length H)"
  have "\<forall>c \<in> set (butlast cs). used ?u c" using proj(3) by (simp add: fold_use used_counts)
  from chain_run [OF found ok rep tx cs q this, of ord] obtain p where
    p: "visit ord tx q ?u s = Some (Inr (p, ?u), s)" "get_columns p = cs"
      "plan_ok (iter_ok s) (iter_rows s) (iter_rest s) p"
      "qrows (iter_rows s) p = filter (\<lambda>r. \<forall>e \<in> set (conds q). satisfies cs r e) ?rows" by blast
  have plan: "create_physical_plan ord tx (QueryPlan (ProjectionPlan q False lim proj)) s =
      Some (Inr (PhysicalQuery (Projection p proj (unat lim) 0)), s)"
    using p(1) by (simp add: visit_projection_def bindA_run act_run)
  have len: "length r = length cs" if "r \<in> set ?rows" for r
    using table_row_length [OF rep(1,3) ok that] cs by simp
  have "col_index c cs < int (length r)" if "r \<in> set (qrows (iter_rows s) p)" "c \<in> set proj" for r c
    using that len [of r] proj(2) col_index_nth [of c cs] by (fastforce simp: p(4))
  then have "plan_ok (iter_ok s) (iter_rows s) (iter_rest s) (Projection p proj (unat lim) 0)"
    using p proj by (cases proj) auto
  from heap_scan.run_plan_columns [OF this] plan show ?thesis
    using projected_values [OF proj(2)] by (auto simp: p cong: map_cong)
qed

text \<open>The asterisk stands for every column but the RID, the last one.\<close>

lemma star_columns:
  assumes "table_ok ti"
  shows "columns_under a t (stored_columns ti) = butlast (table_columns a t (ti_schema ti))"
proof -
  obtain ds d where ds: "columns (ti_schema ti) = ds @ [d]" "ci_datatype d = DT_RID"
    "\<forall>c \<in> set ds. stored_type (ci_datatype c)"
    using assms by (cases "columns (ti_schema ti)" rule: rev_cases) (auto simp: table_ok_def list_all_iff)
  then have "filter (\<lambda>c. ci_datatype c \<noteq> DT_RID) ds = ds" by (auto intro!: filter_True)
  with ds show ?thesis by (simp add: stored_columns_def columns_under_def table_columns_def)
qed

lemma star_values:
  assumes "table_ok ti" "cs = table_columns a t (ti_schema ti)" "length r = length cs"
  shows "values_of cs (butlast cs) r = butlast r"
proof (rule nth_equalityI)
  have inj: "inj_on col_key (set cs)" "distinct cs"
    using assms(1,2) by (auto simp: table_ok_def table_columns_def col_key_def distinct_map inj_on_def)
  fix i assume "i < length (values_of cs (butlast cs) r)"
  then have i: "i < length cs - 1" by (simp add: values_of_def)
  have "cs ! i \<in> set cs" using i by simp
  then have "col_mem (cs ! i) cs" unfolding col_mem_def using column_eq_equiv(1) by blast
  then obtain k where k: "col_index (cs ! i) cs = int k" "k < length cs" "column_eq (cs ! i) (cs ! k)"
    using col_index_nth [of "cs ! i" cs] by auto
  then have "cs ! i = cs ! k" using inj(1) i by (auto simp: column_eq_key dest!: inj_onD)
  then have "k = i" using inj(2) k(2) i by (simp add: nth_eq_iff_index_eq)
  with i k(1) assms(3) show "values_of cs (butlast cs) r ! i = butlast r ! i"
    by (simp add: values_of_def nth_butlast)
qed (simp add: values_of_def assms(3))


definition item_alias :: "string \<Rightarrow> string option \<Rightarrow> string" where
  "item_alias t al = (case al of None \<Rightarrow> t | Some a \<Rightarrow> a)"

definition where_list :: "simple_expr_ctx list option \<Rightarrow> simple_expr_ctx list" where
  "where_list w = (case w of None \<Rightarrow> [] | Some es \<Rightarrow> es)"

lemma from_one_table:
  assumes "get_table_info t tx s = Some (Inr (Some ti), s)"
  shows "visit_table_list tx [TableItem t al] s =
    Some (Inr (RelationPlan (item_alias t al) t, one_table (item_alias t al) t), s)"
  using assms
  by (simp add: visit_table_list_def visit_table_def check_table_def table_exists_def empty_scope_def item_alias_def
      one_table_def bindA_def act_run Let_def)

lemma preprocess_star:
  assumes found: "get_table_info t tx s = Some (Inr (Some ti), s)"
    and pre: "preprocess tx (SelectQuery False None [TableItem t al] w l) s = Some (Inr lp, s')"
  shows "\<exists>n es p. visit_limit l = Inr n \<and> mapA (visit_simple (one_table (item_alias t al) t) tx) (where_list w) s = Some (Inr es, s') \<and>
    (p = RelationPlan (item_alias t al) t \<and> es = [] \<or> p = SelectionPlan (RelationPlan (item_alias t al) t) es) \<and>
    lp = QueryPlan (ProjectionPlan p False n (columns_under (item_alias t al) t (stored_columns ti)))"
proof -
  let ?sc = "one_table (item_alias t al) t" and ?r = "RelationPlan (item_alias t al) t"
  from pre obtain n p s1 proj where n: "visit_limit l = Inr n"
    and w: "visit_where ?sc tx w ?r s = Some (Inr p, s1)"
    and sel: "all_columns ?sc tx s1 = Some (Inr proj, s')"
    and lp: "lp = QueryPlan (ProjectionPlan p False n proj)"
    by (auto simp: visit_select_query_def visit_select_def bindA_Inr_iff act_run from_one_table [OF found])
  obtain es where es: "mapA (visit_simple ?sc tx) (where_list w) s = Some (Inr es, s1)"
    "p = ?r \<and> es = [] \<or> p = SelectionPlan ?r es"
    using w by (cases w) (auto simp: visit_where_def where_list_def bindA_Inr_iff act_run)
  have s1: "s1 = s" using readsD [OF reads_where w] .
  have s': "s' = s" using readsD [OF reads_select_columns sel] s1 by simp
  have "known_table t tx s = Some (Inr ti, s)" by (simp add: known_table_def bindA_def found act_run)
  then have "proj = columns_under (item_alias t al) t (stored_columns ti)"
    using sel by (auto simp: s1 all_columns_def one_table_def bindA_Inr_iff act_run)
  with n es lp s1 s' show ?thesis by blast
qed

text \<open>
  \<open>SELECT * FROM t WHERE ... LIMIT n\<close>: the rows returned are the versions of \<open>t\<close> the transaction
  sees, in the order of their slots, that satisfy the clause, without their RIDs.
\<close>

lemma select_star_text:
  assumes found: "get_table_info t tx s = Some (Inr (Some ti), s)" and ok: "table_ok ti"
    and rep: "heap_rep (ti_heap_file ti) s H" "H \<noteq> []" "chains_ok H" and tx: "map_of (db_active s) tx \<noteq> None"
    and two: "length (columns (ti_schema ti)) > 1"
    and q: "parse q = Inr (SelectQuery False None [TableItem t al] w l)"
    and pre: "preprocess tx (SelectQuery False None [TableItem t al] w l) s = Some (Inr lp, s')"
    and sup: "list_all (supported ti) (where_list w)"
  shows "\<exists>n. visit_limit l = Inr n \<and>
    query_body parse wt q tx False s = Some (Inr (success_text
      (butlast (table_columns (item_alias t al) t (ti_schema ti)))
      (take (unat n) (map butlast (filter (\<lambda>r. list_all (simple_true ti r) (where_list w))
        (visible_rows s tx H (length H))))) tx), s)"
proof -
  let ?a = "item_alias t al" and ?rows = "visible_rows s tx H (length H)"
  define cs where "cs = table_columns ?a t (ti_schema ti)"
  obtain n es p where n: "visit_limit l = Inr n"
    and es: "mapA (visit_simple (one_table ?a t) tx) (where_list w) s = Some (Inr es, s')"
    and p: "p = RelationPlan ?a t \<and> es = [] \<or> p = SelectionPlan (RelationPlan ?a t) es"
    and lp: "lp = QueryPlan (ProjectionPlan p False n (butlast cs))"
    using preprocess_star [OF found pre] unfolding cs_def star_columns [OF ok] by blast
  note sound = visit_all_sound [OF found cs_def es sup]
  obtain q' where q': "rewrite lp = Inr (QueryPlan (ProjectionPlan q' False n (butlast cs)))" "over_table ?a t q'"
    "\<forall>P. (\<forall>e \<in> set (conds q'). P e) \<longleftrightarrow> (\<forall>e \<in> set es. P e)"
    using rewrite_chain [of es ?a t p False n "butlast cs"] sound p lp by auto
  have cond: "\<forall>e \<in> set (conds q'). condition e \<and> columns_in cs e"
    using sound spec [OF q'(3), of "\<lambda>e. condition e \<and> columns_in cs e"] by blast
  have sat: "(\<forall>e \<in> set (conds q'). satisfies cs r e) \<longleftrightarrow> list_all (simple_true ti r) (where_list w)" for r
    using sound spec [OF q'(3), of "satisfies cs r"] by blast
  have "0 < length (butlast cs)" using two by (simp add: cs_def table_columns_def)
  then have "butlast cs \<noteq> []" by (rule length_greater_0_conv [THEN iffD1])
  moreover have "\<forall>c \<in> set (butlast cs). col_mem c cs"
    unfolding col_mem_def using column_eq_equiv(1) in_set_butlastD by metis
  moreover have "\<forall>c \<in> set (butlast cs). col_mem c (butlast cs)"
    unfolding col_mem_def using column_eq_equiv(1) by blast
  ultimately obtain pl it it' where run:
    "create_physical_plan beam_search_join_order tx (QueryPlan (ProjectionPlan q' False n (butlast cs))) s =
       Some (Inr (PhysicalQuery pl), s)"
    "qbegin scan_begin scan_next scan_reset pl s = Some (Inr (it, s))" "get_columns it = butlast cs"
    "qcollect scan_next scan_reset it s = Some (Inr (take (unat n) (map (values_of cs (butlast cs))
        (filter (\<lambda>r. \<forall>e \<in> set (conds q'). satisfies cs r e) ?rows)), it', s))"
    using chain_select [OF found ok rep tx cs_def _ _ _ q'(2) cond] by blast
  have "map (values_of cs (butlast cs)) (filter (\<lambda>r. \<forall>e \<in> set (conds q'). satisfies cs r e) ?rows) =
      map butlast (filter (\<lambda>r. list_all (simple_true ti r) (where_list w)) ?rows)"
    unfolding sat
    by (intro map_cong refl star_values [OF ok cs_def]) (auto dest: table_row_length [OF rep(1,3) ok] simp: cs_def)
  then have "collect_query it s = Some (Inr (take (unat n) (map butlast
      (filter (\<lambda>r. list_all (simple_true ti r) (where_list w)) ?rows))), s)"
    using run(4) by (simp add: collect_query_def run_iter_def retO_def)
  moreover have "child_begin pl s = Some (Inr it, s)" using run(2) by (simp add: child_begin_def run_iter_def)
  moreover have "preprocess tx (SelectQuery False None [TableItem t al] w l) s = Some (Inr lp, s)"
    using pre readsD [OF reads_preprocess pre] by simp
  ultimately have "query_body parse wt q tx False s = Some (Inr (success_text (butlast cs)
      (take (unat n) (map butlast (filter (\<lambda>r. list_all (simple_true ti r) (where_list w)) ?rows))) tx), s)"
    using q q'(1) run(1,3)
    by (simp add: query_body_def parse_query_def finish_def whenA_def bindA_def act_run
        del: preprocess.simps create_physical_plan.simps)
  with n show ?thesis unfolding cs_def by blast
qed

section \<open>INSERT\<close>

lemma preprocess_insert:
  assumes found: "get_table_info t tx s = Some (Inr (Some ti), s)" and ok: "table_ok ti"
    and pre: "preprocess tx (InsertQuery t vs) s = Some (Inr lp, s')" and len: "length (columns (ti_schema ti)) < 2 ^ 64"
    "length vs < 2 ^ 64 - 1"
  shows "\<exists>ws r. lp = InsertionPlan t ws \<and> mapE value_of_constant ws = Inr r \<and> mapE get_value vs = Inr r \<and>
    row_fits (hf_schema (ti_heap_file ti)) r"
proof -
  let ?n = "length (columns (ti_schema ti))"
  have k: "known_table t tx s = Some (Inr ti, s)" "check_table t tx s = Some (Inr (), s)"
    by (simp_all add: known_table_def check_table_def table_exists_def bindA_def found act_run)
  from pre obtain ws where n: "of_nat ?n - 1 = (of_nat (length vs) :: 64 word)"
    and ws: "insert_values t (butlast (columns (ti_schema ti))) vs = Inr ws" "lp = InsertionPlan t ws"
    by (auto simp: visit_insert_def bindA_def k act_run Let_def split: if_splits sum.splits)
  have "(of_nat ?n :: 64 word) = of_nat (length vs + 1)" using n by (simp add: algebra_simps)
  then have "take_bit 64 ?n = take_bit 64 (length vs + 1)" by (simp only: word_of_nat_eq_iff) simp
  then have "?n = length vs + 1" using len by (simp add: take_bit_nat_eq_self)
  then have "length vs = length (butlast (columns (ti_schema ti)))" by simp
  from insert_values_typed [OF ws(1) this] ws(2) ok show ?thesis by (auto simp: row_fits_def table_ok_def)
qed

lemma insert_text:
  assumes found: "get_table_info t tx s = Some (Inr (Some ti), s)" and ok: "table_ok ti"
    and rep: "heap_rep (ti_heap_file ti) s H" and tx: "map_of (db_active s) tx \<noteq> None"
    and q: "parse q = Inr (InsertQuery t vs)"
    and pre: "preprocess tx (InsertQuery t vs) s = Some (Inr lp, s')"
    and len: "length (columns (ti_schema ti)) < 2 ^ 64" "length vs < 2 ^ 64 - 1"
    and small: "\<forall>r. row_fits (hf_schema (ti_heap_file ti)) r \<longrightarrow> tuple_len r + 4 \<le> 4088"
    and last: "db_last_insert s (hf_table_id (ti_heap_file ti)) = int n" "n \<le> length H" "page_in_range (int (length H + 1))"
  shows "\<exists>row rid s1 H'. mapE get_value vs = Inr row \<and>
    query_body parse wt q tx False s = Some (Inr (action_text tx), s1) \<and> heap_rep (ti_heap_file ti) s1 H' \<and>
    inserted H H' rid (new_header tx rid None, row) \<and> insert_frame (ti_heap_file ti) tx None rid s s1"
proof -
  obtain ws r where ws: "lp = InsertionPlan t ws" "mapE value_of_constant ws = Inr r" "mapE get_value vs = Inr r"
    "row_fits (hf_schema (ti_heap_file ti)) r"
    using preprocess_insert [OF found ok pre len] by blast
  obtain rid s1 H' where run: "heap_insert (ti_heap_file ti) r tx None s = Some (Inr rid, s1)"
    "heap_rep (ti_heap_file ti) s1 H'" "inserted H H' rid (new_header tx rid None, r)"
    "insert_frame (ti_heap_file ti) tx None rid s s1"
    using heap_insert_run [OF rep ws(4) _ _ _ last, of None tx] small ws(4) tx by auto
  have "insertion_execute t ws tx s = Some (Inr (), s1)"
    by (simp add: insertion_execute_def cat_insert_record_def bindA_def act_run ws(2) found run(1))
  moreover have "preprocess tx (InsertQuery t vs) s = Some (Inr lp, s)"
    using pre readsD [OF reads_preprocess pre] by simp
  ultimately have "query_body parse wt q tx False s = Some (Inr (action_text tx), s1)"
    using q by (simp add: query_body_def parse_query_def finish_def whenA_def bindA_def act_run ws(1) rewrite_def
        del: preprocess.simps)
  with run(2-4) ws(3) show ?thesis by blast
qed

end
