(* ===== verification/Update_Run.thy ===== *)
theory Update_Run
  imports Record_Updates Query_Correct
begin

text \<open>
  UPDATE as the client sees it: the loop over the matching rows, then the statement from its text
  to the new rows of the table.
\<close>

section \<open>The query under an update\<close>

text \<open>A relation, under a selection when the statement has a WHERE clause.\<close>

definition scan_of :: "pcol list \<Rightarrow> expr list \<Rightarrow> heap_iter \<Rightarrow> plan" where
  "scan_of pcs es it = (if es = [] then Relation it pcs else Selection (Relation it pcs) es)"

lemma scan_of_facts [simp]:
  "matches (scan_of pcs es it) r = sel_matches es r" "get_columns (scan_of pcs es it) = map pc_col pcs"
  by (simp_all add: scan_of_def)

lemma holds_Nil [simp]: "holds [] r"
  by (simp add: holds_def)

lemma selection_over_scan:
  assumes "iter_ok s it" "\<forall>x \<in> set (iter_rest s it). \<exists>b. sel_matches es x = Inr b"
  shows "\<exists>it' k. qnext scan_next scan_reset (Selection (Relation it pcs) es) s =
      Some (Inr (head_row (filter (holds es) (iter_rest s it)), Selection (Relation it' pcs) es, s)) \<and>
    iter_ok s it' \<and> hi_file it' = hi_file it \<and> hi_tx it' = hi_tx it \<and> iter_rest s it' = drop k (iter_rest s it) \<and>
    filter (holds es) (iter_rest s it') = tl (filter (holds es) (iter_rest s it))"
  using assms
proof (induction "length (iter_rest s it)" arbitrary: it rule: less_induct)
  case less
  obtain it1 where n: "iter_next it s = Some (Inr (head_row (iter_rest s it), it1), s)" "iter_ok s it1"
    "iter_rest s it1 = tl (iter_rest s it)" "hi_file it1 = hi_file it" "hi_tx it1 = hi_tx it"
    using iter_next_ok [OF less.prems(1)] by blast
  then have rel: "qnext scan_next scan_reset (Relation it pcs) s =
      Some (Inr (head_row (iter_rest s it), Relation it1 pcs, s))"
    by (simp add: qnext.simps scan_next_def drop_state_def retO_def)
  have sel: "qnext scan_next scan_reset (Selection (Relation it pcs) es) s =
      selection_next (qnext scan_next scan_reset) (Relation it pcs) es s"
    by (simp add: qnext.simps)
  show ?case
  proof (cases "iter_rest s it")
    case Nil
    with n rel sel show ?thesis
      by (intro exI [of _ it1] exI [of _ 0]) (simp add: selection_next_def retO_def)
  next
    case (Cons x xs)
    have "[] \<notin> set (iter_rest s it)" using rows_nonempty by (auto simp: iter_rest_def)
    then have x: "x \<noteq> []" using Cons by auto
    obtain b where b: "sel_matches es x = Inr b" using less.prems(2) Cons by auto
    show ?thesis
    proof (cases b)
      case True
      with b have "holds es x" by (simp add: holds_def)
      with n rel sel Cons b x True show ?thesis
        by (intro exI [of _ it1] exI [of _ 1]) (simp add: selection_next_def retO_def row_invalid_def)
    next
      case False
      with b have h: "\<not> holds es x" by (simp add: holds_def)
      have "length (iter_rest s it1) < length (iter_rest s it)" using n(3) Cons by simp
      from less.hyps [OF this n(2)] less.prems(2) n(3) Cons obtain it' k where
        "qnext scan_next scan_reset (Selection (Relation it1 pcs) es) s =
          Some (Inr (head_row (filter (holds es) xs), Selection (Relation it' pcs) es, s))"
        "iter_ok s it'" "hi_file it' = hi_file it1" "hi_tx it' = hi_tx it1" "iter_rest s it' = drop k xs"
        "filter (holds es) (iter_rest s it') = tl (filter (holds es) xs)" by auto
      with n rel sel Cons b x False h show ?thesis
        by (intro exI [of _ it'] exI [of _ "Suc k"]) (simp add: selection_next_def retO_def row_invalid_def)
    qed
  qed
qed

lemma scan_of_next:
  assumes "iter_ok s it" "\<forall>x \<in> set (iter_rest s it). \<exists>b. sel_matches es x = Inr b"
  shows "\<exists>it' k. child_next (scan_of pcs es it) s =
      Some (Inr (head_row (filter (holds es) (iter_rest s it)), scan_of pcs es it'), s) \<and>
    iter_ok s it' \<and> hi_file it' = hi_file it \<and> hi_tx it' = hi_tx it \<and> iter_rest s it' = drop k (iter_rest s it) \<and>
    filter (holds es) (iter_rest s it') = tl (filter (holds es) (iter_rest s it))"
proof (cases "es = []")
  case False
  from selection_over_scan [OF assms, of pcs] obtain it' k where
    "qnext scan_next scan_reset (Selection (Relation it pcs) es) s =
      Some (Inr (head_row (filter (holds es) (iter_rest s it)), Selection (Relation it' pcs) es, s))"
    "iter_ok s it'" "hi_file it' = hi_file it" "hi_tx it' = hi_tx it" "iter_rest s it' = drop k (iter_rest s it)"
    "filter (holds es) (iter_rest s it') = tl (filter (holds es) (iter_rest s it))" by blast
  with False show ?thesis
    by (intro exI [of _ it'] exI [of _ k]) (simp add: scan_of_def child_next_def run_iter_def retO_def)
next
  case True
  obtain it1 where "iter_next it s = Some (Inr (head_row (iter_rest s it), it1), s)" "iter_ok s it1"
    "iter_rest s it1 = tl (iter_rest s it)" "hi_file it1 = hi_file it" "hi_tx it1 = hi_tx it"
    using iter_next_ok [OF assms(1)] by blast
  with True show ?thesis
    by (intro exI [of _ it1] exI [of _ 1])
      (simp add: scan_of_def child_next_def run_iter_def retO_def qnext.simps scan_next_def drop_state_def drop_Suc)
qed

section \<open>The iterator while the heap changes\<close>

lemma iter_moves:
  assumes it: "iter_ok s it" and rep: "heap_rep (hi_file it) s H"
    and rep': "heap_rep (hi_file it) s' H'" "chains_ok H'" "map_of (db_active s') (hi_tx it) \<noteq> None"
    and gr: "grown H H'" and g: "\<forall>r. seen_row s' (hi_tx it) H' r = map g (seen_row s (hi_tx it) H r)"
  shows "iter_ok s' it" "iter_rest s' it = map g (iter_rest s it)"
proof -
  note H = heap_of_rep [OF rep] heap_of_rep [OF rep'(1)]
  have t: "0 < hi_total it" "hi_total it \<le> int (length H)"
    "hi_open it \<Longrightarrow> 0 \<le> hi_number it \<and> hi_number it < hi_total it \<and> -1 \<le> hi_pos it \<and> hi_pos it < int (length (H ! nat (hi_number it)))"
    using it by (simp_all add: iter_ok_def Let_def H)
  have len: "length H \<le> length H'" using gr by (simp add: grown_def)
  have pos: "hi_pos it < int (length (H' ! nat (hi_number it)))" if "hi_open it"
  proof -
    have "nat (hi_number it) < length H" using t that by linarith
    from grown_page(2) [OF gr this] t(3) [OF that] show ?thesis by linarith
  qed
  show "iter_ok s' it"
    using t rep' pos len by (auto simp: iter_ok_def Let_def H)
  show "iter_rest s' it = map g (iter_rest s it)"
  proof (cases "hi_open it")
    case True
    have "nat (hi_total it) \<le> length H" "nat (hi_number it) < nat (hi_total it)" using t(1,2) t(3) [OF True] by linarith+
    from rows_mapped(2) [OF gr g this] True show ?thesis by (simp add: iter_rest_def H)
  qed (simp add: iter_rest_def)
qed

section \<open>Every record is returned once\<close>

lemma distinct_concat_map:
  "distinct xs \<Longrightarrow> (\<And>x. x \<in> set xs \<Longrightarrow> distinct (f x)) \<Longrightarrow>
   (\<And>x y z. x \<in> set xs \<Longrightarrow> y \<in> set xs \<Longrightarrow> z \<in> set (f x) \<Longrightarrow> z \<in> set (f y) \<Longrightarrow> x = y) \<Longrightarrow> distinct (concat (map f xs))"
proof (induction xs)
  case (Cons x xs)
  have "y = x" if "y \<in> set xs" "z \<in> set (f y)" "z \<in> set (f x)" for y z
    using Cons.prems(3) [of y x z] that by simp
  with Cons show ?case by fastforce
qed simp

definition rids_from :: "heap \<Rightarrow> nat \<Rightarrow> nat \<Rightarrow> nat \<Rightarrow> rid list" where
  "rids_from H t n k = map (\<lambda>i. RID (int n) (int i)) [k..<length (H ! n)] @
     concat (map (\<lambda>m. map (\<lambda>i. RID (int m) (int i)) [0..<length (H ! m)]) [Suc n..<t])"

lemma rows_from_rids: "rows_from s tx H t n k = concat (map (seen_row s tx H) (rids_from H t n k))"
proof -
  have "concat (map (\<lambda>m. concat (map (\<lambda>i. seen_row s tx H (RID (int m) (int i))) [0..<length (H ! m)])) ms) =
      concat (map (seen_row s tx H) (concat (map (\<lambda>m. map (\<lambda>i. RID (int m) (int i)) [0..<length (H ! m)]) ms)))" for ms
    by (induction ms) (simp_all add: o_def)
  then show ?thesis by (simp add: rows_from_def rids_from_def page_rows_def o_def)
qed

lemma distinct_rids: "distinct (rids_from H t n k)"
proof -
  have "distinct (map (\<lambda>i. RID (int m) (int i)) [a..<b])" for m a b
    by (simp add: distinct_map inj_on_def)
  moreover from this have "distinct (concat (map (\<lambda>m. map (\<lambda>i. RID (int m) (int i)) [0..<length (H ! m)]) [Suc n..<t]))"
    by (intro distinct_concat_map) auto
  ultimately show ?thesis by (auto simp: rids_from_def)
qed

lemma rows_once: "distinct rs \<Longrightarrow> distinct (map last (concat (map (seen_row s tx H) rs)))"
  unfolding map_concat map_map o_def
proof (rule distinct_concat_map)
  show "distinct (map last (seen_row s tx H r))" for r using seen_row_single [of s tx H r] by auto
  show "r = r'" if "z \<in> set (map last (seen_row s tx H r))" "z \<in> set (map last (seen_row s tx H r'))" for r r' z
    using that by (auto dest!: seen_row_rid)
qed

lemma rest_rows:
  assumes "iter_ok s it" "heap_rep (hi_file it) s H"
  shows "distinct (map last (iter_rest s it))"
    "x \<in> set (iter_rest s it) \<Longrightarrow> \<exists>f. seen_row s (hi_tx it) H f = [x] \<and> last x = VRid f \<and> x \<noteq> []"
proof -
  note H = heap_of_rep [OF assms(2)]
  show "distinct (map last (iter_rest s it))"
    using rows_once [OF distinct_rids] by (simp add: iter_rest_def H rows_from_rids)
  show "\<exists>f. seen_row s (hi_tx it) H f = [x] \<and> last x = VRid f \<and> x \<noteq> []" if "x \<in> set (iter_rest s it)"
  proof -
    from that obtain f where f: "x \<in> set (seen_row s (hi_tx it) H f)"
      by (auto simp: iter_rest_def H rows_from_rids split: if_splits)
    with seen_row_single [of s "hi_tx it" H f] seen_row_rid [OF f] show ?thesis by auto
  qed
qed

section \<open>One row of an update\<close>

text \<open>
  The condition is defined on the rows with their RID, which the query returns, and gives the same
  on the record without it, which the operator reads again after it has the lock.
\<close>

definition rechecked :: "schema \<Rightarrow> expr list \<Rightarrow> bool" where
  "rechecked sch es \<longleftrightarrow> (\<forall>x f. row_fits sch x \<longrightarrow>
     (\<exists>b. sel_matches es (x @ [VRid f]) = Inr b \<and> sel_matches es x = Inr b))"

text \<open>The assignments make \<open>y\<close> of the row \<open>x\<close>, and \<open>y\<close> can be stored.\<close>

definition makes :: "schema \<Rightarrow> column list \<Rightarrow> (nat \<times> expr) list \<Rightarrow> row \<Rightarrow> row \<Rightarrow> bool" where
  "makes sch cs asg x y \<longleftrightarrow> assign cs asg x = Inr y \<and> last y = last x \<and> butlast y \<noteq> [] \<and>
     row_fits sch (butlast y) \<and> tuple_len (butlast y) + 4 \<le> 4088"

text \<open>The state of an update: \<open>it\<close> is the iterator of its query.\<close>

definition updating ::
  "table_info \<Rightarrow> pcol list \<Rightarrow> expr list \<Rightarrow> update_iter \<Rightarrow> heap_iter \<Rightarrow> db \<Rightarrow> heap \<Rightarrow> bool" where
  "updating ti pcs es u it s H \<longleftrightarrow>
     ui_child u = scan_of pcs es it \<and> hi_file it = ti_heap_file ti \<and> hi_tx it = ui_tx u \<and> iter_ok s it \<and>
     writable (ti_heap_file ti) s (ui_tx u) H \<and> hf_table_id (ti_heap_file ti) = ti_table_id ti \<and>
     get_table_info (ui_table u) (ui_tx u) s = Some (Inr (Some ti), s) \<and>
     rechecked (hf_schema (ti_heap_file ti)) es"

abbreviation pending :: "expr list \<Rightarrow> db \<Rightarrow> heap_iter \<Rightarrow> row list" where
  "pending es s it \<equiv> filter (holds es) (iter_rest s it)"

lemma seen_row_fits:
  assumes "heap_rep hf s H" "own_chains H" "seen_row s tx H f = [x]"
  shows "\<exists>h0 x0 vs v. slot_at H f = Some (h0, x0) \<and> first_rid h0 = f \<and> chain H f vs \<and> first_seen s tx vs = Some v \<and>
    slot_at H (v_rid v) = Some (snd v) \<and> x = v_row v @ [VRid f] \<and> row_fits (hf_schema hf) (v_row v)"
proof -
  obtain h0 x0 where f: "slot_at H f = Some (h0, x0)" "first_rid h0 = f"
    using assms(3) by (auto simp: seen_row_def split: option.splits if_splits)
  obtain vs where vs: "chain H f vs" using assms(2) f unfolding own_chains_def by blast
  obtain v where v: "first_seen s tx vs = Some v" "x = v_row v @ [VRid f]"
    using assms(3) f by (auto simp: seen_row_def chain_of_eq [OF vs] split: option.splits if_splits)
  have "v \<in> set vs" using v(1) by (auto simp: first_seen_def find_Some_iff)
  then have sl: "slot_at H (v_rid v) = Some (snd v)" by (rule chain_slot [OF vs])
  with slot_facts(1) [OF assms(1), of "v_rid v" "v_head v" "v_row v"] have "row_fits (hf_schema hf) (v_row v)" by simp
  with f vs v sl show ?thesis by blast
qed


lemma table_info_frame:
  assumes "get_table_info t tx s = Some (Inr ti, s)" "update_frame hf s s'"
  shows "get_table_info t tx s' = Some (Inr ti, s')"
proof -
  have same: "in_process_of s' tx = in_process_of s tx" "db_tables s' = db_tables s"
    using assms(2) by (simp_all add: in_process_of_def update_frame_def)
  have "find_table n tx s' = find_table n tx s" for n unfolding find_table_def same ..
  with assms(1) show ?thesis by (auto simp: get_table_info_def bindA_Inr_iff act_run bindA_def split: sum.splits)
qed

lemma update_next_until:
  assumes up: "updating ti pcs es u it s H" and x: "pending es s it = x # xs" and w: "prompt w"
  shows "\<exists>it' f k. let u' = u\<lparr>ui_child := scan_of pcs es it'\<rparr>; s1 = locked (ui_tx u) (lock_key (ti_heap_file ti) f) s in
    update_next w u s =
      bindA (liftA (assign (ui_columns u) (ui_assignments u) x)) (\<lambda>rec.
      bindA (cat_update_record w (ui_table u) f rec (ui_tx u)) (\<lambda>_.
        if is_rid (last rec) then returnA (butlast rec, u'\<lparr>ui_count := ui_count u + 1\<rparr>) else throwA Stuck)) s1 \<and>
    seen_row s (ui_tx u) H f = [x] \<and> last x = VRid f \<and> x \<in> set (iter_rest s it) \<and> holds es x \<and>
    may_lock s (ui_tx u) (lock_key (ti_heap_file ti) f) \<and>
    iter_ok s it' \<and> hi_file it' = hi_file it \<and> hi_tx it' = hi_tx it \<and> iter_rest s it' = drop k (iter_rest s it) \<and>
    pending es s it' = xs"
proof -
  let ?hf = "ti_heap_file ti" and ?tx = "ui_tx u"
  have upD: "ui_child u = scan_of pcs es it" "hi_file it = ?hf" "hi_tx it = ?tx" "iter_ok s it" "writable ?hf s ?tx H"
    "hf_table_id ?hf = ti_table_id ti" "get_table_info (ui_table u) ?tx s = Some (Inr (Some ti), s)" "rechecked (hf_schema ?hf) es"
    using up unfolding updating_def by blast+
  have wrD: "heap_rep ?hf s H" "own_chains H" "updatable ?hf s ?tx H" using upD(5) unfolding writable_def by blast+
  note rest = rest_rows [OF upD(4), unfolded upD(2,3), OF wrD(1)]
  have row: "\<exists>f v. z = v @ [VRid f] \<and> row_fits (hf_schema ?hf) v" if "z \<in> set (iter_rest s it)" for z
    using rest(2) [OF that] seen_row_fits [OF wrD(1,2)] by blast
  then have defined: "\<forall>z \<in> set (iter_rest s it). \<exists>b. sel_matches es z = Inr b"
    using upD(8) unfolding rechecked_def by blast
  obtain it' k where nxt: "child_next (scan_of pcs es it) s = Some (Inr (x, scan_of pcs es it'), s)"
    "iter_ok s it'" "hi_file it' = hi_file it" "hi_tx it' = hi_tx it" "iter_rest s it' = drop k (iter_rest s it)"
    "pending es s it' = xs"
    using scan_of_next [OF upD(4) defined, of pcs] x by auto
  have xin: "x \<in> set (iter_rest s it)" "holds es x"
  proof -
    have "x \<in> set (pending es s it)" by (simp only: x list.set_intros)
    then show "x \<in> set (iter_rest s it)" "holds es x" by simp_all
  qed
  from rest(2) [OF xin(1)] obtain f where f: "seen_row s ?tx H f = [x]" "last x = VRid f" "x \<noteq> []" by blast
  obtain h0 x0 vs v where v: "slot_at H f = Some (h0, x0)" "first_rid h0 = f" "chain H f vs" "first_seen s ?tx vs = Some v"
    "slot_at H (v_rid v) = Some (snd v)" "x = v_row v @ [VRid f]" "row_fits (hf_schema ?hf) (v_row v)"
    using seen_row_fits [OF wrD(1,2) f(1)] by blast
  have may: "may_lock s ?tx (lock_key ?hf f)"
    using wrD(3) v(1-4) unfolding updatable_def by (metis chain_of_eq)
  let ?s = "locked ?tx (lock_key ?hf f) s"
  note wr1 = locked_writable [OF upD(5) may]
  have rep1: "heap_rep ?hf ?s H" using wr1 unfolding writable_def by blast
  have rc: "rc_reader s ?tx" using upD(5) unfolding writable_def by blast
  then have act: "map_of (db_active s) ?tx \<noteq> None" by (auto simp: rc_reader_def)
  then obtain X where X: "map_of (db_active ?s) ?tx = Some X" using locked_fields(4) by (metis option.exhaust)
  have lock: "try_acquire_lock w ?tx (ti_table_id ti) f s = Some (Inr True, ?s)"
    using try_acquire_run [of s ?tx "ti_table_id ti" f] may act w by (simp add: lock_key_def upD(6))
  have hdr: "get_record_header ?hf f ?s = Some (Inr (Some h0), ?s)"
    using get_record_header_run [OF rep1 slot_at_Some [OF v(1)]] v(1) by simp
  have rd: "heap_read ?hf f ?tx ?s = Some (Inr (v_rid v, True), ?s)"
    using heap_read_chain [OF rep1 X v(3)] v(4) same_tx_views(4) [OF locked_same] by simp
  have rec: "get_record ?hf (v_rid v) ?s = Some (Inr (v_row v), ?s)"
    using get_record_run [OF rep1 slot_at_Some [OF v(5)]] v(5) by (simp add: split_def)
  have m: "sel_matches es (v_row v) = Inr True"
    using upD(8) v(6,7) xin(2) unfolding rechecked_def holds_def by (metis Inr_inject)
  have count: "ui_count (u\<lparr>ui_child := c\<rparr>) = ui_count u" for c by simp
  have "update_next w u s =
      bindA (liftA (assign (ui_columns u) (ui_assignments u) x)) (\<lambda>rec.
      bindA (cat_update_record w (ui_table u) f rec ?tx) (\<lambda>_.
        if is_rid (last rec) then returnA (butlast rec, u\<lparr>ui_child := scan_of pcs es it', ui_count := ui_count u + 1\<rparr>)
        else throwA Stuck)) ?s"
    using f(3) f(2) v(2,6) m
    by (subst update_next.simps)
      (simp add: bindA_def act_run upD(1,7) nxt(1) Let_def row_invalid_def lock hdr rd rec,
       simp only: snd_conv count)
  with f(1,2) xin may nxt(2-6) show ?thesis
    by (intro exI [of _ it'] exI [of _ f] exI [of _ k]) (simp add: Let_def)
qed

lemma update_next_row:
  assumes up: "updating ti pcs es u it s H" and x: "pending es s it = x # xs"
    and y: "makes (hf_schema (ti_heap_file ti)) (ui_columns u) (ui_assignments u) x y"
    and w: "prompt w" and room: "page_in_range (int (length H + 1))"
  shows "\<exists>it' s' H' k. update_next w u s = Some (Inr (butlast y, u\<lparr>ui_child := scan_of pcs es it', ui_count := ui_count u + 1\<rparr>), s') \<and>
    updating ti pcs es (u\<lparr>ui_child := scan_of pcs es it', ui_count := ui_count u + 1\<rparr>) it' s' H' \<and>
    iter_rest s' it' = drop k (iter_rest s it) \<and> pending es s' it' = xs \<and>
    (\<forall>r. seen_row s' (ui_tx u) H' r = map (\<lambda>z. if last z = last x then y else z) (seen_row s (ui_tx u) H r)) \<and>
    grown H H' \<and> length H' \<le> length H + 1 \<and> update_frame (ti_heap_file ti) s s'"
proof -
  let ?hf = "ti_heap_file ti" and ?tx = "ui_tx u"
  have upD: "ui_child u = scan_of pcs es it" "hi_file it = ?hf" "hi_tx it = ?tx" "iter_ok s it" "writable ?hf s ?tx H"
    "hf_table_id ?hf = ti_table_id ti" "get_table_info (ui_table u) ?tx s = Some (Inr (Some ti), s)" "rechecked (hf_schema ?hf) es"
    using up unfolding updating_def by blast+
  have wrD: "heap_rep ?hf s H" using upD(5) unfolding writable_def by blast
  note rest = rest_rows [OF upD(4), unfolded upD(2,3), OF wrD]
  obtain it' f k where until: "update_next w u s =
      bindA (liftA (assign (ui_columns u) (ui_assignments u) x)) (\<lambda>rec.
      bindA (cat_update_record w (ui_table u) f rec ?tx) (\<lambda>_.
        if is_rid (last rec) then returnA (butlast rec, u\<lparr>ui_child := scan_of pcs es it', ui_count := ui_count u + 1\<rparr>)
        else throwA Stuck)) (locked ?tx (lock_key ?hf f) s)"
    and f: "seen_row s ?tx H f = [x]" "last x = VRid f" and xin: "x \<in> set (iter_rest s it)" "holds es x"
    and may: "may_lock s ?tx (lock_key ?hf f)"
    and nxt: "iter_ok s it'" "hi_file it' = hi_file it" "hi_tx it' = hi_tx it" "iter_rest s it' = drop k (iter_rest s it)"
      "pending es s it' = xs"
    using update_next_until [OF up x w] unfolding Let_def by auto
  let ?s = "locked ?tx (lock_key ?hf f) s"
  note wr1 = locked_writable [OF upD(5) may]
  have yD: "assign (ui_columns u) (ui_assignments u) x = Inr y" "last y = VRid f" "butlast y \<noteq> []"
    "row_fits (hf_schema ?hf) (butlast y)" "tuple_len (butlast y) + 4 \<le> 4088"
    using y f(2) by (simp_all add: makes_def)
  then have y_eq: "butlast y @ [VRid f] = y" by (metis append_butlast_last_id butlast.simps(1))
  have fr1: "update_frame ?hf s ?s" by (rule locked_frame)
  have seen1: "seen_row ?s ?tx H r = seen_row s ?tx H r" for r using same_tx_views(5) [OF locked_same] .
  obtain new s' H' where run: "heap_update w ?hf f y ?tx ?s = Some (Inr new, s')" "writable ?hf s' ?tx H'"
    "\<forall>r. seen_row s' ?tx H' r = map (with_row f y) (seen_row s ?tx H r)" "grown H H'" "length H' \<le> length H + 1"
    "update_frame ?hf ?s s'"
    using update_row_run [OF wr1 f(1) [folded seen1] w yD(4,5,3) room, of f] unfolding y_eq seen1 by blast
  have fr: "update_frame ?hf s s'" by (rule update_frame_trans [OF fr1 run(6)])
  have ti1: "get_table_info (ui_table u) ?tx ?s = Some (Inr (Some ti), ?s)" by (rule table_info_frame [OF upD(7) fr1])
  have ti': "get_table_info (ui_table u) ?tx s' = Some (Inr (Some ti), s')" by (rule table_info_frame [OF upD(7) fr])
  have upd: "cat_update_record w (ui_table u) f y ?tx ?s = Some (Inr new, s')"
    by (simp add: cat_update_record_def bindA_def ti1 run(1))
  have step: "update_next w u s =
      Some (Inr (butlast y, u\<lparr>ui_child := scan_of pcs es it', ui_count := ui_count u + 1\<rparr>), s')"
    using yD(1,2) by (simp add: until bindA_def act_run upd)
  have wr': "heap_rep (hi_file it') s' H'" "chains_ok H'" "map_of (db_active s') (hi_tx it') \<noteq> None"
    using run(2) nxt(2,3) upD(2,3) own_chains_ok unfolding writable_def rc_reader_def by auto
  have seen': "\<forall>r. seen_row s' (hi_tx it') H' r = map (with_row f y) (seen_row s (hi_tx it') H r)"
    using run(3) by (simp add: nxt(3) upD(3))
  have rep': "heap_rep (hi_file it') s H" using wrD by (simp add: nxt(2) upD(2))
  note moved = iter_moves [OF nxt(1) rep' wr' run(4) seen']
  have gone: "last z \<noteq> VRid f" if "z \<in> set (iter_rest s it')" for z
  proof
    assume l: "last z = VRid f"
    have "z \<in> set (iter_rest s it)" using that nxt(4) by (metis in_set_dropD)
    with rest(2) [OF this] l f(1) have zx: "z = x" by auto
    have "distinct (map last (x # xs))" using distinct_map_filter [OF rest(1), of "holds es"] x by simp
    then have "x \<notin> set xs" by auto
    moreover have "x \<in> set (pending es s it')" using that zx xin(2) by simp
    then have "x \<in> set xs" by (simp only: nxt(5))
    ultimately show False by blast
  qed
  then have rest': "iter_rest s' it' = iter_rest s it'"
    using moved(2) by (simp add: with_row_def map_idI)
  have "updating ti pcs es (u\<lparr>ui_child := scan_of pcs es it', ui_count := ui_count u + 1\<rparr>) it' s' H'"
    using upD nxt(2,3) moved(1) run(2) ti' by (simp add: updating_def)
  moreover have "\<forall>r. seen_row s' ?tx H' r = map (\<lambda>z. if last z = last x then y else z) (seen_row s ?tx H r)"
    using run(3) by (simp add: with_row_def f(2))
  ultimately show ?thesis using step rest' nxt(4,5) run(4,5) fr by (metis (no_types, lifting))
qed

section \<open>All rows of an update\<close>

definition updated :: "(row \<Rightarrow> row) \<Rightarrow> row list \<Rightarrow> row \<Rightarrow> row" where
  "updated upd xs z = (case find (\<lambda>x. last x = last z) xs of None \<Rightarrow> z | Some x \<Rightarrow> upd x)"

lemma updated_Nil [simp]: "updated upd [] z = z"
  by (simp add: updated_def)

lemma updated_Cons:
  assumes "distinct (map last (x # xs))" "last (upd x) = last x"
  shows "updated upd xs (if last z = last x then upd x else z) = updated upd (x # xs) z"
proof (cases "last z = last x")
  case True
  have "find (\<lambda>y. last y = last x) xs = None" using assms(1) unfolding find_None_iff by (metis distinct.simps(2) image_eqI list.simps(9) set_map)
  with True assms(2) show ?thesis by (simp add: updated_def)
qed (auto simp: updated_def)

lemma pending_None:
  assumes up: "updating ti pcs es u it s H" and "pending es s it = []"
  shows "\<exists>u'. update_next w u s = Some (Inr (no_row, u'), s)"
proof -
  have upD: "ui_child u = scan_of pcs es it" "hi_file it = ti_heap_file ti" "hi_tx it = ui_tx u" "iter_ok s it"
    "writable (ti_heap_file ti) s (ui_tx u) H" "rechecked (hf_schema (ti_heap_file ti)) es"
    using up unfolding updating_def by blast+
  have wrD: "heap_rep (ti_heap_file ti) s H" "own_chains H" using upD(5) unfolding writable_def by blast+
  have "\<exists>b. sel_matches es z = Inr b" if "z \<in> set (iter_rest s it)" for z
    using rest_rows(2) [OF upD(4) _ that, unfolded upD(2), OF wrD(1)] seen_row_fits [OF wrD] upD(6)
    unfolding rechecked_def by blast
  with scan_of_next [OF upD(4), of es pcs] assms(2) obtain it' where
    "child_next (scan_of pcs es it) s = Some (Inr (no_row, scan_of pcs es it'), s)" by auto
  with upD(1) show ?thesis by (subst update_next.simps) (simp add: bindA_def act_run Let_def)
qed

lemma collect_update_run:
  assumes "updating ti pcs es u it s H"
    and "\<forall>x \<in> set (pending es s it). makes (hf_schema (ti_heap_file ti)) (ui_columns u) (ui_assignments u) x (upd x)"
    and "prompt w" and "page_in_range (int (length H + length (pending es s it)))"
  shows "\<exists>s' H'. collect_update w u s = Some (Inr (map (\<lambda>x. butlast (upd x)) (pending es s it)), s') \<and>
    writable (ti_heap_file ti) s' (ui_tx u) H' \<and>
    (\<forall>r. seen_row s' (ui_tx u) H' r = map (updated upd (pending es s it)) (seen_row s (ui_tx u) H r)) \<and>
    grown H H' \<and> update_frame (ti_heap_file ti) s s'"
  using assms
proof (induction "pending es s it" arbitrary: u it s H)
  case Nil
  obtain u' where "update_next w u s = Some (Inr (no_row, u'), s)" using pending_None [OF Nil(2)] Nil(1) by metis
  then have "collect_update w u s = Some (Inr [], s)" by (subst collect_update.simps) (simp add: bindA_run act_run)
  moreover have "writable (ti_heap_file ti) s (ui_tx u) H" using Nil(2) unfolding updating_def by blast
  moreover have "grown H H" by (simp add: grown_def)
  moreover have "map (updated upd []) xs = xs" for xs by (simp add: map_idI)
  ultimately show ?case using update_frame_refl unfolding Nil(1) [symmetric] by (metis list.map(1))
next
  case (Cons x xs)
  note up = Cons(3) and p = Cons(2) [symmetric]
  have y: "makes (hf_schema (ti_heap_file ti)) (ui_columns u) (ui_assignments u) x (upd x)"
    using Cons(4) unfolding p by simp
  have "page_in_range (int (length H + 1))" by (rule in_range_le [OF Cons(6)]) (simp only: p list.size)
  from update_next_row [OF up p y Cons(5) this] obtain it' s1 H1 k where
    n: "update_next w u s = Some (Inr (butlast (upd x), u\<lparr>ui_child := scan_of pcs es it', ui_count := ui_count u + 1\<rparr>), s1)"
      "updating ti pcs es (u\<lparr>ui_child := scan_of pcs es it', ui_count := ui_count u + 1\<rparr>) it' s1 H1"
      "pending es s1 it' = xs"
      "\<forall>r. seen_row s1 (ui_tx u) H1 r = map (\<lambda>z. if last z = last x then upd x else z) (seen_row s (ui_tx u) H r)"
      "grown H H1" "length H1 \<le> length H + 1" "update_frame (ti_heap_file ti) s s1" by blast
  let ?u = "u\<lparr>ui_child := scan_of pcs es it', ui_count := ui_count u + 1\<rparr>"
  have all: "\<forall>x \<in> set (pending es s1 it'). makes (hf_schema (ti_heap_file ti)) (ui_columns ?u) (ui_assignments ?u) x (upd x)"
    using Cons(4) unfolding p n(3) by simp
  have "page_in_range (int (length H1 + length (pending es s1 it')))"
  proof (rule in_range_le [OF Cons(6)])
    show "length H1 + length (pending es s1 it') \<le> length H + length (pending es s it)"
      using n(6) unfolding p n(3) by simp
  qed
  from Cons(1) [OF n(3) [symmetric] n(2) all Cons(5) this] obtain s' H' where
    r: "collect_update w ?u s1 = Some (Inr (map (\<lambda>x. butlast (upd x)) xs), s')" "writable (ti_heap_file ti) s' (ui_tx u) H'"
      "\<forall>r. seen_row s' (ui_tx u) H' r = map (updated upd xs) (seen_row s1 (ui_tx u) H1 r)" "grown H1 H'"
      "update_frame (ti_heap_file ti) s1 s'" unfolding n(3) by auto
  have "butlast (upd x) \<noteq> []" "last (upd x) = last x" using y by (simp_all add: makes_def)
  then have "collect_update w u s = Some (Inr (map (\<lambda>x. butlast (upd x)) (x # xs)), s')"
    using n(1) r(1) by (subst collect_update.simps) (simp add: bindA_def row_invalid_def act_run)
  moreover have "distinct (map last (x # xs))"
  proof -
    have "iter_ok s it" "heap_rep (hi_file it) s H" using up unfolding updating_def writable_def by metis+
    from distinct_map_filter [OF rest_rows(1) [OF this], of "holds es"] show ?thesis unfolding p .
  qed
  then have "\<forall>r. seen_row s' (ui_tx u) H' r = map (updated upd (x # xs)) (seen_row s (ui_tx u) H r)"
    using updated_Cons [where upd = upd and x = x and xs = xs, OF _ \<open>last (upd x) = last x\<close>] by (simp add: r(3) n(4))
  moreover have "grown H H'" using n(5) r(4) unfolding grown_def by auto
  ultimately show ?case using r(2) update_frame_trans [OF n(7) r(5)] unfolding p by blast
qed

text \<open>Every row the query selects is changed once, and the others stay.\<close>

lemma updated_pending:
  assumes "iter_ok s it" "heap_rep (hi_file it) s H" "z \<in> set (iter_rest s it)"
  shows "updated upd (pending es s it) z = (if holds es z then upd z else z)"
proof -
  note rest = rest_rows [OF assms(1,2)]
  have one: "x = z" if "x \<in> set (iter_rest s it)" "last x = last z" for x
    using rest(2) [OF that(1)] rest(2) [OF assms(3)] that(2) by auto
  show ?thesis
  proof (cases "holds es z")
    case True
    with assms(3) have "find (\<lambda>x. last x = last z) (pending es s it) \<noteq> None" by (auto simp: find_None_iff)
    then obtain x where x: "find (\<lambda>x. last x = last z) (pending es s it) = Some x" by blast
    then have "x \<in> set (pending es s it)" "last x = last z" unfolding find_Some_iff using nth_mem by blast+
    with one have "x = z" by simp
    with x True show ?thesis by (simp add: updated_def)
  next
    case False
    with one have "find (\<lambda>x. last x = last z) (pending es s it) = None" by (auto simp: find_None_iff)
    with False show ?thesis by (simp add: updated_def)
  qed
qed

end
