(* ===== verification/Update_Correct.thy ===== *)
theory Update_Correct
  imports Update_Run
begin

text \<open>
  UPDATE from its text: what its assignments and its condition mean over a row of the table, and
  that the preprocessor, the optimizer and the operator compute that.
\<close>

section \<open>What an assignment says\<close>

text \<open>
  The value of an arithmetic expression over a row, read off the parse tree. The empty alternatives
  and the unary minus are left out: the program dereferences a null pointer for them.
\<close>

fun additive_value :: "table_info \<Rightarrow> row \<Rightarrow> additive_ctx \<Rightarrow> db_value res"
  and additive_rest :: "table_info \<Rightarrow> row \<Rightarrow> db_value res \<Rightarrow> (string \<times> multiplicative_ctx) list \<Rightarrow> db_value res"
  and multiplicative_value :: "table_info \<Rightarrow> row \<Rightarrow> multiplicative_ctx \<Rightarrow> db_value res"
  and multiplicative_rest :: "table_info \<Rightarrow> row \<Rightarrow> db_value res \<Rightarrow> (string \<times> unary_ctx) list \<Rightarrow> db_value res"
  and unary_value :: "table_info \<Rightarrow> row \<Rightarrow> unary_ctx \<Rightarrow> db_value res"
  and atomic_value :: "table_info \<Rightarrow> row \<Rightarrow> atomic_ctx \<Rightarrow> db_value res" where
  "additive_value ti r (AdditiveExpr m ms) = additive_rest ti r (multiplicative_value ti r m) ms"
| "additive_rest ti r v [] = v"
| "additive_rest ti r v ((op, m) # ms) = additive_rest ti r (lift2 (arith_op op) v (multiplicative_value ti r m)) ms"
| "multiplicative_value ti r (MultiplicativeExpr u us) = multiplicative_rest ti r (unary_value ti r u) us"
| "multiplicative_rest ti r v [] = v"
| "multiplicative_rest ti r v ((op, u) # us) = multiplicative_rest ti r (lift2 (arith_op op) v (unary_value ti r u)) us"
| "unary_value ti r UnaryEmpty = Inl Stuck"
| "unary_value ti r (UnaryAtomic a) = atomic_value ti r a"
| "unary_value ti r (UnaryPlus u) = unary_value ti r u"
| "unary_value ti r (UnaryMinus u) = Inl Stuck"
| "atomic_value ti r AtomicEmpty = Inl Stuck"
| "atomic_value ti r (AtomicConstant k) = get_value k"
| "atomic_value ti r (AtomicParen a) = additive_value ti r a"
| "atomic_value ti r (AtomicColumn c) = cell ti r (column_name c)"

fun additive_known :: "table_info \<Rightarrow> additive_ctx \<Rightarrow> bool"
  and additive_rest_known :: "table_info \<Rightarrow> (string \<times> multiplicative_ctx) list \<Rightarrow> bool"
  and multiplicative_known :: "table_info \<Rightarrow> multiplicative_ctx \<Rightarrow> bool"
  and multiplicative_rest_known :: "table_info \<Rightarrow> (string \<times> unary_ctx) list \<Rightarrow> bool"
  and unary_known :: "table_info \<Rightarrow> unary_ctx \<Rightarrow> bool"
  and atomic_known :: "table_info \<Rightarrow> atomic_ctx \<Rightarrow> bool" where
  "additive_known ti (AdditiveExpr m ms) \<longleftrightarrow> multiplicative_known ti m \<and> additive_rest_known ti ms"
| "additive_rest_known ti [] \<longleftrightarrow> True"
| "additive_rest_known ti ((op, m) # ms) \<longleftrightarrow> multiplicative_known ti m \<and> additive_rest_known ti ms"
| "multiplicative_known ti (MultiplicativeExpr u us) \<longleftrightarrow> unary_known ti u \<and> multiplicative_rest_known ti us"
| "multiplicative_rest_known ti [] \<longleftrightarrow> True"
| "multiplicative_rest_known ti ((op, u) # us) \<longleftrightarrow> unary_known ti u \<and> multiplicative_rest_known ti us"
| "unary_known ti UnaryEmpty \<longleftrightarrow> False"
| "unary_known ti (UnaryAtomic a) \<longleftrightarrow> atomic_known ti a"
| "unary_known ti (UnaryPlus u) \<longleftrightarrow> unary_known ti u"
| "unary_known ti (UnaryMinus u) \<longleftrightarrow> False"
| "atomic_known ti AtomicEmpty \<longleftrightarrow> False"
| "atomic_known ti (AtomicConstant k) \<longleftrightarrow> True"
| "atomic_known ti (AtomicParen a) \<longleftrightarrow> additive_known ti a"
| "atomic_known ti (AtomicColumn c) \<longleftrightarrow> has_column ti (column_name c)"

text \<open>The expression \<open>e\<close> that a visitor made means \<open>v\<close> over every row.\<close>

definition means :: "column list \<Rightarrow> expr_plan \<Rightarrow> (row \<Rightarrow> db_value res) \<Rightarrow> bool" where
  "means cs e v \<longleftrightarrow> columns_in cs e \<and> (\<forall>r. plan_eval (row_env cs r) e = v r)"

lemma means_arithmetic:
  "means cs a v \<Longrightarrow> means cs b w \<Longrightarrow> means cs (ExprPlanArithmetic a op b) (\<lambda>r. lift2 (arith_op op) (v r) (w r))"
  by (simp add: means_def)

lemma means_column:
  assumes "get_table_info t tx s = Some (Inr (Some ti), s)" "cs = table_columns a t (ti_schema ti)"
    and c: "get_column (one_table a t) tx c s = Some (Inr col, s')" and "has_column ti (column_name c)"
  shows "s' = s \<and> means cs (ExprPlanColumn col) (\<lambda>r. cell ti r (column_name c))"
proof -
  note one = get_column_one [OF assms(1) c]
  note cell = cell_column [OF conjunct1 [OF one] assms(2)]
  have "col_mem col cs" using iffD1 [OF cell(2)] assms(4) .
  moreover have "row_env cs r col = cell ti r (column_name c)" for r by (rule cell(1))
  ultimately show ?thesis using one by (simp add: means_def)
qed

lemma visit_additive_means:
  assumes found: "get_table_info t tx s = Some (Inr (Some ti), s)" and cs: "cs = table_columns a t (ti_schema ti)"
  shows "visit_additive (one_table a t) tx x s = Some (Inr e, s') \<Longrightarrow> additive_known ti x \<Longrightarrow>
      s' = s \<and> means cs e (\<lambda>r. additive_value ti r x)"
    and "visit_additive_rest (one_table a t) tx e0 xs s = Some (Inr e, s') \<Longrightarrow> additive_rest_known ti xs \<Longrightarrow> means cs e0 v \<Longrightarrow>
      s' = s \<and> means cs e (\<lambda>r. additive_rest ti r (v r) xs)"
    and "visit_multiplicative (one_table a t) tx y s = Some (Inr e, s') \<Longrightarrow> multiplicative_known ti y \<Longrightarrow>
      s' = s \<and> means cs e (\<lambda>r. multiplicative_value ti r y)"
    and "visit_multiplicative_rest (one_table a t) tx e0 ys s = Some (Inr e, s') \<Longrightarrow> multiplicative_rest_known ti ys \<Longrightarrow> means cs e0 v \<Longrightarrow>
      s' = s \<and> means cs e (\<lambda>r. multiplicative_rest ti r (v r) ys)"
    and "visit_unary (one_table a t) tx z s = Some (Inr e, s') \<Longrightarrow> unary_known ti z \<Longrightarrow>
      s' = s \<and> means cs e (\<lambda>r. unary_value ti r z)"
    and "visit_atomic (one_table a t) tx w s = Some (Inr e, s') \<Longrightarrow> atomic_known ti w \<Longrightarrow>
      s' = s \<and> means cs e (\<lambda>r. atomic_value ti r w)"
  using found cs
proof (induction ti x and ti xs and ti y and ti ys and ti z and ti w
    arbitrary: e s' and e e0 v s' and e s' and e e0 v s' and e s' and e s'
    rule: additive_known_additive_rest_known_multiplicative_known_multiplicative_rest_known_unary_known_atomic_known.induct)
  case (3 ti op m ms)
  from "3.prems"(1) obtain r s1 where r: "visit_multiplicative (one_table a t) tx m s = Some (Inr r, s1)"
    "visit_additive_rest (one_table a t) tx (ExprPlanArithmetic e0 op r) ms s1 = Some (Inr e, s')"
    by (auto simp: bindA_Inr_iff)
  from "3.IH"(1) [OF r(1)] "3.prems" have m: "s1 = s" "means cs r (\<lambda>r. multiplicative_value ti r m)" by simp_all
  from "3.IH"(2) [OF r(2) [unfolded m(1)] _ means_arithmetic [OF "3.prems"(3) m(2)]] "3.prems" show ?case by simp
next
  case (6 ti op u us)
  from "6.prems"(1) obtain r s1 where r: "visit_unary (one_table a t) tx u s = Some (Inr r, s1)"
    "visit_multiplicative_rest (one_table a t) tx (ExprPlanArithmetic e0 op r) us s1 = Some (Inr e, s')"
    by (auto simp: bindA_Inr_iff)
  from "6.IH"(1) [OF r(1)] "6.prems" have m: "s1 = s" "means cs r (\<lambda>r. unary_value ti r u)" by simp_all
  from "6.IH"(2) [OF r(2) [unfolded m(1)] _ means_arithmetic [OF "6.prems"(3) m(2)]] "6.prems" show ?case by simp
next
  case (12 ti k)
  then show ?case by (auto simp: bindA_Inr_iff act_run means_def)
next
  case (14 ti c)
  then obtain col where "get_column (one_table a t) tx c s = Some (Inr col, s')" "e = ExprPlanColumn col"
    by (auto simp: bindA_Inr_iff act_run)
  with means_column [of t tx s ti cs a c col s'] 14 show ?case by simp
qed (fastforce simp: bindA_Inr_iff act_run)+

section \<open>The assignments of a statement\<close>

text \<open>They run in order, a later one seeing the new values; the type of the column must be the value's.\<close>

definition set_column :: "table_info \<Rightarrow> string \<Rightarrow> additive_ctx \<Rightarrow> row \<Rightarrow> row res" where
  "set_column ti c e r =
     (case column_position (columns (ti_schema ti)) c of
        None \<Rightarrow> Inl Stuck
      | Some i \<Rightarrow>
          bindE (additive_value ti r e) (\<lambda>v.
            let d = ci_datatype (columns (ti_schema ti) ! i) in
            if stored_type d \<and> value_type v = d then Inr (r[i := v])
            else Inl (QueryException (''Type mismatch in update assignment for column '' @ c))))"

fun set_columns :: "table_info \<Rightarrow> (string \<times> additive_ctx) list \<Rightarrow> row \<Rightarrow> row res" where
  "set_columns ti [] r = Inr r"
| "set_columns ti ((c, e) # asgs) r = bindE (set_column ti c e r) (set_columns ti asgs)"

lemma set_column_Inr:
  "set_column ti c e r = Inr y \<longleftrightarrow> (\<exists>i v. column_position (columns (ti_schema ti)) c = Some i \<and> additive_value ti r e = Inr v \<and>
     stored_type (ci_datatype (columns (ti_schema ti) ! i)) \<and> value_type v = ci_datatype (columns (ti_schema ti) ! i) \<and> y = r[i := v])"
  by (auto simp: set_column_def bindE_Inr_iff Let_def split: option.splits)

lemma column_position_nth: "column_position cs c = Some i \<Longrightarrow> i < length cs \<and> ci_name (cs ! i) = c"
  by (induction cs arbitrary: i) (auto split: if_splits)

lemma assign_value_typed:
  assumes "i < length cs" "i < length r" "stored_type (ci_datatype (col_info (cs ! i)))"
    "value_type v = ci_datatype (col_info (cs ! i))"
  shows "assign_value cs i v r = Inr (r[i := v])"
  using assms by (cases v) (auto simp: assign_value_def nthE_def)

lemma visit_assignments:
  assumes found: "get_table_info t tx s = Some (Inr (Some ti), s)" and cs: "cs = table_columns t t (ti_schema ti)"
  shows "mapA (visit_assignment (table_scope t) tx ti t) asgs s = Some (Inr upd, s') \<Longrightarrow>
    list_all (\<lambda>(c, e). additive_known ti e) asgs \<Longrightarrow>
    s' = s \<and> (\<exists>es. compile_assignments cs upd = Inr es \<and>
      (\<forall>r y. length r = length cs \<longrightarrow> set_columns ti asgs r = Inr y \<longrightarrow> assign cs es r = Inr y))"
proof (induction asgs arbitrary: upd s')
  case Nil
  then show ?case by (simp add: act_run compile_assignments_def)
next
  case (Cons ce asgs)
  obtain c e where ce: "ce = (c, e)" by (cases ce)
  from Cons.prems(1) obtain i p s1 upd' where i: "column_position (columns (ti_schema ti)) c = Some i"
    and p: "visit_additive (table_scope t) tx e s = Some (Inr p, s1)"
    and rest: "mapA (visit_assignment (table_scope t) tx ti t) asgs s1 = Some (Inr upd', s')" "upd = (i, p) # upd'"
    by (auto simp: ce visit_assignment_def bindA_Inr_iff act_run split: option.splits)
  have known: "additive_known ti e" "list_all (\<lambda>(c, e). additive_known ti e) asgs" using Cons.prems(2) by (simp_all add: ce)
  have "table_scope t = one_table t t" by (simp add: table_scope_def one_table_def)
  with visit_additive_means(1) [OF found cs _ known(1)] p have m: "s1 = s" "means cs p (\<lambda>r. additive_value ti r e)" by metis+
  from Cons.IH [OF rest(1) [unfolded m(1)] known(2)] obtain es where es: "s' = s" "compile_assignments cs upd' = Inr es"
    "\<forall>r y. length r = length cs \<longrightarrow> set_columns ti asgs r = Inr y \<longrightarrow> assign cs es r = Inr y" by blast
  obtain p' where p': "compile_expr cs p = Inr p'" using m(2) compile_defined unfolding means_def by blast
  have ev: "expr_eval p' r = additive_value ti r e" for r using compile_eval [OF p'] m(2) by (simp add: means_def)
  have "compile_assignments cs upd = Inr ((i, p') # es)" using p' es(2) rest(2) by (simp add: compile_assignments_def)
  moreover have "assign cs ((i, p') # es) r = Inr y" if r: "length r = length cs" "set_columns ti (ce # asgs) r = Inr y" for r y
  proof -
    have il: "i < length cs" "ci_datatype (col_info (cs ! i)) = ci_datatype (columns (ti_schema ti) ! i)"
      using column_position_nth [OF i] by (simp_all add: cs table_columns_def)
    from r(2) obtain v where v: "additive_value ti r e = Inr v" "stored_type (ci_datatype (columns (ti_schema ti) ! i))"
      "value_type v = ci_datatype (columns (ti_schema ti) ! i)" "set_columns ti asgs (r[i := v]) = Inr y"
      by (auto simp: ce i bindE_Inr_iff set_column_Inr)
    with assign_value_typed [of i cs r v] il r(1) es(3) show ?thesis by (simp add: ev)
  qed
  ultimately show ?case using es(1) by blast
qed

text \<open>What an assignment stores fits its column.\<close>

definition short_value :: "db_value \<Rightarrow> bool" where
  "short_value v \<longleftrightarrow> (\<forall>x. v = VStr x \<longrightarrow> length x \<le> MAX_STRLEN)"

lemma get_value_short: "get_value k = Inr v \<Longrightarrow> short_value v"
  by (cases k) (auto simp: get_value_def bindE_Inr_iff Let_def short_value_def value_of_string_def split: if_splits)

lemma arith_short: "lift2 (arith_op op) m n = Inr v \<Longrightarrow> short_value v"
  by (auto simp: lift2_def bindE_Inr_iff short_value_def dest!: arith_op_type)

lemma additive_short:
  assumes r: "list_all short_value r"
  shows "additive_value ti r x = Inr v \<Longrightarrow> short_value v"
    and "additive_rest ti r m xs = Inr v \<Longrightarrow> (\<And>u. m = Inr u \<Longrightarrow> short_value u) \<Longrightarrow> short_value v"
    and "multiplicative_value ti r y = Inr v \<Longrightarrow> short_value v"
    and "multiplicative_rest ti r m ys = Inr v \<Longrightarrow> (\<And>u. m = Inr u \<Longrightarrow> short_value u) \<Longrightarrow> short_value v"
    and "unary_value ti r z = Inr v \<Longrightarrow> short_value v"
    and "atomic_value ti r w = Inr v \<Longrightarrow> short_value v"
  using r
proof (induction ti r x and ti r m xs and ti r y and ti r m ys and ti r z and ti r w
    arbitrary: v and v and v and v and v and v
    rule: additive_value_additive_rest_multiplicative_value_multiplicative_rest_unary_value_atomic_value.induct)
qed (auto simp: get_value_short cell_def nthE_def list_all_length split: option.splits if_splits dest: arith_short)

lemma value_fits_iff: "value_fits d v \<longleftrightarrow> value_type v = d \<and> stored_type d \<and> short_value v"
  by (cases v; cases d) (auto simp: short_value_def)

lemma set_columns_fits:
  assumes ok: "table_ok ti"
  shows "set_columns ti asgs (x @ [VRid f]) = Inr y \<Longrightarrow> row_fits (hf_schema (ti_heap_file ti)) x \<Longrightarrow>
    \<exists>x'. y = x' @ [VRid f] \<and> row_fits (hf_schema (ti_heap_file ti)) x'"
proof (induction asgs arbitrary: x)
  case (Cons ce asgs)
  obtain c e where ce: "ce = (c, e)" by (cases ce)
  let ?cs = "columns (ti_schema ti)"
  from Cons.prems(1) obtain i v where v: "column_position ?cs c = Some i" "additive_value ti (x @ [VRid f]) e = Inr v"
    "stored_type (ci_datatype (?cs ! i))" "value_type v = ci_datatype (?cs ! i)"
    "set_columns ti asgs ((x @ [VRid f])[i := v]) = Inr y"
    by (auto simp: ce bindE_Inr_iff set_column_Inr)
  have types: "list_all2 value_fits (map ci_datatype (butlast ?cs)) x"
    using Cons.prems(2) ok by (simp add: row_fits_def table_ok_def)
  then have len: "length x = length ?cs - 1" by (auto dest: list_all2_lengthD)
  have "i \<noteq> length ?cs - 1"
    using v(3) ok by (auto simp: table_ok_def last_conv_nth)
  then have i: "i < length x" using column_position_nth [OF v(1), THEN conjunct1] len by linarith
  have "list_all short_value (x @ [VRid f])"
    using types by (auto simp: list_all2_conv_all_nth list_all_length value_fits_iff nth_append short_value_def)
  from additive_short(1) [OF this v(2)] v(3,4) have fits: "value_fits (ci_datatype (?cs ! i)) v"
    by (simp add: value_fits_iff)
  have "list_all2 value_fits (map ci_datatype (butlast ?cs)) (x[i := v])"
    using types fits i len by (auto simp: list_all2_conv_all_nth nth_list_update nth_butlast)
  then have "row_fits (hf_schema (ti_heap_file ti)) (x[i := v])"
    using ok by (simp add: row_fits_def table_ok_def)
  moreover have "(x @ [VRid f])[i := v] = x[i := v] @ [VRid f]" using i by (simp add: list_update_append)
  ultimately show ?case using Cons.IH [of "x[i := v]"] v(5) by simp
qed force

section \<open>The condition of a statement\<close>

text \<open>
  The operator tests the condition on the record alone, without its RID, so the clause may name
  the stored columns only.
\<close>

definition stored_part :: "table_info \<Rightarrow> table_info" where
  "stored_part ti = ti\<lparr>ti_schema := \<lparr>columns = butlast (columns (ti_schema ti))\<rparr>\<rparr>"

lemma stored_part_columns: "table_columns a t (ti_schema (stored_part ti)) = butlast (table_columns a t (ti_schema ti))"
  by (simp add: stored_part_def table_columns_def map_butlast)

lemma stored_part_known: "has_column (stored_part ti) c \<Longrightarrow> has_column ti c"
  by (auto simp: has_column_def stored_part_def dest: in_set_butlastD)

lemma stored_part_supported: "supported (stored_part ti) x \<Longrightarrow> supported ti x"
proof -
  have op: "operand_known (stored_part ti) y \<Longrightarrow> operand_known ti y" for y
    using stored_part_known by (cases y) auto
  show "supported (stored_part ti) x \<Longrightarrow> supported ti x"
    using op stored_part_known by (cases "(ti, x)" rule: supported.cases) auto
qed

lemma col_index_append: "col_mem c cs \<Longrightarrow> col_index c (cs @ ds) = col_index c cs"
proof (induction cs)
  case (Cons d cs)
  show ?case
  proof (cases "column_eq c d")
    case False
    with Cons.prems have "col_mem c cs" by (simp add: col_mem_def)
    with False Cons.IH show ?thesis by simp
  qed simp
qed (simp add: col_mem_def)

lemma compile_append: "columns_in cs e \<Longrightarrow> compile_expr (cs @ ds) e = compile_expr cs e"
  by (induction e) (simp_all add: compile_column_def col_index_append)

lemma value_at_append: "i < int (length x) \<Longrightarrow> value_at (x @ y) i = value_at x i"
  by (auto simp: value_at_def nthE_def nth_append)

lemma eval_append:
  "compile_expr cs e = Inr e' \<Longrightarrow> length x = length cs \<Longrightarrow> expr_eval e' (x @ y) = expr_eval e' x"
proof -
  have col: "compile_column cs c = Inr e' \<Longrightarrow> length x = length cs \<Longrightarrow> expr_eval e' (x @ y) = expr_eval e' x" for c e'
    using col_index_nth [of c cs] col_index_found [of c cs]
    by (auto simp: compile_column_def value_at_append split: if_splits)
  then show "compile_expr cs e = Inr e' \<Longrightarrow> length x = length cs \<Longrightarrow> expr_eval e' (x @ y) = expr_eval e' x"
    by (induction e arbitrary: e') (auto simp: bindE_Inr_iff)
qed

lemma matches_append:
  "mapE (compile_expr cs) es = Inr es' \<Longrightarrow> length x = length cs \<Longrightarrow> sel_matches es' (x @ y) = sel_matches es' x"
proof (induction es arbitrary: es')
  case (Cons e es)
  then obtain e' es'' where "compile_expr cs e = Inr e'" "mapE (compile_expr cs) es = Inr es''" "es' = e' # es''"
    by (auto simp: bindE_Inr_iff)
  with Cons eval_append [of cs e e' x y] show ?case by (simp cong: bindE_cong if_cong)
qed simp

lemma mapA_length: "mapA f xs s = Some (Inr ys, s') \<Longrightarrow> length ys = length xs"
  by (induction xs arbitrary: ys s) (auto simp: bindA_Inr_iff act_run)

lemma compiled_where:
  assumes found: "get_table_info t tx s = Some (Inr (Some ti), s)" and ok: "table_ok ti"
    and cs: "cs = table_columns t t (ti_schema ti)"
    and es: "mapA (visit_simple (table_scope t) tx) w s = Some (Inr es, s')"
    and sup: "list_all (supported (stored_part ti)) w"
  shows "\<exists>es'. mapE (compile_expr cs) es = Inr es' \<and> (es' = [] \<longleftrightarrow> w = []) \<and> rechecked (hf_schema (ti_heap_file ti)) es' \<and>
    (\<forall>z. length z = length cs \<longrightarrow> (holds es' z \<longleftrightarrow> list_all (simple_true ti z) w)) \<and>
    (\<exists>css. mapE expr_get_columns es = Inr css)"
proof -
  have sc: "table_scope t = one_table t t" by (simp add: table_scope_def one_table_def)
  have ne: "cs \<noteq> []" using ok by (simp add: cs table_ok_def table_columns_def)
  then have cs_eq: "cs = butlast cs @ [last cs]" by simp
  have full: "list_all (supported ti) w" using sup stored_part_supported by (auto simp: list_all_iff)
  note whole = visit_all_sound [OF found cs es [unfolded sc] full]
  note part = visit_all_sound [OF found stored_part_columns [symmetric] es [unfolded sc] sup, folded cs]
  obtain es' where es': "mapE (compile_expr (butlast cs)) es = Inr es'" using compile_all part by blast
  have "mapE (compile_expr cs) es = mapE (compile_expr (butlast cs)) es"
    using part by (subst cs_eq) (intro mapE_cong compile_append, simp_all)
  with es' have all': "mapE (compile_expr cs) es = Inr es'" by simp
  have "rechecked (hf_schema (ti_heap_file ti)) es'"
    unfolding rechecked_def
  proof (intro allI impI)
    fix x f assume "row_fits (hf_schema (ti_heap_file ti)) x"
    then have len: "length x = length (butlast cs)"
      using ok by (auto simp: row_fits_def table_ok_def cs table_columns_def dest: list_all2_lengthD)
    from sel_matches_conditions [OF es' _ len] part matches_append [OF es' len]
    show "\<exists>b. sel_matches es' (x @ [VRid f]) = Inr b \<and> sel_matches es' x = Inr b" by auto
  qed
  moreover have "holds es' z \<longleftrightarrow> list_all (simple_true ti z) w" if "length z = length cs" for z
    using sel_matches_conditions [OF all' _ that] whole by (auto simp: holds_def)
  moreover have "length es' = length es" using mapE_Inr_length [OF all'] .
  moreover have "length es = length w" using mapA_length [OF es] .
  moreover have "\<exists>css. mapE expr_get_columns es = Inr css"
    using columns_collected [of es] condition_null_free whole by blast
  ultimately show ?thesis using all' by (metis length_0_conv)
qed

section \<open>The plan of an update\<close>

lemma scan_of_begin: "child_begin (scan_of pcs es it) s = Some (Inr (scan_of pcs es it), s)"
  by (simp add: scan_of_def child_begin_def run_iter_def scan_begin_def drop_state_def iter_begin_def act_run retO_def)

text \<open>The operator changes the rows of the plan's child, which is the table under the condition.\<close>

lemma update_plan_run:
  assumes found: "get_table_info t tx s = Some (Inr (Some ti), s)" and ok: "table_ok ti" and name: "ti_name ti = t"
    and rep: "heap_rep (ti_heap_file ti) s H" "H \<noteq> []"
    and cs: "cs = table_columns t t (ti_schema ti)"
    and es: "p = RelationPlan t t \<and> es = [] \<or> p = SelectionPlan (RelationPlan t t) es"
    and es': "mapE (compile_expr cs) es = Inr es'" "mapE expr_get_columns es = Inr css"
    and as: "compile_assignments cs upd = Inr asg"
  shows "\<exists>pcs. map pc_col pcs = cs \<and> create_physical_plan ord tx (UpdatePlan ti upd (Some p)) s =
    Some (Inr (PhysicalUpdate (new_update (scan_of pcs es' (iter_at (ti_heap_file ti) tx (length H) 0 (-1))) asg tx)), s)"
proof -
  let ?u = "use_table ti (\<lambda>_. 0)" and ?it = "iter_at (ti_heap_file ti) tx (length H) 0 (-1)"
  have used: "used ?u c" if "c \<in> set cs" for c
    using that by (simp add: use_table_def name cs fold_use used_counts col_mem_def) (metis column_eq_equiv(1))
  have rel: "\<exists>pcs. visit_relation tx t t v s = Some (Inr (Relation ?it pcs, v), s) \<and> map pc_col pcs = cs"
    if "\<forall>c \<in> set cs. used v c" for v
  proof -
    have "filter (used v) (butlast cs) = butlast cs" using that by (auto intro!: filter_True dest: in_set_butlastD)
    moreover have "cs \<noteq> []" using ok by (simp add: cs table_columns_def table_ok_def)
    ultimately have "filter (used v) (butlast cs) @ [last cs] = cs" by simp
    with visit_relation_run [OF found ok rep cs, of v] show ?thesis by auto
  qed
  from es show ?thesis
  proof (elim disjE conjE)
    assume p: "p = RelationPlan t t" "es = []"
    with rel [of ?u] used obtain pcs where pcs: "visit_relation tx t t ?u s = Some (Inr (Relation ?it pcs, ?u), s)"
      "map pc_col pcs = cs" by blast
    then have "create_physical_plan ord tx (UpdatePlan ti upd (Some p)) s =
        Some (Inr (PhysicalUpdate (new_update (scan_of pcs es' ?it) asg tx)), s)"
      using p es'(1) as by (simp add: visit_update_plan_def bindA_def act_run scan_of_def)
    with pcs(2) show ?thesis by blast
  next
    assume p: "p = SelectionPlan (RelationPlan t t) es"
    let ?v = "fold use_column (concat css) ?u"
    have "\<forall>c \<in> set cs. used ?v c" using used used_fold by blast
    with rel [of ?v] obtain pcs where pcs: "visit_relation tx t t ?v s = Some (Inr (Relation ?it pcs, ?v), s)"
      "map pc_col pcs = cs" by blast
    then have "visit ord tx p ?u s = Some (Inr (scan_of pcs es' ?it, ?u), s)"
      using es' by (simp add: p visit_selection_def bindA_run act_run fold_use fold_drop scan_of_def)
    with pcs(2) as have "create_physical_plan ord tx (UpdatePlan ti upd (Some p)) s =
        Some (Inr (PhysicalUpdate (new_update (scan_of pcs es' ?it) asg tx)), s)"
      by (simp add: visit_update_plan_def bindA_def act_run)
    with pcs(2) show ?thesis by blast
  qed
qed

section \<open>UPDATE\<close>

lemma preprocess_update:
  assumes found: "get_table_info t tx s = Some (Inr (Some ti), s)"
    and pre: "preprocess tx (UpdateQuery t asgs w) s = Some (Inr lp, s')"
  shows "\<exists>upd es p. mapA (visit_assignment (table_scope t) tx ti t) asgs s = Some (Inr upd, s) \<and>
    mapA (visit_simple (table_scope t) tx) (where_list w) s = Some (Inr es, s) \<and>
    (p = RelationPlan t t \<and> es = [] \<or> p = SelectionPlan (RelationPlan t t) es) \<and> lp = UpdatePlan ti upd (Some p) \<and> s' = s"
proof -
  have k: "known_table t tx s = Some (Inr ti, s)" "check_table t tx s = Some (Inr (), s)"
    by (simp_all add: known_table_def check_table_def table_exists_def bindA_def found act_run)
  have s': "s' = s" using readsD [OF reads_preprocess pre] .
  from pre obtain upd s1 p where a: "mapA (visit_assignment (table_scope t) tx ti t) asgs s = Some (Inr upd, s1)"
    "visit_where (table_scope t) tx w (RelationPlan t t) s1 = Some (Inr p, s')" "lp = UpdatePlan ti upd (Some p)"
    by (auto simp: visit_update_def bindA_Inr_iff act_run k)
  have s1: "s1 = s" using readsD [OF reads_where a(2)] s' by simp
  obtain es where "mapA (visit_simple (table_scope t) tx) (where_list w) s = Some (Inr es, s)"
    "p = RelationPlan t t \<and> es = [] \<or> p = SelectionPlan (RelationPlan t t) es"
    using a(2) s1 s' by (cases w) (auto simp: visit_where_def where_list_def bindA_Inr_iff act_run)
  with a s1 s' show ?thesis by blast
qed

text \<open>
  \<open>UPDATE t SET ... WHERE ...\<close>: every row of \<open>t\<close> the transaction sees that satisfies the clause is
  changed once as the assignments say, and every other row stays.
\<close>

lemma update_text:
  assumes found: "get_table_info t tx s = Some (Inr (Some ti), s)" and ok: "table_ok ti" and name: "ti_name ti = t"
    and tid: "hf_table_id (ti_heap_file ti) = ti_table_id ti" and two: "length (columns (ti_schema ti)) > 1"
    and wr: "writable (ti_heap_file ti) s tx H" "H \<noteq> []"
    and q: "parse q = Inr (UpdateQuery t asgs w)"
    and pre: "preprocess tx (UpdateQuery t asgs w) s = Some (Inr lp, s')"
    and sup: "list_all (supported (stored_part ti)) (where_list w)" "list_all (\<lambda>(c, e). additive_known ti e) asgs"
    and new: "\<forall>z \<in> set (visible_rows s tx H (length H)). list_all (simple_true ti z) (where_list w) \<longrightarrow>
        set_columns ti asgs z = Inr (new z)"
    and small: "\<forall>r. row_fits (hf_schema (ti_heap_file ti)) r \<longrightarrow> tuple_len r + 4 \<le> 4088"
    and wait: "prompt wt" and room: "page_in_range (int (length H + length (visible_rows s tx H (length H))))"
  shows "\<exists>s1 H'. query_body parse wt q tx False s = Some (Inr (success_text (table_columns t t (ti_schema ti))
      (map (\<lambda>z. butlast (new z)) (filter (\<lambda>z. list_all (simple_true ti z) (where_list w)) (visible_rows s tx H (length H)))) tx), s1) \<and>
    visible_rows s1 tx H' (length H') =
      map (\<lambda>z. if list_all (simple_true ti z) (where_list w) then new z else z) (visible_rows s tx H (length H)) \<and>
    writable (ti_heap_file ti) s1 tx H' \<and> update_frame (ti_heap_file ti) s s1"
proof -
  let ?hf = "ti_heap_file ti" and ?rows = "visible_rows s tx H (length H)" and ?W = "\<lambda>z. list_all (simple_true ti z) (where_list w)"
  let ?it = "iter_at ?hf tx (length H) 0 (-1)"
  define cs where "cs = table_columns t t (ti_schema ti)"
  have wrD: "heap_rep ?hf s H" "own_chains H" "chains_ok H" "map_of (db_active s) tx \<noteq> None"
    using wr(1) own_chains_ok unfolding writable_def rc_reader_def by auto
  obtain upd es p where pp: "mapA (visit_assignment (table_scope t) tx ti t) asgs s = Some (Inr upd, s)"
    "mapA (visit_simple (table_scope t) tx) (where_list w) s = Some (Inr es, s)"
    "p = RelationPlan t t \<and> es = [] \<or> p = SelectionPlan (RelationPlan t t) es" "lp = UpdatePlan ti upd (Some p)" "s' = s"
    using preprocess_update [OF found pre] by blast
  obtain asg where asg: "compile_assignments cs upd = Inr asg"
    "\<forall>r y. length r = length cs \<longrightarrow> set_columns ti asgs r = Inr y \<longrightarrow> assign cs asg r = Inr y"
    using visit_assignments [OF found cs_def pp(1) sup(2)] by blast
  obtain es' css where es': "mapE (compile_expr cs) es = Inr es'" "rechecked (hf_schema ?hf) es'"
    "\<forall>z. length z = length cs \<longrightarrow> (holds es' z \<longleftrightarrow> ?W z)" "mapE expr_get_columns es = Inr css"
    using compiled_where [OF found ok cs_def pp(2) sup(1)] by blast
  obtain pcs where pcs: "map pc_col pcs = cs" "create_physical_plan beam_search_join_order tx lp s =
      Some (Inr (PhysicalUpdate (new_update (scan_of pcs es' ?it) asg tx)), s)"
    using update_plan_run [OF found ok name wrD(1) wr(2) cs_def pp(3) es'(1,4) asg(1)] pp(4) by blast
  have last_cs: "cs \<noteq> []" "ci_datatype (col_info (last cs)) = DT_RID" "col_table (last cs) = t"
    using ok by (simp_all add: cs_def table_ok_def table_columns_def last_map)
  define u where "u = (new_update (scan_of pcs es' ?it) asg tx)\<lparr>ui_columns := cs, ui_table := t\<rparr>"
  have beg: "update_begin (new_update (scan_of pcs es' ?it) asg tx) s = Some (Inr u, s)"
    using last_cs by (simp add: update_begin_def new_update_def u_def scan_of_begin bindA_def act_run rid_table_def pcs(1))
  note it = fresh_iter [OF wrD(1) wr(2) wrD(3,4)]
  have up: "updating ti pcs es' u ?it s H"
    using it(1) wr(1) tid found es'(2) by (simp add: updating_def u_def new_update_def iter_at_def)
  have len: "length z = length cs" if "z \<in> set ?rows" for z
    using table_row_length [OF wrD(1,3) ok that] by (simp add: cs_def)
  have hW: "holds es' z \<longleftrightarrow> ?W z" if "z \<in> set ?rows" for z using es'(3) len [OF that] by blast
  have pend: "pending es' s ?it = filter ?W ?rows" by (simp add: it(3) hW cong: filter_cong)
  have makes: "makes (hf_schema ?hf) (ui_columns u) (ui_assignments u) z (new z)" if z: "z \<in> set (filter ?W ?rows)" for z
  proof -
    have y: "set_columns ti asgs z = Inr (new z)" using new z by auto
    obtain f where f: "seen_row s tx H f = [z]"
      using rest_rows(2) [OF it(1), of H z] wrD(1) it(3) z by (auto simp: iter_at_def)
    obtain x where x: "z = x @ [VRid f]" "row_fits (hf_schema ?hf) x" using seen_row_fits [OF wrD(1,2) f] by blast
    obtain x' where x': "new z = x' @ [VRid f]" "row_fits (hf_schema ?hf) x'"
      using set_columns_fits [OF ok _ x(2), of asgs f] y x(1) by blast
    have "length x' = length cs - 1" using x'(2) ok by (auto simp: row_fits_def table_ok_def cs_def table_columns_def dest: list_all2_lengthD)
    then have "x' \<noteq> []" using two by (auto simp: cs_def table_columns_def)
    with y x x' asg(2) len [of z] z small show ?thesis by (simp add: makes_def u_def new_update_def)
  qed
  have "page_in_range (int (length H + length (filter ?W ?rows)))" by (rule in_range_le [OF room]) simp
  from collect_update_run [OF up, of new wt, unfolded pend, OF _ wait this] makes obtain s1 H' where
    run: "collect_update wt u s = Some (Inr (map (\<lambda>z. butlast (new z)) (filter ?W ?rows)), s1)" "writable ?hf s1 (ui_tx u) H'"
      "\<forall>r. seen_row s1 (ui_tx u) H' r = map (updated new (filter ?W ?rows)) (seen_row s (ui_tx u) H r)"
      "grown H H'" "update_frame ?hf s s1" by blast
  have tx: "ui_tx u = tx" "ui_child u = scan_of pcs es' ?it" by (simp_all add: u_def new_update_def)
  note run = run [unfolded tx(1)]
  have "updated new (filter ?W ?rows) z = (if ?W z then new z else z)" if "z \<in> set ?rows" for z
    using updated_pending [OF it(1), of H z new es'] wrD(1) that hW [OF that] it(3) pend by (simp add: iter_at_def)
  then have "visible_rows s1 tx H' (length H') = map (\<lambda>z. if ?W z then new z else z) ?rows"
    using rows_mapped(4) [OF run(4,3)] by simp
  moreover have "query_body parse wt q tx False s =
      Some (Inr (success_text cs (map (\<lambda>z. butlast (new z)) (filter ?W ?rows)) tx), s1)"
  proof -
    have "rewrite lp = Inr lp" by (simp add: pp(4) rewrite_def)
    moreover have "parse_query parse q tx s = Some (Inr lp, s)"
      using q pre pp(5) calculation by (simp add: parse_query_def bindA_def act_run del: preprocess.simps)
    ultimately show ?thesis
      using pcs beg run(1) by (simp add: query_body_def bindA_def act_run finish_def whenA_def tx(2) del: create_physical_plan.simps)
  qed
  ultimately show ?thesis using run(2,5) unfolding cs_def by blast
qed

section \<open>A table under another spelling\<close>

text \<open>
  The catalog finds a table whatever the case of the name, but the optimizer counts the columns
  under the stored name and the relation looks them up under the one in the statement: only the
  RID is left, and the assignment is checked against it.
\<close>

lemma other_spelling_plan:
  assumes found: "get_table_info t tx s = Some (Inr (Some ti), s)" and ok: "table_ok ti" and name: "ti_name ti \<noteq> t"
    and rep: "heap_rep (ti_heap_file ti) s H" "H \<noteq> []" and cs: "cs = table_columns t t (ti_schema ti)"
  shows "\<exists>pcs. map pc_col pcs = [last cs] \<and>
    create_physical_plan ord tx (UpdatePlan ti [(i, ExprPlanTerm v)] (Some (RelationPlan t t))) s =
    Some (Inr (PhysicalUpdate (new_update (Relation (iter_at (ti_heap_file ti) tx (length H) 0 (-1)) pcs) [(i, ExprTerm v)] tx)), s)"
proof -
  let ?u = "use_table ti (\<lambda>_. 0)"
  have none: "\<not> used (\<lambda>_. 0) c" for c by (simp add: used_def)
  have "\<not> used ?u c" if "c \<in> set (butlast cs)" for c
    using in_set_butlastD [OF that] name none
    by (auto simp: use_table_def cs fold_use used_counts col_mem_key col_key_def table_columns_def)
  then have "filter (used ?u) (butlast cs) = []" by (simp add: filter_empty_conv)
  with visit_relation_run [OF found ok rep cs, of ?u] obtain pcs where
    "visit_relation tx t t ?u s = Some (Inr (Relation (iter_at (ti_heap_file ti) tx (length H) 0 (-1)) pcs, ?u), s)"
    "map pc_col pcs = [last cs]" by auto
  then show ?thesis
    by (intro exI [of _ pcs]) (simp add: visit_update_plan_def compile_assignments_def bindA_def act_run)
qed

lemma other_spelling_text:
  assumes found: "get_table_info t tx s = Some (Inr (Some ti), s)" and ok: "table_ok ti" and name: "ti_name ti \<noteq> t"
    and tid: "hf_table_id (ti_heap_file ti) = ti_table_id ti"
    and wr: "writable (ti_heap_file ti) s tx H" "H \<noteq> []" and some: "visible_rows s tx H (length H) \<noteq> []"
    and col: "column_position (columns (ti_schema ti)) c = Some i" and val: "get_value k = Inr v"
    and q: "parse q = Inr (UpdateQuery t [(c, AdditiveExpr (MultiplicativeExpr (UnaryAtomic (AtomicConstant k)) []) [])] None)"
    and wait: "prompt wt"
  shows "\<exists>f. query_body parse wt q tx False s =
    Some (Inl (if i = 0 then QueryException (''Type mismatch in update assignment for column '' @ ci_name (last (columns (ti_schema ti))))
      else Stuck), locked tx (lock_key (ti_heap_file ti) f) s)"
proof -
  let ?hf = "ti_heap_file ti" and ?rows = "visible_rows s tx H (length H)" and ?it = "iter_at (ti_heap_file ti) tx (length H) 0 (-1)"
  define cs where "cs = table_columns t t (ti_schema ti)"
  have wrD: "heap_rep ?hf s H" "chains_ok H" "map_of (db_active s) tx \<noteq> None"
    using wr(1) own_chains_ok unfolding writable_def rc_reader_def by auto
  let ?lp = "UpdatePlan ti [(i, ExprPlanTerm v)] (Some (RelationPlan t t))"
  have k: "known_table t tx s = Some (Inr ti, s)" "check_table t tx s = Some (Inr (), s)"
    by (simp_all add: known_table_def check_table_def table_exists_def bindA_def found act_run)
  have parsed: "parse_query parse q tx s = Some (Inr ?lp, s)"
    by (simp add: parse_query_def q visit_update_def visit_assignment_def visit_where_def bindA_def act_run k col val rewrite_def)
  obtain pcs where pcs: "map pc_col pcs = [last cs]"
    "create_physical_plan beam_search_join_order tx ?lp s = Some (Inr (PhysicalUpdate (new_update (Relation ?it pcs) [(i, ExprTerm v)] tx)), s)"
    using other_spelling_plan [OF found ok name wrD(1) wr(2) cs_def, where i = i and v = v and ord = beam_search_join_order] by metis
  have last_cs: "ci_datatype (col_info (last cs)) = DT_RID" "col_table (last cs) = t"
    "ci_name (col_info (last cs)) = ci_name (last (columns (ti_schema ti)))"
    using ok by (simp_all add: cs_def table_ok_def table_columns_def last_map)
  define u where "u = (new_update (scan_of pcs [] ?it) [(i, ExprTerm v)] tx)\<lparr>ui_columns := [last cs], ui_table := t\<rparr>"
  have sc: "Relation ?it pcs = scan_of pcs [] ?it" by (simp add: scan_of_def)
  have beg: "update_begin (new_update (scan_of pcs [] ?it) [(i, ExprTerm v)] tx) s = Some (Inr u, s)"
    using last_cs by (simp add: update_begin_def new_update_def u_def scan_of_begin bindA_def act_run rid_table_def pcs(1))
  note it = fresh_iter [OF wrD(1) wr(2) wrD(2,3)]
  have "rechecked (hf_schema ?hf) []" unfolding rechecked_def by simp blast
  then have up: "updating ti pcs [] u ?it s H"
    using it(1) wr(1) tid found by (simp add: updating_def u_def new_update_def iter_at_def)
  obtain x xs where x: "pending [] s ?it = x # xs" using some it(3) by (cases ?rows) auto
  have tx: "ui_tx u = tx" "ui_columns u = [last cs]" "ui_assignments u = [(i, ExprTerm v)]"
    by (simp_all add: u_def new_update_def)
  let ?e = "if i = 0 then QueryException (''Type mismatch in update assignment for column '' @ ci_name (last (columns (ti_schema ti)))) else Stuck"
  have "assign [last cs] [(i, ExprTerm v)] x = Inl ?e"
    using last_cs by (simp add: assign_value_def nthE_def)
  with update_next_until [OF up x wait, unfolded tx] obtain f where
    "update_next wt u s = Some (Inl ?e, locked tx (lock_key ?hf f) s)"
    by (auto simp: Let_def bindA_def act_run)
  then have "collect_update wt u s = Some (Inl ?e, locked tx (lock_key ?hf f) s)"
    by (subst collect_update.simps) (simp add: bindA_def)
  then have "query_body parse wt q tx False s = Some (Inl ?e, locked tx (lock_key ?hf f) s)"
    using pcs(2) [unfolded sc] beg by (simp add: query_body_def bindA_def parsed del: create_physical_plan.simps)
  then show ?thesis by blast
qed

end
