(* ===== verification/Query_Properties.thy ===== *)
theory Query_Properties
  imports Examples Query_Correct
begin

text \<open>
  What the query pipeline guarantees, from the text of a query to its rows, and where it
  departs from SQL. Each property with a hypothesis is followed by a witness.
\<close>

section \<open>Examples\<close>


text \<open>\<open>WHERE b > 8\<close>\<close>

definition demo_condition :: simple_expr_ctx where
  "demo_condition = ComparisonExpr (ColumnOperand (PlainColumn ''b'')) (Some (''>'', ConstantOperand (IntegerToken ''8'')))"

definition demo_where :: "simple_expr_ctx list" where
  "demo_where = [demo_condition]"

definition demo_query :: query_ctx where
  "demo_query = SelectQuery False None [TableItem ''t'' None] (Some demo_where) None"

lemma demo_lookup:
  "db_tables s = db_tables demo_db \<Longrightarrow> get_table_info ''t'' tx s = Some (Inr (Some demo_table), s)"
  by (simp add: get_table_info_def normalize_def tolower_def name_char_def bindA_def act_run find_table_def demo_defs Let_def)

lemma demo_table_ok: "table_ok demo_table"
  by (simp add: table_ok_def demo_defs stored_types_def)

lemma demo_constant: "get_value (IntegerToken ''8'') = Inr (VInt 8)"
  by (simp add: get_value_def stoll_def signed_value_def digits_value_def digit_value_def is_digit_def)

lemma visit_where_one:
  "visit_simple sc tx e s = Some (Inr e', s) \<Longrightarrow> visit_where sc tx (Some [e]) p s = Some (Inr (SelectionPlan p [e']), s)"
  by (simp add: visit_where_def bindA_def act_run)

lemma demo_preprocessed:
  assumes "db_tables s = db_tables demo_db"
  shows "\<exists>lp. preprocess tx demo_query s = Some (Inr lp, s)"
proof -
  note found = demo_lookup [OF assms]
  have d: "deref_table ''t'' tx s = Some (Inr demo_table, s)" by (rule deref_found [OF found])
  have k: "known_table ''t'' tx s = Some (Inr demo_table, s)"
    by (simp add: known_table_def bindA_def found act_run)
  have c: "get_column (one_table ''t'' ''t'') tx (PlainColumn ''b'') s = Some (Inr
      \<lparr>col_alias = ''t'', col_table = ''t'', col_info = \<lparr>ci_name = ''b'', ci_datatype = DT_INT, ci_table_id = 0\<rparr>\<rparr>, s)"
    by (simp add: one_table_def bindA_def d act_run column_of_def column_type_def demo_defs)
  have w: "visit_simple (one_table ''t'' ''t'') tx demo_condition s = Some (Inr (ExprPlanLess (ExprPlanTerm (VInt 8))
      (ExprPlanColumn \<lparr>col_alias = ''t'', col_table = ''t'',
        col_info = \<lparr>ci_name = ''b'', ci_datatype = DT_INT, ci_table_id = 0\<rparr>\<rparr>)), s)"
    by (simp add: demo_condition_def visit_comparison_def bindA_def c act_run demo_constant comparison_def del: get_column.simps)
  have f: "visit_table_list tx [TableItem ''t'' None] s = Some (Inr (RelationPlan ''t'' ''t'', one_table ''t'' ''t''), s)"
    using from_one_table [OF found, where al = None] by (simp add: item_alias_def)
  have a: "all_columns (one_table ''t'' ''t'') tx s =
      Some (Inr (columns_under ''t'' ''t'' (stored_columns demo_table)), s)"
    by (simp add: all_columns_def one_table_def bindA_def k act_run)
  from visit_where_one [OF w] show ?thesis
    by (simp add: demo_query_def visit_select_query_def visit_limit_def visit_select_def bindA_def act_run f a demo_where_def)
qed

section \<open>SELECT\<close>

text \<open>
  C1. \<open>SELECT * FROM t [AS a] [WHERE ...] [LIMIT n]\<close>, which the preprocessor accepts, under these conditions: each
  condition of the clause compares columns of the table or constants with one of the operators, or tests a range, with
  no comparison of two columns by \<^verbatim>\<open>==\<close> (the rewriter drops those, so that every row is returned:
  \<open>equality_lost\<close>), no \<^verbatim>\<open>LIKE\<close> (its matcher has no body) and no column the table does not have
  (\<open>supported\<close>); the table has a stored column, its file has a page and its records are well-formed chains of
  versions (\<open>heap_rep\<close>, \<open>chains_ok\<close>). Then running the text through
  preprocessor, rewriter, optimizer and operators returns exactly the versions of the table the transaction
  sees that satisfy the clause, in the order of their records, without their RIDs and at most
  \<open>n\<close> of them, under a header with the table's columns; nothing in the database changes.
\<close>

theorem select_star:
  assumes "get_table_info t tx s = Some (Inr (Some ti), s)" "table_ok ti" "length (columns (ti_schema ti)) > 1"
    "heap_rep (ti_heap_file ti) s H" "H \<noteq> []" "chains_ok H" "map_of (db_active s) tx \<noteq> None"
    "parse q = Inr (SelectQuery False None [TableItem t al] w l)"
    "preprocess tx (SelectQuery False None [TableItem t al] w l) s = Some (Inr lp, s')"
    "list_all (supported ti) (where_list w)"
  shows "\<exists>n. visit_limit l = Inr n \<and>
    execute_query parse wt q tx False s = Some (Inr (success_text
      (butlast (table_columns (item_alias t al) t (ti_schema ti)))
      (take (unat n) (map butlast (filter (\<lambda>r. list_all (simple_true ti r) (where_list w))
        (visible_rows s tx H (length H))))) tx), s)"
  using select_star_text [where parse = parse and q = q, OF assms(1,2,4-7,3,8-10), of wt]
  by (auto simp: execute_query_def catchA_def)

theorem select_star_witness:
  "\<exists>rid s. heap_insert demo_file [VInt 7, VInt 9] 1 None demo_db = Some (Inr rid, s) \<and>
     execute_query (\<lambda>q. Inr demo_query) demo_wait [] 1 False s =
       Some (Inr (success_text (butlast (table_columns ''t'' ''t'' demo_schema)) [[VInt 7, VInt 9]] 1), s)"
proof -
  obtain rid s H where ex: "heap_insert demo_file [VInt 7, VInt 9] 1 None demo_db = Some (Inr rid, s)"
    "heap_rep demo_file s H" "length H = 1" "chains_ok H" "map_of (db_active s) 1 \<noteq> None"
    "db_tables s = db_tables demo_db" "visible_rows s 1 H (length H) = [[VInt 7, VInt 9, VRid rid]]"
    using demo_visible by blast
  obtain lp where lp: "preprocess 1 demo_query s = Some (Inr lp, s)" using demo_preprocessed [OF ex(6)] by blast
  have "list_all (supported demo_table) (where_list (Some demo_where))"
    by (simp add: where_list_def demo_where_def demo_condition_def has_column_def demo_defs)
  moreover have "simple_true demo_table [VInt 7, VInt 9, VRid rid] demo_condition"
    by (simp add: demo_condition_def cell_def demo_defs nthE_def demo_constant compare_def less_db_value_def)
  moreover have "where_list (Some demo_where) = [demo_condition]" by (simp add: where_list_def demo_where_def)
  moreover have "heap_rep (ti_heap_file demo_table) s H" using ex(2) by (simp add: demo_table_def)
  moreover have "H \<noteq> []" using ex(3) by auto
  ultimately have "execute_query (\<lambda>q. Inr demo_query) demo_wait [] 1 False s =
       Some (Inr (success_text (butlast (table_columns ''t'' ''t'' demo_schema)) [[VInt 7, VInt 9]] 1), s)"
    using select_star [where parse = "\<lambda>q. Inr demo_query" and q = "[]" and wt = demo_wait,
        OF demo_lookup [OF ex(6)] demo_table_ok _ _ _ ex(4,5) _ lp [unfolded demo_query_def]] ex(3,7)
    by (auto simp: demo_query_def item_alias_def visit_limit_def NO_LIMIT_def demo_table_def demo_schema_def)
  with ex(1) show ?thesis by blast
qed

text \<open>
  C33. \<open>SELECT c FROM t\<close> with one column does not return that column: the relation hands on whole rows under
  a list of the columns that are needed, so the projection looks the column up at position 0 and returns the
  first value of every row.
\<close>

theorem single_column:
  assumes "get_table_info t tx s = Some (Inr (Some ti), s)" "table_ok ti"
    "heap_rep (ti_heap_file ti) s H" "H \<noteq> []" "chains_ok H" "map_of (db_active s) tx \<noteq> None"
    "cs = table_columns a t (ti_schema ti)" "c \<in> set (butlast cs)"
  shows "\<exists>p it it'. create_physical_plan ord tx (QueryPlan (ProjectionPlan (RelationPlan a t) False lim [c])) s =
        Some (Inr (PhysicalQuery p), s) \<and>
      qbegin scan_begin scan_next scan_reset p s = Some (Inr (it, s)) \<and>
      qcollect scan_next scan_reset it s =
        Some (Inr (take (unat lim) (map (\<lambda>r. [hd r]) (visible_rows s tx H (length H))), it', s))"
  by (rule single_column_run [OF assms])

theorem single_column_witness:
  "\<exists>rid s p it it'. heap_insert demo_file [VInt 7, VInt 9] 1 None demo_db = Some (Inr rid, s) \<and>
     create_physical_plan beam_search_join_order 1 (QueryPlan (ProjectionPlan (RelationPlan ''t'' ''t'') False NO_LIMIT
       [\<lparr>col_alias = ''t'', col_table = ''t'', col_info = demo_column\<lparr>ci_name := ''b''\<rparr>\<rparr>])) s = Some (Inr (PhysicalQuery p), s) \<and>
     qbegin scan_begin scan_next scan_reset p s = Some (Inr (it, s)) \<and>
     qcollect scan_next scan_reset it s = Some (Inr ([[VInt 7]], it', s))"
proof -
  obtain rid s H where ex: "heap_insert demo_file [VInt 7, VInt 9] 1 None demo_db = Some (Inr rid, s)"
    "heap_rep demo_file s H" "length H = 1" "chains_ok H" "map_of (db_active s) 1 \<noteq> None"
    "db_tables s = db_tables demo_db" "visible_rows s 1 H (length H) = [[VInt 7, VInt 9, VRid rid]]"
    using demo_visible by blast
  have "heap_rep (ti_heap_file demo_table) s H" "H \<noteq> []" using ex(2,3) by (auto simp: demo_table_def)
  moreover have "\<lparr>col_alias = ''t'', col_table = ''t'', col_info = demo_column\<lparr>ci_name := ''b''\<rparr>\<rparr>
      \<in> set (butlast (table_columns ''t'' ''t'' (ti_schema demo_table)))"
    by (simp add: table_columns_def demo_table_def demo_schema_def)
  ultimately show ?thesis
    using single_column [OF demo_lookup [OF ex(6)] demo_table_ok _ _ ex(4,5) refl, where lim = NO_LIMIT] ex(1,7)
    by (fastforce simp: NO_LIMIT_def)
qed

section \<open>Rewriting\<close>

text \<open>
  C18. The search over the equalities of the WHERE clause ends and finds, starting from one alias, exactly the
  aliases connected to it.
\<close>

theorem joined_aliases:
  "set (close_aliases eqs [a] [a]) = (linked eqs)\<^sup>* `` {a}"
  by (rule close_aliases_connected)

text \<open>
  C17. Pushing the conditions on one column down to its relation succeeds for every product or join of relations
  with different aliases and does not change the rows of the query, in content or order.
\<close>

theorem pushing_keeps_rows:
  assumes "named_rows T" "tree p" "distinct (map fst (rel_keys p))" "list_all (covered (rel_keys p)) es"
  shows "\<exists>q m. push_selection (SelectionPlan p es) (\<lambda>_. None) = Inr (q, m) \<and> sem T q = sem T (SelectionPlan p es)"
  by (rule push_selection_run [OF assms])

definition demo_plan :: query_plan where
  "demo_plan = CartesianProductPlan [RelationPlan ''x'' ''t'', RelationPlan ''y'' ''t'']"

definition demo_at :: "string \<Rightarrow> string \<Rightarrow> column" where
  "demo_at a c = \<lparr>col_alias = a, col_table = ''t'', col_info = demo_column\<lparr>ci_name := c\<rparr>\<rparr>"

definition demo_rows :: "string \<Rightarrow> string \<Rightarrow> lrow list" where
  "demo_rows a t = [[(a, ''a'') \<mapsto> VInt 7, (a, ''b'') \<mapsto> VInt 9], [(a, ''a'') \<mapsto> VInt 1, (a, ''b'') \<mapsto> VInt 2]]"

theorem pushing_keeps_rows_witness:
  "\<exists>q m. push_selection (SelectionPlan demo_plan [ExprPlanLess (ExprPlanColumn (demo_at ''x'' ''a'')) (ExprPlanTerm (VInt 5))])
       (\<lambda>_. None) = Inr (q, m) \<and>
     sem demo_rows q = sem demo_rows (SelectionPlan demo_plan [ExprPlanLess (ExprPlanColumn (demo_at ''x'' ''a'')) (ExprPlanTerm (VInt 5))])"
  by (rule pushing_keeps_rows)
    (auto simp: named_rows_def demo_rows_def demo_plan_def covered_def union_of_def col_union_def key_of_def demo_at_def)

text \<open>
  C34. An equality between two columns of the only table of a query is lost: with it or without it the rewriter
  makes the same plan, so \<open>WHERE a == b\<close> selects every row.
\<close>

theorem equality_lost:
  "rewrite (QueryPlan (ProjectionPlan (SelectionPlan (RelationPlan a t)
       (es @ [ExprPlanEquals (ExprPlanColumn x) (ExprPlanColumn y)])) d lim proj)) =
   rewrite (QueryPlan (ProjectionPlan (SelectionPlan (RelationPlan a t) es) d lim proj))"
  by (simp add: rewrite_def)

text \<open>
  C35. A condition on a column of the right-hand table of an outer join is moved below the join, where it no
  longer removes the rows of the left-hand table that have no match.
\<close>

theorem outer_join_condition:
  assumes "expr_get_columns e = Inr [c]" "col_alias c = j" "col_table c = r" "l \<noteq> r" "on \<noteq> []"
  shows "\<exists>m. push_selection (SelectionPlan (LeftOuterJoinPlan j (RelationPlan j l) (RelationPlan j r) on) [e]) (\<lambda>_. None) =
    Inr (LeftOuterJoinPlan j (RelationPlan j l) (SelectionPlan (RelationPlan j r) [e]) on, m)"
  using assms by (auto simp: push_two_def push_relation_def add_simple_def)

theorem outer_join_condition_witness:
  "\<exists>m. push_selection (SelectionPlan (LeftOuterJoinPlan ''j'' (RelationPlan ''j'' ''u'') (RelationPlan ''j'' ''t'')
       [(demo_at ''j'' ''a'', demo_at ''j'' ''b'')]) [ExprPlanEquals (ExprPlanColumn (demo_at ''j'' ''a'')) (ExprPlanTerm (VInt 5))])
       (\<lambda>_. None) =
    Inr (LeftOuterJoinPlan ''j'' (RelationPlan ''j'' ''u'') (SelectionPlan (RelationPlan ''j'' ''t'')
       [ExprPlanEquals (ExprPlanColumn (demo_at ''j'' ''a'')) (ExprPlanTerm (VInt 5))])
       [(demo_at ''j'' ''a'', demo_at ''j'' ''b'')], m)"
  by (rule outer_join_condition [where c = "demo_at ''j'' ''a''"]) (simp_all add: union_of_def col_union_def demo_at_def)

text \<open>
  C31. Cloning a plan gives the same plan, except that the clone of an update has no assignments.
\<close>

theorem clone_plan:
  assumes "case lp of QueryPlan p \<Rightarrow> plan_wf p | UpdatePlan ti upd c \<Rightarrow> pred_option plan_wf c
    | DeletionPlan ti c \<Rightarrow> pred_option plan_wf c | _ \<Rightarrow> True"
  shows "logical_clone lp = Inr (case lp of UpdatePlan ti upd c \<Rightarrow> UpdatePlan ti [] c | _ \<Rightarrow> lp)"
  using assms by (cases lp) (auto simp: child_clone_def plan_clone_same split: option.splits)

theorem clone_plan_witness:
  "logical_clone (QueryPlan demo_plan) = Inr (QueryPlan demo_plan)"
  using clone_plan [of "QueryPlan demo_plan"] by (simp add: demo_plan_def)

section \<open>INSERT\<close>

text \<open>
  C2. \<open>INSERT INTO t VALUES (...)\<close> that the preprocessor accepts stores exactly the values written in the
  statement, as one new record with a fresh header, in a table whose rows fit into a page; every other
  slot of the table keeps its version and nothing but the table's pages and the transaction's write set changes.
\<close>

theorem insert_stores:
  assumes "get_table_info t tx s = Some (Inr (Some ti), s)" "table_ok ti"
    "heap_rep (ti_heap_file ti) s H" "map_of (db_active s) tx \<noteq> None"
    "parse q = Inr (InsertQuery t vs)" "preprocess tx (InsertQuery t vs) s = Some (Inr lp, s')"
    "length (columns (ti_schema ti)) < 2 ^ 64" "length vs < 2 ^ 64 - 1"
    "\<forall>r. row_fits (hf_schema (ti_heap_file ti)) r \<longrightarrow> tuple_len r + 4 \<le> 4088"
    "db_last_insert s (hf_table_id (ti_heap_file ti)) = int n" "n \<le> length H" "page_in_range (int (length H + 1))"
  shows "\<exists>row rid s1 H'. mapE get_value vs = Inr row \<and>
    execute_query parse wt q tx False s = Some (Inr (action_text tx), s1) \<and> heap_rep (ti_heap_file ti) s1 H' \<and>
    inserted H H' rid (new_header tx rid None, row) \<and> insert_frame (ti_heap_file ti) tx None rid s s1"
proof -
  obtain row rid s1 H' where run: "mapE get_value vs = Inr row"
    "query_body parse wt q tx False s = Some (Inr (action_text tx), s1)" "heap_rep (ti_heap_file ti) s1 H'"
    "inserted H H' rid (new_header tx rid None, row)" "insert_frame (ti_heap_file ti) tx None rid s s1"
    using insert_text [where parse = parse and q = q, OF assms] by blast
  then have "execute_query parse wt q tx False s = Some (Inr (action_text tx), s1)"
    by (simp add: execute_query_def catchA_def)
  with run show ?thesis by blast
qed

lemma demo_fits: "row_fits demo_schema r \<longleftrightarrow> (\<exists>i j. r = [VInt i, VInt j])"
proof -
  have "value_fits DT_INT v \<longleftrightarrow> (\<exists>i. v = VInt i)" for v by (cases v) auto
  then show ?thesis by (auto simp: row_fits_def stored_types_def demo_defs list_all2_Cons1)
qed

lemma demo_insert_preprocessed:
  "preprocess 1 (InsertQuery ''t'' [IntegerToken ''8'', IntegerToken ''8'']) demo_db =
     Some (Inr (InsertionPlan ''t'' [CInt 8, CInt 8]), demo_db)"
proof -
  have k: "known_table ''t'' 1 demo_db = Some (Inr demo_table, demo_db)" "check_table ''t'' 1 demo_db = Some (Inr (), demo_db)"
    by (simp_all add: known_table_def check_table_def table_exists_def bindA_def demo_lookup act_run)
  have c: "get_constant (IntegerToken ''8'') = Inr (CInt 8)"
    by (simp add: stoll_def signed_value_def digits_value_def digit_value_def is_digit_def)
  have "insert_values ''t'' (butlast (columns demo_schema)) [IntegerToken ''8'', IntegerToken ''8''] = Inr [CInt 8, CInt 8]"
    by (simp add: demo_defs c del: get_constant.simps)
  then show ?thesis
    by (simp add: visit_insert_def bindA_def k act_run Let_def demo_table_def) (simp add: demo_schema_def)
qed

theorem insert_stores_witness:
  "\<exists>s1. execute_query (\<lambda>q. Inr (InsertQuery ''t'' [IntegerToken ''8'', IntegerToken ''8''])) demo_wait [] 1 False demo_db =
     Some (Inr (action_text 1), s1)"
proof -
  have rep: "heap_rep (ti_heap_file demo_table) demo_db []" using demo_rep by (simp add: demo_table_def)
  have small: "\<forall>r. row_fits (hf_schema (ti_heap_file demo_table)) r \<longrightarrow> tuple_len r + 4 \<le> 4088"
    using demo_size by (auto simp: demo_table_def demo_file_def demo_fits)
  have "map_of (db_active demo_db) 1 \<noteq> None" "length (columns (ti_schema demo_table)) < 2 ^ 64"
    "db_last_insert demo_db (hf_table_id (ti_heap_file demo_table)) = int 0" "page_in_range (int (length [] + 1))"
    by (simp_all add: demo_db_def demo_table_def demo_schema_def page_in_range_def)
  from insert_stores [where parse = "\<lambda>q. Inr (InsertQuery ''t'' [IntegerToken ''8'', IntegerToken ''8''])" and q = "[]" and wt = demo_wait,
      OF demo_lookup [OF refl] demo_table_ok rep this(1) refl demo_insert_preprocessed this(2) _ small this(3) _ this(4)]
  show ?thesis by auto
qed

section \<open>Constants\<close>

text \<open>
  C19. Every 64-bit integer, printed the way results are printed, is read back as the same integer, and a number
  outside that range is refused.
\<close>

theorem integer_token:
  "get_constant (IntegerToken (int_to_string i)) =
     (if - (2 ^ 63) \<le> i \<and> i < 2 ^ 63 then Inr (CInt (word_of_int i))
      else Inl (QueryException (''Integer '' @ int_to_string i @ '' is out of range'')))"
  by (simp add: stoll_def signed_of_int)

text \<open>
  C20. A string of at most 255 characters without a backslash survives escaping, quoting and preprocessing.
\<close>

theorem string_token:
  assumes "CHR 0x5C \<notin> set s" "length s \<le> MAX_STRLEN"
  shows "get_constant (StringToken (CHR 0x22 # escape_string s @ [CHR 0x22])) = Inr (CStr s)"
  using assms by (simp add: strip_quotes_def unescape_escape)

theorem string_token_witness:
  "get_constant (StringToken (CHR 0x22 # escape_string [CHR ''a'', CHR 0x0A, CHR 0x22] @ [CHR 0x22])) =
     Inr (CStr [CHR ''a'', CHR 0x0A, CHR 0x22])"
  by (rule string_token) (simp_all add: MAX_STRLEN_def)

text \<open>
  C36. An outer join whose condition names a table that does not exist is not refused: the preprocessor
  uses the null pointer the catalog returns.
\<close>

theorem unknown_join_table:
  assumes "get_table_info l tx s = Some (Inr (Some li), s)" "get_table_info r tx s = Some (Inr (Some ri), s)"
    "get_table_info x tx s = Some (Inr None, s)"
  shows "preprocess tx (SelectQuery d cs [LeftOuterItem l r ((DottedColumn x c, y) # on) a] w None) s = Some (Inl Stuck, s)"
  using assms
  by (simp add: visit_select_query_def visit_limit_def visit_table_list_def visit_left_outer_join_def outer_join_columns_def
      visit_on_def check_table_def table_exists_def table_has_column_def deref_table_def empty_scope_def bindA_def act_run)

theorem unknown_join_table_witness:
  "preprocess 1 (SelectQuery False None [LeftOuterItem ''t'' ''t'' [(DottedColumn ''u'' ''a'', DottedColumn ''t'' ''a'')] ''j''] None None)
     demo_db = Some (Inl Stuck, demo_db)"
proof -
  have "get_table_info ''u'' 1 demo_db = Some (Inr None, demo_db)"
    by (simp add: get_table_info_def normalize_def tolower_def name_char_def bindA_def act_run find_table_def in_process_of_def
        demo_defs Let_def)
  from unknown_join_table [OF demo_lookup [OF refl] demo_lookup [OF refl] this] show ?thesis .
qed

section \<open>Optimizing\<close>

text \<open>
  C32. Visiting a plan, however it is built, changes the usage counts of the columns by its projections alone: every
  column is counted once more for each time a projection of the plan lists it, and everything a selection, a
  join or an outer join counts is taken back. So a plan without projections gives the counts back as they were, and
  siblings do not influence each other's columns. This holds for every join order that names no child, as the
  stub of the source does, or every child.
\<close>

theorem visit_keeps_counts:
  assumes "full_order ord" "visit ord tx p u s = Some (Inr (q, u'), s')"
  shows "u' k = u k + length (filter (\<lambda>c. col_key c = k) (projected_columns p))"
  using addsD [OF visit_adds [OF assms(1)] assms(2)] by (simp add: counts_def)

text \<open>The plan of \<open>SELECT a FROM t WHERE b > 8\<close>: only \<open>a\<close> is left counted.\<close>

definition demo_select :: query_plan where
  "demo_select = ProjectionPlan (SelectionPlan (RelationPlan ''t'' ''t'')
     [ExprPlanLess (ExprPlanTerm (VInt 8)) (ExprPlanColumn (demo_at ''t'' ''b''))]) False 0 [demo_at ''t'' ''a'']"

theorem visit_keeps_counts_witness:
  "\<exists>rid s q u. heap_insert demo_file [VInt 7, VInt 9] 1 None demo_db = Some (Inr rid, s) \<and>
     visit beam_search_join_order 1 demo_select (\<lambda>_. 0) s = Some (Inr (q, u), s) \<and>
     u (''t'', ''a'') = 1 \<and> u (''t'', ''b'') = 0"
proof -
  obtain rid s H where ex: "heap_insert demo_file [VInt 7, VInt 9] 1 None demo_db = Some (Inr rid, s)"
    "heap_rep demo_file s H" "length H = 1" "chains_ok H" "map_of (db_active s) 1 \<noteq> None"
    "db_tables s = db_tables demo_db" "visible_rows s 1 H (length H) = [[VInt 7, VInt 9, VRid rid]]"
    using demo_visible by blast
  have "heap_rep (ti_heap_file demo_table) s H" "H \<noteq> []" using ex(2,3) by (auto simp: demo_table_def)
  then obtain pcs where "visit_relation 1 ''t'' ''t'' (use_column (demo_at ''t'' ''b'') (use_column (demo_at ''t'' ''a'') (\<lambda>_. 0))) s =
      Some (Inr (Relation (iter_at demo_file 1 (length H) 0 (-1)) pcs,
        use_column (demo_at ''t'' ''b'') (use_column (demo_at ''t'' ''a'') (\<lambda>_. 0))), s)"
    "map pc_col pcs = [demo_at ''t'' ''a'', demo_at ''t'' ''b'', demo_at ''t'' ''RID'' \<lparr>col_info := \<lparr>ci_name = ''RID'', ci_datatype = DT_RID, ci_table_id = 0\<rparr>\<rparr>]"
    using visit_relation_run [OF demo_lookup [OF ex(6)] demo_table_ok _ _ refl, where tx = 1 and a = "''t''" and
        u = "use_column (demo_at ''t'' ''b'') (use_column (demo_at ''t'' ''a'') (\<lambda>_. 0))"]
    by (fastforce simp: demo_at_def table_columns_def demo_defs used_def use_column_def col_key_def)
  then have "\<exists>q u. visit beam_search_join_order 1 demo_select (\<lambda>_. 0) s = Some (Inr (q, u), s)"
    by (simp add: demo_select_def visit_projection_def visit_selection_def bindA_def act_run union_of_def col_union_def
        compile_column_def demo_at_def column_eq_key col_key_def)
  then obtain q u where v: "visit beam_search_join_order 1 demo_select (\<lambda>_. 0) s = Some (Inr (q, u), s)" by blast
  have "u (''t'', ''a'') = 1" "u (''t'', ''b'') = 0"
    by (simp_all add: visit_keeps_counts [OF beam_search_full v] demo_select_def demo_at_def col_key_def)
  with v ex(1) show ?thesis by blast
qed

end
