(* ===== verification/Update_Properties.thy ===== *)
theory Update_Properties
  imports Update_Correct Query_Properties
begin

text \<open>
  What UPDATE guarantees, from the text of the statement to the rows of the table, and where it
  fails. Each property is followed by a witness on the database of \<open>Examples\<close>.
\<close>

section \<open>Examples\<close>

text \<open>The transaction that inserted the record of the example may update it.\<close>

lemma demo_writable:
  "\<exists>rid s H. heap_insert demo_file [VInt 7, VInt 9] 1 None demo_db = Some (Inr rid, s) \<and> writable demo_file s 1 H \<and>
     length H = 1 \<and> db_tables s = db_tables demo_db \<and> visible_rows s 1 H (length H) = [[VInt 7, VInt 9, VRid rid]]"
proof -
  obtain rid s H where ex: "heap_insert demo_file [VInt 7, VInt 9] 1 None demo_db = Some (Inr rid, s)"
    "heap_rep demo_file s H" "length H = 1" "db_tables s = db_tables demo_db"
    "visible_rows s 1 H (length H) = [[VInt 7, VInt 9, VRid rid]]"
    using demo_visible by blast
  from demo_inserted ex(1) obtain H' where ins: "heap_rep demo_file s H'"
    "inserted [] H' rid (new_header 1 rid None, [VInt 7, VInt 9])" "insert_frame demo_file 1 None rid demo_db s" by auto
  have H': "H' = H" using heap_of_rep [OF ins(1)] heap_of_rep [OF ex(2)] by simp
  note fr = demo_frame [OF ins(3)] and ch = demo_chain [OF ins(2), unfolded H']
  have sl: "slot_at H r = (if r = rid then Some (new_header 1 rid None, [VInt 7, VInt 9]) else None)" for r
    using ins(2) by (simp add: inserted_def H') (simp add: slot_at_def in_heap_def)
  have "own_chains H"
    unfolding own_chains_def using sl ch(2) by (auto simp: new_header_def split: if_splits)
  moreover have "updatable demo_file s 1 H"
    unfolding updatable_def
  proof (intro allI impI)
    fix r h x v
    assume r: "slot_at H r = Some (h, x)" "first_seen s 1 (chain_of H r) = Some v"
    then have "r = rid" using sl by (simp split: if_splits)
    with r(2) have "v = (rid, new_header 1 rid None, [VInt 7, VInt 9])"
      by (simp add: chain_of_eq [OF ch(2)] first_seen_def split: if_splits)
    moreover have "rid \<noteq> rid_deleted" using not_special [OF slot_at_Some [OF ch(1)]] by simp
    ultimately show "v = last (chain_of H r) \<and> next_rid (v_head v) \<noteq> rid_deleted \<and> may_lock s 1 (lock_key demo_file r)"
      using fr(4) by (simp add: \<open>r = rid\<close> chain_of_eq [OF ch(2)] new_header_def may_lock_def)
  qed
  moreover have "rc_reader s 1" using fr(2) by (simp add: rc_reader_def new_transaction_def)
  moreover obtain n k where "rid = RID (int n) (int k)" "n < length H"
    using slot_at_Some [OF ch(1)] by (auto elim!: in_heapE)
  then have "\<exists>n. db_last_insert s (hf_table_id demo_file) = int n \<and> n \<le> length H"
    using fr(1) by (auto simp: demo_file_def)
  ultimately have "writable demo_file s 1 H" using ex(2) unfolding writable_def by simp
  with ex show ?thesis by blast
qed

definition demo_assignments :: "(string \<times> additive_ctx) list" where
  "demo_assignments = [(''a'', AdditiveExpr (MultiplicativeExpr (UnaryAtomic (AtomicColumn (PlainColumn ''b''))) []) [])]"

lemma demo_update_preprocessed:
  assumes "db_tables s = db_tables demo_db"
  shows "\<exists>lp. preprocess tx (UpdateQuery ''t'' demo_assignments (Some demo_where)) s = Some (Inr lp, s)"
proof -
  note found = demo_lookup [OF assms]
  have d: "deref_table ''t'' tx s = Some (Inr demo_table, s)" by (rule deref_found [OF found])
  have k: "known_table ''t'' tx s = Some (Inr demo_table, s)" "check_table ''t'' tx s = Some (Inr (), s)"
    by (simp_all add: known_table_def check_table_def table_exists_def bindA_def found act_run)
  have c: "get_column (table_scope ''t'') tx (PlainColumn ''b'') s = Some (Inr
      \<lparr>col_alias = ''t'', col_table = ''t'', col_info = \<lparr>ci_name = ''b'', ci_datatype = DT_INT, ci_table_id = 0\<rparr>\<rparr>, s)"
    by (simp add: table_scope_def bindA_def d act_run column_of_def column_type_def demo_defs)
  have w: "\<exists>e. visit_simple (table_scope ''t'') tx demo_condition s = Some (Inr e, s)"
    by (simp add: demo_condition_def visit_comparison_def bindA_def c act_run demo_constant comparison_def del: get_column.simps)
  have "column_position (columns (ti_schema demo_table)) ''a'' = Some 0" by (simp add: demo_defs)
  then have a: "\<exists>upd. mapA (visit_assignment (table_scope ''t'') tx demo_table ''t'') demo_assignments s = Some (Inr upd, s)"
    by (simp add: demo_assignments_def visit_assignment_def bindA_def c act_run del: get_column.simps)
  from w obtain e where "visit_where (table_scope ''t'') tx (Some demo_where) (RelationPlan ''t'' ''t'') s =
      Some (Inr (SelectionPlan (RelationPlan ''t'' ''t'') [e]), s)"
    using visit_where_one unfolding demo_where_def by blast
  with a show ?thesis by (auto simp: visit_update_def bindA_def act_run k)
qed

section \<open>UPDATE\<close>

text \<open>
  C3. \<open>UPDATE t SET c = e, ... [WHERE ...]\<close>, accepted by the preprocessor, under these conditions: \<open>t\<close> is
  written as the catalog has it, in lower case (another spelling fails, \<open>update_other_spelling\<close>); the table has a stored
  column and its file a page; each condition of the clause compares stored columns of the table or constants with one of
  the operators, or tests a range, with no comparison of two columns by
  \<^verbatim>\<open>==\<close> (the rewriter drops those, \<open>equality_lost\<close>) and no \<^verbatim>\<open>LIKE\<close> (\<open>supported\<close>); the assigned expressions
  name columns of the table and have no unary minus (\<open>additive_known\<close>); the transaction may write every
  record it sees (\<open>writable\<close>), the first try for a lock comes in time, every tuple of the table fits into a page
  and the file may grow; and the assignments give every matching row new values. Then the statement returns, each
  row that satisfies the clause is changed exactly once, as the assignments say, every other row stays as it
  was, in the same order, and the new rows are what the client is sent. The table stays writable, so the next update works
  too, and nothing but the table's pages, the locks and the transaction's write set changes.
\<close>

theorem update_changes_matching:
  assumes "get_table_info t tx s = Some (Inr (Some ti), s)" "table_ok ti" "ti_name ti = t"
    "hf_table_id (ti_heap_file ti) = ti_table_id ti" "length (columns (ti_schema ti)) > 1"
    "writable (ti_heap_file ti) s tx H" "H \<noteq> []"
    "parse q = Inr (UpdateQuery t asgs w)" "preprocess tx (UpdateQuery t asgs w) s = Some (Inr lp, s')"
    "list_all (supported (stored_part ti)) (where_list w)" "list_all (\<lambda>(c, e). additive_known ti e) asgs"
    "\<forall>z \<in> set (visible_rows s tx H (length H)). list_all (simple_true ti z) (where_list w) \<longrightarrow> set_columns ti asgs z = Inr (new z)"
    "\<forall>r. row_fits (hf_schema (ti_heap_file ti)) r \<longrightarrow> tuple_len r + 4 \<le> 4088"
    "prompt wt" "page_in_range (int (length H + length (visible_rows s tx H (length H))))"
  shows "\<exists>s1 H'. execute_query parse wt q tx False s = Some (Inr (success_text (table_columns t t (ti_schema ti))
      (map (\<lambda>z. butlast (new z)) (filter (\<lambda>z. list_all (simple_true ti z) (where_list w)) (visible_rows s tx H (length H)))) tx), s1) \<and>
    visible_rows s1 tx H' (length H') =
      map (\<lambda>z. if list_all (simple_true ti z) (where_list w) then new z else z) (visible_rows s tx H (length H)) \<and>
    writable (ti_heap_file ti) s1 tx H' \<and> update_frame (ti_heap_file ti) s s1"
  using update_text [where parse = parse and q = q, OF assms]
  by (auto simp: execute_query_def catchA_def)

theorem update_changes_matching_witness:
  "\<exists>rid s s1 H'. heap_insert demo_file [VInt 7, VInt 9] 1 None demo_db = Some (Inr rid, s) \<and>
     execute_query (\<lambda>q. Inr (UpdateQuery ''t'' demo_assignments (Some demo_where))) demo_wait [] 1 False s =
       Some (Inr (success_text (table_columns ''t'' ''t'' demo_schema) [[VInt 9, VInt 9]] 1), s1) \<and>
     visible_rows s1 1 H' (length H') = [[VInt 9, VInt 9, VRid rid]]"
proof -
  obtain rid s H where ex: "heap_insert demo_file [VInt 7, VInt 9] 1 None demo_db = Some (Inr rid, s)" "writable demo_file s 1 H"
    "length H = 1" "db_tables s = db_tables demo_db" "visible_rows s 1 H (length H) = [[VInt 7, VInt 9, VRid rid]]"
    using demo_writable by blast
  obtain lp where lp: "preprocess 1 (UpdateQuery ''t'' demo_assignments (Some demo_where)) s = Some (Inr lp, s)"
    using demo_update_preprocessed [OF ex(4)] by blast
  have wr: "writable (ti_heap_file demo_table) s 1 H" "H \<noteq> []" using ex(2,3) by (auto simp: demo_table_def)
  have tab: "ti_name demo_table = ''t''" "hf_table_id (ti_heap_file demo_table) = ti_table_id demo_table"
    "length (columns (ti_schema demo_table)) > 1" by (simp_all add: demo_defs)
  have w: "list_all (supported (stored_part demo_table)) (where_list (Some demo_where))"
    by (simp add: where_list_def demo_where_def demo_condition_def has_column_def stored_part_def demo_defs)
  have as: "list_all (\<lambda>(c, e). additive_known demo_table e) demo_assignments"
    by (simp add: demo_assignments_def has_column_def demo_defs)
  have t: "list_all (simple_true demo_table [VInt 7, VInt 9, VRid rid]) (where_list (Some demo_where))"
    by (simp add: where_list_def demo_where_def demo_condition_def cell_def demo_defs nthE_def demo_constant compare_def less_db_value_def)
  have new: "set_columns demo_table demo_assignments [VInt 7, VInt 9, VRid rid] = Inr [VInt 9, VInt 9, VRid rid]"
    by (simp add: demo_assignments_def set_column_def cell_def demo_defs nthE_def)
  then have new': "\<forall>z \<in> set (visible_rows s 1 H (length H)). list_all (simple_true demo_table z) (where_list (Some demo_where)) \<longrightarrow>
      set_columns demo_table demo_assignments z = Inr [VInt 9, VInt 9, VRid rid]" by (simp add: ex(5))
  have small: "\<forall>r. row_fits (hf_schema (ti_heap_file demo_table)) r \<longrightarrow> tuple_len r + 4 \<le> 4088"
    using demo_size by (auto simp: demo_table_def demo_file_def demo_fits)
  have room: "page_in_range (int (length H + length (visible_rows s 1 H (length H))))"
    unfolding ex(5) using ex(3) by (simp add: page_in_range_def)
  have tries: "prompt demo_wait" by simp
  from update_changes_matching [where parse = "\<lambda>q. Inr (UpdateQuery ''t'' demo_assignments (Some demo_where))" and q = "[]" and
      wt = demo_wait, OF demo_lookup [OF ex(4)] demo_table_ok tab wr refl lp w as new' small tries room]
  show ?thesis using ex(1,5) t by (auto simp: demo_table_def)
qed

text \<open>
  C37. A table is found whatever the case of its name, but \<open>UPDATE t SET c = k\<close> with one assignment of a constant
  and no WHERE clause, which writes the name in another case than the catalog, which keeps it in lower case,
  cannot change a row of a table that has one: the assignment is checked against the RID column, the only one left, and
  fails, or reads past the list of columns. The first record is left locked. (With a WHERE clause the columns it names are
  counted under the written name as well; those statements are not covered here.)
\<close>

theorem update_other_spelling:
  assumes "get_table_info t tx s = Some (Inr (Some ti), s)" "table_ok ti" "ti_name ti \<noteq> t"
    "hf_table_id (ti_heap_file ti) = ti_table_id ti"
    "writable (ti_heap_file ti) s tx H" "H \<noteq> []" "visible_rows s tx H (length H) \<noteq> []"
    "column_position (columns (ti_schema ti)) c = Some i" "get_value k = Inr v"
    "parse q = Inr (UpdateQuery t [(c, AdditiveExpr (MultiplicativeExpr (UnaryAtomic (AtomicConstant k)) []) [])] None)"
    "prompt wt"
  shows "\<exists>f. execute_query parse wt q tx False s =
    Some (Inl (if i = 0 then QueryException (''Type mismatch in update assignment for column '' @ ci_name (last (columns (ti_schema ti))))
      else Stuck), locked tx (lock_key (ti_heap_file ti) f) s)"
proof -
  obtain f where "query_body parse wt q tx False s =
    Some (Inl (if i = 0 then QueryException (''Type mismatch in update assignment for column '' @ ci_name (last (columns (ti_schema ti))))
      else Stuck), locked tx (lock_key (ti_heap_file ti) f) s)"
    using other_spelling_text [where parse = parse and q = q, OF assms] by blast
  then show ?thesis by (intro exI [of _ f]) (simp add: execute_query_def catchA_def whenA_def act_run)
qed

theorem update_other_spelling_witness:
  "\<exists>rid s f. heap_insert demo_file [VInt 7, VInt 9] 1 None demo_db = Some (Inr rid, s) \<and>
     execute_query (\<lambda>q. Inr (UpdateQuery ''T'' [(''a'', AdditiveExpr (MultiplicativeExpr (UnaryAtomic
         (AtomicConstant (IntegerToken ''8''))) []) [])] None)) demo_wait [] 1 False s =
       Some (Inl (QueryException ''Type mismatch in update assignment for column RID''), locked 1 (lock_key demo_file f) s)"
proof -
  obtain rid s H where ex: "heap_insert demo_file [VInt 7, VInt 9] 1 None demo_db = Some (Inr rid, s)" "writable demo_file s 1 H"
    "length H = 1" "db_tables s = db_tables demo_db" "visible_rows s 1 H (length H) = [[VInt 7, VInt 9, VRid rid]]"
    using demo_writable by blast
  have "char_of (116 :: nat) = CHR ''t''" by code_simp
  then have found: "get_table_info ''T'' 1 s = Some (Inr (Some demo_table), s)"
    using ex(4) by (simp add: get_table_info_def normalize_def tolower_def name_char_def bindA_def act_run find_table_def demo_defs Let_def)
  have facts: "ti_name demo_table \<noteq> ''T''" "hf_table_id (ti_heap_file demo_table) = ti_table_id demo_table"
    "column_position (columns (ti_schema demo_table)) ''a'' = Some 0" "prompt demo_wait" by (simp_all add: demo_defs)
  have wr: "writable (ti_heap_file demo_table) s 1 H" "H \<noteq> []" "visible_rows s 1 H (length H) \<noteq> []"
    using ex(2,3,5) by (auto simp: demo_table_def)
  from update_other_spelling [where parse = "\<lambda>q. Inr (UpdateQuery ''T'' [(''a'', AdditiveExpr (MultiplicativeExpr (UnaryAtomic
      (AtomicConstant (IntegerToken ''8''))) []) [])] None)" and q = "[]", OF found demo_table_ok facts(1,2) wr facts(3) demo_constant
      refl facts(4)]
  show ?thesis using ex(1) by (auto simp: demo_defs)
qed

end
