(* ===== verification/Create_Properties.thy ===== *)
theory Create_Properties
  imports Query_Properties Catalog_File
begin

text \<open>
  What CREATE TABLE makes, which is what the properties of SELECT, INSERT and UPDATE ask of a table.
\<close>

section \<open>Names\<close>

lemma tolower_name_char: "name_char (tolower c) \<Longrightarrow> tolower (tolower c) = tolower c"
  by (auto simp: name_char_def tolower_def Let_def)

lemma normalize_twice: "normalize t = Inr n \<Longrightarrow> normalize n = Inr n"
  by (auto simp: normalize_def Let_def list_all_iff tolower_name_char o_def split: if_splits)

section \<open>The tables of a transaction\<close>

lemma map_default_other:
  "t \<noteq> tx \<Longrightarrow> filter (\<lambda>(u, ts). u = t) (AList.map_default tx d f al) = filter (\<lambda>(u, ts). u = t) al"
  by (induction al) auto

lemma map_default_own:
  "set (concat (map snd (filter (\<lambda>(u, ts). u = tx) (AList.map_default tx [x] (\<lambda>xs. xs @ [x]) al)))) =
     insert x (set (concat (map snd (filter (\<lambda>(u, ts). u = tx) al))))"
  by (induction al) auto

lemma find_only: "x \<in> set xs \<Longrightarrow> P x \<Longrightarrow> (\<And>y. y \<in> set xs \<Longrightarrow> P y \<Longrightarrow> y = x) \<Longrightarrow> find P xs = Some x"
proof (induction xs)
  case (Cons y ys)
  show ?case
  proof (cases "P y")
    case True
    with Cons.prems(3) [of y] show ?thesis by simp
  next
    case False
    then have "x \<in> set ys" using Cons.prems(1,2) by auto
    moreover have "z = x" if "z \<in> set ys" "P z" for z
      by (rule Cons.prems(3)) (use that in simp_all)
    ultimately have "find P ys = Some x" by (intro Cons.IH Cons.prems(2))
    with False show ?thesis by simp
  qed
qed simp

section \<open>CREATE TABLE\<close>

definition created_table :: "string \<Rightarrow> (string \<times> datatype_ctx) list \<Rightarrow> file_id \<Rightarrow> table_id \<Rightarrow> table_info" where
  "created_table n cs fd tid =
     (let sch = \<lparr>columns = map (\<lambda>(c, d). \<lparr>ci_name = c, ci_datatype = datatype_of d, ci_table_id = tid\<rparr>) cs @
                 [\<lparr>ci_name = ''RID'', ci_datatype = DT_RID, ci_table_id = tid\<rparr>]\<rparr> in
      \<lparr>ti_name = n, ti_schema = sch, ti_heap_file = new_heap_file sch fd tid, ti_table_id = tid, ti_cardinality = 0\<rparr>)"

lemma created_table_ok:
  assumes "distinct (map fst cs)" "''RID'' \<notin> fst ` set cs"
  shows "table_ok (created_table n cs fd tid)"
proof -
  have st: "stored_type (datatype_of d)" for d by (cases d) simp_all
  have fst: "(\<lambda>x. ci_name (case x of (c, d) \<Rightarrow> \<lparr>ci_name = c, ci_datatype = datatype_of d, ci_table_id = tid\<rparr>)) = fst"
    "(\<lambda>x. ci_datatype (case x of (c, d) \<Rightarrow> \<lparr>ci_name = c, ci_datatype = datatype_of d, ci_table_id = tid\<rparr>)) = datatype_of \<circ> snd"
    by auto
  have "ci_datatype (c\<lparr>ci_table_id := u\<rparr>) = ci_datatype c" for c u by simp
  then have "stored_types (hf_schema (new_heap_file sch fd tid)) = stored_types sch" for sch
    by (simp add: new_heap_file_def stored_types_def o_def)
  with assms st show ?thesis
    by (simp add: table_ok_def created_table_def Let_def stored_types_def list_all_iff fst o_def split_beta filter_True)
qed

lemma create_run:
  assumes n: "normalize t = Inr n" and new: "find_table n tx s = None" and cs: "cs \<noteq> []"
    and fresh: "map_of (db_names s) (table_file n (db_table_counter s)) = None" "db_dir s (table_file n (db_table_counter s)) = None"
    and ti: "ti = created_table n cs (db_next_file s) (db_table_counter s)"
  shows "\<exists>s1. creation_execute t \<lparr>columns = map (\<lambda>(c, d). \<lparr>ci_name = c, ci_datatype = datatype_of d, ci_table_id = 0\<rparr>) cs\<rparr> tx s =
      Some (Inr (), s1) \<and>
    db_tables s1 = db_tables s \<and> db_in_process s1 = AList.map_default tx [ti] (\<lambda>tis. tis @ [ti]) (db_in_process s) \<and>
    db_pages s1 = (db_pages s)(db_next_file s := []) \<and> db_last_insert s1 = (db_last_insert s)(db_table_counter s := 0) \<and>
    db_active s1 = db_active s \<and> db_locks s1 = db_locks s"
proof -
  let ?sch = "\<lparr>columns = map (\<lambda>(c, d). \<lparr>ci_name = c, ci_datatype = datatype_of d, ci_table_id = 0\<rparr>) cs\<rparr>" and ?tid = "db_table_counter s"
  let ?cols = "map (\<lambda>c. c\<lparr>ci_table_id := ?tid\<rparr>) (columns ?sch @ [\<lparr>ci_name = ''RID'', ci_datatype = DT_RID, ci_table_id = ?tid\<rparr>])"
  have look: "get_table_info n tx s = Some (Inr None, s)"
    using normalize_twice [OF n] new by (simp add: get_table_info_def bindA_def act_run)
  have cols: "?cols = columns (ti_schema ti)" by (simp add: ti created_table_def Let_def o_def split_beta)
  have last: "ci_datatype (last (columns ?sch)) \<noteq> DT_RID"
  proof -
    have "ci_datatype (last (columns ?sch)) = datatype_of (snd (last cs))" using cs by (simp add: last_map split_beta)
    then show ?thesis by (cases "snd (last cs)") simp_all
  qed
  have "ti = \<lparr>ti_name = n, ti_schema = \<lparr>columns = ?cols\<rparr>, ti_heap_file = new_heap_file \<lparr>columns = ?cols\<rparr> (db_next_file s) ?tid,
      ti_table_id = ?tid, ti_cardinality = 0\<rparr>"
    unfolding cols by (simp add: ti created_table_def Let_def)
  with n look last cs fresh show ?thesis
    by (simp add: creation_execute_def create_table_def bindA_def act_run Let_def table_file_id_def db_get_file_id_def
        table_file_def fresh_last_insert_def)
qed

text \<open>
  C4. \<open>CREATE TABLE t (...)\<close> that the preprocessor accepts, with distinct column names none of which is \<open>RID\<close> and a
  table number whose file does not exist: from then on the transaction finds the table, under its name in lower
  case, with the columns of the statement followed by the RID, and an empty heap file; it is a table as the
  properties of SELECT, INSERT and UPDATE ask for. No other transaction sees a difference.
\<close>

theorem create_makes_table:
  assumes "parse q = Inr (CreateQuery t cs)" "preprocess tx (CreateQuery t cs) s = Some (Inr lp, s')" "normalize t = Inr n"
    "cs \<noteq> []" "distinct (map fst cs)" "''RID'' \<notin> fst ` set cs"
    "map_of (db_names s) (table_file n (db_table_counter s)) = None" "db_dir s (table_file n (db_table_counter s)) = None"
  shows "\<exists>s1 ti. execute_query parse wt q tx False s = Some (Inr (action_text tx), s1) \<and>
    get_table_info t tx s1 = Some (Inr (Some ti), s1) \<and> ti_name ti = n \<and> table_ok ti \<and>
    map (\<lambda>c. (ci_name c, ci_datatype c)) (columns (ti_schema ti)) = map (\<lambda>(c, d). (c, datatype_of d)) cs @ [(''RID'', DT_RID)] \<and>
    ti_table_id ti = db_table_counter s \<and> hf_table_id (ti_heap_file ti) = ti_table_id ti \<and>
    heap_rep (ti_heap_file ti) s1 [] \<and> db_last_insert s1 (hf_table_id (ti_heap_file ti)) = 0 \<and>
    (\<forall>m u. u \<noteq> tx \<longrightarrow> find_table m u s1 = find_table m u s)"
proof -
  let ?lp = "CreationPlan t \<lparr>columns = map (\<lambda>(c, d). \<lparr>ci_name = c, ci_datatype = datatype_of d, ci_table_id = 0\<rparr>) cs\<rparr>"
  define ti where "ti = created_table n cs (db_next_file s) (db_table_counter s)"
  have new: "find_table n tx s = None" and lp: "preprocess tx (CreateQuery t cs) s = Some (Inr ?lp, s)"
    using assms(2,3) by (auto simp: visit_create_def table_exists_def get_table_info_def bindA_def act_run split: if_splits)
  obtain s1 where s1: "creation_execute t \<lparr>columns = map (\<lambda>(c, d). \<lparr>ci_name = c, ci_datatype = datatype_of d, ci_table_id = 0\<rparr>) cs\<rparr> tx s =
      Some (Inr (), s1)" "db_tables s1 = db_tables s"
    "db_in_process s1 = AList.map_default tx [ti] (\<lambda>tis. tis @ [ti]) (db_in_process s)"
    "db_pages s1 = (db_pages s)(db_next_file s := [])" "db_last_insert s1 = (db_last_insert s)(db_table_counter s := 0)"
    using create_run [OF assms(3) new assms(4,7,8) ti_def] by blast
  have run: "execute_query parse wt q tx False s = Some (Inr (action_text tx), s1)"
    using assms(1) lp s1(1)
    by (simp add: execute_query_def catchA_def query_body_def parse_query_def finish_def whenA_def bindA_def act_run rewrite_def
        del: preprocess.simps)
  have none: "find (\<lambda>x. ti_name x = n) (map snd (db_tables s)) = None" "\<forall>x \<in> set (in_process_of s tx). ti_name x \<noteq> n"
    using new by (auto simp: find_table_def find_None_iff split: option.splits)
  have "set (in_process_of s1 tx) = insert ti (set (in_process_of s tx))"
    unfolding in_process_of_def s1(3) by (rule map_default_own)
  with none(2) have "find (\<lambda>x. ti_name x = n) (in_process_of s1 tx) = Some ti"
    by (intro find_only) (auto simp: ti_def created_table_def Let_def)
  with none(1) have "find_table n tx s1 = Some ti" by (simp add: find_table_def s1(2))
  then have found: "get_table_info t tx s1 = Some (Inr (Some ti), s1)"
    by (simp add: get_table_info_def assms(3) bindA_def act_run)
  have others: "find_table m u s1 = find_table m u s" if "u \<noteq> tx" for m u
  proof -
    have "in_process_of s1 u = in_process_of s u"
      unfolding in_process_of_def s1(3) map_default_other [OF that] ..
    then show ?thesis by (simp only: find_table_def s1(2))
  qed
  have "map (\<lambda>c. (ci_name c, ci_datatype c)) (columns (ti_schema ti)) = map (\<lambda>(c, d). (c, datatype_of d)) cs @ [(''RID'', DT_RID)]"
    by (auto simp: ti_def created_table_def Let_def)
  moreover have "ti_name ti = n" "ti_table_id ti = db_table_counter s" "hf_table_id (ti_heap_file ti) = ti_table_id ti"
    "hf_file_id (ti_heap_file ti) = db_next_file s"
    by (simp_all add: ti_def created_table_def new_heap_file_def Let_def)
  moreover from this have "heap_rep (ti_heap_file ti) s1 []"
    by (simp add: heap_rep_def s1(4) page_in_range_def)
  moreover have "table_ok ti" unfolding ti_def by (rule created_table_ok [OF assms(5,6)])
  ultimately show ?thesis using run found others s1(5) by (intro exI [of _ s1] exI [of _ ti]) simp
qed

theorem create_makes_table_witness:
  "\<exists>s1 ti. execute_query (\<lambda>q. Inr (CreateQuery ''u'' [(''x'', IntType)])) demo_wait [] 1 False demo_db = Some (Inr (action_text 1), s1) \<and>
     get_table_info ''u'' 1 s1 = Some (Inr (Some ti), s1) \<and> table_ok ti \<and> find_table ''u'' 2 s1 = None"
proof -
  have n: "normalize ''u'' = Inr ''u''" by (simp add: normalize_def tolower_def name_char_def Let_def)
  have f: "find_table ''u'' tx demo_db = None" for tx by (simp add: find_table_def in_process_of_def demo_defs)
  then have pre: "\<exists>lp s'. preprocess 1 (CreateQuery ''u'' [(''x'', IntType)]) demo_db = Some (Inr lp, s')"
    by (simp add: visit_create_def table_exists_def get_table_info_def n bindA_def act_run)
  have "table_file ''u'' (db_table_counter demo_db) \<noteq> ''0_t.tbl''"
    by (auto simp: table_file_def append_eq_Cons_conv)
  then have fresh: "map_of (db_names demo_db) (table_file ''u'' (db_table_counter demo_db)) = None"
    "db_dir demo_db (table_file ''u'' (db_table_counter demo_db)) = None" by (simp_all add: demo_db_def)
  from pre obtain lp s' where "preprocess 1 (CreateQuery ''u'' [(''x'', IntType)]) demo_db = Some (Inr lp, s')" by blast
  from create_makes_table [where parse = "\<lambda>q. Inr (CreateQuery ''u'' [(''x'', IntType)])" and q = "[]" and wt = demo_wait,
      OF refl this n _ _ _ fresh] f show ?thesis by (auto simp del: preprocess.simps)
qed

end
