(* ===== verification/Plan_Printing.thy ===== *)
theory Plan_Printing
  imports Optimizer Preprocessor Query_Rewriter
begin

text \<open>
  The \<^verbatim>\<open>print_to_ostream\<close> methods: expressions and plans (\<^verbatim>\<open>src/query/parser/logical_plan\<close>), which
  \<^verbatim>\<open>Parser::parse\<close> shows when it is asked to explain, and the operators (\<^verbatim>\<open>src/query/executor\<close>). One definition per class;
  the texts of the children are arguments. A null operand and the first element of an empty list are
  undefined.
\<close>

section \<open>Values, columns and lists\<close>

text \<open>\<^verbatim>\<open>operator<<\<close> of \<^verbatim>\<open>Value\<close> shows RIDs, which \<^verbatim>\<open>to_string\<close> does not.\<close>

fun print_value :: "db_value \<Rightarrow> string" where
  "print_value (VStr s) = CHR 0x22 # s @ [CHR 0x22]"
| "print_value (VInt i) = int_to_string (sint i)"
| "print_value (VRid r) = int_to_string (page_num r) @ '':'' @ int_to_string (dir_slot r)"

definition column_label :: "column \<Rightarrow> string" where
  "column_label c = col_alias c @ ''.'' @ ci_name (col_info c)"

definition table_label :: "column \<Rightarrow> string" where
  "table_label c = col_table c @ ''.'' @ ci_name (col_info c)"

definition spaces :: "nat \<Rightarrow> string" where
  "spaces n = replicate n CHR '' ''"

definition line_end :: string where
  "line_end = [CHR 0x0A]"

fun join_with :: "string \<Rightarrow> string list \<Rightarrow> string" where
  "join_with sep [] = []"
| "join_with sep [x] = x"
| "join_with sep (x # y # xs) = x @ sep @ join_with sep (y # xs)"

text \<open>The first element, then the others behind a separator.\<close>

definition first_then :: "string \<Rightarrow> ('a \<Rightarrow> string res) \<Rightarrow> 'a list \<Rightarrow> string res" where
  "first_then sep f xs =
     (case xs of
        [] \<Rightarrow> Inl Stuck
      | x # ys \<Rightarrow> bindE (f x) (\<lambda>a. bindE (mapE f ys) (\<lambda>bs. Inr (a @ concat (map (\<lambda>b. sep @ b) bs)))))"

definition beside :: "string res \<Rightarrow> string \<Rightarrow> string res \<Rightarrow> string res" where
  "beside m op n = bindE m (\<lambda>a. bindE n (\<lambda>b. Inr (a @ op @ b)))"

section \<open>Logical expressions\<close>

definition print_plan_column :: "column \<Rightarrow> string res" where
  "print_plan_column c = Inr (column_label c)"

definition print_plan_term :: "db_value \<Rightarrow> string res" where
  "print_plan_term v = Inr (print_value v)"

definition print_plan_equals :: "string res \<Rightarrow> string res \<Rightarrow> string res" where
  "print_plan_equals l r = beside l '' == '' r"

definition print_plan_not_equals :: "string res \<Rightarrow> string res \<Rightarrow> string res" where
  "print_plan_not_equals l r = beside l '' != '' r"

definition print_plan_less :: "string res \<Rightarrow> string res \<Rightarrow> string res" where
  "print_plan_less l r = beside l '' < '' r"

definition print_plan_less_or_equals :: "string res \<Rightarrow> string res \<Rightarrow> string res" where
  "print_plan_less_or_equals l r = beside l '' <= '' r"

definition print_plan_between :: "column \<Rightarrow> db_value \<Rightarrow> db_value \<Rightarrow> string res" where
  "print_plan_between c lo hi =
     Inr (column_label c @ '' BETWEEN ['' @ print_value lo @ '' , '' @ print_value hi @ '']'')"

definition print_plan_like :: "column \<Rightarrow> string \<Rightarrow> string res" where
  "print_plan_like c p = Inr (column_label c @ '' LIKE '' @ CHR 0x22 # p @ [CHR 0x22])"

definition print_plan_arithmetic :: "string res \<Rightarrow> string \<Rightarrow> string res \<Rightarrow> string res" where
  "print_plan_arithmetic l op r = beside l ('' '' @ op @ '' '') r"

fun print_expr_plan :: "expr_plan \<Rightarrow> string res" where
  "print_expr_plan (ExprPlanColumn c) = print_plan_column c"
| "print_expr_plan (ExprPlanTerm v) = print_plan_term v"
| "print_expr_plan (ExprPlanEquals l r) = print_plan_equals (print_expr_plan l) (print_expr_plan r)"
| "print_expr_plan (ExprPlanNotEquals l r) = print_plan_not_equals (print_expr_plan l) (print_expr_plan r)"
| "print_expr_plan (ExprPlanLess l r) = print_plan_less (print_expr_plan l) (print_expr_plan r)"
| "print_expr_plan (ExprPlanLessOrEquals l r) = print_plan_less_or_equals (print_expr_plan l) (print_expr_plan r)"
| "print_expr_plan (ExprPlanBetween c lo hi) = print_plan_between c lo hi"
| "print_expr_plan (ExprPlanLike c p) = print_plan_like c p"
| "print_expr_plan (ExprPlanArithmetic l op r) = print_plan_arithmetic (print_expr_plan l) op (print_expr_plan r)"
| "print_expr_plan ExprPlanNull = Inl Stuck"

section \<open>Executable expressions\<close>

definition print_column :: "column \<Rightarrow> string" where
  "print_column c = column_label c"

definition print_term :: "db_value \<Rightarrow> string" where
  "print_term v = print_value v"

definition print_equals :: "string \<Rightarrow> string \<Rightarrow> string" where
  "print_equals l r = l @ '' == '' @ r"

definition print_not_equals :: "string \<Rightarrow> string \<Rightarrow> string" where
  "print_not_equals l r = l @ '' != '' @ r"

definition print_less :: "string \<Rightarrow> string \<Rightarrow> string" where
  "print_less l r = l @ '' < '' @ r"

definition print_less_or_equals :: "string \<Rightarrow> string \<Rightarrow> string" where
  "print_less_or_equals l r = l @ '' <= '' @ r"

definition print_between :: "string \<Rightarrow> db_value \<Rightarrow> db_value \<Rightarrow> string" where
  "print_between e lo hi = e @ '' BETWEEN ['' @ print_value lo @ '', '' @ print_value hi @ '']''"

definition print_like :: "string \<Rightarrow> string \<Rightarrow> string" where
  "print_like e p = e @ '' LIKE '' @ CHR 0x22 # p @ [CHR 0x22]"

definition print_arithmetic :: "string \<Rightarrow> string \<Rightarrow> string \<Rightarrow> string" where
  "print_arithmetic l op r = l @ '' '' @ op @ '' '' @ r"

definition print_sum :: "string \<Rightarrow> string \<Rightarrow> string" where
  "print_sum l r = l @ '' + '' @ r"

fun print_expr :: "expr \<Rightarrow> string" where
  "print_expr (ExprColumn c pos) = print_column c"
| "print_expr (ExprTerm v) = print_term v"
| "print_expr (ExprEquals l r) = print_equals (print_expr l) (print_expr r)"
| "print_expr (ExprNotEquals l r) = print_not_equals (print_expr l) (print_expr r)"
| "print_expr (ExprLess l r) = print_less (print_expr l) (print_expr r)"
| "print_expr (ExprLessOrEquals l r) = print_less_or_equals (print_expr l) (print_expr r)"
| "print_expr (ExprBetween e lo hi) = print_between (print_expr e) lo hi"
| "print_expr (ExprLike e p) = print_like (print_expr e) p"
| "print_expr (ExprArithmetic l op r) = print_arithmetic (print_expr l) op (print_expr r)"
| "print_expr (ExprSum l r) = print_sum (print_expr l) (print_expr r)"

section \<open>Logical plans\<close>

definition print_relation_plan :: "nat \<Rightarrow> string \<Rightarrow> string \<Rightarrow> string" where
  "print_relation_plan n a t =
     spaces n @ ''Relation('' @ t @ (if a \<noteq> t then '' AS '' @ a else []) @ '')'' @ line_end"

definition print_selection_plan :: "nat \<Rightarrow> expr_plan list \<Rightarrow> string res \<Rightarrow> string res" where
  "print_selection_plan n es child =
     bindE (first_then '' AND '' print_expr_plan es) (\<lambda>cond. bindE child (\<lambda>c.
       Inr (spaces n @ ''Selection('' @ cond @ '')'' @ line_end @ c)))"

definition print_projection_plan :: "nat \<Rightarrow> bool \<Rightarrow> 64 word \<Rightarrow> column list \<Rightarrow> string res \<Rightarrow> string res" where
  "print_projection_plan n d lim cs child =
     bindE (first_then '', '' (\<lambda>c. Inr (column_label c)) cs) (\<lambda>cols. bindE child (\<lambda>c.
       Inr (spaces n @ ''Projection('' @ (if d then ''DISTINCT '' else []) @ cols @
            (if lim \<noteq> NO_LIMIT then '' LIMIT '' @ int_to_string (sint lim) else []) @ '')'' @ line_end @ c)))"

definition print_product_plan :: "nat \<Rightarrow> string list res \<Rightarrow> string res" where
  "print_product_plan n children =
     bindE children (\<lambda>cs. Inr (spaces n @ ''CartesianProduct()'' @ line_end @ concat cs))"

definition print_join_plan :: "nat \<Rightarrow> (column \<times> column) list \<Rightarrow> string list res \<Rightarrow> string res" where
  "print_join_plan n eqs children =
     bindE (first_then '' AND '' (\<lambda>(a, b). Inr (column_label a @ '' == '' @ column_label b)) eqs) (\<lambda>on. bindE children (\<lambda>cs.
       Inr (spaces n @ ''Join('' @ on @ '')'' @ line_end @ concat cs)))"

definition print_left_outer_plan ::
  "nat \<Rightarrow> string \<Rightarrow> (column \<times> column) list \<Rightarrow> string res \<Rightarrow> string res \<Rightarrow> string res" where
  "print_left_outer_plan n a eqs l r =
     bindE (first_then '' AND '' (\<lambda>(a, b). Inr (table_label a @ '' == '' @ table_label b)) eqs) (\<lambda>on.
     bindE l (\<lambda>l. bindE r (\<lambda>r.
       Inr (spaces n @ ''LeftOuterJoin('' @ on @ '') AS '' @ a @ line_end @ l @ r))))"

definition print_full_outer_plan ::
  "nat \<Rightarrow> string \<Rightarrow> (column \<times> column) list \<Rightarrow> string res \<Rightarrow> string res \<Rightarrow> string res" where
  "print_full_outer_plan n a eqs l r =
     bindE (first_then '' AND '' (\<lambda>(a, b). Inr (table_label a @ '' == '' @ table_label b)) eqs) (\<lambda>on.
     bindE l (\<lambda>l. bindE r (\<lambda>r.
       Inr (spaces n @ ''FullOuterJoin('' @ on @ '') AS '' @ a @ line_end @ l @ r))))"

fun print_query_plan :: "nat \<Rightarrow> query_plan \<Rightarrow> string res" where
  "print_query_plan n (RelationPlan a t) = Inr (print_relation_plan n a t)"
| "print_query_plan n (SelectionPlan p es) = print_selection_plan n es (print_query_plan (n + 2) p)"
| "print_query_plan n (ProjectionPlan p d lim cs) = print_projection_plan n d lim cs (print_query_plan (n + 2) p)"
| "print_query_plan n (CartesianProductPlan ps) = print_product_plan n (mapE (print_query_plan (n + 2)) ps)"
| "print_query_plan n (JoinPlan ps cs) = print_join_plan n cs (mapE (print_query_plan (n + 2)) ps)"
| "print_query_plan n (LeftOuterJoinPlan a l r cs) =
     print_left_outer_plan n a cs (print_query_plan (n + 2) l) (print_query_plan (n + 2) r)"
| "print_query_plan n (FullOuterJoinPlan a l r cs) =
     print_full_outer_plan n a cs (print_query_plan (n + 2) l) (print_query_plan (n + 2) r)"

definition column_definition :: "column_info \<Rightarrow> string" where
  "column_definition c = ci_name c @ '':'' @ (if ci_datatype c = DT_STR then ''STR'' else ''INT'')"

definition print_creation_plan :: "nat \<Rightarrow> string \<Rightarrow> schema \<Rightarrow> string" where
  "print_creation_plan n t sch =
     spaces n @ ''Creation('' @ t @ concat (map (\<lambda>c. '', '' @ column_definition c) (columns sch)) @ '')'' @ line_end"

text \<open>A string is shown without quotes.\<close>

fun print_constant :: "sql_constant \<Rightarrow> string" where
  "print_constant (CInt i) = int_to_string (sint i)"
| "print_constant (CStr s) = s"

definition print_insertion_plan :: "nat \<Rightarrow> string \<Rightarrow> sql_constant list \<Rightarrow> string" where
  "print_insertion_plan n t vs =
     spaces n @ ''Insertion('' @ t @ concat (map (\<lambda>v. '', '' @ print_constant v) vs) @ '')'' @ line_end"

text \<open>The child of an update or a deletion, if there is one.\<close>

definition print_child :: "nat \<Rightarrow> query_plan option \<Rightarrow> string res" where
  "print_child n c =
     (case c of None \<Rightarrow> Inr [] | Some p \<Rightarrow> bindE (print_query_plan (n + 2) p) (\<lambda>t. Inr (line_end @ t)))"

definition print_assignments :: "(nat \<times> 'e) list \<Rightarrow> (nat \<Rightarrow> string res) \<Rightarrow> ('e \<Rightarrow> string res) \<Rightarrow> string res" where
  "print_assignments upd name f =
     (if upd = [] then Inr [] else first_then '', '' (\<lambda>(i, e). beside (name i) '' = '' (f e)) upd)"

definition print_update_plan :: "nat \<Rightarrow> table_info \<Rightarrow> (nat \<times> expr_plan) list \<Rightarrow> query_plan option \<Rightarrow> string res" where
  "print_update_plan n ti upd c =
     bindE (print_assignments upd (\<lambda>i. bindE (nthE (columns (ti_schema ti)) i) (\<lambda>ci. Inr (ci_name ci))) print_expr_plan) (\<lambda>as.
     bindE (print_child n c) (\<lambda>t.
       Inr (spaces n @ ''Update('' @ ti_name ti @ '', SET '' @ as @ '')'' @ t)))"

definition print_deletion_plan :: "nat \<Rightarrow> table_info \<Rightarrow> query_plan option \<Rightarrow> string res" where
  "print_deletion_plan n ti c =
     bindE (print_child n c) (\<lambda>t. Inr (spaces n @ ''Delete('' @ ti_name ti @ '')'' @ t))"

text \<open>\<^verbatim>\<open>operator<<\<close> of a plan, from the left margin.\<close>

fun print_logical_plan :: "logical_plan \<Rightarrow> string res" where
  "print_logical_plan (QueryPlan p) = print_query_plan 0 p"
| "print_logical_plan (CreationPlan t sch) = Inr (print_creation_plan 0 t sch)"
| "print_logical_plan (InsertionPlan t vs) = Inr (print_insertion_plan 0 t vs)"
| "print_logical_plan (UpdatePlan ti upd c) = print_update_plan 0 ti upd c"
| "print_logical_plan (DeletionPlan ti c) = print_deletion_plan 0 ti c"

section \<open>Operators\<close>

text \<open>
  The joins index the projected columns with the positions of the equalities in the rows. The full outer join
  takes the names of all equalities after the first from the second one.
\<close>

definition projected_alias :: "pcol list \<Rightarrow> nat \<Rightarrow> string res" where
  "projected_alias pcs i = bindE (nthE pcs i) (\<lambda>p. Inr (col_alias (pc_col p)))"

definition projected_name :: "pcol list \<Rightarrow> nat \<Rightarrow> string res" where
  "projected_name pcs i = bindE (nthE pcs i) (\<lambda>p. Inr (ci_name (col_info (pc_col p))))"

definition projected_label :: "pcol list \<Rightarrow> nat \<Rightarrow> string res" where
  "projected_label pcs i = beside (projected_alias pcs i) ''.'' (projected_name pcs i)"

definition equality_label :: "pcol list \<Rightarrow> pcol list \<Rightarrow> nat \<times> nat \<Rightarrow> string res" where
  "equality_label lc rc = (\<lambda>(i, j). beside (projected_label lc i) '' == '' (projected_label rc j))"

definition print_relation :: "nat \<Rightarrow> pcol list \<Rightarrow> string" where
  "print_relation n pcs =
     spaces n @ ''Relation('' @
     (case pcs of
        [] \<Rightarrow> []
      | p # ps \<Rightarrow> col_table (pc_col p) @
          (if col_table (pc_col p) \<noteq> col_alias (pc_col p) then '' as '' @ col_alias (pc_col p) else [])) @
     '')'' @ line_end"

definition print_projection :: "nat \<Rightarrow> column list \<Rightarrow> string res \<Rightarrow> string res" where
  "print_projection n cs child =
     bindE (first_then '', '' (\<lambda>c. Inr (column_label c)) cs) (\<lambda>cols. bindE child (\<lambda>c.
       Inr (spaces n @ ''Projection('' @ cols @ '')'' @ line_end @ c)))"

definition print_selection :: "nat \<Rightarrow> expr list \<Rightarrow> string res \<Rightarrow> string res" where
  "print_selection n es child =
     bindE (first_then '' AND '' (\<lambda>e. Inr (print_expr e)) es) (\<lambda>cond. bindE child (\<lambda>c.
       Inr (spaces n @ ''Selection('' @ cond @ '')'' @ line_end @ c)))"

definition print_cartesian :: "nat \<Rightarrow> string res \<Rightarrow> string res \<Rightarrow> string res" where
  "print_cartesian n l r =
     bindE l (\<lambda>l. bindE r (\<lambda>r. Inr (spaces n @ ''CartesianProduct()'' @ line_end @ l @ r)))"

definition print_join ::
  "nat \<Rightarrow> pcol list \<Rightarrow> pcol list \<Rightarrow> (nat \<times> nat) list \<Rightarrow> string res \<Rightarrow> string res \<Rightarrow> string res" where
  "print_join n lc rc eqs l r =
     bindE (first_then '' AND '' (equality_label lc rc) eqs) (\<lambda>on. bindE l (\<lambda>l. bindE r (\<lambda>r.
       Inr (spaces n @ ''Join('' @ on @ '')'' @ line_end @ l @ r))))"

definition print_left_outer ::
  "nat \<Rightarrow> pcol list \<Rightarrow> pcol list \<Rightarrow> (nat \<times> nat) list \<Rightarrow> string res \<Rightarrow> string res \<Rightarrow> string res" where
  "print_left_outer n lc rc eqs l r =
     bindE (first_then '' AND '' (equality_label lc rc) eqs) (\<lambda>on. bindE l (\<lambda>l. bindE r (\<lambda>r.
       Inr (spaces n @ ''LeftOuterJoin ('' @ on @ '')'' @ line_end @ l @ r))))"

definition full_outer_label :: "pcol list \<Rightarrow> pcol list \<Rightarrow> (nat \<times> nat) list \<Rightarrow> nat \<times> nat \<Rightarrow> string res" where
  "full_outer_label lc rc eqs = (\<lambda>(i, j).
     bindE (nthE eqs 1) (\<lambda>(i1, j1).
       beside (beside (projected_alias lc i) ''.'' (projected_name lc i1)) '' == ''
         (beside (projected_alias rc j) ''.'' (projected_name rc j1))))"

definition print_full_outer ::
  "nat \<Rightarrow> pcol list \<Rightarrow> pcol list \<Rightarrow> (nat \<times> nat) list \<Rightarrow> string res \<Rightarrow> string res \<Rightarrow> string res" where
  "print_full_outer n lc rc eqs l r =
     (case eqs of
        [] \<Rightarrow> Inl Stuck
      | e # es \<Rightarrow>
          bindE (equality_label lc rc e) (\<lambda>a. bindE (mapE (full_outer_label lc rc eqs) es) (\<lambda>bs. bindE l (\<lambda>l. bindE r (\<lambda>r.
            Inr (spaces n @ ''FullOuterJoin ('' @ a @ concat (map (\<lambda>b. '' AND '' @ b) bs) @ '')'' @ line_end @ l @ r)))))) "

fun print_iter :: "nat \<Rightarrow> 'i qiter \<Rightarrow> string res" where
  "print_iter n (Relation i pcs) = Inr (print_relation n pcs)"
| "print_iter n (Projection c cs lim cnt) = print_projection n cs (print_iter (n + 2) c)"
| "print_iter n (Selection c es) = print_selection n es (print_iter (n + 2) c)"
| "print_iter n (CartesianProduct l r lc rc st) = print_cartesian n (print_iter (n + 2) l) (print_iter (n + 2) r)"
| "print_iter n (Join l r lc rc eqs st) = print_join n lc rc eqs (print_iter (n + 2) l) (print_iter (n + 2) r)"
| "print_iter n (LeftOuterJoin l r lc rc eqs st) =
     print_left_outer n lc rc eqs (print_iter (n + 2) l) (print_iter (n + 2) r)"
| "print_iter n (FullOuterJoin l r lc rc eqs st) =
     print_full_outer n lc rc eqs (print_iter (n + 2) l) (print_iter (n + 2) r)"

definition print_update :: "nat \<Rightarrow> update_iter \<Rightarrow> string res" where
  "print_update n u =
     bindE (print_assignments (ui_assignments u)
              (\<lambda>i. bindE (nthE (get_columns (ui_child u)) i) (\<lambda>c. Inr (ci_name (col_info c)))) (\<lambda>e. Inr (print_expr e))) (\<lambda>as.
     bindE (print_iter (n + 2) (ui_child u)) (\<lambda>c.
       Inr (spaces n @ ''UpdateIter('' @ as @ '')'' @ line_end @ c)))"

definition print_deletion :: "nat \<Rightarrow> deletion_iter \<Rightarrow> string res" where
  "print_deletion n d =
     bindE (print_iter (n + 2) (di_child d)) (\<lambda>c.
       Inr (spaces n @ ''DeletionIter('' @ join_with '', '' (map (\<lambda>c. ci_name (col_info c)) (get_columns (di_child d))) @ '')'' @
            line_end @ c))"

definition print_insertion :: "nat \<Rightarrow> string \<Rightarrow> sql_constant list \<Rightarrow> string" where
  "print_insertion n t vs =
     spaces n @ ''Insertion('' @ t @ concat (map (\<lambda>v. '', '' @ print_constant v) vs) @ '')'' @ line_end"

definition print_creation :: "nat \<Rightarrow> string \<Rightarrow> schema \<Rightarrow> string" where
  "print_creation n t sch =
     spaces n @ ''Creation('' @ t @ concat (map (\<lambda>c. '', '' @ column_definition c) (columns sch)) @ '')'' @ line_end"

section \<open>Explaining a query\<close>

text \<open>
  \<^verbatim>\<open>Parser::parse\<close> with \<^verbatim>\<open>explain\<close>: what it prints and the plan. The session never asks for it; a plan that cannot be
  shown ends the server there.
\<close>

definition explain_part :: "string \<Rightarrow> logical_plan \<Rightarrow> string res" where
  "explain_part title lp = bindE (print_logical_plan lp) (\<lambda>t. Inr (title @ line_end @ t @ line_end))"

definition rewrite_explained :: "logical_plan \<Rightarrow> (string \<times> logical_plan) res" where
  "rewrite_explained lp =
     bindE (explain_part ''Initial Logical Plan:'' lp) (\<lambda>t. case lp of
       QueryPlan p \<Rightarrow>
         bindE (build_joins p []) (\<lambda>p.
         bindE (explain_part ''Logical Plan after Build Joins:'' (QueryPlan p)) (\<lambda>u.
         bindE (push_selection p (\<lambda>_. None)) (\<lambda>(p, m).
         bindE (explain_part ''Logical Plan after Push Selection:'' (QueryPlan p)) (\<lambda>v.
           Inr (t @ u @ v, QueryPlan p)))))
     | _ \<Rightarrow> Inr (t, lp))"

text \<open>Explaining never changes the plan.\<close>

lemma explained_plan: "rewrite_explained lp = Inr (t, lp') \<Longrightarrow> rewrite lp = Inr lp'"
  by (auto simp: rewrite_explained_def rewrite_def bindE_Inr_iff split: logical_plan.splits)

section \<open>The text of a compiled expression\<close>

fun between_free :: "expr_plan \<Rightarrow> bool" where
  "between_free (ExprPlanEquals l r) \<longleftrightarrow> between_free l \<and> between_free r"
| "between_free (ExprPlanNotEquals l r) \<longleftrightarrow> between_free l \<and> between_free r"
| "between_free (ExprPlanLess l r) \<longleftrightarrow> between_free l \<and> between_free r"
| "between_free (ExprPlanLessOrEquals l r) \<longleftrightarrow> between_free l \<and> between_free r"
| "between_free (ExprPlanArithmetic l op r) \<longleftrightarrow> between_free l \<and> between_free r"
| "between_free (ExprPlanBetween c lo hi) \<longleftrightarrow> False"
| "between_free e \<longleftrightarrow> True"

lemmas plan_printers = print_plan_column_def print_plan_term_def print_plan_equals_def print_plan_not_equals_def
  print_plan_less_def print_plan_less_or_equals_def print_plan_between_def print_plan_like_def print_plan_arithmetic_def beside_def

lemmas expr_printers = print_column_def print_term_def print_equals_def print_not_equals_def print_less_def
  print_less_or_equals_def print_between_def print_like_def print_arithmetic_def print_sum_def

lemma compile_column_text: "compile_column cs c = Inr e \<Longrightarrow> print_expr e = column_label c"
  by (auto simp: compile_column_def print_column_def split: if_splits)

text \<open>
  C28. The expression that the optimizer makes of a logical one is shown with the same text, if there is no BETWEEN
  in it, for which the two classes put different separators between the bounds. So a plan and the operators
  made of it agree on the conditions and the assignments they show.
\<close>

theorem compiled_text:
  assumes "compile_expr cs e = Inr e'" "between_free e"
  shows "print_expr_plan e = Inr (print_expr e')"
  using assms
  by (induction e arbitrary: e')
    (auto simp: plan_printers expr_printers bindE_Inr_iff compile_column_text split: if_splits)

theorem compiled_text_witness:
  "\<exists>e'. compile_expr [\<lparr>col_alias = ''t'', col_table = ''t'', col_info = \<lparr>ci_name = ''a'', ci_datatype = DT_INT, ci_table_id = 0\<rparr>\<rparr>]
      (ExprPlanLess (ExprPlanColumn \<lparr>col_alias = ''t'', col_table = ''t'', col_info = \<lparr>ci_name = ''a'', ci_datatype = DT_INT, ci_table_id = 0\<rparr>\<rparr>)
        (ExprPlanTerm (VStr ''x''))) = Inr e' \<and>
    print_expr e' = ''t.a < '' @ [CHR 0x22] @ ''x'' @ [CHR 0x22]"
proof -
  let ?c = "\<lparr>col_alias = ''t'', col_table = ''t'', col_info = \<lparr>ci_name = ''a'', ci_datatype = DT_INT, ci_table_id = 0\<rparr>\<rparr> :: column"
  have "compile_expr [?c] (ExprPlanLess (ExprPlanColumn ?c) (ExprPlanTerm (VStr ''x''))) =
      Inr (ExprLess (ExprColumn ?c 0) (ExprTerm (VStr ''x'')))"
    by (simp add: compile_column_def column_eq_def)
  from this compiled_text [OF this] show ?thesis
    by (simp add: plan_printers column_label_def)
qed

end
