(* ===== verification/Buffer_Stop.thy ===== *)
theory Buffer_Stop
  imports Store
begin

text \<open>
  What the buffer manager does when the server stops: the files of tables that were not committed are deleted
  (\<^verbatim>\<open>BufferManager::delete_file\<close>), and its destructor writes the dirty frames back (\<^verbatim>\<open>flush\<close>), so that the disk
  alone presents the pages of every file that is left.
\<close>

section \<open>Names and folder\<close>

text \<open>Computations that register no file and touch no entry of the folder.\<close>

definition keeps_names :: "(buf_state, 'a) act \<Rightarrow> bool" where
  "keeps_names m \<longleftrightarrow> (\<forall>b r b'. m b = Some (r, b') \<longrightarrow> fs_names (b_fs b') = fs_names (b_fs b) \<and> fs_dir (b_fs b') = fs_dir (b_fs b))"

named_theorems names_kept \<open>computations that register no file\<close>

lemma keeps_namesD:
  "keeps_names m \<Longrightarrow> m b = Some (r, b') \<Longrightarrow> fs_names (b_fs b') = fs_names (b_fs b) \<and> fs_dir (b_fs b') = fs_dir (b_fs b)"
  unfolding keeps_names_def by blast

lemma names_basic [names_kept]:
  "keeps_names (returnA x)" "keeps_names (throwA e)" "keeps_names (liftA z)" "keeps_names getA"
  by (simp_all add: keeps_names_def act_run)

lemma names_modify: "(\<And>b. fs_names (b_fs (f b)) = fs_names (b_fs b) \<and> fs_dir (b_fs (f b)) = fs_dir (b_fs b)) \<Longrightarrow> keeps_names (modifyA f)"
  by (auto simp: keeps_names_def act_run)

lemma names_bind [names_kept]:
  assumes "keeps_names m" "\<And>x. keeps_names (f x)"
  shows "keeps_names (bindA m f)"
  unfolding keeps_names_def
proof (intro allI impI)
  fix b r b' assume run: "bindA m f b = Some (r, b')"
  then obtain z b1 where m: "m b = Some (z, b1)" by (cases "m b") (auto simp: bindA_def)
  show "fs_names (b_fs b') = fs_names (b_fs b) \<and> fs_dir (b_fs b') = fs_dir (b_fs b)"
  proof (cases z)
    case (Inl e)
    with run m have "b' = b1" by (simp add: bindA_def)
    with keeps_namesD [OF assms(1) m] show ?thesis by simp
  next
    case (Inr x)
    with run m have "f x b1 = Some (r, b')" by (simp add: bindA_def)
    from keeps_namesD [OF assms(2) this] keeps_namesD [OF assms(1) m] show ?thesis by simp
  qed
qed

lemma names_if [names_kept]: "keeps_names m \<Longrightarrow> keeps_names n \<Longrightarrow> keeps_names (if c then m else n)"
  by simp

lemma names_option [names_kept]:
  "keeps_names m \<Longrightarrow> (\<And>x. keeps_names (f x)) \<Longrightarrow> keeps_names (case y of None \<Rightarrow> m | Some x \<Rightarrow> f x)"
  by (cases y) simp_all

lemma names_prod [names_kept]: "(\<And>x y. keeps_names (g x y)) \<Longrightarrow> keeps_names (case z of (x, y) \<Rightarrow> g x y)"
  by (cases z) simp

lemma names_when [names_kept]: "keeps_names u \<Longrightarrow> keeps_names (whenA c u)"
  by (simp add: whenA_def names_basic)

lemma names_files [names_kept]: "keeps_names (onFs (fm_flush p))" "keeps_names (onFs (fm_read_page pid))"
  by (auto simp: keeps_names_def onFs_def fm_flush_def fm_read_page_def sys_call_def bindA_def act_run Let_def set_content_def
      bind_eq_Some_conv split: if_splits)

lemma names_unused [names_kept]: "keeps_names get_unused_page"
  by (auto simp: keeps_names_def get_unused_page_def split: option.splits sum.splits)

lemma names_with_frame [names_kept]: "keeps_names (with_frame f n op)"
  unfolding with_frame_def get_page_def unpin_page_def Let_def
  by (intro names_kept names_modify) (simp_all add: set_frame_def)

lemma names_flush [names_kept]: "keeps_names (flush_from i n)" "keeps_names flush"
proof -
  show *: "keeps_names (flush_from i n)" for i n
    by (induction n arbitrary: i) (auto simp: Let_def set_frame_def intro!: names_kept names_modify)
  show "keeps_names flush" unfolding flush_def by (intro names_kept *)
qed

section \<open>Flushing\<close>

lemma wf_written:
  assumes wf: "buf_wf b" and i: "i < length (b_frames b)" and dirty: "pg_dirty (b_frames b ! i)"
    and fs: "fs_wf fs" "no_faults fs" "fs_names fs = fs_names (b_fs b)"
      "\<forall>f m. disk_page fs f m =
        (if pg_id (b_frames b ! i) = PageId f (int m) then pg_bytes (b_frames b ! i) else disk_page (b_fs b) f m)"
      "\<forall>f. count_pages f fs = count_pages f (b_fs b)"
  shows "buf_wf (b\<lparr>b_fs := fs\<rparr>)" "same_view b (b\<lparr>b_fs := fs\<rparr>)" "buf_pages (b\<lparr>b_fs := fs\<rparr>) = buf_pages b"
    "b_map b (pg_id (b_frames b ! i)) = Some i"
proof -
  let ?b = "b\<lparr>b_fs := fs\<rparr>" and ?p = "b_frames b ! i"
  show map: "b_map b (pg_id ?p) = Some i"
    using buf_wfD(4) [OF wf i] dirty by (simp add: frame_ok_def Let_def split: if_splits)
  show pages: "buf_pages ?b = buf_pages b" using fs(5) by (simp add: buf_pages_def fun_eq_iff)
  have live: "buf_live ?b f = buf_live b f" for f using fs(3) by (simp add: buf_live_def)
  have other: "disk_page fs f m = disk_page (b_fs b) f m" if "b_map b (PageId f (int m)) \<noteq> Some i" for f m
    using fs(4) map that by auto
  have "frame_ok ?b j" if j: "j < length (b_frames b)" for j
  proof (cases "j = i")
    case True
    with buf_wfD(4) [OF wf j] dirty show ?thesis by (auto simp: frame_ok_def Let_def pages split: if_splits)
  next
    case False
    let ?q = "b_frames b ! j"
    have "disk_page fs (pid_file (pg_id ?q)) (nat (pid_page (pg_id ?q))) =
        disk_page (b_fs b) (pid_file (pg_id ?q)) (nat (pid_page (pg_id ?q)))"
      if "b_map b (pg_id ?q) = Some j" "page_in_range (pid_page (pg_id ?q))"
      using that False by (intro other) (cases "pg_id ?q", auto simp: page_in_range_def)
    with buf_wfD(4) [OF wf j] show ?thesis by (auto simp: frame_ok_def Let_def pages live split: if_splits)
  qed
  then show "buf_wf ?b" using wf fs(1,2) by (simp add: buf_wf_def)
  have "buf_view ?b f n = buf_view b f n" for f n
    using other [of f n] by (simp add: buf_view_def split: option.split)
  then show "same_view b ?b" by (simp add: same_view_def live)
qed

text \<open>The frames before \<open>i\<close> are clean; those from \<open>i\<close> on are written and become clean.\<close>

lemma flush_from_run:
  assumes "buf_wf b" "\<forall>j < length (b_frames b). pg_pins (b_frames b ! j) = 0" "i + n = length (b_frames b)"
    "\<forall>j < i. \<not> pg_dirty (b_frames b ! j)"
  shows "\<exists>b'. flush_from i n b = Some (Inr (), b') \<and> buf_wf b' \<and> same_view b b' \<and> buf_pages b' = buf_pages b \<and>
     (\<forall>j < length (b_frames b'). \<not> pg_dirty (b_frames b' ! j))"
  using assms
proof (induction n arbitrary: i b)
  case 0
  then show ?case by (simp add: act_run same_view_def)
next
  case (Suc n)
  let ?p = "b_frames b ! i"
  have i: "i < length (b_frames b)" using Suc.prems(3) by simp
  have pin: "pg_pins ?p = 0" using Suc.prems(2) i by simp
  show ?case
  proof (cases "pg_dirty ?p")
    case False
    have "\<forall>j < i + 1. \<not> pg_dirty (b_frames b ! j)" using Suc.prems(4) False by (auto simp: less_Suc_eq)
    from Suc.IH [OF Suc.prems(1,2) _ this] Suc.prems(3) show ?thesis
      using pin False by (simp add: bindA_def act_run Let_def)
  next
    case True
    from flush_if_dirty [OF Suc.prems(1) i refl refl] True obtain fs where
      fs: "onFs (fm_flush ?p) b = Some (Inr (?p\<lparr>pg_dirty := False\<rparr>), b\<lparr>b_fs := fs\<rparr>)" "fs_wf fs" "no_faults fs"
        "fs_names fs = fs_names (b_fs b)"
        "\<forall>f m. disk_page fs f m = (if pg_id ?p = PageId f (int m) then pg_bytes ?p else disk_page (b_fs b) f m)"
        "\<forall>f. count_pages f fs = count_pages f (b_fs b)" by auto
    note w = wf_written [OF Suc.prems(1) i True fs(2-6)]
    define q where "q = ?p\<lparr>pg_dirty := False\<rparr>"
    define b1 where "b1 = set_frame i q (b\<lparr>b_fs := fs\<rparr>)"
    obtain f m where pid: "pg_id ?p = PageId f (int m)"
    proof -
      have "page_in_range (pid_page (pg_id ?p))"
        using buf_wfD(4) [OF Suc.prems(1) i] True by (auto simp: frame_ok_def Let_def split: if_splits)
      then show thesis using that [of "pid_file (pg_id ?p)" "nat (pid_page (pg_id ?p))"]
        by (cases "pg_id ?p") (simp add: page_in_range_def)
    qed
    have map: "b_map (b\<lparr>b_fs := fs\<rparr>) (PageId f (int m)) = Some i" using w(4) pid by simp
    have wf1: "buf_wf b1"
      unfolding b1_def
    proof (rule wf_set_frame [OF w(1) map])
      show "page_wf q" "0 \<le> pg_pins q"
        using frame_okD [OF buf_wfD(4) [OF Suc.prems(1) i]] by (simp_all add: q_def page_wf_def)
      show "pg_bytes q = disk_page (b_fs (b\<lparr>b_fs := fs\<rparr>)) (pid_file (PageId f (int m))) (nat (pid_page (PageId f (int m))))"
        using fs(5) pid by (simp add: q_def)
    qed (simp add: q_def pid)
    have len: "length (b_frames b1) = length (b_frames b)" by (simp add: b1_def set_frame_def)
    have view: "buf_view b1 g k = buf_view (b\<lparr>b_fs := fs\<rparr>) g k" for g k
      unfolding b1_def view_set_frame [OF w(1) map] using map by (auto simp: buf_view_def q_def)
    have v1: "same_view b b1"
      using w(2) view by (simp add: same_view_def) (simp add: b1_def set_frame_def buf_live_def)
    have pages1: "buf_pages b1 = buf_pages b" using w(3) by (simp add: b1_def set_frame_def buf_pages_def fun_eq_iff)
    have pins1: "\<forall>j < length (b_frames b1). pg_pins (b_frames b1 ! j) = 0"
      using Suc.prems(2) pin i by (auto simp: b1_def set_frame_def q_def nth_list_update)
    have clean1: "\<forall>j < i + 1. \<not> pg_dirty (b_frames b1 ! j)"
      using Suc.prems(4) i by (auto simp: b1_def set_frame_def q_def nth_list_update less_Suc_eq)
    from Suc.IH [OF wf1 pins1 _ clean1] Suc.prems(3) len obtain b' where
      b': "flush_from (i + 1) n b1 = Some (Inr (), b')" "buf_wf b'" "same_view b1 b'" "buf_pages b' = buf_pages b1"
        "\<forall>j < length (b_frames b'). \<not> pg_dirty (b_frames b' ! j)" by auto
    have "flush_from i (Suc n) b = flush_from (i + 1) n b1"
      using pin True fs(1) by (simp add: bindA_def act_run Let_def b1_def q_def)
    with b' v1 pages1 show ?thesis by (intro exI [of _ b']) (auto simp: same_view_def)
  qed
qed

text \<open>After a flush the disk alone presents the live files.\<close>

lemma flush_presents:
  assumes rep: "represents b P" and pins: "\<forall>p \<in> set (b_frames b). pg_pins p = 0"
  shows "\<exists>b'. flush b = Some (Inr (), b') \<and> fs_wf (b_fs b') \<and> fs_names (b_fs b') = fs_names (b_fs b) \<and>
    fs_dir (b_fs b') = fs_dir (b_fs b) \<and>
    (\<forall>f. buf_live b f \<longrightarrow> length (P f) = count_pages f (b_fs b') \<and> (\<forall>n < length (P f). P f ! n = disk_page (b_fs b') f n))"
proof -
  have wf: "buf_wf b" using rep by (simp add: represents_def)
  have p: "\<forall>j < length (b_frames b). pg_pins (b_frames b ! j) = 0" using pins by simp
  obtain b' where b': "flush_from 0 (length (b_frames b)) b = Some (Inr (), b')" "buf_wf b'" "same_view b b'"
    "buf_pages b' = buf_pages b" "\<forall>j < length (b_frames b'). \<not> pg_dirty (b_frames b' ! j)"
    using flush_from_run [OF wf p, of 0 "length (b_frames b)"] by auto
  have run: "flush b = Some (Inr (), b')" using b'(1) by (simp add: flush_def bindA_def act_run)
  have disk: "buf_view b' f n = disk_page (b_fs b') f n" if "buf_live b' f" for f n
  proof (cases "b_map b' (PageId f (int n))")
    case (Some j)
    note j = buf_wfD(5,6) [OF b'(2) Some]
    have "\<not> pg_dirty (b_frames b' ! j)" "pid_file (pg_id (b_frames b' ! j)) \<noteq> UNASSIGNED"
      using b'(5) j buf_wfD(7) [OF b'(2) Some] by simp_all
    with buf_wfD(4) [OF b'(2) j(1)] j(2) that Some show ?thesis by (simp add: frame_ok_def Let_def buf_view_def)
  qed (simp add: buf_view_def)
  have "length (P f) = count_pages f (b_fs b') \<and> (\<forall>n < length (P f). P f ! n = disk_page (b_fs b') f n)"
    if f: "buf_live b f" for f
  proof -
    have "buf_live b' f" "\<forall>n. buf_view b' f n = buf_view b f n" using b'(3) f by (simp_all add: same_view_def)
    with f rep disk [of f] show ?thesis
      using b'(4) by (simp add: represents_def buf_pages_def fun_eq_iff)
  qed
  with run keeps_namesD [OF names_flush(2) run] buf_wfD(1) [OF b'(2)] show ?thesis by blast
qed

section \<open>Deleting files\<close>

definition once :: "(string \<times> file_id) list \<Rightarrow> bool" where
  "once ns \<longleftrightarrow> distinct (map fst ns) \<and> distinct (map snd ns)"

lemma name_of_mem: "name_of_fd ns fd = Some n \<Longrightarrow> (n, fd) \<in> set ns"
  by (induction ns) (auto split: if_splits)

lemma name_of_None: "name_of_fd ns fd = None \<longleftrightarrow> fd \<notin> snd ` set ns"
  by (induction ns) (auto split: if_splits)

lemma filter_once:
  assumes "once ns" "(n, fd) \<in> set ns"
  shows "once (filter (\<lambda>(m, f). m \<noteq> n) ns)" "snd ` set (filter (\<lambda>(m, f). m \<noteq> n) ns) = snd ` set ns - {fd}"
proof -
  have d: "inj_on fst (set ns)" "inj_on snd (set ns)" using assms(1) by (simp_all add: once_def distinct_map)
  have same: "m = n \<longleftrightarrow> f = fd" if "(m, f) \<in> set ns" for m f
    using inj_onD [OF d(1), OF _ that assms(2)] inj_onD [OF d(2), OF _ that assms(2)] by auto
  show "once (filter (\<lambda>(m, f). m \<noteq> n) ns)"
    using assms(1) by (simp add: once_def distinct_map_filter)
  show "snd ` set (filter (\<lambda>(m, f). m \<noteq> n) ns) = snd ` set ns - {fd}"
    using same by force
qed

lemma buf_delete_run:
  assumes rep: "represents b P" and ns: "once (fs_names (b_fs b))" and pins: "\<forall>p \<in> set (b_frames b). pg_pins p = 0"
  shows "\<exists>b'. buf_delete_file fd b = Some (Inr (), b') \<and> represents b' P \<and> once (fs_names (b_fs b')) \<and>
    (\<forall>p \<in> set (b_frames b'). pg_pins p = 0) \<and> (\<forall>g. buf_live b' g \<longleftrightarrow> buf_live b g \<and> g \<noteq> fd) \<and>
    fm_delete_file fd (b_fs b) = Some (Inr (), b_fs b')"
proof -
  have wf: "buf_wf b" using rep by (simp add: represents_def)
  obtain fs where fs: "fm_delete_file fd (b_fs b) = Some (Inr (), fs)" "once (fs_names fs)"
    "snd ` set (fs_names fs) = snd ` set (fs_names (b_fs b)) - {fd}" "fs_content fs = fs_content (b_fs b)"
    "fs_fault fs = fs_fault (b_fs b)"
  proof (cases "name_of_fd (fs_names (b_fs b)) fd")
    case None
    with that [of "b_fs b"] ns show thesis by (simp add: fm_delete_file_def bindA_def act_run name_of_None)
  next
    case (Some n)
    let ?fs = "(b_fs b)\<lparr>fs_names := filter (\<lambda>(m, f). m \<noteq> n) (fs_names (b_fs b))\<rparr>"
    have "fm_delete_file fd (b_fs b) = Some (Inr (), if n = [] then ?fs else ?fs\<lparr>fs_dir := (fs_dir (b_fs b))(n := None)\<rparr>)"
      using Some by (simp add: fm_delete_file_def bindA_def act_run)
    with that filter_once [OF ns name_of_mem [OF Some]] show thesis by (cases "n = []") simp_all
  qed
  let ?b = "b\<lparr>b_frames := map (forget_dirty fd) (b_frames b), b_fs := fs\<rparr>"
  have run: "buf_delete_file fd b = Some (Inr (), ?b)"
    using fs(1) by (simp add: buf_delete_file_def bindA_def act_run onFs_def)
  have disk: "disk_page fs = disk_page (b_fs b)" "count_pages f fs = count_pages f (b_fs b)" "fs_wf fs = fs_wf (b_fs b)"
    "no_faults fs = no_faults (b_fs b)" for f
    using fs(4,5) by (simp_all add: disk_page_def count_pages_def file_size_def fs_wf_def no_faults_def fun_eq_iff)
  have live: "buf_live ?b g \<longleftrightarrow> buf_live b g \<and> g \<noteq> fd" for g using fs(3) by (auto simp: buf_live_def)
  have frame: "pg_id (forget_dirty fd p) = pg_id p" "pg_bytes (forget_dirty fd p) = pg_bytes p"
    "pg_pins (forget_dirty fd p) = pg_pins p" "page_wf (forget_dirty fd p) = page_wf p"
    "pid_file (pg_id p) \<noteq> fd \<Longrightarrow> forget_dirty fd p = p" "pid_file (pg_id p) = fd \<Longrightarrow> \<not> pg_dirty (forget_dirty fd p)" for p
    by (simp_all add: forget_dirty_def page_wf_def)
  have "frame_ok ?b i" if i: "i < length (b_frames b)" for i
  proof (cases "pid_file (pg_id (b_frames b ! i)) = fd")
    case True
    with buf_wfD(4) [OF wf i] i show ?thesis
      by (auto simp: frame_ok_def Let_def forget_dirty_def page_wf_def live buf_pages_def disk split: if_splits)
  next
    case False
    with buf_wfD(4) [OF wf i] i show ?thesis
      by (auto simp: frame_ok_def Let_def frame live buf_pages_def disk split: if_splits)
  qed
  then have wf': "buf_wf ?b" using wf by (auto simp: buf_wf_def disk frame)
  have view: "buf_view ?b g n = buf_view b g n" for g n
    using buf_wfD(5) [OF wf] by (auto simp: buf_view_def disk frame split: option.split)
  have "buf_room ?b" using rep by (auto simp: represents_def buf_room_def frame)
  then have "represents ?b P" using wf' rep view live by (simp add: represents_def buf_pages_def disk)
  with run fs(1,2) pins live show ?thesis by (intro exI [of _ ?b]) (auto simp: frame)
qed

end
