(* ===== verification/Start_Stop.thy ===== *)
theory Start_Stop
  imports Component_Properties Buffer_Stop
begin

text \<open>
  \<^verbatim>\<open>src/system/system.cc\<close>: the global objects are built when the server starts and destroyed in the opposite order
  when it stops. The state is the database as the layers above the buffer manager see it, and the buffer manager with
  its frames and the files on disk under it. What a stop and a start together keep.
\<close>

section \<open>Both layers\<close>

type_synonym server = "db \<times> buf_state"

definition onDatabase :: "(db, 'a) act \<Rightarrow> (server, 'a) act" where
  "onDatabase m st = Option.bind (m (fst st)) (\<lambda>(r, s). Some (r, (s, snd st)))"

definition onFrames :: "(buf_state, 'a) act \<Rightarrow> (server, 'a) act" where
  "onFrames m st = Option.bind (m (snd st)) (\<lambda>(r, b). Some (r, (fst st, b)))"

section \<open>Stopping\<close>

text \<open>
  What ending the transactions does to the buffer manager: \<^verbatim>\<open>undo\<close> reads the header of each record of a write set through
  a frame, and the files of the tables in process are deleted. The tables are looked up in the state \<open>s\<close>
  in which the server stops; ending one transaction does not change the tables another one sees.
\<close>

definition undo_frame :: "heap_file \<Rightarrow> rid \<Rightarrow> (buf_state, unit) act" where
  "undo_frame hf r =
     (if r = rid_deleted \<or> dir_slot r = -2 \<or> r = rid_absent then returnA ()
      else bindA (with_frame (hf_file_id hf) (page_num r) (reading (\<lambda>p. page_record_header p (dir_slot r)))) (\<lambda>_. returnA ()))"

fun undo_frames :: "db \<Rightarrow> tx_id \<Rightarrow> tuple_key list \<Rightarrow> (buf_state, unit) act" where
  "undo_frames s tx [] = returnA ()"
| "undo_frames s tx (k # ks) =
     (case get_table_by_id (tk_table k) tx s of
        None \<Rightarrow> throwA Stuck
      | Some ti \<Rightarrow> bindA (undo_frame (ti_heap_file ti) (tk_rid k)) (\<lambda>_. undo_frames s tx ks))"

fun delete_files :: "file_id list \<Rightarrow> (buf_state, unit) act" where
  "delete_files [] = returnA ()"
| "delete_files (f # fs) = bindA (buf_delete_file f) (\<lambda>_. delete_files fs)"

definition files_in_process :: "db \<Rightarrow> tx_id \<Rightarrow> file_id list" where
  "files_in_process s tx =
     (case map_of (db_in_process s) tx of None \<Rightarrow> [] | Some tis \<Rightarrow> map (\<lambda>ti. hf_file_id (ti_heap_file ti)) tis)"

fun end_frames :: "db \<Rightarrow> (tx_id \<times> transaction) list \<Rightarrow> (buf_state, unit) act" where
  "end_frames s [] = returnA ()"
| "end_frames s ((tx, x) # xs) =
     (if tx_state x = COMMITTED then end_frames s xs
      else bindA (undo_frames s tx (tx_first_rids x)) (\<lambda>_.
           bindA (delete_files (files_in_process s tx)) (\<lambda>_. end_frames s xs)))"

text \<open>
  The transactions end first, then the catalog is written, then the buffer manager writes its dirty frames. The catalog
  file is not truncated: what was longer than the new catalog stays behind it. The destructors of the lock
  manager and of the file manager do nothing.
\<close>

definition overwrite :: "byte list \<Rightarrow> byte list \<Rightarrow> byte list" where
  "overwrite old new = new @ drop (length new) old"

definition system_stop :: "byte list \<Rightarrow> (server, byte list) act" where
  "system_stop old =
     bindA getA (\<lambda>(s, b).
     bindA (onFrames (end_frames s (db_active s))) (\<lambda>_.
     bindA (onDatabase transaction_manager_end) (\<lambda>_.
     bindA getA (\<lambda>(s, b).
     bindA (onFrames flush) (\<lambda>_.
       returnA (overwrite old (catalog_bytes s)))))))"

section \<open>Starting\<close>

text \<open>
  The next process gets other descriptors for the files of the folder: \<open>pr_fd f\<close> is what \<^verbatim>\<open>open\<close> returns for the
  file that the last process had open as \<open>f\<close>, \<open>pr_file\<close> the other way round; \<open>pr_fault\<close> says which calls fail.
  What is on disk is all the new process finds.
\<close>

record os_process =
  pr_fd :: "file_id \<Rightarrow> file_id"
  pr_file :: "file_id \<Rightarrow> file_id"
  pr_next :: file_id
  pr_fault :: "nat \<Rightarrow> bool"

definition reopened :: "os_process \<Rightarrow> fs_state \<Rightarrow> fs_state" where
  "reopened p fs = \<lparr>fs_dir = (\<lambda>n. map_option (pr_fd p) (fs_dir fs n)), fs_content = (\<lambda>f. fs_content fs (pr_file p f)),
     fs_next = pr_next p, fs_names = [], fs_calls = 0, fs_fault = pr_fault p\<rparr>"

text \<open>The pages the layers above see through a buffer manager.\<close>

definition presented :: "buf_state \<Rightarrow> pages" where
  "presented b f = map (buf_view b f) [0..<buf_pages b f]"

text \<open>
  The objects before the catalog is read: no frame in use, no file open, no lock taken, no table known. The pages are those
  the new buffer manager presents, that is, those on disk. An exception of the catalog's constructor ends the process.
\<close>

definition new_globals :: "os_process \<Rightarrow> nat \<Rightarrow> fs_state \<Rightarrow> server" where
  "new_globals p bytes fs = (let b = buf_init (reopened p fs) bytes in
     (\<lparr>db_pages = presented b, db_names = [], db_dir = fs_dir (b_fs b), db_next_file = pr_next p, db_last_insert = (\<lambda>t. 0),
       db_active = [], db_locks = (\<lambda>k. None), db_tables = [], db_in_process = [], db_table_counter = 0,
       db_tx_counter = 1\<rparr>, b))"

text \<open>
  The catalog opens the files of its tables through the file manager, whose names and folder the database state
  repeats (\<open>db_names\<close>, \<open>db_dir\<close>).
\<close>

definition register_files :: "server \<Rightarrow> server" where
  "register_files st = (case st of (s, b) \<Rightarrow> (s, b\<lparr>b_fs := (b_fs b)\<lparr>fs_names := db_names s, fs_dir := db_dir s\<rparr>\<rparr>))"

definition system_start :: "os_process \<Rightarrow> nat \<Rightarrow> fs_state \<Rightarrow> byte list \<Rightarrow> (unit res \<times> server) option" where
  "system_start p bytes fs catalog =
     bindA (onDatabase (catalog_open catalog)) (\<lambda>_. modifyA register_files) (new_globals p bytes fs)"

section \<open>Ending the transactions\<close>

text \<open>The file of every table is registered and in the folder, and no table being made has the same.\<close>

definition names_ok :: "db \<Rightarrow> bool" where
  "names_ok s \<longleftrightarrow> distinct (map fst (db_names s)) \<and>
     (\<forall>(t, ti) \<in> set (db_tables s). map_of (db_names s) (table_file (ti_name ti) t) = Some (hf_file_id (ti_heap_file ti)) \<and>
        db_dir s (table_file (ti_name ti) t) = Some (hf_file_id (ti_heap_file ti)))"

definition table_fds :: "db \<Rightarrow> file_id set" where
  "table_fds s = (\<lambda>(t, ti). hf_file_id (ti_heap_file ti)) ` set (db_tables s)"

definition files_ok :: "db \<Rightarrow> bool" where
  "files_ok s \<longleftrightarrow> names_ok s \<and> (\<forall>(u, tis) \<in> set (db_in_process s). \<forall>x \<in> set tis. hf_file_id (ti_heap_file x) \<notin> table_fds s)"

text \<open>The heap file of a table is what the constructor makes of its schema.\<close>

definition stored_table :: "table_info \<Rightarrow> bool" where
  "stored_table ti \<longleftrightarrow> ti_heap_file ti = new_heap_file (ti_schema ti) (hf_file_id (ti_heap_file ti)) (ti_table_id ti)"

text \<open>The records a transaction that has not ended wrote are there.\<close>

definition undoable :: "(tx_id \<times> transaction) list \<Rightarrow> db \<Rightarrow> bool" where
  "undoable xs s \<longleftrightarrow> distinct (map fst xs) \<and>
     (\<forall>(tx, x) \<in> set xs. tx_state x = COMMITTED \<or> records_there tx (tx_first_rids x) s)"

definition same_data :: "db \<Rightarrow> db \<Rightarrow> bool" where
  "same_data s s' \<longleftrightarrow> db_pages s' = db_pages s \<and> db_tables s' = db_tables s \<and>
     db_table_counter s' = db_table_counter s \<and> db_tx_counter s' = db_tx_counter s"

lemma same_data_trans: "same_data s s' \<Longrightarrow> same_data s' s'' \<Longrightarrow> same_data s s''"
  by (simp add: same_data_def)

lemma records_there_cong:
  assumes "same_data s s'" "in_process_of s' tx = in_process_of s tx" "records_there tx ks s"
  shows "records_there tx ks s'"
proof -
  have "get_table_by_id t tx s' = get_table_by_id t tx s" for t
    using assms(1,2) by (simp only: get_table_by_id_def same_data_def)
  moreover have "heap_rep hf s' = heap_rep hf s" for hf
    using assms(1) by (intro heap_rep_cong) (simp add: same_data_def)
  ultimately show ?thesis using assms(3) by (simp add: records_there_def)
qed

lemma name_of_fd_mem: "name_of_fd ns fd = Some n \<Longrightarrow> (n, fd) \<in> set ns"
  by (induction ns) (auto split: if_splits)

lemma delete_keeps:
  assumes "names_ok s" "fd \<notin> table_fds s"
  shows "names_ok (db_delete_file fd s)" "same_data s (db_delete_file fd s)"
    "db_in_process (db_delete_file fd s) = db_in_process s" "db_active (db_delete_file fd s) = db_active s"
proof -
  have other: "n \<noteq> table_file (ti_name ti) t" if "name_of_fd (db_names s) fd = Some n" "(t, ti) \<in> set (db_tables s)" for n t ti
  proof
    assume n: "n = table_file (ti_name ti) t"
    from that(1) have "(n, fd) \<in> set (db_names s)" by (rule name_of_fd_mem)
    then have "map_of (db_names s) n = Some fd" using assms(1) by (simp add: names_ok_def)
    with assms(1) that(2) n have "hf_file_id (ti_heap_file ti) = fd" by (fastforce simp: names_ok_def)
    with assms(2) that(2) show False by (force simp: table_fds_def)
  qed
  have map_filter: "m \<noteq> n \<Longrightarrow> map_of (filter (\<lambda>(m, f). m \<noteq> n) ns) m = map_of ns m" for m n and ns :: "(string \<times> file_id) list"
    by (induction ns) auto
  have dist: "distinct (map fst ns) \<Longrightarrow> distinct (map fst (filter P ns))" for P and ns :: "(string \<times> file_id) list"
    by (induction ns) auto
  show "names_ok (db_delete_file fd s)"
    using assms(1) other
    by (fastforce simp: names_ok_def db_delete_file_def Let_def map_filter dist split: option.split)
qed (simp_all add: db_delete_file_def same_data_def Let_def split: option.split)

lemma deletes_keep:
  assumes "names_ok s" "\<forall>x \<in> set tis. hf_file_id (ti_heap_file x) \<notin> table_fds s"
  defines "s' \<equiv> fold (\<lambda>ti. db_delete_file (hf_file_id (ti_heap_file ti))) tis s"
  shows "names_ok s' \<and> same_data s s' \<and> db_in_process s' = db_in_process s \<and> db_active s' = db_active s"
  using assms(1,2) unfolding s'_def
proof (induction tis arbitrary: s)
  case (Cons x tis)
  let ?s = "db_delete_file (hf_file_id (ti_heap_file x)) s"
  note k = delete_keeps [OF Cons.prems(1), of "hf_file_id (ti_heap_file x)"]
  have "table_fds ?s = table_fds s" using k(2) Cons.prems(2) by (simp add: table_fds_def same_data_def)
  with Cons.IH [of ?s] Cons.prems(2) k show ?case by (auto intro: same_data_trans)
qed (simp add: same_data_def)

lemma files_ok_others [simp]:
  "files_ok (s\<lparr>db_active := a\<rparr>) = files_ok s" "files_ok (s\<lparr>db_locks := l\<rparr>) = files_ok s"
  by (simp_all add: files_ok_def names_ok_def table_fds_def)

lemma abort_tables_keep:
  assumes "files_ok s"
  shows "\<exists>s'. abort_in_progress_tables tx s = Some (Inr (), s') \<and> files_ok s' \<and> same_data s s' \<and> db_active s' = db_active s \<and>
     (\<forall>u. u \<noteq> tx \<longrightarrow> in_process_of s' u = in_process_of s u)"
proof (cases "map_of (db_in_process s) tx")
  case None
  with assms show ?thesis by (simp add: abort_in_progress_tables_def act_run same_data_def)
next
  case (Some tis)
  define s1 where "s1 = fold (\<lambda>ti. db_delete_file (hf_file_id (ti_heap_file ti))) tis s"
  have "\<forall>x \<in> set tis. hf_file_id (ti_heap_file x) \<notin> table_fds s"
    using assms map_of_SomeD [OF Some] by (fastforce simp: files_ok_def)
  with assms have k: "names_ok s1 \<and> same_data s s1 \<and> db_in_process s1 = db_in_process s \<and> db_active s1 = db_active s"
    unfolding s1_def by (intro deletes_keep) (simp add: files_ok_def)
  let ?s = "s1\<lparr>db_in_process := AList.delete tx (db_in_process s)\<rparr>"
  have "files_ok ?s" using assms k
    by (auto simp: files_ok_def names_ok_def table_fds_def same_data_def AList.delete_eq)
  moreover have "in_process_of ?s u = in_process_of s u" if "u \<noteq> tx" for u
  proof -
    have "filter (\<lambda>(v, ts). v = u) (AList.delete tx al) = filter (\<lambda>(v, ts). v = u) al" for al :: "(tx_id \<times> table_info list) list"
      using that by (induction al) auto
    then show ?thesis by (simp add: in_process_of_def)
  qed
  moreover have "abort_in_progress_tables tx s = Some (Inr (), ?s)"
    using Some by (simp add: abort_in_progress_tables_def act_run s1_def)
  ultimately show ?thesis using k by (intro exI [of _ ?s]) (simp add: same_data_def)
qed

lemma end_all_run:
  assumes "undoable xs s" "files_ok s"
  shows "\<exists>s'. end_all xs s = Some (Inr (), s') \<and> files_ok s' \<and> same_data s s' \<and> db_active s' = []"
  using assms
proof (induction xs arbitrary: s)
  case Nil
  then show ?case
    by (simp add: act_run same_data_def)
next
  case (Cons y xs)
  obtain tx x where y: "y = (tx, x)" by (cases y)
  show ?case
  proof (cases "tx_state x = COMMITTED")
    case True
    moreover have "undoable xs s" using Cons.prems(1) by (auto simp: undoable_def)
    ultimately show ?thesis using Cons.IH [OF _ Cons.prems(2)] by (simp add: y)
  next
    case False
    then have u: "undo_all tx (tx_first_rids x) s = Some (Inr (), s)"
      using Cons.prems(1) by (intro undo_all_run) (auto simp: undoable_def y)
    define s1 where "s1 = s\<lparr>db_locks := fold (release_key tx) (tx_first_rids x) (db_locks s)\<rparr>"
    have "files_ok s1" using Cons.prems(2) by (simp add: s1_def)
    then obtain s2 where s2: "abort_in_progress_tables tx s1 = Some (Inr (), s2)" "files_ok s2" "same_data s1 s2"
      "\<And>u. u \<noteq> tx \<Longrightarrow> in_process_of s2 u = in_process_of s1 u" using abort_tables_keep by blast
    define s3 where "s3 = update_transaction tx (\<lambda>x. x\<lparr>tx_state := COMMITTED\<rparr>) s2"
    have s3: "files_ok s3" "same_data s s3" "\<And>u. u \<noteq> tx \<Longrightarrow> in_process_of s3 u = in_process_of s u"
      using s2(2-4) by (simp_all add: s3_def s1_def update_transaction_def same_data_def in_process_of_def)
    have "undoable xs s3" unfolding undoable_def
    proof (intro conjI)
      show "distinct (map fst xs)" using Cons.prems(1) by (simp add: undoable_def y)
      have "u \<noteq> tx" if "(u, z) \<in> set xs" for u z
        using that Cons.prems(1) by (force simp: undoable_def y)
      then show "\<forall>(u, z) \<in> set xs. tx_state z = COMMITTED \<or> records_there u (tx_first_rids z) s3"
        using Cons.prems(1) records_there_cong [OF s3(2) s3(3)] by (fastforce simp: undoable_def)
    qed
    from Cons.IH [OF this s3(1)] obtain s' where "end_all xs s3 = Some (Inr (), s')" "files_ok s'" "same_data s3 s'" "db_active s' = []"
      by blast
    moreover from this(1) False have "end_all (y # xs) s = Some (Inr (), s')"
      by (simp add: y bindA_def u release_all_locks_def act_run s1_def [symmetric] s2(1) set_state_def s3_def)
    ultimately show ?thesis using s3(2) by (blast intro: same_data_trans)
  qed
qed

section \<open>Reading the tables again\<close>

lemma load_tables_exact:
  assumes "sorted_wrt (<) (map fst (db_tables s) @ map fst ts)"
    "\<forall>n fd. map_of (db_names s) n = Some fd \<longrightarrow> db_dir s n = Some fd"
    "\<forall>(t, ti) \<in> set ts. ti_table_id ti = t \<and> entry_ok ti \<and> stored_table ti \<and>
       db_dir s (table_file (ti_name ti) t) = Some (hf_file_id (ti_heap_file ti))"
  shows "\<exists>s'. load_tables (length ts) (concat (map (\<lambda>(t, ti). write_table ti) ts) @ rest) s = Some (Inr rest, s') \<and>
     db_tables s' = db_tables s @ ts \<and> db_pages s' = db_pages s \<and> db_tx_counter s' = db_tx_counter s \<and>
     db_table_counter s' = db_table_counter s \<and> db_active s' = db_active s \<and> db_locks s' = db_locks s \<and>
     db_in_process s' = db_in_process s"
  using assms
proof (induction ts arbitrary: s)
  case Nil
  then show ?case by (simp add: act_run)
next
  case (Cons x ts)
  obtain t ti where x: "x = (t, ti)" by (cases x)
  have ti: "ti_table_id ti = t" "entry_ok ti" "stored_table ti" "db_dir s (table_file (ti_name ti) t) = Some (hf_file_id (ti_heap_file ti))"
    using Cons.prems(3) x by auto
  then have name: "normalize (ti_name ti) = Inr (ti_name ti)" by (simp add: entry_ok_def normalize_name)
  obtain ns where s1: "table_file_id (ti_name ti) t s = Some (Inr (hf_file_id (ti_heap_file ti)), s\<lparr>db_names := ns\<rparr>)"
    "\<forall>n fd. map_of ns n = Some fd \<longrightarrow> db_dir s n = Some fd"
  proof (cases "map_of (db_names s) (table_file (ti_name ti) t)")
    case None
    with ti(4) Cons.prems(2) that [of "(table_file (ti_name ti) t, hf_file_id (ti_heap_file ti)) # db_names s"] show thesis
      by (simp add: table_file_id_def db_get_file_id_def table_file_def bindA_def act_run)
  next
    case (Some fd)
    with ti(4) Cons.prems(2) that [of "db_names s"] show thesis
      by (auto simp: table_file_id_def db_get_file_id_def table_file_def bindA_def act_run)
  qed
  define s2 where "s2 = fresh_last_insert t (s\<lparr>db_names := ns, db_tables := insert_table ti (db_tables s)\<rparr>)"
  have same: "\<lparr>ti_name = ti_name ti, ti_schema = \<lparr>columns = columns (ti_schema ti)\<rparr>,
      ti_heap_file = new_heap_file \<lparr>columns = columns (ti_schema ti)\<rparr> (hf_file_id (ti_heap_file ti)) t,
      ti_table_id = t, ti_cardinality = ti_cardinality ti\<rparr> = ti"
  proof -
    have "\<lparr>columns = columns (ti_schema ti)\<rparr> = ti_schema ti" by (cases "ti_schema ti") simp
    with ti(1) ti(3) [unfolded stored_table_def, symmetric] show ?thesis by (simp only:) simp
  qed
  have "insert_table ti (db_tables s) = db_tables s @ [(t, ti)]"
    using Cons.prems(1) x ti(1) by (subst insert_table_last) (auto simp: sorted_wrt_append)
  then have t2: "db_tables s2 = db_tables s @ [(t, ti)]" by (simp add: s2_def fresh_last_insert_def)
  have "sorted_wrt (<) (map fst (db_tables s2) @ map fst ts)"
    using Cons.prems(1) x by (simp add: t2 sorted_wrt_append)
  from Cons.IH [OF this] obtain s' where s': "load_tables (length ts) (concat (map (\<lambda>(t, ti). write_table ti) ts) @ rest) s2 =
      Some (Inr rest, s')" "db_tables s' = db_tables s2 @ ts" "db_pages s' = db_pages s2" "db_tx_counter s' = db_tx_counter s2"
      "db_table_counter s' = db_table_counter s2" "db_active s' = db_active s2" "db_locks s' = db_locks s2" "db_in_process s' = db_in_process s2"
    using Cons.prems(3) s1(2) by (auto simp: s2_def fresh_last_insert_def)
  have "load_tables (length (x # ts)) (concat (map (\<lambda>(t, ti). write_table ti) (x # ts)) @ rest) s = Some (Inr rest, s')"
    using s'(1) by (simp add: x read_write_table [OF ti(2)] entry_of_def name ti(1) bindA_def s1(1) act_run same s2_def [symmetric])
  then show ?case using s'(2-8) by (simp add: x t2) (simp add: s2_def fresh_last_insert_def)
qed

section \<open>Ending the transactions in the buffer manager\<close>

text \<open>The buffer manager presents the pages of the database, has its names and folder, and no page is in use.\<close>

definition backed :: "db \<Rightarrow> buf_state \<Rightarrow> bool" where
  "backed s b \<longleftrightarrow> represents b (db_pages s) \<and> fs_names (b_fs b) = db_names s \<and> fs_dir (b_fs b) = db_dir s \<and>
     once (db_names s) \<and> UNASSIGNED \<notin> snd ` set (db_names s) \<and> (\<forall>p \<in> set (b_frames b). pg_pins p = 0)"

text \<open>The files of the tables in process are registered, and transactions share none.\<close>

definition process_ok :: "db \<Rightarrow> bool" where
  "process_ok s \<longleftrightarrow>
     (\<forall>(u, tis) \<in> set (db_in_process s). \<forall>x \<in> set tis. hf_file_id (ti_heap_file x) \<in> snd ` set (db_names s)) \<and>
     (\<forall>(u, tis) \<in> set (db_in_process s). \<forall>(v, tjs) \<in> set (db_in_process s). u \<noteq> v \<longrightarrow>
        (\<forall>x \<in> set tis. \<forall>y \<in> set tjs. hf_file_id (ti_heap_file x) \<noteq> hf_file_id (ti_heap_file y)))"

definition process_fds :: "db \<Rightarrow> tx_id \<Rightarrow> file_id set" where
  "process_fds s tx = (\<lambda>ti. hf_file_id (ti_heap_file ti)) ` set (in_process_of s tx)"

text \<open>The database with the names and the folder of a file manager.\<close>

definition shadow :: "db \<Rightarrow> fs_state \<Rightarrow> db" where
  "shadow s fs = s\<lparr>db_names := fs_names fs, db_dir := fs_dir fs\<rparr>"

definition stopping :: "db \<Rightarrow> tx_id set \<Rightarrow> buf_state \<Rightarrow> bool" where
  "stopping s txs b \<longleftrightarrow> represents b (db_pages s) \<and> once (fs_names (b_fs b)) \<and> (\<forall>p \<in> set (b_frames b). pg_pins p = 0) \<and>
     (\<forall>f \<in> table_fds s. buf_live b f) \<and> (\<forall>tx \<in> txs. \<forall>f \<in> process_fds s tx. buf_live b f) \<and> names_ok (shadow s (b_fs b))"

lemma stopping_mono: "stopping s txs b \<Longrightarrow> txs' \<subseteq> txs \<Longrightarrow> stopping s txs' b"
  by (auto simp: stopping_def)

lemma pins_zero: "(\<forall>p \<in> set (b_frames b). pg_pins p = 0) \<longleftrightarrow> (\<forall>x \<in> set (buf_pins b). x = 0)"
  by (simp add: buf_pins_def)

lemma undo_frame_run:
  assumes "stopping s txs b" "heap_rep hf s H" "in_heap H r" "buf_live b (hf_file_id hf)"
  shows "\<exists>b'. undo_frame hf r b = Some (Inr (), b') \<and> stopping s txs b' \<and> (\<forall>g. buf_live b' g = buf_live b g)"
proof -
  let ?op = "reading (\<lambda>p. page_record_header p (dir_slot r))"
  note sp = not_special [OF assms(3)]
  obtain x where "heap_page hf (page_num r) ?op s = Some (Inr x, s)"
    using get_record_header_run [OF assms(2,3)] sp by (simp add: get_record_header_def)
  then have "with_page (hf_file_id hf) (page_num r) ?op (db_pages s) = Some (Inr x, db_pages s)"
    by (auto simp: heap_page_def onPages_def bind_eq_Some_conv dest: arg_cong [where f = db_pages])
  from with_frame_pins [OF _ assms(4) page_op_intros(1) this] assms(1) obtain b' where
    b': "with_frame (hf_file_id hf) (page_num r) ?op b = Some (Inr x, b')" "represents b' (db_pages s)"
    "\<forall>g. buf_live b' g = buf_live b g" "buf_pins b' = buf_pins b" by (auto simp: stopping_def)
  have "fs_names (b_fs b') = fs_names (b_fs b) \<and> fs_dir (b_fs b') = fs_dir (b_fs b)"
    by (rule keeps_namesD [OF names_with_frame b'(1)])
  then have "stopping s txs b'"
    using assms(1) b'(2-4) by (simp add: stopping_def pins_zero shadow_def)
  moreover have "dir_slot r \<noteq> -2" using assms(3) by (auto simp: in_heap_def)
  then have "undo_frame hf r b = Some (Inr (), b')"
    using b'(1) sp by (simp add: undo_frame_def bindA_def act_run)
  ultimately show ?thesis using b'(3) by blast
qed

lemma table_live:
  assumes "stopping s txs b" "tx \<in> txs" "get_table_by_id t tx s = Some ti"
  shows "buf_live b (hf_file_id (ti_heap_file ti))"
proof -
  have "hf_file_id (ti_heap_file ti) \<in> table_fds s \<union> process_fds s tx"
    using assms(3)
    by (fastforce simp: get_table_by_id_def table_fds_def process_fds_def find_Some_iff dest: map_of_SomeD split: option.splits)
  with assms(1,2) show ?thesis by (auto simp: stopping_def)
qed

lemma undo_frames_run:
  assumes "stopping s txs b" "tx \<in> txs" "records_there tx ks s"
  shows "\<exists>b'. undo_frames s tx ks b = Some (Inr (), b') \<and> stopping s txs b'"
  using assms(1,3)
proof (induction ks arbitrary: b)
  case (Cons k ks)
  obtain ti H where k: "get_table_by_id (tk_table k) tx s = Some ti" "heap_rep (ti_heap_file ti) s H" "in_heap H (tk_rid k)"
    using Cons.prems(2) by (auto simp: records_there_def)
  obtain b1 where b1: "undo_frame (ti_heap_file ti) (tk_rid k) b = Some (Inr (), b1)" "stopping s txs b1"
    using undo_frame_run [OF Cons.prems(1) k(2,3) table_live [OF Cons.prems(1) assms(2) k(1)]] by blast
  have "records_there tx ks s" using Cons.prems(2) by (simp add: records_there_def)
  from Cons.IH [OF b1(2) this] obtain b' where "undo_frames s tx ks b1 = Some (Inr (), b')" "stopping s txs b'" by blast
  with k(1) b1(1) show ?case by (auto simp: bindA_def)
qed (simp add: act_run)

lemma delete_shadow: "fm_delete_file fd fs = Some (Inr (), fs') \<Longrightarrow> shadow s fs' = db_delete_file fd (shadow s fs)"
  by (auto simp: fm_delete_file_def db_delete_file_def shadow_def bindA_def act_run Let_def split: option.splits if_splits)

lemma delete_files_run:
  assumes "stopping s txs b" "\<forall>f \<in> set fds. f \<notin> table_fds s \<and> (\<forall>tx \<in> txs. f \<notin> process_fds s tx)"
  shows "\<exists>b'. delete_files fds b = Some (Inr (), b') \<and> stopping s txs b'"
  using assms
proof (induction fds arbitrary: b)
  case (Cons f fds)
  obtain b1 where b1: "buf_delete_file f b = Some (Inr (), b1)" "represents b1 (db_pages s)" "once (fs_names (b_fs b1))"
    "\<forall>p \<in> set (b_frames b1). pg_pins p = 0" "\<forall>g. buf_live b1 g \<longleftrightarrow> buf_live b g \<and> g \<noteq> f"
    "fm_delete_file f (b_fs b) = Some (Inr (), b_fs b1)"
    using buf_delete_run [of b "db_pages s" f] Cons.prems(1) by (auto simp: stopping_def)
  have "f \<notin> table_fds (shadow s (b_fs b))" using Cons.prems(2) by (simp add: table_fds_def shadow_def)
  then have "names_ok (shadow s (b_fs b1))"
    using delete_keeps(1) Cons.prems(1) by (simp add: delete_shadow [OF b1(6)] stopping_def)
  then have "stopping s txs b1" using b1(2-5) Cons.prems by (auto simp: stopping_def)
  from Cons.IH [OF this] Cons.prems(2) obtain b' where "delete_files fds b1 = Some (Inr (), b')" "stopping s txs b'" by auto
  with b1(1) show ?case by (auto simp: bindA_def)
qed (simp add: act_run)

lemma process_fdsE: "f \<in> process_fds s tx \<Longrightarrow> \<exists>tis. (tx, tis) \<in> set (db_in_process s) \<and> f \<in> (\<lambda>ti. hf_file_id (ti_heap_file ti)) ` set tis"
  by (fastforce simp: process_fds_def in_process_of_def)

lemma end_frames_run:
  assumes "stopping s (fst ` set xs) b" "undoable xs s" "files_ok s" "process_ok s"
  shows "\<exists>b'. end_frames s xs b = Some (Inr (), b') \<and> stopping s {} b'"
  using assms(1,2)
proof (induction xs arbitrary: b)
  case (Cons y xs)
  obtain tx x where y: "y = (tx, x)" by (cases y)
  have rest: "undoable xs s" and fresh: "tx \<notin> fst ` set xs" using Cons.prems(2) by (auto simp: undoable_def y)
  show ?case
  proof (cases "tx_state x = COMMITTED")
    case True
    with Cons.IH [OF stopping_mono [OF Cons.prems(1)] rest] show ?thesis by (auto simp: y)
  next
    case False
    then have "records_there tx (tx_first_rids x) s" using Cons.prems(2) by (simp add: undoable_def y)
    from undo_frames_run [OF Cons.prems(1) _ this] obtain b1 where
      b1: "undo_frames s tx (tx_first_rids x) b = Some (Inr (), b1)" "stopping s (fst ` set (y # xs)) b1" by (auto simp: y)
    have "f \<notin> table_fds s \<and> (\<forall>u \<in> fst ` set xs. f \<notin> process_fds s u)" if f: "f \<in> set (files_in_process s tx)" for f
    proof -
      obtain tis where tis: "(tx, tis) \<in> set (db_in_process s)" "f \<in> (\<lambda>ti. hf_file_id (ti_heap_file ti)) ` set tis"
        using f by (cases "map_of (db_in_process s) tx") (auto simp: files_in_process_def dest: map_of_SomeD)
      with assms(3) have "f \<notin> table_fds s" by (fastforce simp: files_ok_def)
      moreover have "f \<notin> process_fds s u" if u: "u \<in> fst ` set xs" for u
      proof
        assume "f \<in> process_fds s u"
        then obtain tjs where tjs: "(u, tjs) \<in> set (db_in_process s)" "f \<in> (\<lambda>ti. hf_file_id (ti_heap_file ti)) ` set tjs"
          using process_fdsE by blast
        have "tx \<noteq> u" using fresh u by blast
        then have "\<forall>x \<in> set tis. \<forall>y \<in> set tjs. hf_file_id (ti_heap_file x) \<noteq> hf_file_id (ti_heap_file y)"
          using assms(4) tis(1) tjs(1) unfolding process_ok_def by blast
        with tis(2) tjs(2) show False by auto
      qed
      ultimately show ?thesis by blast
    qed
    with delete_files_run [OF stopping_mono [OF b1(2)]] obtain b2 where
      b2: "delete_files (files_in_process s tx) b1 = Some (Inr (), b2)" "stopping s (fst ` set xs) b2"
      by (metis image_mono set_subset_Cons)
    from Cons.IH [OF b2(2) rest] obtain b' where "end_frames s xs b2 = Some (Inr (), b')" "stopping s {} b'" by blast
    with False b1(1) b2(1) show ?thesis by (auto simp: y bindA_def)
  qed
qed (simp add: act_run)

lemma backed_stopping:
  assumes "backed s b" "files_ok s" "process_ok s"
  shows "stopping s txs b"
proof -
  have reg: "buf_live b f" if "f \<in> snd ` set (db_names s)" for f
    using that assms(1) unfolding backed_def buf_live_def by metis
  have "f \<in> snd ` set (db_names s)" if f: "f \<in> table_fds s" for f
  proof -
    obtain t ti where "(t, ti) \<in> set (db_tables s)" "f = hf_file_id (ti_heap_file ti)" using f by (auto simp: table_fds_def)
    then have "map_of (db_names s) (table_file (ti_name ti) t) = Some f"
      using assms(2) by (fastforce simp: files_ok_def names_ok_def)
    then show ?thesis by (force dest: map_of_SomeD)
  qed
  moreover have "f \<in> snd ` set (db_names s)" if "f \<in> process_fds s tx" for f tx
    using process_fdsE [OF that] assms(3) by (fastforce simp: process_ok_def)
  moreover have "shadow s (b_fs b) = s" using assms(1) by (simp add: shadow_def backed_def)
  ultimately show ?thesis using assms(1,2) reg by (simp add: stopping_def backed_def files_ok_def)
qed

section \<open>A new process\<close>

definition moved_table :: "(file_id \<Rightarrow> file_id) \<Rightarrow> table_info \<Rightarrow> table_info" where
  "moved_table g ti = ti\<lparr>ti_heap_file := (ti_heap_file ti)\<lparr>hf_file_id := g (hf_file_id (ti_heap_file ti))\<rparr>\<rparr>"

definition moved_tables :: "(file_id \<Rightarrow> file_id) \<Rightarrow> (table_id \<times> table_info) list \<Rightarrow> (table_id \<times> table_info) list" where
  "moved_tables g = map (\<lambda>(t, ti). (t, moved_table g ti))"

lemma moved_simps [simp]:
  "ti_name (moved_table g ti) = ti_name ti" "ti_table_id (moved_table g ti) = ti_table_id ti"
  "ti_schema (moved_table g ti) = ti_schema ti" "ti_cardinality (moved_table g ti) = ti_cardinality ti"
  "hf_file_id (ti_heap_file (moved_table g ti)) = g (hf_file_id (ti_heap_file ti))"
  "write_table (moved_table g ti) = write_table ti" "entry_ok (moved_table g ti) = entry_ok ti"
  by (simp_all add: moved_table_def write_table_def entry_ok_def)

lemma moved_stored: "stored_table ti \<Longrightarrow> stored_table (moved_table g ti)"
  by (simp add: stored_table_def moved_table_def new_heap_file_def) (metis heap_file.update_convs(3))

lemma moved_tables_simps [simp]:
  "length (moved_tables g ts) = length ts" "map fst (moved_tables g ts) = map fst ts"
  "map (\<lambda>(t, ti). write_table ti) (moved_tables g ts) = map (\<lambda>(t, ti). write_table ti) ts"
  by (auto simp: moved_tables_def)

lemma new_buffer_represents:
  assumes "fs_wf fs" "no_faults fs" "PAGE_SIZE \<le> bytes"
  shows "represents (buf_init fs bytes) (presented (buf_init fs bytes))"
proof -
  have n: "0 < bytes div PAGE_SIZE" using assms(3) by (simp add: div_greater_zero_iff)
  let ?b = "buf_init fs bytes"
  have f: "b_frames ?b = replicate (bytes div PAGE_SIZE) (set_bytes new_page (replicate PAGE_SIZE 0))" "b_map ?b = (\<lambda>_. None)"
    "b_fs ?b = fs" "b_clock ?b = 0" by (simp_all add: buf_init_def)
  then have "buf_wf ?b"
    using assms(1,2) n
    by (auto simp: buf_wf_def frame_ok_def Let_def new_page_def set_bytes_def page_wf_def UNASSIGNED_def)
  moreover have "buf_room ?b" using f(1) n by (auto simp: buf_room_def new_page_def set_bytes_def intro!: exI [of _ 0])
  ultimately show ?thesis by (simp add: represents_def presented_def)
qed

lemma represents_registered: "represents (b\<lparr>b_fs := (b_fs b)\<lparr>fs_names := ns, fs_dir := d\<rparr>\<rparr>) P"
  if "represents b P" "P = presented b" "b_map b = (\<lambda>_. None)"
proof -
  let ?b = "b\<lparr>b_fs := (b_fs b)\<lparr>fs_names := ns, fs_dir := d\<rparr>\<rparr>"
  have wf: "buf_wf b" "buf_room b" using that(1) by (simp_all add: represents_def)
  have same: "disk_page (b_fs ?b) = disk_page (b_fs b)" "buf_pages ?b = buf_pages b" "buf_view ?b = buf_view b"
    using that(3) by (simp_all add: fun_eq_iff disk_page_def buf_pages_def count_pages_def file_size_def buf_view_def)
  have "pid_file (pg_id (b_frames b ! i)) = UNASSIGNED" if i: "i < length (b_frames b)" for i
    using buf_wfD(4) [OF wf(1) i] \<open>b_map b = (\<lambda>_. None)\<close> by (simp add: frame_ok_def Let_def split: if_splits)
  then have "frame_ok ?b i" if "i < length (b_frames b)" for i
    using buf_wfD(4) [OF wf(1) that] that by (simp add: frame_ok_def Let_def)
  then have "buf_wf ?b" using wf(1) by (simp add: buf_wf_def fs_wf_def no_faults_def file_size_def)
  moreover have "buf_room ?b" using wf(2) by (simp add: buf_room_def)
  ultimately show ?thesis using that(2) same by (simp add: represents_def presented_def)
qed

lemma reopened_disk:
  assumes "\<forall>f. pr_file p (pr_fd p f) = f"
  shows "disk_page (reopened p fs) (pr_fd p f) n = disk_page fs f n" "count_pages (pr_fd p f) (reopened p fs) = count_pages f fs"
  using assms by (simp_all add: reopened_def disk_page_def count_pages_def file_size_def)

lemma reopened_wf: "fs_wf fs \<Longrightarrow> \<forall>n. \<not> pr_fault p n \<Longrightarrow> fs_wf (reopened p fs) \<and> no_faults (reopened p fs)"
  by (simp add: reopened_def fs_wf_def no_faults_def file_size_def)

section \<open>A restart\<close>

lemma stop_run:
  assumes "files_ok s" "undoable (db_active s) s" "process_ok s" "backed s b"
  shows "\<exists>s1 b1. system_stop old (s, b) = Some (Inr (overwrite old (catalog_bytes s1)), (s1, b1)) \<and> same_data s s1 \<and> fs_wf (b_fs b1) \<and>
    (\<forall>f \<in> table_fds s. length (db_pages s f) = count_pages f (b_fs b1) \<and>
       (\<forall>n < length (db_pages s f). db_pages s f ! n = disk_page (b_fs b1) f n)) \<and>
    names_ok (shadow s (b_fs b1))"
proof -
  obtain s1 where s1: "end_all (db_active s) s = Some (Inr (), s1)" "same_data s s1"
    using end_all_run [OF assms(2,1)] by blast
  obtain b1 where b1: "end_frames s (db_active s) b = Some (Inr (), b1)" "stopping s {} b1"
    using end_frames_run [OF backed_stopping [OF assms(4,1,3)] assms(2,1,3)] by blast
  then obtain b2 where b2: "flush b1 = Some (Inr (), b2)" "fs_wf (b_fs b2)" "fs_names (b_fs b2) = fs_names (b_fs b1)"
    "fs_dir (b_fs b2) = fs_dir (b_fs b1)"
    "\<forall>f. buf_live b1 f \<longrightarrow> length (db_pages s f) = count_pages f (b_fs b2) \<and>
       (\<forall>n < length (db_pages s f). db_pages s f ! n = disk_page (b_fs b2) f n)"
    using flush_presents [of b1 "db_pages s"] unfolding stopping_def by blast
  have "system_stop old (s, b) = Some (Inr (overwrite old (catalog_bytes s1)), (s1, b2))"
    using s1(1) b1(1) b2(1)
    by (simp add: system_stop_def bindA_def act_run onFrames_def onDatabase_def transaction_manager_end_def)
  moreover have "shadow s (b_fs b2) = shadow s (b_fs b1)" using b2(3,4) by (simp add: shadow_def)
  ultimately show ?thesis using s1(2) b1(2) b2(2,5) by (auto simp: stopping_def)
qed

lemma start_again_run:
  assumes "tables_ok s" "\<forall>(t, ti) \<in> set (db_tables s). stored_table ti" "names_ok (shadow s fs)" "fs_wf fs"
    "db_tables s1 = db_tables s" "\<forall>n. \<not> pr_fault p n" "PAGE_SIZE \<le> bytes"
  shows "\<exists>s2 b2. system_start p bytes fs (overwrite old (catalog_bytes s1)) = Some (Inr (), (s2, b2)) \<and>
    db_tables s2 = moved_tables (pr_fd p) (db_tables s) \<and> db_tx_counter s2 = db_tx_counter s1 \<and>
    db_table_counter s2 = db_table_counter s1 \<and> db_active s2 = [] \<and> db_in_process s2 = [] \<and> db_locks s2 = (\<lambda>k. None) \<and>
    db_pages s2 = presented (buf_init (reopened p fs) bytes) \<and> represents b2 (db_pages s2)"
proof -
  define b0 where "b0 = buf_init (reopened p fs) bytes"
  define s0 where "s0 = fst (new_globals p bytes fs)"
  have new: "new_globals p bytes fs = (s0, b0)" by (simp add: s0_def b0_def new_globals_def Let_def)
  have s0: "db_tables s0 = []" "db_names s0 = []" "db_pages s0 = presented b0" "db_active s0 = []" "db_locks s0 = (\<lambda>k. None)"
    "db_in_process s0 = []" "db_dir s0 = (\<lambda>n. map_option (pr_fd p) (fs_dir fs n))"
    by (simp_all add: s0_def b0_def new_globals_def Let_def buf_init_def reopened_def)
  let ?s0 = "s0\<lparr>db_tx_counter := db_tx_counter s1, db_table_counter := db_table_counter s1\<rparr>"
  let ?rest = "drop (length (catalog_bytes s1)) old" and ?ts = "moved_tables (pr_fd p) (db_tables s)"
  have short: "short (db_tables s1)" using assms(1) by (simp add: tables_ok_def assms(5))
  have 1: "sorted_wrt (<) (map fst (db_tables ?s0) @ map fst ?ts)" using assms(1) by (simp add: s0 tables_ok_def)
  have 2: "\<forall>n fd. map_of (db_names ?s0) n = Some fd \<longrightarrow> db_dir ?s0 n = Some fd" by (simp add: s0)
  have 3: "\<forall>(t, ti) \<in> set ?ts. ti_table_id ti = t \<and> entry_ok ti \<and> stored_table ti \<and>
      db_dir ?s0 (table_file (ti_name ti) t) = Some (hf_file_id (ti_heap_file ti))"
    using assms(1-3) by (fastforce simp: moved_tables_def s0(7) tables_ok_def names_ok_def shadow_def moved_stored)
  obtain s2 where s2: "load_tables (length ?ts) (concat (map (\<lambda>(t, ti). write_table ti) ?ts) @ ?rest) ?s0 = Some (Inr ?rest, s2)"
    "db_tables s2 = db_tables ?s0 @ ?ts" "db_pages s2 = db_pages ?s0" "db_tx_counter s2 = db_tx_counter ?s0"
    "db_table_counter s2 = db_table_counter ?s0" "db_active s2 = db_active ?s0" "db_locks s2 = db_locks ?s0"
    "db_in_process s2 = db_in_process ?s0"
    using load_tables_exact [OF 1 2 3, of ?rest] by blast
  have opened: "catalog_open (overwrite old (catalog_bytes s1)) s0 = Some (Inr (), s2)"
    using s2(1) unfolding overwrite_def
    by (simp add: catalog_open_def catalog_bytes_def read_write_i64 short_sint [OF short [unfolded assms(5)]] bindA_def act_run write_i64_not_Nil assms(5))
  let ?b2 = "b0\<lparr>b_fs := (b_fs b0)\<lparr>fs_names := db_names s2, fs_dir := db_dir s2\<rparr>\<rparr>"
  have run: "system_start p bytes fs (overwrite old (catalog_bytes s1)) = Some (Inr (), (s2, ?b2))"
    by (simp add: system_start_def new bindA_def act_run onDatabase_def opened register_files_def)
  have "represents b0 (presented b0)"
    using new_buffer_represents reopened_wf [OF assms(4,6)] assms(7) by (simp add: b0_def)
  then have "represents ?b2 (db_pages s2)"
    by (intro represents_registered) (simp_all add: s2(3) s0(3), simp add: b0_def buf_init_def)
  with run s2(2-8) show ?thesis by (intro exI [of _ s2] exI [of _ ?b2]) (simp add: s0 b0_def)
qed

text \<open>
  C26. The server stops, with transactions under way or not, and starts again in a new process on the same folder, where
  the files have other descriptors. Before, the buffer manager presents the pages of the database, in frames that may be
  dirty, and no page is in use. Stopping ends the transactions, writes the catalog over whatever was in its file and flushes
  the frames; only the disk and the catalog file are left. Starting gives back the same tables with the same ids, names,
  columns and cardinalities on the same files, the same counters, and every page of every table as it was, now read from the
  disk by the new buffer manager; there is no transaction, no lock and no table in process left.
\<close>

theorem restart_keeps_tables:
  assumes "tables_ok s" "files_ok s" "\<forall>(t, ti) \<in> set (db_tables s). stored_table ti" "undoable (db_active s) s"
    "process_ok s" "backed s b"
    "\<forall>f. pr_file p (pr_fd p f) = f" "\<forall>n. \<not> pr_fault p n" "PAGE_SIZE \<le> bytes"
  shows "\<exists>f s1 b1 s2 b2. system_stop old (s, b) = Some (Inr f, (s1, b1)) \<and>
    system_start p bytes (b_fs b1) f = Some (Inr (), (s2, b2)) \<and>
    db_tables s2 = moved_tables (pr_fd p) (db_tables s) \<and>
    (\<forall>g \<in> table_fds s. db_pages s2 (pr_fd p g) = db_pages s g) \<and> represents b2 (db_pages s2) \<and>
    db_tx_counter s2 = db_tx_counter s \<and> db_table_counter s2 = db_table_counter s \<and>
    db_active s2 = [] \<and> db_in_process s2 = [] \<and> db_locks s2 = (\<lambda>k. None)"
proof -
  obtain s1 b1 where stop: "system_stop old (s, b) = Some (Inr (overwrite old (catalog_bytes s1)), (s1, b1))" "same_data s s1"
    "fs_wf (b_fs b1)" "\<forall>f \<in> table_fds s. length (db_pages s f) = count_pages f (b_fs b1) \<and>
       (\<forall>n < length (db_pages s f). db_pages s f ! n = disk_page (b_fs b1) f n)" "names_ok (shadow s (b_fs b1))"
    using stop_run [OF assms(2,4-6)] by blast
  have "db_tables s1 = db_tables s" using stop(2) by (simp add: same_data_def)
  from start_again_run [OF assms(1,3) stop(5,3) this assms(8,9)] obtain s2 b2 where
    start: "system_start p bytes (b_fs b1) (overwrite old (catalog_bytes s1)) = Some (Inr (), (s2, b2))"
    "db_tables s2 = moved_tables (pr_fd p) (db_tables s)" "db_tx_counter s2 = db_tx_counter s1"
    "db_table_counter s2 = db_table_counter s1" "db_active s2 = []" "db_in_process s2 = []" "db_locks s2 = (\<lambda>k. None)"
    "db_pages s2 = presented (buf_init (reopened p (b_fs b1)) bytes)" "represents b2 (db_pages s2)" by blast
  have "db_pages s2 (pr_fd p g) = db_pages s g" if g: "g \<in> table_fds s" for g
  proof (rule nth_equalityI)
    show len: "length (db_pages s2 (pr_fd p g)) = length (db_pages s g)"
      using stop(4) g reopened_disk(2) [OF assms(7)]
      by (simp add: start(8) presented_def buf_pages_def) (simp add: buf_init_def)
    fix n assume "n < length (db_pages s2 (pr_fd p g))"
    then show "db_pages s2 (pr_fd p g) ! n = db_pages s g ! n"
      using stop(4) g reopened_disk(1) [OF assms(7)] len
      by (simp add: start(8) presented_def buf_view_def) (simp add: buf_init_def)
  qed
  with stop(1,2) start show ?thesis unfolding same_data_def by metis
qed

text \<open>
  A record is inserted into the first page of the table's file through a frame of the buffer manager; then the server
  stops. In the next process the files have numbers that are two higher, and page 0 of file 5 is the page of the record.
\<close>

definition demo_process :: os_process where
  "demo_process = \<lparr>pr_fd = (\<lambda>f. f + 2), pr_file = (\<lambda>f. f - 2), pr_next = 9, pr_fault = (\<lambda>n. False)\<rparr>"

lemma demo_written:
  "\<exists>b q. with_frame 3 0 (\<lambda>p. try_insert_record p [VInt 7, VInt 9] 1 None) demo_buf = Some (Inr (Some (RID 0 0)), b) \<and>
     page_rep demo_schema q [Some (new_header 1 (RID 0 0) None, [VInt 7, VInt 9])] 4036 \<and>
     backed (demo_db\<lparr>db_pages := (\<lambda>f. [])(3 := [pg_bytes q])\<rparr>) b"
proof -
  let ?op = "\<lambda>p. try_insert_record p [VInt 7, VInt 9] 1 None"
  have live: "buf_live demo_buf 3" by (simp add: buf_live_def demo_buf_def buf_init_def demo_fs_def UNASSIGNED_def)
  obtain q0 where q0: "heap_page_init demo_page = Inr q0" "page_rep demo_schema q0 [] 4088" "get_page_number q0 = 0"
    using demo_page_rep by blast
  then obtain q where q: "?op q0 = Inr (Some (RID 0 0), q)"
    "page_rep demo_schema q [Some (new_header 1 (RID 0 0) None, [VInt 7, VInt 9])] 4036"
    using try_insert_accepted [OF q0(2) demo_row [of 7], where tx = 1 and first = None]
    by (auto simp: insert_space_def tuple_len_def set_slot_def int32_def)
  then have "open_then ?op (page_image 3 0 zero_page) = Inr (Some (RID 0 0), q)"
    using q0(1) by (simp add: open_then_def demo_page_def)
  then have "with_page 3 0 ?op (\<lambda>f. []) = Some (Inr (Some (RID 0 0)), (\<lambda>f. [])(3 := [pg_bytes q]))"
    by (simp add: with_page_def page_in_range_def grow_def Let_def)
  from with_frame_pins [OF demo_represents live _ this] page_op_intros(11) [of "[VInt 7, VInt 9]" 1 None] obtain b where
    b: "with_frame 3 0 ?op demo_buf = Some (Inr (Some (RID 0 0)), b)" "represents b ((\<lambda>f. [])(3 := [pg_bytes q]))"
    "buf_pins b = buf_pins demo_buf" by blast
  have "\<forall>p \<in> set (b_frames demo_buf). pg_pins p = 0"
    by (simp add: demo_buf_def buf_init_def new_page_def set_bytes_def)
  then have "\<forall>p \<in> set (b_frames b). pg_pins p = 0" unfolding pins_zero b(3) .
  moreover have "fs_names (b_fs b) = [(''0_t.tbl'', 3)] \<and> fs_dir (b_fs b) = [''0_t.tbl'' \<mapsto> 3]"
    using keeps_namesD [OF names_with_frame b(1)] by (simp add: demo_buf_def buf_init_def demo_fs_def)
  ultimately show ?thesis
    using b(1,2) q(2) by (intro exI [of _ b] exI [of _ q]) (simp add: backed_def once_def demo_db_def UNASSIGNED_def)
qed

theorem restart_keeps_tables_witness:
  "\<exists>b q f s1 b1 s2 b2. with_frame 3 0 (\<lambda>p. try_insert_record p [VInt 7, VInt 9] 1 None) demo_buf = Some (Inr (Some (RID 0 0)), b) \<and>
     page_rep demo_schema q [Some (new_header 1 (RID 0 0) None, [VInt 7, VInt 9])] 4036 \<and>
     system_stop [1, 2] (demo_db\<lparr>db_pages := (\<lambda>f. [])(3 := [pg_bytes q])\<rparr>, b) = Some (Inr f, (s1, b1)) \<and>
     system_start demo_process 8192 (b_fs b1) f = Some (Inr (), (s2, b2)) \<and>
     db_tables s2 = [(0, moved_table (\<lambda>f. f + 2) demo_table)] \<and> db_pages s2 5 = [pg_bytes q] \<and> db_active s2 = []"
proof -
  obtain b q where b: "with_frame 3 0 (\<lambda>p. try_insert_record p [VInt 7, VInt 9] 1 None) demo_buf = Some (Inr (Some (RID 0 0)), b)"
    "page_rep demo_schema q [Some (new_header 1 (RID 0 0) None, [VInt 7, VInt 9])] 4036"
    "backed (demo_db\<lparr>db_pages := (\<lambda>f. [])(3 := [pg_bytes q])\<rparr>) b" using demo_written by blast
  let ?s = "demo_db\<lparr>db_pages := (\<lambda>f. [])(3 := [pg_bytes q])\<rparr>"
  have "tables_ok ?s"
    by (auto simp: tables_ok_def entry_ok_def short_def demo_defs normalize_def tolower_def name_char_def Let_def)
  moreover have "table_file ''t'' 0 = ''0_t.tbl''"
    by (simp add: table_file_def nat_to_string.simps char_of_def bit_simps)
  then have "files_ok ?s" by (simp add: files_ok_def names_ok_def table_fds_def demo_defs)
  moreover have "\<forall>(t, ti) \<in> set (db_tables ?s). stored_table ti" by (simp add: stored_table_def new_heap_file_def demo_defs)
  moreover have "undoable (db_active ?s) ?s" by (simp add: undoable_def records_there_def demo_defs new_transaction_def)
  moreover have "process_ok ?s" by (simp add: process_ok_def demo_defs)
  moreover have "\<forall>f. pr_file demo_process (pr_fd demo_process f) = f" "\<forall>n. \<not> pr_fault demo_process n" "PAGE_SIZE \<le> 8192"
    by (simp_all add: demo_process_def)
  ultimately have "\<exists>f s1 b1 s2 b2. system_stop [1, 2] (?s, b) = Some (Inr f, (s1, b1)) \<and>
    system_start demo_process 8192 (b_fs b1) f = Some (Inr (), (s2, b2)) \<and>
    db_tables s2 = moved_tables (pr_fd demo_process) (db_tables ?s) \<and>
    (\<forall>g \<in> table_fds ?s. db_pages s2 (pr_fd demo_process g) = db_pages ?s g) \<and> represents b2 (db_pages s2) \<and>
    db_tx_counter s2 = db_tx_counter ?s \<and> db_table_counter s2 = db_table_counter ?s \<and>
    db_active s2 = [] \<and> db_in_process s2 = [] \<and> db_locks s2 = (\<lambda>k. None)"
    using b(3) by (intro restart_keeps_tables)
  moreover have "table_fds ?s = {3}" by (simp add: table_fds_def demo_defs)
  ultimately show ?thesis using b(1,2) by (fastforce simp: demo_process_def moved_tables_def demo_db_def)
qed

end
