(* ===== verification/Spec2Isabelle.thy ===== *)
theory Spec2Isabelle
  imports Component_Properties Session_Properties Update_Properties Create_Properties Plan_Printing Start_Stop
begin

text \<open>
  IIC3413-DB is a small relational database server in C++ with multi-version concurrency control
  (\<^verbatim>\<open>src/src\<close>). A client sends the text of a query; the session parses and preprocesses it, the
  rewriters and the optimizer make operators of it, and these read and change heap files through
  the buffer manager. This library follows the program bottom up, one theory per component, and
  proves what the parts promise, separately and together.

  \<^bold>\<open>Conventions.\<close> An operation that can throw returns \<open>'a res\<close>, which is \<open>Inl\<close> of an exception or
  \<open>Inr\<close> of a result (\<^verbatim>\<open>exceptions/exceptions.h\<close>; \<open>Stuck\<close> stands for undefined behaviour, such as a null
  dereference, an out-of-range access or a failed assertion). An operation on the state is an \<open>act\<close>: it maps the
  state to \<open>None\<close> when it does not return, or to its outcome and the new state, which it keeps
  also when it throws (\<open>Prelude\<close>, \<open>Actions\<close>). Loops that may run for ever are \<open>partial_function\<close>s,
  so a theorem that one returns is a theorem about the program. There is no fuel; only \<open>make_groups\<close> (\<^verbatim>\<open>build_joins.h\<close>)
  carries a bound on its rounds, the number of children, one of which every round takes out, so that the bound is never
  reached. Machine integers are words; file offsets and page numbers are
  integers with the range written out where the code overflows.

  \<^bold>\<open>Data.\<close> \<open>Values\<close>: \<^verbatim>\<open>relational_model/{value,record,schema}\<close> and the identifiers of
  \<^verbatim>\<open>storage/{rid,page_id,file_id,tuple_key}.h\<close>, with their orders.

  \<^bold>\<open>Storage.\<close> \<open>Pages\<close> is \<^verbatim>\<open>storage/page\<close>; \<open>Heap_Page\<close> is the slotted page of
  \<^verbatim>\<open>storage/heap_file/heap_file_page\<close>, with its representation (\<open>Heap_Page_Rep\<close>), its operations against
  it (\<open>Heap_Page_Ops\<close>) and vacuum (\<open>Heap_Page_Vacuum\<close>). \<open>Files\<close> is \<^verbatim>\<open>system/file_manager\<close> over a file system whose
  calls may fail; \<open>Buffer\<close> is \<^verbatim>\<open>system/buffer_manager\<close>. \<open>Store\<close> shows that one page step on frames
  and evictions does what the same step does on plain pages, which is the state the layers above
  are modelled on. Bytes of a frame that were never written are the arbitrary function \<open>garbage\<close>.

  \<^bold>\<open>Engine.\<close> \<open>Database\<close> holds the state behind the global objects of \<^verbatim>\<open>system/system.cc\<close>; \<open>Transactions\<close> is
  \<^verbatim>\<open>system/{transaction_manager,lock_manager}\<close> and \<^verbatim>\<open>relational_model/transaction\<close>; \<open>Heap_File\<close> is
  \<^verbatim>\<open>storage/heap_file/heap_file\<close> and its iterator; \<open>Catalog\<close> and \<open>Catalog_File\<close> are \<^verbatim>\<open>system/catalog\<close> in
  memory and on disk; \<open>Start_Stop\<close> is \<^verbatim>\<open>system/system.cc\<close>, over the database and the buffer manager under it, and what a
  restart in a new process keeps, with the flush of the frames in \<open>Buffer_Stop\<close>. What other sessions do while one waits for
  a lock, and what its clock reads, is the parameter \<open>wait\<close>: the deadline ends the wait (\<open>Lock_Waits\<close>), not a number of
  rounds. \<open>Aborts\<close> shows what an abort does, with \<^verbatim>\<open>undo\<close> the stub it is in the source: versions of aborted transactions stay
  and are read as if committed.
  \<open>Heap_File_Rep\<close>, \<open>Heap_File_Ops\<close>, \<open>Visibility\<close> and \<open>Heap_Scan\<close> relate a heap file to the list of its slots and
  version chains, and show what insertion, update, vacuum, reading and scanning do to it.

  \<^bold>\<open>Queries.\<close> \<open>Exprs\<close>: expressions as plans (\<^verbatim>\<open>query/parser/logical_plan/expr\<close>) and compiled
  (\<^verbatim>\<open>query/executor/expr\<close>). \<open>Executor\<close>: the read-only operators of \<^verbatim>\<open>query/executor\<close>, and in \<open>Executor_Rows\<close>,
  \<open>Executor_Correct\<close> the rows they return. \<open>Query_Actions\<close>: insertion, creation, update and deletion.
  \<open>Logical_Plans\<close>, \<open>Preprocessor\<close>, \<open>Query_Rewriter\<close>, \<open>Optimizer\<close>: \<^verbatim>\<open>query/parser\<close> and \<^verbatim>\<open>query/optimizer\<close>, with
  their lemmas in \<open>Preprocessor_Correct\<close>, \<open>Rewriter_Correct\<close>, \<open>Optimizer_Correct\<close>. \<open>Session\<close> is
  \<^verbatim>\<open>server/session.cc\<close>, \<open>Client\<close> the client program \<^verbatim>\<open>bin/client.cc\<close> at the other end of the bytes. The ANTLR parser is the parameter \<open>parse\<close>, a function from query texts to
  parse trees or errors; the trees are datatypes with one constructor per alternative of
  \<^verbatim>\<open>IIC3413DBParser.g4\<close>. \<open>Query_Correct\<close> composes the stages for a SELECT over one table and for INSERT.
  \<open>Record_Updates\<close>, \<open>Update_Run\<close> and \<open>Update_Correct\<close> do the same for UPDATE, whose scan goes on over a heap that changes under it:
  what an update does to the rows a transaction sees, one row of the loop, the loop, and the statement.
  \<open>Plan_Printing\<close> is \<^verbatim>\<open>print_to_ostream\<close> of all expressions, plans and operators, and \<^verbatim>\<open>Parser::parse\<close> when it is
  asked to explain. Where every class overrides a method, the theories have one definition per class, which the
  recursive function over the classes calls.

  \<^bold>\<open>Locks and sessions.\<close> \<open>Quiet\<close> shows which operations touch neither locks nor transactions; \<open>Lock_Safety\<close> and
  \<open>Session_Safety\<close> carry the promise that every lock belongs to an active transaction, and that a session ends
  only its own, from lock acquisition through the operators up to whole requests, assuming of the other
  sessions during a wait what is shown of each of them (rely and guarantee). \<open>Lock_Waits\<close> shows that waiting ends
  and how.

  \<^bold>\<open>Properties.\<close> \<open>Storage_Properties\<close> states what the storage engine guarantees, \<open>Component_Properties\<close> the same for
  the buffer manager and expressions, \<open>Query_Properties\<close>, \<open>Update_Properties\<close> and \<open>Create_Properties\<close> what the query pipeline guarantees and where it
  departs from SQL, \<open>Session_Properties\<close> what sessions guarantee each other; all apply their properties to the database of
  \<open>Examples\<close>.

  \<^bold>\<open>Not modelled.\<close> The generated parser and the calls into the ANTLR runtime, the vendored linenoise and murmur3,
  sockets and the terminal (\<^verbatim>\<open>server/listener\<close>, \<^verbatim>\<open>bin/server.cc\<close>; a session is a function of the requests it receives, the
  client of the lines typed and the bytes it receives),
  mutexes (each operation of a manager is one atomic step), the floating-point cost
  estimates of \<^verbatim>\<open>join_order.cc\<close> (the search they serve is a stub in the source), and the wrappers of
  \<^verbatim>\<open>std::filesystem\<close> in \<^verbatim>\<open>storage/filesystem.h\<close>.
\<close>

end
